(* ===== verification/Prelude.thy ===== *)
theory Prelude
  imports Main "HOL-Library.Word"
begin

text \<open>
  Shared vocabulary of the development: bytes and byte strings, the result type of code that
  throws, the Uint8Array slice, positional (big- and little-endian) values, and the generic
  lemmas the component theories use. Nothing here models a source file by itself.
\<close>

unbundle bit_operations_syntax

type_synonym byte = "8 word"
type_synonym bytes = "byte list"

named_theorems result_simps \<open>case rules for code that throws\<close>
named_theorems slice_simps \<open>lengths and splits of slices\<close>

subsection \<open>Results of code that throws\<close>

text \<open>
  A throwing function returns \<open>Inl code\<close> where the source throws and \<open>Inr value\<close> where it
  returns. \<open>bindE\<close> is sequencing, \<open>failIf\<close> is \<open>if (c) fail(code)\<close>, \<open>mapE\<close> is
  \<open>Array.map\<close> with a callback that may throw.
\<close>

fun bindE :: "'e + 'a \<Rightarrow> ('a \<Rightarrow> 'e + 'b) \<Rightarrow> 'e + 'b" where
  "bindE (Inl e) f = Inl e"
| "bindE (Inr x) f = f x"

definition failIf :: "bool \<Rightarrow> 'e \<Rightarrow> 'e + unit" where
  "failIf c e = (if c then Inl e else Inr ())"

fun mapE :: "('a \<Rightarrow> 'e + 'b) \<Rightarrow> 'a list \<Rightarrow> 'e + 'b list" where
  "mapE f [] = Inr []"
| "mapE f (x # xs) = bindE (f x) (\<lambda>y. bindE (mapE f xs) (\<lambda>ys. Inr (y # ys)))"

lemma bindE_Inr [result_simps]: "bindE m f = Inr y \<longleftrightarrow> (\<exists>x. m = Inr x \<and> f x = Inr y)"
  by (cases m) auto

lemma bindE_Inl [result_simps]:
  "bindE m f = Inl e \<longleftrightarrow> m = Inl e \<or> (\<exists>x. m = Inr x \<and> f x = Inl e)"
  by (cases m) auto

lemma bindE_cong [fundef_cong]:
  "m = m' \<Longrightarrow> (\<And>x. m' = Inr x \<Longrightarrow> f x = g x) \<Longrightarrow> bindE m f = bindE m' g"
  by (cases m') auto

lemma failIf_simps [simp]:
  "failIf c e = Inr u \<longleftrightarrow> \<not> c" "failIf c e = Inl d \<longleftrightarrow> c \<and> d = e"
  by (auto simp: failIf_def)

lemma bindE_failIf: "bindE (failIf c e) f = (if c then Inl e else f ())"
  by (simp add: failIf_def)

lemma bindE_assoc: "bindE (bindE m f) g = bindE m (\<lambda>x. bindE (f x) g)"
  by (cases m) auto

lemma mapE_Inr_length: "mapE f xs = Inr ys \<Longrightarrow> length ys = length xs"
  by (induction xs arbitrary: ys) (auto simp: result_simps)

lemma mapE_Inr_nth: "mapE f xs = Inr ys \<Longrightarrow> i < length xs \<Longrightarrow> f (xs ! i) = Inr (ys ! i)"
  by (induction xs arbitrary: ys i) (auto simp: result_simps nth_Cons split: nat.splits)

lemma mapE_Inr_iff: "mapE f xs = Inr ys \<longleftrightarrow> list_all2 (\<lambda>x y. f x = Inr y) xs ys"
  by (induction xs arbitrary: ys) (auto simp: result_simps list_all2_Cons1)

lemma mapE_cong [fundef_cong]:
  "xs = ys \<Longrightarrow> (\<And>x. x \<in> set ys \<Longrightarrow> f x = g x) \<Longrightarrow> mapE f xs = mapE g ys"
  by (induction ys arbitrary: xs) auto

subsection \<open>Slices\<close>

text \<open>\<open>startsWith\<close> of strings and arrays, the prefix first.\<close>

definition startsWith :: "'a list \<Rightarrow> 'a list \<Rightarrow> bool" where
  "startsWith p s \<longleftrightarrow> take (length p) s = p"

text \<open>\<open>Uint8Array.slice(a, b)\<close> and \<open>subarray(a, b)\<close> for \<open>0 \<le> a \<le> b\<close>; both clamp at the end.\<close>

definition slice :: "'a list \<Rightarrow> nat \<Rightarrow> nat \<Rightarrow> 'a list" where
  "slice xs a b = take (b - a) (drop a xs)"

lemma length_slice [simp, slice_simps]: "length (slice xs a b) = min (b - a) (length xs - a)"
  by (simp add: slice_def)

lemma slice_append_drop [slice_simps]: "a \<le> b \<Longrightarrow> slice xs a b @ drop b xs = drop a xs"
  by (metis append_take_drop_id drop_drop le_add_diff_inverse2 slice_def)

lemma take_slice_drop [slice_simps]: "a \<le> b \<Longrightarrow> take a xs @ slice xs a b @ drop b xs = xs"
  by (simp add: slice_append_drop)

lemma slice_take: "b \<le> n \<Longrightarrow> slice (take n xs) a b = slice xs a b"
  by (simp add: slice_def drop_take min_def)

lemma slice_0 [simp]: "slice xs 0 b = take b xs"
  by (simp add: slice_def)

lemma nth_slice: "a + i < b \<Longrightarrow> a + i < length xs \<Longrightarrow> slice xs a b ! i = xs ! (a + i)"
  by (simp add: slice_def)

lemma drop_eq_nth_drop: "i < length xs \<Longrightarrow> drop i xs = xs ! i # drop (Suc i) xs"
  by (rule Cons_nth_drop_Suc [symmetric])

subsection \<open>Positional values\<close>

text \<open>
  Big-endian: the loop \<open>value = value * 256 + byte\<close> (or \<open>(value << 8n) | BigInt(b)\<close>), from an
  accumulator. Little-endian: the same with the last byte most significant.
\<close>

fun beAcc :: "nat \<Rightarrow> bytes \<Rightarrow> nat" where
  "beAcc v [] = v"
| "beAcc v (b # bs) = beAcc (v * 256 + unat b) bs"

definition beNat :: "bytes \<Rightarrow> nat" where
  "beNat bs = beAcc 0 bs"

definition leNat :: "bytes \<Rightarrow> nat" where
  "leNat bs = beNat (rev bs)"

lemma unat_byte_less [simp]: "unat (b :: byte) < 256"
proof -
  have "unat b < 2 ^ LENGTH(8)" by (rule unsigned_less)
  then show ?thesis by simp
qed

lemma unat_byte_le [simp]: "unat (b :: byte) \<le> 255"
  using unat_byte_less [of b] by linarith

lemma beAcc_eq: "beAcc v bs = v * 256 ^ length bs + beNat bs"
proof (induction bs arbitrary: v)
  case Nil
  then show ?case by (simp add: beNat_def)
next
  case (Cons b bs)
  have "beNat (b # bs) = beAcc (unat b) bs" by (simp add: beNat_def)
  then show ?case
    using Cons.IH [of "v * 256 + unat b"] Cons.IH [of "unat b"]
    by (simp add: algebra_simps)
qed

lemma beNat_Nil [simp]: "beNat [] = 0"
  by (simp add: beNat_def)

lemma beNat_Cons: "beNat (b # bs) = unat b * 256 ^ length bs + beNat bs"
  using beAcc_eq [of "unat b" bs] by (simp add: beNat_def)

lemma beNat_append: "beNat (xs @ ys) = beNat xs * 256 ^ length ys + beNat ys"
  by (induction xs) (auto simp: beNat_Cons power_add algebra_simps)

lemma beNat_snoc: "beNat (xs @ [b]) = beNat xs * 256 + unat b"
  by (simp add: beNat_append beNat_Cons)

lemma beNat_less: "beNat bs < 256 ^ length bs"
proof (induction bs)
  case Nil
  then show ?case by simp
next
  case (Cons b bs)
  have "unat b \<le> 255" by simp
  then have "unat b * 256 ^ length bs \<le> 255 * 256 ^ length bs" by (rule mult_le_mono1)
  with Cons have "unat b * 256 ^ length bs + beNat bs < 256 * 256 ^ length bs" by linarith
  then show ?case by (simp add: beNat_Cons)
qed

lemma beNat_inject: "length xs = length ys \<Longrightarrow> beNat xs = beNat ys \<Longrightarrow> xs = ys"
proof (induction xs ys rule: rev_induct2)
  case 1
  then show ?case by simp
next
  case (2 x xs)
  then show ?case by simp
next
  case (3 y ys)
  then show ?case by simp
next
  case (4 x xs y ys)
  have e: "beNat xs * 256 + unat x = beNat ys * 256 + unat y"
    using 4 by (simp add: beNat_snoc)
  then have "(beNat xs * 256 + unat x) mod 256 = (beNat ys * 256 + unat y) mod 256" by simp
  then have "unat x = unat y" by simp
  with e 4 show ?case by (simp add: word_unat_eq_iff)
qed

lemma leNat_Nil [simp]: "leNat [] = 0"
  by (simp add: leNat_def)

lemma leNat_Cons [simp]: "leNat (b # bs) = unat b + 256 * leNat bs"
  by (simp add: leNat_def beNat_snoc)

lemma leNat_less: "leNat bs < 256 ^ length bs"
  using beNat_less [of "rev bs"] by (simp add: leNat_def)

subsection \<open>Bitwise assembly of words\<close>

text \<open>\<open>(b0 | (b1 << 8) | (b2 << 16) | (b3 << 24)) >>> 0\<close>: JavaScript's bitwise operators work on 32 bits.\<close>

definition u32or :: "byte \<Rightarrow> byte \<Rightarrow> byte \<Rightarrow> byte \<Rightarrow> 32 word" where
  "u32or b0 b1 b2 b3 =
    ucast b0 OR push_bit 8 (ucast b1) OR push_bit 16 (ucast b2) OR push_bit 24 (ucast b3)"

lemma nat_or_push_bit:
  assumes "a < 2 ^ n"
  shows "a OR push_bit n b = a + 2 ^ n * (b :: nat)"
proof -
  have "a AND push_bit n b = 0"
  proof (rule bit_eqI)
    fix m
    have "take_bit n a = a" using assms by (simp add: take_bit_nat_eq_self)
    then have "bit a m \<Longrightarrow> m < n" by (metis bit_take_bit_iff)
    then show "bit (a AND push_bit n b) m = bit 0 m"
      by (auto simp: bit_simps)
  qed
  then have "a + push_bit n b = a OR push_bit n b" by (rule disjunctive_add_eq_or)
  then show ?thesis by (simp add: push_bit_eq_mult mult.commute)
qed

lemma u32or_less:
  fixes a b c d :: nat
  assumes "a < 256" "b < 256" "c < 256" "d < 256"
  shows "a + 256 * b + 65536 * c + 16777216 * d < 4294967296"
  using assms by linarith

lemma unat_u32or: "unat (u32or b0 b1 b2 b3) = leNat [b0, b1, b2, b3]"
proof -
  define a b c d where "a = unat b0" and "b = unat b1" and "c = unat b2" and "d = unat b3"
  have l: "a < 256" "b < 256" "c < 256" "d < 256" by (simp_all add: a_def b_def c_def d_def)
  have t: "take_bit 32 (n * 2 ^ k) = n * 2 ^ k" if "n < 256" "k \<le> 24" for n k :: nat
  proof -
    have "(2 :: nat) ^ k \<le> 2 ^ 24" using that(2) by (rule power_increasing) simp
    then have "n * 2 ^ k \<le> n * 2 ^ 24" by (rule mult_le_mono2)
    also have "\<dots> < 2 ^ 32" using that by simp
    finally show ?thesis by (simp add: take_bit_nat_eq_self)
  qed
  have u: "unat (push_bit k (ucast x :: 32 word)) = push_bit k (unat x)" if "k \<le> 24" for k and x :: byte
    using t [of "unat x" k] t [of "unat x" 0] that
    by (simp add: unsigned_push_bit_eq unsigned_ucast_eq push_bit_eq_mult [where 'a = nat])
  have "unat (u32or b0 b1 b2 b3) = a OR push_bit 8 b OR push_bit 16 c OR push_bit 24 d"
    using u [of 0 b0] u [of 8 b1] u [of 16 b2] u [of 24 b3]
    by (simp add: u32or_def unsigned_or_eq a_def b_def c_def d_def)
  also have "push_bit 16 c OR push_bit 24 d = push_bit 16 (c OR push_bit 8 d)" by simp
  also have "push_bit 8 b OR push_bit 16 (c OR push_bit 8 d) = push_bit 8 (b OR push_bit 8 (c OR push_bit 8 d))"
    by simp
  also have "a OR push_bit 8 (b OR push_bit 8 (c OR push_bit 8 d)) = a + 256 * (b + 256 * (c + 256 * d))"
    using l by (simp add: nat_or_push_bit [where n = 8, simplified])
  finally show ?thesis by (simp add: a_def b_def c_def d_def)
qed

lemma unat_and_low: "unat ((b :: byte) AND mask k) = unat b mod 2 ^ k"
proof -
  have "unat (take_bit k b) = take_bit k (unat b)" by (rule unsigned_take_bit_eq)
  then show ?thesis unfolding take_bit_eq_mask [symmetric] by (simp only: take_bit_eq_mod)
qed

lemma and_high_nat: "(n :: nat) AND push_bit k (mask j) = push_bit k (take_bit j (drop_bit k n))"
  by (rule bit_eqI) (auto simp: bit_simps)

end
