(* ===== verification/JsText.thy ===== *)
theory JsText
  imports Prelude
begin

text \<open>
  Strings of the language: a JavaScript string is its list of UTF-16 code units (\<open>16 word\<close>).
  \<open>textDecodeFatal\<close> is \<open>new TextDecoder('utf-8', {fatal: true}).decode\<close>, which
  refuses every ill-formed sequence and drops one leading byte order mark; \<open>textEncode\<close> is
  \<open>new TextEncoder().encode\<close>, which writes U+FFFD for a lone surrogate. The hexadecimal helpers
  are those of packages/attest-core/src/events.ts. The lemmas show that decoding loses nothing but
  that mark, and that hexadecimal text and bytes round-trip.
\<close>

type_synonym cu = "16 word"
type_synonym jsstr = "cu list"

definition js :: "string \<Rightarrow> jsstr" where
  "js s = map of_char s"

subsection \<open>UTF-8\<close>

definition surrogate :: "nat \<Rightarrow> bool" where
  "surrogate c \<longleftrightarrow> 0xD800 \<le> c \<and> c \<le> 0xDFFF"

definition scalar :: "nat \<Rightarrow> bool" where
  "scalar c \<longleftrightarrow> c \<le> 0x10FFFF \<and> \<not> surrogate c"

definition cont :: "byte \<Rightarrow> bool" where
  "cont b \<longleftrightarrow> 0x80 \<le> unat b \<and> unat b \<le> 0xBF"

abbreviation low6 :: "byte \<Rightarrow> nat" where
  "low6 b \<equiv> unat b - 0x80"

fun utf8_decode :: "bytes \<Rightarrow> nat list option" where
  "utf8_decode [] = Some []"
| "utf8_decode (b # rest) =
    (let n = unat b in
     if n < 0x80 then map_option ((#) n) (utf8_decode rest)
     else if 0xC2 \<le> n \<and> n \<le> 0xDF then
       (case rest of
          c1 # r \<Rightarrow>
            if cont c1 then map_option ((#) ((n - 0xC0) * 64 + low6 c1)) (utf8_decode r)
            else None
        | _ \<Rightarrow> None)
     else if 0xE0 \<le> n \<and> n \<le> 0xEF then
       (case rest of
          c1 # c2 # r \<Rightarrow>
            (let cp = (n - 0xE0) * 4096 + low6 c1 * 64 + low6 c2 in
             if cont c1 \<and> cont c2 \<and> 0x800 \<le> cp \<and> \<not> surrogate cp
             then map_option ((#) cp) (utf8_decode r) else None)
        | _ \<Rightarrow> None)
     else if 0xF0 \<le> n \<and> n \<le> 0xF4 then
       (case rest of
          c1 # c2 # c3 # r \<Rightarrow>
            (let cp = (n - 0xF0) * 262144 + low6 c1 * 4096 + low6 c2 * 64 + low6 c3 in
             if cont c1 \<and> cont c2 \<and> cont c3 \<and> 0x10000 \<le> cp \<and> cp \<le> 0x10FFFF
             then map_option ((#) cp) (utf8_decode r) else None)
        | _ \<Rightarrow> None)
     else None)"

definition byteOf :: "nat \<Rightarrow> byte" where
  "byteOf n = of_nat n"

definition utf8_enc1 :: "nat \<Rightarrow> bytes" where
  "utf8_enc1 c =
    (if c < 0x80 then [byteOf c]
     else if c < 0x800 then [byteOf (0xC0 + c div 64), byteOf (0x80 + c mod 64)]
     else if c < 0x10000 then
       [byteOf (0xE0 + c div 4096), byteOf (0x80 + c div 64 mod 64), byteOf (0x80 + c mod 64)]
     else
       [byteOf (0xF0 + c div 262144), byteOf (0x80 + c div 4096 mod 64),
        byteOf (0x80 + c div 64 mod 64), byteOf (0x80 + c mod 64)])"

definition utf8_encode :: "nat list \<Rightarrow> bytes" where
  "utf8_encode cps = concat (map utf8_enc1 cps)"

lemma utf8_encode_simps [simp]:
  "utf8_encode [] = []" "utf8_encode (c # cs) = utf8_enc1 c @ utf8_encode cs"
  by (simp_all add: utf8_encode_def)

lemma unat_byteOf [simp]: "n < 256 \<Longrightarrow> unat (byteOf n) = n"
  by (simp add: byteOf_def unsigned_of_nat take_bit_eq_mod)

lemma byteOf_unat [simp]: "byteOf (unat b) = b"
  by (simp add: byteOf_def)

lemma byteOf_eqI: "unat b = n \<Longrightarrow> byteOf n = b"
  by auto

lemma sextets2: "(m :: nat) < 64 \<Longrightarrow> (x * 64 + m) div 64 = x \<and> (x * 64 + m) mod 64 = m"
  by simp

lemma sextets3:
  assumes "(m :: nat) < 64" "l < 64"
  shows "((x * 64 + l) * 64 + m) div 4096 = x"
proof -
  have "((x * 64 + l) * 64 + m) div 4096 = ((x * 64 + l) * 64 + m) div 64 div 64"
    by (simp add: div_mult2_eq [symmetric])
  then show ?thesis using assms by simp
qed

lemma sextets4:
  assumes "(k :: nat) < 64" "m < 64" "l < 64"
  shows "(((x * 64 + l) * 64 + m) * 64 + k) div 262144 = x"
proof -
  have "(((x * 64 + l) * 64 + m) * 64 + k) div 262144 =
      (((x * 64 + l) * 64 + m) * 64 + k) div 64 div 4096"
    by (simp add: div_mult2_eq [symmetric])
  then show ?thesis using assms by (simp add: sextets3)
qed

lemma contE:
  assumes "cont c"
  obtains m where "unat c = 0x80 + m" "m < 64" "low6 c = m"
  using assms by (auto simp: cont_def intro!: that [of "unat c - 0x80"])

lemma enc1_two:
  assumes "cont c1" and "0xC2 \<le> unat b" and "unat b \<le> 0xDF"
  shows "utf8_enc1 ((unat b - 0xC0) * 64 + low6 c1) = [b, c1]"
proof -
  obtain l where l: "unat c1 = 0x80 + l" "l < 64" "low6 c1 = l" using assms(1) by (rule contE)
  define h where "h = unat b - 0xC0"
  have h: "2 \<le> h" "h < 32" "unat b = 0xC0 + h" using assms by (auto simp: h_def)
  have "\<not> h * 64 + l < 128" "h * 64 + l < 2048" using l h by auto
  then show ?thesis
    unfolding h_def [symmetric] l(3) utf8_enc1_def using l h by (simp add: byteOf_eqI)
qed

lemma enc1_three:
  assumes "cont c1" "cont c2" "0xE0 \<le> unat b" "unat b \<le> 0xEF"
    and "0x800 \<le> (unat b - 0xE0) * 4096 + low6 c1 * 64 + low6 c2"
  shows "utf8_enc1 ((unat b - 0xE0) * 4096 + low6 c1 * 64 + low6 c2) = [b, c1, c2]"
proof -
  obtain l where l: "unat c1 = 0x80 + l" "l < 64" "low6 c1 = l" using assms(1) by (rule contE)
  obtain m where m: "unat c2 = 0x80 + m" "m < 64" "low6 c2 = m" using assms(2) by (rule contE)
  define h where "h = unat b - 0xE0"
  have h: "h < 16" "unat b = 0xE0 + h" using assms by (auto simp: h_def)
  define c where "c = (h * 64 + l) * 64 + m"
  have c: "h * 4096 + l * 64 + m = c" by (simp add: c_def)
  have b: "\<not> c < 128" "\<not> c < 2048" "c < 65536"
    using assms(5) l m h unfolding c_def h_def [symmetric] l(3) m(3) by auto
  have e: "c div 64 = h * 64 + l" "c mod 64 = m" "c div 4096 = h"
    using sextets2 [of m "h * 64 + l"] sextets3 [of m l h] l m unfolding c_def by blast+
  have d: "c div 4096 = h" "c div 64 mod 64 = l" "c mod 64 = m"
    using l e by simp_all
  show ?thesis
    unfolding h_def [symmetric] l(3) m(3) c utf8_enc1_def
    using l m h b d by (simp add: byteOf_eqI)
qed

lemma enc1_four:
  assumes "cont c1" "cont c2" "cont c3" "0xF0 \<le> unat b" "unat b \<le> 0xF4"
    and "0x10000 \<le> (unat b - 0xF0) * 262144 + low6 c1 * 4096 + low6 c2 * 64 + low6 c3"
  shows "utf8_enc1 ((unat b - 0xF0) * 262144 + low6 c1 * 4096 + low6 c2 * 64 + low6 c3) = [b, c1, c2, c3]"
proof -
  obtain l where l: "unat c1 = 0x80 + l" "l < 64" "low6 c1 = l" using assms(1) by (rule contE)
  obtain m where m: "unat c2 = 0x80 + m" "m < 64" "low6 c2 = m" using assms(2) by (rule contE)
  obtain k where k: "unat c3 = 0x80 + k" "k < 64" "low6 c3 = k" using assms(3) by (rule contE)
  define h where "h = unat b - 0xF0"
  have h: "unat b = 0xF0 + h" using assms by (auto simp: h_def)
  define c where "c = ((h * 64 + l) * 64 + m) * 64 + k"
  have c: "h * 262144 + l * 4096 + m * 64 + k = c" by (simp add: c_def)
  have b: "\<not> c < 128" "\<not> c < 2048" "\<not> c < 65536"
    using assms(6) unfolding h_def [symmetric] l(3) m(3) k(3) c by auto
  have e: "c div 64 = (h * 64 + l) * 64 + m" "c mod 64 = k" "c div 4096 = h * 64 + l"
    "c div 262144 = h"
    using sextets2 [of k "(h * 64 + l) * 64 + m"] sextets3 [of k m "h * 64 + l"]
      sextets4 [of k m l h] l m k unfolding c_def by blast+
  have d: "c div 262144 = h" "c div 4096 mod 64 = l" "c div 64 mod 64 = m" "c mod 64 = k"
    using l e sextets2 [of m "h * 64 + l"] m by simp_all
  show ?thesis
    unfolding h_def [symmetric] l(3) m(3) k(3) c utf8_enc1_def
    using l m k h b d by (simp add: byteOf_eqI)
qed

lemma enc1_one: "unat b < 0x80 \<Longrightarrow> utf8_enc1 (unat b) = [b]"
  by (simp add: utf8_enc1_def)

text \<open>A well-formed byte string is the encoding of what it decodes to: there is one spelling.\<close>

lemma utf8_encode_decode: "utf8_decode bs = Some cps \<Longrightarrow> utf8_encode cps = bs"
proof (induction bs arbitrary: cps rule: utf8_decode.induct)
  case 1
  then show ?case by simp
next
  case (2 b rest)
  note IH = "2.IH" [OF refl]
  consider (one) "unat b < 0x80" | (two) "0xC2 \<le> unat b" "unat b \<le> 0xDF"
    | (three) "0xE0 \<le> unat b" "unat b \<le> 0xEF" | (four) "0xF0 \<le> unat b" "unat b \<le> 0xF4"
    using "2.prems" by (fastforce simp: Let_def split: if_splits)
  then show ?case
  proof cases
    case one
    then show ?thesis using "2.prems" IH(1) by (auto simp: Let_def enc1_one)
  next
    case two
    then show ?thesis using "2.prems" IH(2)
      by (auto simp: Let_def enc1_two split: list.splits if_splits)
  next
    case three
    then show ?thesis using "2.prems" IH(3)
      by (auto simp: Let_def enc1_three split: list.splits if_splits)
  next
    case four
    then show ?thesis using "2.prems" IH(4)
      by (auto simp: Let_def enc1_four split: list.splits if_splits)
  qed
qed

subsection \<open>UTF-16, TextEncoder and TextDecoder\<close>

definition cuOf :: "nat \<Rightarrow> cu" where
  "cuOf n = of_nat n"

lemma unat_cuOf [simp]: "n < 65536 \<Longrightarrow> unat (cuOf n) = n"
  by (simp add: cuOf_def unsigned_of_nat take_bit_eq_mod)

lemma cuOf_unat [simp]: "cuOf (unat c) = c"
  by (simp add: cuOf_def)

lemma unat_cu_less [simp]: "unat (c :: cu) < 65536"
proof -
  have "unat c < 2 ^ LENGTH(16)" by (rule unsigned_less)
  then show ?thesis by simp
qed

definition highSur :: "cu \<Rightarrow> bool" where
  "highSur c \<longleftrightarrow> 0xD800 \<le> unat c \<and> unat c \<le> 0xDBFF"

definition lowSur :: "cu \<Rightarrow> bool" where
  "lowSur c \<longleftrightarrow> 0xDC00 \<le> unat c \<and> unat c \<le> 0xDFFF"

text \<open>The code points of a string as \<open>codePointAt\<close> steps through it; a lone surrogate stands for itself.\<close>

fun utf16_points :: "jsstr \<Rightarrow> nat list" where
  "utf16_points [] = []"
| "utf16_points [c] = [unat c]"
| "utf16_points (c # d # rest) =
    (if highSur c \<and> lowSur d
     then (0x10000 + (unat c - 0xD800) * 1024 + (unat d - 0xDC00)) # utf16_points rest
     else unat c # utf16_points (d # rest))"

definition utf16_enc1 :: "nat \<Rightarrow> jsstr" where
  "utf16_enc1 c =
    (if c < 0x10000 then [cuOf c]
     else [cuOf (0xD800 + (c - 0x10000) div 1024), cuOf (0xDC00 + (c - 0x10000) mod 1024)])"

definition utf16_encode :: "nat list \<Rightarrow> jsstr" where
  "utf16_encode cps = concat (map utf16_enc1 cps)"

definition textEncode :: "jsstr \<Rightarrow> bytes" where
  "textEncode s = utf8_encode (map (\<lambda>c. if surrogate c then 0xFFFD else c) (utf16_points s))"

definition stripBom :: "bytes \<Rightarrow> bytes" where
  "stripBom bs = (if take 3 bs = [0xEF, 0xBB, 0xBF] then drop 3 bs else bs)"

definition textDecodeFatal :: "bytes \<Rightarrow> jsstr option" where
  "textDecodeFatal bs = map_option utf16_encode (utf8_decode (stripBom bs))"

lemma utf8_decode_scalar: "utf8_decode bs = Some cps \<Longrightarrow> list_all scalar cps"
proof (induction bs arbitrary: cps rule: utf8_decode.induct)
  case 1
  then show ?case by simp
next
  case (2 b rest)
  note IH = "2.IH" [OF refl]
  consider (one) "unat b < 0x80" | (two) "0xC2 \<le> unat b" "unat b \<le> 0xDF"
    | (three) "0xE0 \<le> unat b" "unat b \<le> 0xEF" | (four) "0xF0 \<le> unat b" "unat b \<le> 0xF4"
    using "2.prems" by (fastforce simp: Let_def split: if_splits)
  then show ?case
  proof cases
    case one
    then show ?thesis using "2.prems" IH(1) by (auto simp: Let_def scalar_def surrogate_def)
  next
    case two
    then show ?thesis using "2.prems" IH(2)
      by (auto simp: Let_def scalar_def surrogate_def cont_def split: list.splits if_splits)
  next
    case three
    then show ?thesis using "2.prems" IH(3)
      by (auto simp: Let_def scalar_def cont_def split: list.splits if_splits)
  next
    case four
    then show ?thesis using "2.prems" IH(4)
      by (auto simp: Let_def scalar_def surrogate_def split: list.splits if_splits)
  qed
qed

lemma utf16_points_bmp:
  "\<not> surrogate (unat c) \<Longrightarrow> utf16_points (c # rest) = unat c # utf16_points rest"
  by (cases rest) (auto simp: highSur_def surrogate_def)

lemma utf16_points_encode: "list_all scalar cps \<Longrightarrow> utf16_points (utf16_encode cps) = cps"
proof (induction cps)
  case Nil
  then show ?case by (simp add: utf16_encode_def)
next
  case (Cons c cs)
  have IH: "utf16_points (utf16_encode cs) = cs" and c: "scalar c" using Cons by auto
  show ?case
  proof (cases "c < 0x10000")
    case True
    then have "utf16_encode (c # cs) = cuOf c # utf16_encode cs"
      by (simp add: utf16_encode_def utf16_enc1_def)
    moreover have "\<not> surrogate (unat (cuOf c))" using True c by (simp add: scalar_def)
    ultimately show ?thesis using IH True by (simp add: utf16_points_bmp)
  next
    case False
    define h l where "h = (c - 0x10000) div 1024" and "l = (c - 0x10000) mod 1024"
    have hl: "h < 1024" "l < 1024" "0x10000 + h * 1024 + l = c"
      using False c by (auto simp: h_def l_def scalar_def)
    have "utf16_encode (c # cs) = cuOf (0xD800 + h) # cuOf (0xDC00 + l) # utf16_encode cs"
      using False by (simp add: utf16_encode_def utf16_enc1_def h_def l_def)
    moreover have "highSur (cuOf (0xD800 + h))" "lowSur (cuOf (0xDC00 + l))"
      using hl by (auto simp: highSur_def lowSur_def)
    ultimately show ?thesis using IH hl by simp
  qed
qed

text \<open>Decoding and encoding again gives the bytes back, but for one leading byte order mark.\<close>

lemma textEncode_decode:
  assumes "textDecodeFatal bs = Some s"
  shows "textEncode s = stripBom bs"
proof -
  obtain cps where d: "utf8_decode (stripBom bs) = Some cps" and s: "s = utf16_encode cps"
    using assms by (auto simp: textDecodeFatal_def)
  have sc: "list_all scalar cps" using d by (rule utf8_decode_scalar)
  then have "map (\<lambda>c. if surrogate c then 0xFFFD else c) cps = cps"
    by (induction cps) (auto simp: scalar_def)
  then show ?thesis using s sc d
    by (simp add: textEncode_def utf16_points_encode utf8_encode_decode)
qed

text \<open>Every sequence of scalar values is decoded back from its encoding.\<close>

lemma utf8_decode_enc1:
  assumes "scalar c"
  shows "utf8_decode (utf8_enc1 c @ bs) = map_option ((#) c) (utf8_decode bs)"
proof -
  consider (one) "c < 0x80" | (two) "0x80 \<le> c" "c < 0x800"
    | (three) "0x800 \<le> c" "c < 0x10000" | (four) "0x10000 \<le> c" "c \<le> 0x10FFFF"
    using assms by (fastforce simp: scalar_def)
  then show ?thesis
  proof cases
    case one
    then show ?thesis by (simp add: utf8_enc1_def Let_def)
  next
    case two
    define h l where "h = c div 64" and "l = c mod 64"
    have c: "c = h * 64 + l" "l < 64" by (simp_all add: h_def l_def)
    have h: "2 \<le> h" "h < 32" using two by (auto simp: h_def)
    have "utf8_enc1 c = [byteOf (0xC0 + h), byteOf (0x80 + l)]"
      using two by (simp add: utf8_enc1_def h_def l_def)
    then show ?thesis using c h by (simp add: Let_def cont_def)
  next
    case three
    define h l m where "h = c div 4096" and "l = c div 64 mod 64" and "m = c mod 64"
    have "c div 64 div 64 = h" by (simp add: h_def div_mult2_eq [symmetric])
    then have d: "c div 64 = h * 64 + l" by (metis div_mult_mod_eq l_def)
    have "c = c div 64 * 64 + m" unfolding m_def by (rule div_mult_mod_eq [symmetric])
    then have c1: "c = h * 4096 + l * 64 + m" unfolding d by simp
    have "l < 64" "m < 64" by (simp_all add: l_def m_def)
    note c = c1 this
    have h: "h < 16" using three by (auto simp: h_def)
    have e: "utf8_enc1 c = [byteOf (0xE0 + h), byteOf (0x80 + l), byteOf (0x80 + m)]"
      using three by (simp add: utf8_enc1_def h_def l_def m_def)
    have "\<not> surrogate (h * 4096 + l * 64 + m)" "2048 \<le> h * 4096 + l * 64 + m"
      using assms three c by (simp_all add: scalar_def)
    then have "utf8_decode ([byteOf (0xE0 + h), byteOf (0x80 + l), byteOf (0x80 + m)] @ bs) =
        map_option ((#) (h * 4096 + l * 64 + m)) (utf8_decode bs)"
      using c(2,3) h by (simp add: Let_def cont_def)
    then show ?thesis unfolding e c(1) [symmetric] .
  next
    case four
    define h l m k where "h = c div 262144" and "l = c div 4096 mod 64"
      and "m = c div 64 mod 64" and "k = c mod 64"
    have "c div 64 div 64 = c div 4096" "c div 4096 div 64 = h"
      by (simp_all add: h_def div_mult2_eq [symmetric])
    then have d: "c div 4096 = h * 64 + l" "c div 64 = c div 4096 * 64 + m"
      by (metis div_mult_mod_eq l_def, metis div_mult_mod_eq m_def)
    have "c = c div 64 * 64 + k" unfolding k_def by (rule div_mult_mod_eq [symmetric])
    then have c1: "c = h * 262144 + l * 4096 + m * 64 + k" unfolding d by simp
    have "l < 64" "m < 64" "k < 64" by (simp_all add: l_def m_def k_def)
    note c = c1 this
    have h: "h < 5" using four by (auto simp: h_def)
    have e: "utf8_enc1 c =
        [byteOf (0xF0 + h), byteOf (0x80 + l), byteOf (0x80 + m), byteOf (0x80 + k)]"
      using four by (simp add: utf8_enc1_def h_def l_def m_def k_def)
    have "65536 \<le> h * 262144 + l * 4096 + m * 64 + k" "h * 262144 + l * 4096 + m * 64 + k \<le> 1114111"
      using four c(1) by simp_all
    then have "utf8_decode ([byteOf (0xF0 + h), byteOf (0x80 + l), byteOf (0x80 + m), byteOf (0x80 + k)] @ bs) =
        map_option ((#) (h * 262144 + l * 4096 + m * 64 + k)) (utf8_decode bs)"
      using c(2-4) h by (simp add: Let_def cont_def)
    then show ?thesis unfolding e c(1) [symmetric] .
  qed
qed

lemma utf8_decode_encode: "list_all scalar cps \<Longrightarrow> utf8_decode (utf8_encode cps) = Some cps"
  by (induction cps) (simp_all add: utf8_decode_enc1)

lemma utf16_encode_simps:
  "utf16_encode [] = []" "utf16_encode (c # cs) = utf16_enc1 c @ utf16_encode cs"
  by (simp_all add: utf16_encode_def)

lemma utf16_encode_points: "utf16_encode (utf16_points s) = s"
proof (induction s rule: utf16_points.induct)
  case 1
  then show ?case by (simp add: utf16_encode_simps)
next
  case (2 c)
  then show ?case by (simp add: utf16_encode_simps utf16_enc1_def)
next
  case (3 c d rest)
  show ?case
  proof (cases "highSur c \<and> lowSur d")
    case True
    then obtain h l where h: "unat c = 0xD800 + h" "h < 1024" and l: "unat d = 0xDC00 + l" "l < 1024"
      by (auto simp: highSur_def lowSur_def intro!: that [of "unat c - 0xD800" "unat d - 0xDC00"])
    have "utf16_enc1 (0x10000 + h * 1024 + l) = [cuOf (0xD800 + h), cuOf (0xDC00 + l)]"
      using l by (simp add: utf16_enc1_def)
    also have "\<dots> = [c, d]" using h l by (metis cuOf_unat)
    finally show ?thesis using True 3 h l by (simp add: utf16_encode_simps add.assoc)
  next
    case False
    then show ?thesis using 3 by (auto simp: utf16_encode_simps utf16_enc1_def)
  qed
qed

text \<open>
  Text that survives: no lone surrogate, and no U+FEFF in front for the decoder to take as a mark.
\<close>

definition plainText :: "jsstr \<Rightarrow> bool" where
  "plainText s \<longleftrightarrow> list_all scalar (utf16_points s) \<and> take 1 s \<noteq> [0xFEFF]"

lemma stripBom_encode:
  assumes "list_all scalar cps" and "take 1 cps \<noteq> [0xFEFF]"
  shows "stripBom (utf8_encode cps) = utf8_encode cps"
proof (rule ccontr)
  assume "stripBom (utf8_encode cps) \<noteq> utf8_encode cps"
  then have t: "take 3 (utf8_encode cps) = [0xEF, 0xBB, 0xBF]"
    by (auto simp: stripBom_def split: if_splits)
  then obtain bs where "utf8_encode cps = [0xEF, 0xBB, 0xBF] @ bs"
    by (metis append_take_drop_id)
  then have "utf8_decode ([0xEF, 0xBB, 0xBF] @ bs) = Some cps"
    using utf8_decode_encode [OF assms(1)] by simp
  then show False using assms(2)
    by (auto simp: Let_def split: if_splits)
qed

lemma textDecode_encode:
  assumes "plainText s"
  shows "textDecodeFatal (textEncode s) = Some s"
proof -
  define cps where "cps = utf16_points s"
  have sc: "list_all scalar cps" using assms by (simp add: plainText_def cps_def)
  then have m: "map (\<lambda>c. if surrogate c then 0xFFFD else c) cps = cps"
    by (induction cps) (auto simp: scalar_def)
  have "take 1 cps \<noteq> [0xFEFF]"
  proof
    assume "take 1 cps = [0xFEFF]"
    then obtain cs where "cps = 0xFEFF # cs" by (cases cps) auto
    then have "s = utf16_enc1 0xFEFF @ utf16_encode cs"
      using utf16_encode_points [of s] by (simp add: cps_def utf16_encode_simps)
    then have "take 1 s = [0xFEFF]" by (simp add: utf16_enc1_def cuOf_def)
    then show False using assms by (simp add: plainText_def)
  qed
  then show ?thesis using sc m utf16_encode_points [of s]
    by (simp add: textDecodeFatal_def textEncode_def cps_def [symmetric] stripBom_encode
        utf8_decode_encode)
qed

text \<open>ASCII text is one byte per code unit.\<close>

definition ascii :: "jsstr \<Rightarrow> bool" where
  "ascii s \<longleftrightarrow> list_all (\<lambda>c. unat c < 0x80) s"

lemma utf16_points_ascii: "ascii s \<Longrightarrow> utf16_points s = map unat s"
  by (induction s) (auto simp: ascii_def utf16_points_bmp surrogate_def)

lemma textEncode_ascii: "ascii s \<Longrightarrow> textEncode s = map (\<lambda>c. byteOf (unat c)) s"
  unfolding textEncode_def
  by (subst utf16_points_ascii, assumption, induction s)
     (auto simp: ascii_def utf8_enc1_def surrogate_def)

lemma byteOf_inject: "m < 256 \<Longrightarrow> n < 256 \<Longrightarrow> byteOf m = byteOf n \<longleftrightarrow> m = n"
  by (metis unat_byteOf)

lemma textEncode_ascii_inject:
  assumes "ascii s" "ascii t" "textEncode s = textEncode t"
  shows "s = t"
proof -
  have "map (\<lambda>c. byteOf (unat c)) s = map (\<lambda>c. byteOf (unat c)) t"
    using assms by (simp add: textEncode_ascii)
  then show ?thesis using assms(1,2)
  proof (induction s arbitrary: t)
    case Nil
    then show ?case by simp
  next
    case (Cons a s)
    then obtain b u where t: "t = b # u" by (cases t) auto
    then show ?case using Cons
      by (auto simp: ascii_def byteOf_inject word_unat_eq_iff)
  qed
qed

text \<open>Text without a lone surrogate is determined by its encoding.\<close>

definition wfText :: "jsstr \<Rightarrow> bool" where
  "wfText s \<longleftrightarrow> list_all scalar (utf16_points s)"

lemma wfText_iff: "wfText s \<longleftrightarrow> (\<exists>cps. list_all scalar cps \<and> s = utf16_encode cps)"
  unfolding wfText_def by (metis utf16_encode_points utf16_points_encode)

lemma wfText_append: "wfText s \<Longrightarrow> wfText t \<Longrightarrow> wfText (s @ t)"
  unfolding wfText_iff by (metis list_all_append utf16_encode_def concat_append map_append)

lemma wfText_ascii: "ascii s \<Longrightarrow> wfText s"
  unfolding wfText_def
  by (auto simp: utf16_points_ascii ascii_def list_all_iff scalar_def surrogate_def)

lemma wfText_concat: "list_all wfText ss \<Longrightarrow> wfText (concat ss)"
  by (induction ss) (auto simp: wfText_append wfText_ascii ascii_def)

lemma textEncode_wf: "wfText s \<Longrightarrow> textEncode s = utf8_encode (utf16_points s)"
proof -
  assume "wfText s"
  then have "map (\<lambda>c. if surrogate c then 0xFFFD else c) (utf16_points s) = utf16_points s"
    by (intro map_idI) (auto simp: wfText_def list_all_iff scalar_def)
  then show ?thesis by (simp add: textEncode_def)
qed

lemma textEncode_append: "wfText s \<Longrightarrow> wfText t \<Longrightarrow> textEncode (s @ t) = textEncode s @ textEncode t"
proof -
  assume s: "wfText s" and t: "wfText t"
  have "utf16_points (s @ t) = utf16_points s @ utf16_points t"
    using s t unfolding wfText_def
    by (metis list_all_append utf16_encode_def concat_append map_append utf16_encode_points utf16_points_encode)
  then show ?thesis using s t by (simp add: textEncode_wf wfText_append utf8_encode_def)
qed

lemma textEncode_inject: "wfText s \<Longrightarrow> wfText t \<Longrightarrow> textEncode s = textEncode t \<Longrightarrow> s = t"
  by (metis textEncode_wf wfText_def utf8_decode_encode option.inject utf16_encode_points)

lemma utf16_points_less: "c \<in> set (utf16_points s) \<Longrightarrow> c < 0x110000"
proof (induction s rule: utf16_points.induct)
  case (2 c)
  have "unat c < 65536" by simp
  then have "unat c < 0x110000" by linarith
  then show ?case using 2 by simp
next
  case (3 c d rest)
  have "unat c < 65536" by simp
  then have "unat c < 0x110000" by linarith
  then show ?case using 3 by (auto simp: highSur_def lowSur_def split: if_splits)
qed simp

text \<open>String literals of the source are compared as the character lists they are written with.\<close>

lemma unat_of_char: "unat (of_char c :: cu) = of_char c"
proof -
  have "(of_char c :: nat) < 256" by simp
  then have "(of_char c :: nat) < 65536" by linarith
  then show ?thesis
    using unat_cuOf [of "of_char c"] by (simp add: cuOf_def of_nat_of_char)
qed

lemma js_inject [simp]: "js s = js t \<longleftrightarrow> s = t"
proof
  have "of_char c = (of_char d :: cu) \<longleftrightarrow> c = d" for c d
    by (metis unat_of_char of_char_eq_iff)
  then have "inj (of_char :: char \<Rightarrow> cu)" by (simp add: inj_def)
  then show "js s = js t \<Longrightarrow> s = t" by (simp add: js_def map_injective)
qed simp

definition asciiStr :: "string \<Rightarrow> bool" where
  "asciiStr s \<longleftrightarrow> list_all (\<lambda>c. (of_char c :: nat) < 0x80) s"

lemma ascii_js: "asciiStr s \<Longrightarrow> ascii (js s)"
  by (simp add: asciiStr_def ascii_def js_def list_all_iff unat_of_char)

lemma plainText_ascii: "ascii s \<Longrightarrow> plainText s"
  unfolding plainText_def
  by (cases s) (auto simp: utf16_points_ascii ascii_def list_all_iff scalar_def surrogate_def)

lemma length_textEncode_ascii: "ascii s \<Longrightarrow> length (textEncode s) = length s"
  by (simp add: textEncode_ascii)

lemma length_js [simp]: "length (js s) = length s"
  by (simp add: js_def)

subsection \<open>Hexadecimal text\<close>

definition hexDigit :: "nat \<Rightarrow> cu" where
  "hexDigit n = (if n < 10 then cuOf (48 + n) else cuOf (87 + n))"

definition hexVal :: "cu \<Rightarrow> nat option" where
  "hexVal c =
    (let n = unat c in
     if 48 \<le> n \<and> n \<le> 57 then Some (n - 48)
     else if 65 \<le> n \<and> n \<le> 70 then Some (n - 55)
     else if 97 \<le> n \<and> n \<le> 102 then Some (n - 87)
     else None)"

definition toHex :: "bytes \<Rightarrow> jsstr" where
  "toHex bs = concat (map (\<lambda>b. [hexDigit (unat b div 16), hexDigit (unat b mod 16)]) bs)"

definition isHex :: "jsstr \<Rightarrow> bool" where
  "isHex s \<longleftrightarrow> even (length s) \<and> list_all (\<lambda>c. hexVal c \<noteq> None) s"

fun hexPairs :: "jsstr \<Rightarrow> bytes" where
  "hexPairs (a # b # rest) =
    (case (hexVal a, hexVal b) of
       (Some x, Some y) \<Rightarrow> byteOf (x * 16 + y) # hexPairs rest
     | _ \<Rightarrow> [])"
| "hexPairs _ = []"

text \<open>\<open>fromHex\<close> throws a bare Error (here \<open>None\<close>) on text that is not hexadecimal.\<close>

definition fromHex :: "jsstr \<Rightarrow> bytes option" where
  "fromHex s = (if isHex s then Some (hexPairs s) else None)"

lemma hexVal_hexDigit [simp]: "n < 16 \<Longrightarrow> hexVal (hexDigit n) = Some n"
  by (auto simp: hexVal_def hexDigit_def Let_def)

lemma toHex_simps [simp]:
  "toHex [] = []"
  "toHex (b # bs) = hexDigit (unat b div 16) # hexDigit (unat b mod 16) # toHex bs"
  by (simp_all add: toHex_def)

lemma nibble [simp]: "unat (b :: byte) div 16 < 16"
  using unat_byte_less [of b] by (simp add: less_mult_imp_div_less)

lemma isHex_toHex [simp]: "isHex (toHex bs)"
  by (induction bs) (auto simp: isHex_def)

lemma fromHex_toHex [simp]: "fromHex (toHex bs) = Some bs"
proof -
  have "hexPairs (toHex bs) = bs"
    by (induction bs) (auto simp: mult_div_mod_eq)
  then show ?thesis by (simp add: fromHex_def)
qed

lemma toHex_inject: "toHex a = toHex b \<longleftrightarrow> a = b"
  by (metis fromHex_toHex option.inject)

lemma length_toHex [simp]: "length (toHex bs) = 2 * length bs"
  by (induction bs) auto

lemma length_fromHex: "fromHex s = Some bs \<Longrightarrow> 2 * length bs = length s"
proof -
  have "list_all (\<lambda>c. hexVal c \<noteq> None) s \<Longrightarrow> even (length s) \<Longrightarrow> 2 * length (hexPairs s) = length s"
    by (induction s rule: hexPairs.induct) auto
  then show "fromHex s = Some bs \<Longrightarrow> 2 * length bs = length s"
    by (auto simp: fromHex_def isHex_def split: if_splits)
qed

lemma hexDigit_ascii [simp]: "n < 16 \<Longrightarrow> unat (hexDigit n) < 128"
  by (auto simp: hexDigit_def)

lemma ascii_toHex [simp]: "ascii (toHex bs)"
  by (induction bs) (auto simp: ascii_def)

end
