(* ===== verification/JsValue.thy ===== *)
theory JsValue
  imports JsText
begin

text \<open>
  Dynamically typed values (\<open>unknown\<close> in the source): what MsgpackReader.readValue returns and
  what packages/attest-core/src/decode.ts then inspects with \<open>typeof\<close>, \<open>Array.isArray\<close>,
  \<open>instanceof Uint8Array\<close> and property reads. An object built by \<open>out[key] = value\<close>
  has own properties and a prototype: an assignment to \<open>__proto__\<close> replaces the prototype
  while the accessor is still reachable, and a property read falls through to it.
\<close>

text \<open>
  A finite IEEE value is an integer or the fraction \<open>m / 2 ^ k\<close>; \<open>-0\<close> is \<open>NInt 0\<close>,
  which \<open>===\<close>, \<open><\<close> and \<open>Number.isInteger\<close> do not distinguish.
\<close>

datatype jsnum = NInt int | NFrac int nat | NInf bool | NNan

datatype jsval =
    JUndef
  | JNull
  | JBool bool
  | JNum jsnum
  | JBig int
  | JStr jsstr
  | JBin bytes
  | JArr "jsval list"
  | JObj "(jsstr \<times> jsval) list" "jsval option"

text \<open>\<open>typeof v === 'object'\<close> (which \<open>null\<close> satisfies too).\<close>

fun typeofObject :: "jsval \<Rightarrow> bool" where
  "typeofObject JNull = True"
| "typeofObject (JBin _) = True"
| "typeofObject (JArr _) = True"
| "typeofObject (JObj _ _) = True"
| "typeofObject _ = False"

definition protoKey :: jsstr where
  "protoKey = js ''__proto__''"

text \<open>Whether the \<open>__proto__\<close> accessor of Object.prototype is what an assignment would reach.\<close>

fun protoReachable :: "jsval \<Rightarrow> bool" where
  "protoReachable (JObj fs p) =
    (if protoKey \<in> fst ` set fs then False
     else case p of None \<Rightarrow> True | Some q \<Rightarrow> protoReachable q)"
| "protoReachable (JArr _) = True"
| "protoReachable (JBin _) = True"
| "protoReachable _ = False"

fun upsert :: "'k \<Rightarrow> 'v \<Rightarrow> ('k \<times> 'v) list \<Rightarrow> ('k \<times> 'v) list" where
  "upsert k v [] = [(k, v)]"
| "upsert k v ((k', w) # ps) = (if k = k' then (k, v) # ps else (k', w) # upsert k v ps)"

text \<open>\<open>out[key] = value\<close> on a plain object.\<close>

fun setProp :: "jsval \<Rightarrow> jsstr \<Rightarrow> jsval \<Rightarrow> jsval" where
  "setProp (JObj fs p) k v =
    (if k = protoKey \<and> protoReachable (JObj fs p)
     then (if typeofObject v then JObj fs (Some v) else JObj fs p)
     else JObj (upsert k v fs) p)"
| "setProp w k v = w"

text \<open>
  \<open>fields[key]\<close>: own property, then the prototype. The names the source reads are no
  members of Object.prototype, Array.prototype or Uint8Array.prototype, so the walk ends there.
\<close>

fun getProp :: "jsval \<Rightarrow> jsstr \<Rightarrow> jsval" where
  "getProp (JObj fs p) k =
    (case map_of fs k of
       Some v \<Rightarrow> v
     | None \<Rightarrow> (case p of None \<Rightarrow> JUndef | Some q \<Rightarrow> getProp q k))"
| "getProp _ k = JUndef"

lemma map_of_upsert [simp]: "map_of (upsert k v ps) = (map_of ps)(k \<mapsto> v)"
  by (induction ps) (auto simp: fun_eq_iff)

lemma fst_upsert: "set (map fst (upsert k v ps)) = insert k (set (map fst ps))"
  by (induction k v ps rule: upsert.induct) (simp_all add: insert_commute)

lemma distinct_upsert: "distinct (map fst ps) \<Longrightarrow> distinct (map fst (upsert k v ps))"
proof (induction k v ps rule: upsert.induct)
  case (1 k v)
  then show ?case by simp
next
  case (2 k v k' w ps)
  then show ?case
    using fst_upsert [of k v ps] by simp
qed

lemma getProp_setProp:
  "k \<noteq> protoKey \<Longrightarrow> getProp (setProp (JObj fs p) k v) k' = (if k' = k then v else getProp (JObj fs p) k')"
  by simp

subsection \<open>IEEE 754 floats as the language reads them\<close>

text \<open>
  \<open>DataView.getFloat32\<close> and \<open>getFloat64\<close>: the value of a bit pattern with \<open>e\<close> exponent
  and \<open>m\<close> fraction bits.
\<close>

definition ieee :: "nat \<Rightarrow> nat \<Rightarrow> nat \<Rightarrow> jsnum" where
  "ieee e m bits =
    (let bias = 2 ^ (e - 1) - 1;
         sign = (if bits div 2 ^ (e + m) mod 2 = 1 then -1 else 1 :: int);
         ex = bits div 2 ^ m mod 2 ^ e;
         f = bits mod 2 ^ m
     in if ex = 2 ^ e - 1 then (if f = 0 then NInf (sign = -1) else NNan)
        else
          let mant = (if ex = 0 then f else f + 2 ^ m);
              ex' = max ex 1
          in if bias + m \<le> ex' then NInt (sign * int (mant * 2 ^ (ex' - (bias + m))))
             else
               let k = bias + m - ex' in
               if mant mod 2 ^ k = 0 then NInt (sign * int (mant div 2 ^ k))
               else NFrac (sign * int mant) k)"

definition float32 :: "nat \<Rightarrow> jsnum" where
  "float32 bits = ieee 8 23 bits"

definition float64 :: "nat \<Rightarrow> jsnum" where
  "float64 bits = ieee 11 52 bits"

lemma float32_examples:
  "float32 0x3F800000 = NInt 1" "float32 0x40400000 = NInt 3" "float32 0xBF000000 = NFrac (- 8388608) 24"
  "float32 0x80000000 = NInt 0" "float32 0x7F800000 = NInf False" "float32 0x7FC00000 = NNan"
  by (simp_all add: float32_def ieee_def Let_def)

text \<open>\<open>typeof value === 'number' && Number.isInteger(value) && value >= 0\<close>.\<close>

fun asUint :: "jsval \<Rightarrow> nat option" where
  "asUint (JNum (NInt i)) = (if i < 0 then None else Some (nat i))"
| "asUint _ = None"

end
