(* ===== verification/Json.thy ===== *)
theory Json
  imports JsValue
begin

text \<open>
  JSON.parse as ECMA-262 defines it, from a string to a \<open>jsval\<close> (or \<open>None\<close>, a SyntaxError): the
  documents packages/attest-core/src/verify.ts and nvidia.ts and gateway/src/access.ts read. A
  member named \<open>__proto__\<close> is an own property, a repeated member keeps its first position and its
  last value, and a number is the double nearest to its decimal value.
\<close>

definition jc :: "char \<Rightarrow> cu" where
  "jc c = of_char c"

definition jsonSpace :: "cu \<Rightarrow> bool" where
  "jsonSpace c \<longleftrightarrow> unat c \<in> {0x20, 0x09, 0x0a, 0x0d}"

definition skipWs :: "jsstr \<Rightarrow> jsstr" where
  "skipWs s = dropWhile jsonSpace s"

subsection \<open>Numbers\<close>

fun bitLen :: "nat \<Rightarrow> nat" where
  "bitLen n = (if n = 0 then 0 else Suc (bitLen (n div 2)))"

declare bitLen.simps [simp del]

text \<open>Division rounded to the nearest integer, ties to the even one.\<close>

definition divEven :: "nat \<Rightarrow> nat \<Rightarrow> nat" where
  "divEven a b =
    (let q = a div b; r = a mod b in
     if 2 * r < b \<or> 2 * r = b \<and> even q then q else q + 1)"

text \<open>\<open>q * 2 ^ e\<close> as a number.\<close>

definition scaled :: "bool \<Rightarrow> nat \<Rightarrow> int \<Rightarrow> jsnum" where
  "scaled neg q e =
    (let sign = (if neg then -1 else 1 :: int) in
     if e \<ge> 0 then
       (if q * 2 ^ nat e \<ge> 2 ^ 1024 then NInf neg else NInt (sign * int (q * 2 ^ nat e)))
     else
       let k = nat (- e) in
       if q mod 2 ^ k = 0 then NInt (sign * int (q div 2 ^ k)) else NFrac (sign * int q) k)"

text \<open>The double nearest to \<open>a / b\<close>: 53 significant bits, or the subnormal step \<open>2 ^ -1074\<close>.\<close>

definition nearestDouble :: "bool \<Rightarrow> nat \<Rightarrow> nat \<Rightarrow> jsnum" where
  "nearestDouble neg a b =
    (if a = 0 then NInt 0
     else
       let l = int (bitLen a) - int (bitLen b);
           big = (if l \<ge> 0 then b * 2 ^ nat l \<le> a else b \<le> a * 2 ^ nat (- l));
           e = max (if big then l - 52 else l - 53) (- 1074);
           q = (if e \<ge> 0 then divEven a (b * 2 ^ nat e) else divEven (a * 2 ^ nat (- e)) b)
       in scaled neg q e)"

definition jsonDigit :: "cu \<Rightarrow> bool" where
  "jsonDigit c \<longleftrightarrow> 0x30 \<le> unat c \<and> unat c \<le> 0x39"

definition digitsVal :: "jsstr \<Rightarrow> nat" where
  "digitsVal ds = foldl (\<lambda>n c. n * 10 + (unat c - 0x30)) 0 ds"

definition decimal :: "bool \<Rightarrow> jsstr \<Rightarrow> jsstr \<Rightarrow> int \<Rightarrow> jsnum" where
  "decimal neg ip fp ex =
    (let m = digitsVal (ip @ fp); e = ex - int (length fp) in
     if e \<ge> 0 then nearestDouble neg (m * 10 ^ nat e) 1 else nearestDouble neg m (10 ^ nat (- e)))"

text \<open>The parts of a number literal: a fraction and an exponent need a digit, the integer no leading zero.\<close>

definition fractionPart :: "jsstr \<Rightarrow> (jsstr \<times> jsstr) option" where
  "fractionPart s =
    (case s of
       [] \<Rightarrow> Some ([], [])
     | c # t \<Rightarrow>
         if c = jc CHR ''.'' then
           (let ds = takeWhile jsonDigit t in
            if ds = [] then None else Some (ds, dropWhile jsonDigit t))
         else Some ([], s))"

definition exponentPart :: "jsstr \<Rightarrow> (int \<times> jsstr) option" where
  "exponentPart s =
    (case s of
       [] \<Rightarrow> Some (0, [])
     | c # t \<Rightarrow>
         if c = jc CHR ''e'' \<or> c = jc CHR ''E'' then
           (let (sg, u) = (case t of
                  [] \<Rightarrow> (1, [])
                | d # u \<Rightarrow> if d = jc CHR ''+'' then (1, u) else if d = jc CHR ''-'' then (- 1, u) else (1, t));
                ds = takeWhile jsonDigit u
            in if ds = [] then None else Some (sg * int (digitsVal ds), dropWhile jsonDigit u))
         else Some (0, s))"

definition jnumber :: "jsstr \<Rightarrow> (jsval \<times> jsstr) option" where
  "jnumber s =
    (let (neg, t) = (case s of [] \<Rightarrow> (False, []) | c # t \<Rightarrow> if c = jc CHR ''-'' then (True, t) else (False, s));
         ip = takeWhile jsonDigit t;
         t2 = dropWhile jsonDigit t
     in if ip = [] \<or> length ip > 1 \<and> hd ip = jc CHR ''0'' then None
        else
          Option.bind (fractionPart t2) (\<lambda>(fp, t3).
            map_option (\<lambda>(ex, t4). (JNum (decimal neg ip fp ex), t4)) (exponentPart t3)))"

subsection \<open>Strings\<close>

definition hexFour :: "jsstr \<Rightarrow> nat option" where
  "hexFour s =
    (if length s = 4 \<and> list_all (\<lambda>c. hexVal c \<noteq> None) s
     then Some (foldl (\<lambda>n c. n * 16 + the (hexVal c)) 0 s) else None)"

definition simpleEscape :: "cu \<Rightarrow> cu option" where
  "simpleEscape c =
    (if unat c = 0x22 then Some (cuOf 0x22) else if unat c = 0x5c then Some (cuOf 0x5c)
     else if unat c = 0x2f then Some (cuOf 0x2f) else if unat c = 0x62 then Some (cuOf 0x08)
     else if unat c = 0x66 then Some (cuOf 0x0c) else if unat c = 0x6e then Some (cuOf 0x0a)
     else if unat c = 0x72 then Some (cuOf 0x0d) else if unat c = 0x74 then Some (cuOf 0x09)
     else None)"

text \<open>The characters after an opening quote, to the closing one.\<close>

fun jstring :: "jsstr \<Rightarrow> (jsstr \<times> jsstr) option" where
  "jstring [] = None"
| "jstring (c # s) =
    (if unat c = 0x22 then Some ([], s)
     else if unat c < 0x20 then None
     else if unat c = 0x5c then
       (case s of
          [] \<Rightarrow> None
        | d # t \<Rightarrow>
            (case simpleEscape d of
               Some e \<Rightarrow> map_option (\<lambda>(x, u). (e # x, u)) (jstring t)
             | None \<Rightarrow>
                 if unat d = 0x75 then
                   (case hexFour (take 4 t) of
                      Some n \<Rightarrow> map_option (\<lambda>(x, u). (cuOf n # x, u)) (jstring (drop 4 t))
                    | None \<Rightarrow> None)
                 else None))
     else map_option (\<lambda>(x, u). (c # x, u)) (jstring s))"

lemma length_skipWs: "length (skipWs s) \<le> length s"
  by (simp add: skipWs_def length_dropWhile_le)

lemma jstring_shorter: "jstring s = Some (x, t) \<Longrightarrow> length t < length s"
proof (induction s arbitrary: x t rule: jstring.induct)
  case 1
  then show ?case by simp
next
  case (2 c s)
  show ?case using 2(4) 2(1,3) 2(2)
    by (auto split: if_splits list.splits option.splits) fastforce+
qed

subsection \<open>Values\<close>

definition jliteral :: "string \<Rightarrow> jsval \<Rightarrow> jsstr \<Rightarrow> (jsval \<times> jsstr) option" where
  "jliteral w v s = (if take (length w) s = js w then Some (v, drop (length w) s) else None)"

definition jscalar :: "jsstr \<Rightarrow> (jsval \<times> jsstr) option" where
  "jscalar s =
    (case jliteral ''true'' (JBool True) s of
       Some r \<Rightarrow> Some r
     | None \<Rightarrow>
         (case jliteral ''false'' (JBool False) s of
            Some r \<Rightarrow> Some r
          | None \<Rightarrow> (case jliteral ''null'' JNull s of Some r \<Rightarrow> Some r | None \<Rightarrow> jnumber s)))"

text \<open>
  The recursive descent. The comparisons of lengths make the recursion well-founded; they hold
  on every input (\<open>jvalue_shorter\<close>), so no input is refused by them.
\<close>

function (sequential) jvalue :: "jsstr \<Rightarrow> (jsval \<times> jsstr) option"
  and jmembers :: "jsstr \<Rightarrow> (jsstr \<times> jsval) list \<Rightarrow> (jsval \<times> jsstr) option"
  and jelems :: "jsstr \<Rightarrow> jsval list \<Rightarrow> (jsval \<times> jsstr) option" where
  "jvalue s0 =
    (case skipWs s0 of
       [] \<Rightarrow> None
     | c # t \<Rightarrow>
         if c = jc CHR ''{'' then
           (case skipWs t of
              [] \<Rightarrow> None
            | d # u \<Rightarrow> if d = jc CHR ''}'' then Some (JObj [] None, u) else jmembers t [])
         else if c = jc CHR ''['' then
           (case skipWs t of
              [] \<Rightarrow> None
            | d # u \<Rightarrow> if d = jc CHR '']'' then Some (JArr [], u) else jelems t [])
         else if unat c = 0x22 then map_option (\<lambda>(x, u). (JStr x, u)) (jstring t)
         else jscalar (c # t))"
| "jmembers s0 acc =
    (case skipWs s0 of
       [] \<Rightarrow> None
     | c # t \<Rightarrow>
         if unat c \<noteq> 0x22 then None
         else (case jstring t of
           None \<Rightarrow> None
         | Some (k, u0) \<Rightarrow>
             (case skipWs u0 of
                [] \<Rightarrow> None
              | d # u \<Rightarrow>
                  if d \<noteq> jc CHR '':'' \<or> length s0 \<le> length u then None
                  else (case jvalue u of
                    None \<Rightarrow> None
                  | Some (v, w0) \<Rightarrow>
                      (case skipWs w0 of
                         [] \<Rightarrow> None
                       | e # w \<Rightarrow>
                           if length s0 \<le> length w then None
                           else if e = jc CHR '','' then jmembers w (upsert k v acc)
                           else if e = jc CHR ''}'' then Some (JObj (upsert k v acc) None, w)
                           else None)))))"
| "jelems s0 acc =
    (case jvalue s0 of
       None \<Rightarrow> None
     | Some (v, w0) \<Rightarrow>
         (case skipWs w0 of
            [] \<Rightarrow> None
          | e # w \<Rightarrow>
              if length s0 \<le> length w then None
              else if e = jc CHR '','' then jelems w (acc @ [v])
              else if e = jc CHR '']'' then Some (JArr (acc @ [v]), w)
              else None))"
  by pat_completeness auto
termination
proof (relation "measure (case_sum (\<lambda>s. 2 * length s) (case_sum (\<lambda>(s, _). 2 * length s + 1) (\<lambda>(s, _). 2 * length s + 1)))")
  fix s0 :: jsstr and c t
  assume "skipWs s0 = c # t"
  then have "length t < length s0" using length_skipWs [of s0] by simp
  then show "(Inr (Inl (t, [])), Inl s0) \<in> measure (case_sum (\<lambda>s. 2 * length s)
      (case_sum (\<lambda>(s, _). 2 * length s + 1) (\<lambda>(s, _). 2 * length s + 1)))"
    "(Inr (Inr (t, [])), Inl s0) \<in> measure (case_sum (\<lambda>s. 2 * length s)
      (case_sum (\<lambda>(s, _). 2 * length s + 1) (\<lambda>(s, _). 2 * length s + 1)))" by simp_all
qed auto

declare jvalue.simps [simp del] jmembers.simps [simp del] jelems.simps [simp del]

subsection \<open>Every read value is shorter than its input\<close>

lemma jliteral_shorter: "jliteral w v s = Some (x, t) \<Longrightarrow> w \<noteq> [] \<Longrightarrow> length t < length s"
proof -
  assume l: "jliteral w v s = Some (x, t)" and w: "w \<noteq> []"
  then have t: "take (length w) s = js w" "t = drop (length w) s" by (auto simp: jliteral_def split: if_splits)
  then have "s \<noteq> []" using w by (auto simp: js_def)
  then show ?thesis using t w by simp
qed

lemma fractionPart_le: "fractionPart s = Some (fp, v) \<Longrightarrow> length v \<le> length s"
  by (cases s) (auto simp: fractionPart_def Let_def le_SucI length_dropWhile_le split: if_splits)

lemma exponentPart_le: "exponentPart s = Some (ex, v) \<Longrightarrow> length v \<le> length s"
proof (cases s)
  case (Cons c t)
  have d: "length (dropWhile jsonDigit u) \<le> Suc (Suc (length u))" for u
    using length_dropWhile_le [of jsonDigit u] by linarith
  assume "exponentPart s = Some (ex, v)"
  then show ?thesis using Cons d length_dropWhile_le [of jsonDigit t]
    by (auto simp: exponentPart_def Let_def split: list.splits if_splits intro: le_SucI)
qed (simp add: exponentPart_def)

lemma jnumber_shorter: "jnumber s = Some (x, t) \<Longrightarrow> length t < length s"
proof -
  assume j: "jnumber s = Some (x, t)"
  define u where "u = (case s of [] \<Rightarrow> [] | c # t \<Rightarrow> if c = jc CHR ''-'' then t else s)"
  have u: "length u \<le> length s" by (simp add: u_def split: list.splits)
  from j obtain fp v ex where p: "takeWhile jsonDigit u \<noteq> []" "fractionPart (dropWhile jsonDigit u) = Some (fp, v)"
    "exponentPart v = Some (ex, t)"
    by (auto simp: jnumber_def u_def Let_def bind_eq_Some_conv split: list.splits if_splits)
  have "length (dropWhile jsonDigit u) < length u"
    using p(1) by (cases u) (auto simp: less_Suc_eq_le length_dropWhile_le split: if_splits)
  then show ?thesis using u fractionPart_le [OF p(2)] exponentPart_le [OF p(3)] by linarith
qed

lemma jscalar_shorter: "jscalar s = Some (x, t) \<Longrightarrow> length t < length s"
  unfolding jscalar_def
  using jliteral_shorter [of "''true''" "JBool True" s x t] jliteral_shorter [of "''false''" "JBool False" s x t]
    jliteral_shorter [of "''null''" JNull s x t] jnumber_shorter [of s x t]
  by (auto split: option.splits)

lemma skipWs_Cons: "skipWs s = c # t \<Longrightarrow> length t < length s"
  using length_skipWs [of s] by simp

lemma jvalue_shorter:
  "jvalue s = Some (v, t) \<Longrightarrow> length t < length s"
  "jmembers s acc = Some (v, t) \<Longrightarrow> length t < length s"
  "jelems s xs = Some (v, t) \<Longrightarrow> length t < length s"
proof (induction s and s acc and s xs arbitrary: v t and v t and v t rule: jvalue_jmembers_jelems.induct)
  case (1 s0)
  show ?case
  proof (cases "skipWs s0")
    case Nil
    then show ?thesis using 1(3) by (simp add: jvalue.simps [of s0])
  next
    case (Cons c u)
    note len = skipWs_Cons [OF Cons]
    have "length t < Suc (length u)" using 1(3)
      using 1(1,2) [OF Cons] jstring_shorter jscalar_shorter [of "c # u"] skipWs_Cons [of u]
      by (fastforce simp: jvalue.simps [of s0] Cons split: if_splits list.splits)
    then show ?thesis using len by simp
  qed
next
  case (2 s0 acc)
  show ?case using 2(3) 2(2)
    by (subst (asm) jmembers.simps)
       (force split: list.splits option.splits if_splits)
next
  case (3 s0 acc)
  show ?case using 3(3) 3(2)
    by (subst (asm) jelems.simps)
       (force split: list.splits option.splits if_splits)
qed

definition jsonParse :: "jsstr \<Rightarrow> jsval option" where
  "jsonParse s =
    (case jvalue s of
       None \<Rightarrow> None
     | Some (v, t) \<Rightarrow> if skipWs t = [] then Some v else None)"

end
