(* ===== verification/JsOps.thy ===== *)
theory JsOps
  imports Json
begin

text \<open>
  The String operations and regular expressions the gateway and the receipt package use: \<open>trim\<close>,
  \<open>split\<close>, \<open>join\<close>, \<open>toUpperCase\<close>, decimal numerals and \<open>Number.isSafeInteger\<close>. Positions are code
  units. \<open>toUpperCase\<close> is modelled on the letters a to z, which is all an HTTP method can hold.
\<close>

text \<open>The characters \<open>trim\<close> removes and \<open>\s\<close> matches: WhiteSpace and LineTerminator.\<close>

definition jsSpace :: "cu \<Rightarrow> bool" where
  "jsSpace c \<longleftrightarrow> (let n = unat c in
     0x09 \<le> n \<and> n \<le> 0x0d \<or> n = 0x20 \<or> n = 0xa0 \<or> n = 0x1680 \<or> 0x2000 \<le> n \<and> n \<le> 0x200a \<or>
     n = 0x2028 \<or> n = 0x2029 \<or> n = 0x202f \<or> n = 0x205f \<or> n = 0x3000 \<or> n = 0xfeff)"

definition jsTrim :: "jsstr \<Rightarrow> jsstr" where
  "jsTrim s = rev (dropWhile jsSpace (rev (dropWhile jsSpace s)))"

fun splitOn :: "'a \<Rightarrow> 'a list \<Rightarrow> 'a list list" where
  "splitOn c [] = [[]]"
| "splitOn c (x # xs) =
    (if x = c then [] # splitOn c xs
     else case splitOn c xs of [] \<Rightarrow> [[x]] | p # ps \<Rightarrow> (x # p) # ps)"

fun joinWith :: "'a list \<Rightarrow> 'a list list \<Rightarrow> 'a list" where
  "joinWith sep [] = []"
| "joinWith sep [p] = p"
| "joinWith sep (p # q # ps) = p @ sep @ joinWith sep (q # ps)"

definition upperCu :: "cu \<Rightarrow> cu" where
  "upperCu c = (if 0x61 \<le> unat c \<and> unat c \<le> 0x7a then c - 0x20 else c)"

definition toUpper :: "jsstr \<Rightarrow> jsstr" where
  "toUpper s = map upperCu s"

fun decimalOf :: "nat \<Rightarrow> jsstr" where
  "decimalOf n = (if n < 10 then [cuOf (0x30 + n)] else decimalOf (n div 10) @ [cuOf (0x30 + n mod 10)])"

declare decimalOf.simps [simp del]

definition MAX_SAFE_INTEGER :: int where
  "MAX_SAFE_INTEGER = 2 ^ 53 - 1"

fun isSafeInteger :: "jsnum \<Rightarrow> bool" where
  "isSafeInteger (NInt i) = (\<bar>i\<bar> \<le> MAX_SAFE_INTEGER)"
| "isSafeInteger _ = False"

text \<open>\<open>/^[A-Za-z0-9_-]{1,64}$/u\<close>.\<close>

definition idChar :: "cu \<Rightarrow> bool" where
  "idChar c \<longleftrightarrow> (let n = unat c in 0x41 \<le> n \<and> n \<le> 0x5a \<or> 0x61 \<le> n \<and> n \<le> 0x7a \<or> 0x30 \<le> n \<and> n \<le> 0x39 \<or> n = 0x5f \<or> n = 0x2d)"

definition idText :: "jsstr \<Rightarrow> bool" where
  "idText s \<longleftrightarrow> list_all idChar s \<and> 1 \<le> length s \<and> length s \<le> 64"

subsection \<open>Trimming\<close>

lemma dropWhile_head: "xs \<noteq> [] \<Longrightarrow> \<not> P (hd xs) \<Longrightarrow> dropWhile P xs = xs"
  by (cases xs) simp_all

lemma jsTrim_id: "s \<noteq> [] \<Longrightarrow> \<not> jsSpace (hd s) \<Longrightarrow> \<not> jsSpace (last s) \<Longrightarrow> jsTrim s = s"
  by (simp add: jsTrim_def dropWhile_head hd_rev)

lemma jsTrim_Cons: "jsSpace c \<Longrightarrow> jsTrim (c # s) = jsTrim s"
  by (simp add: jsTrim_def)

lemma idChar_not_space: "idChar c \<Longrightarrow> \<not> jsSpace c"
  by (auto simp: idChar_def jsSpace_def Let_def)

lemma jsTrim_ids: "s \<noteq> [] \<Longrightarrow> list_all (\<lambda>c. \<not> jsSpace c) s \<Longrightarrow> jsTrim s = s"
  by (rule jsTrim_id) (auto simp: list_all_iff)

subsection \<open>Splitting and joining\<close>

lemma splitOn_ne [simp]: "splitOn c xs \<noteq> []"
  by (induction xs) (auto split: list.splits)

lemma splitOn_last: "c \<notin> set xs \<Longrightarrow> splitOn c xs = [xs]"
  by (induction xs) auto

lemma splitOn_append: "c \<notin> set xs \<Longrightarrow> splitOn c (xs @ c # ys) = xs # splitOn c ys"
  by (induction xs) auto

lemma splitOn_parts: "p \<in> set (splitOn c xs) \<Longrightarrow> c \<notin> set p"
  by (induction xs arbitrary: p) (auto split: list.splits if_splits)

lemma join_splitOn: "joinWith [c] (splitOn c xs) = xs"
proof (induction xs)
  case (Cons x xs)
  show ?case
  proof (cases "splitOn c xs")
    case (Cons p ps)
    then show ?thesis using Cons.IH by (cases ps) (auto simp: Cons)
  qed simp
qed simp

subsection \<open>Numerals\<close>

lemma decimalOf_digits: "list_all jsonDigit (decimalOf n)"
proof (induction n rule: decimalOf.induct)
  case (1 n)
  have d: "m < 10 \<Longrightarrow> jsonDigit (cuOf (0x30 + m))" for m by (simp add: jsonDigit_def)
  then show ?case using 1 by (subst decimalOf.simps) (simp add: d)
qed

lemma decimalOf_not_Nil [simp]: "decimalOf n \<noteq> []"
  by (subst decimalOf.simps) simp

lemma digitsVal_snoc: "digitsVal (ds @ [c]) = digitsVal ds * 10 + (unat c - 0x30)"
  by (simp add: digitsVal_def)

lemma digitsVal_decimalOf [simp]: "digitsVal (decimalOf n) = n"
proof (induction n rule: decimalOf.induct)
  case (1 n)
  show ?case
  proof (cases "n < 10")
    case True
    then show ?thesis by (subst decimalOf.simps) (simp add: digitsVal_def)
  next
    case False
    then show ?thesis using 1 by (subst decimalOf.simps) (simp add: digitsVal_snoc)
  qed
qed

lemma decimalOf_inject [simp]: "decimalOf m = decimalOf n \<longleftrightarrow> m = n"
  by (metis digitsVal_decimalOf)

lemma length_decimalOf: "n < 10 ^ k \<Longrightarrow> 0 < k \<Longrightarrow> length (decimalOf n) \<le> k"
proof (induction n arbitrary: k rule: decimalOf.induct)
  case (1 n)
  show ?case
  proof (cases "n < 10")
    case True
    then show ?thesis using 1(3) by (subst decimalOf.simps) simp
  next
    case False
    then obtain j where k: "k = Suc j" "0 < j" using 1(2,3) by (cases k; cases "k - 1") auto
    then have "n div 10 < 10 ^ j" using 1(2) by (simp add: less_mult_imp_div_less mult.commute)
    then show ?thesis using 1(1) [OF False] k False by (subst decimalOf.simps) simp
  qed
qed

subsection \<open>Integers as doubles\<close>

lemma bitLen_one [simp]: "bitLen (Suc 0) = Suc 0"
  by (simp add: bitLen.simps [of "Suc 0"] bitLen.simps [of 0])

lemma bitLen_bounds: "0 < n \<Longrightarrow> 2 ^ (bitLen n - 1) \<le> n \<and> n < 2 ^ bitLen n \<and> 0 < bitLen n"
proof (induction n rule: bitLen.induct)
  case (1 n)
  show ?case
  proof (cases "n = 1")
    case True
    then show ?thesis by simp
  next
    case False
    then have ih: "2 ^ (bitLen (n div 2) - 1) \<le> n div 2" "n div 2 < 2 ^ bitLen (n div 2)" "0 < bitLen (n div 2)"
      using 1 by auto
    have b: "bitLen n = Suc (bitLen (n div 2))" using 1(2) by (simp add: bitLen.simps [of n])
    obtain j where "bitLen (n div 2) = Suc j" using ih(3) by (cases "bitLen (n div 2)") auto
    then show ?thesis using ih b by auto
  qed
qed

lemma divEven_exact: "0 < b \<Longrightarrow> divEven (a * b) b = a"
  by (simp add: divEven_def Let_def)

text \<open>An integer below \<open>2 ^ 53\<close> is its own double.\<close>

lemma nearestDouble_int:
  assumes "n < 2 ^ 53"
  shows "nearestDouble neg n 1 = NInt (if neg then - int n else int n)"
proof (cases "n = 0")
  case False
  note b = bitLen_bounds [of n]
  have l: "bitLen n \<le> 53"
  proof (rule ccontr)
    assume "\<not> bitLen n \<le> 53"
    then have "(2 :: nat) ^ 53 \<le> 2 ^ (bitLen n - 1)" by (intro power_increasing) auto
    then show False using b False assms by linarith
  qed
  define k where "k = 53 - bitLen n"
  have e: "max (int (bitLen n) - 53) (- 1074) = - int k" using l by (simp add: k_def)
  have ee: "int (bitLen n) - 53 = - int k" "53 \<le> bitLen n \<longleftrightarrow> k = 0" using l by (auto simp: k_def)
  have big: "2 ^ nat (int (bitLen n) - 1) \<le> n" using b False by (simp add: nat_diff_distrib)
  have q: "divEven (n * 2 ^ k) 1 = n * 2 ^ k" using divEven_exact [of 1 "n * 2 ^ k"] by simp
  have small: "n < 2 ^ 1024" using assms power_increasing [of 53 1024 "2 :: nat"] by linarith
  have "nearestDouble neg n 1 = scaled neg (n * 2 ^ k) (- int k)"
    using False big q b ee by (cases "k = 0") (simp_all add: nearestDouble_def Let_def e)
  also have "\<dots> = NInt (if neg then - int n else int n)"
    using small by (cases "k = 0") (simp_all add: scaled_def Let_def)
  finally show ?thesis .
qed (simp add: nearestDouble_def)

end
