(* ===== verification/Positional.thy ===== *)
theory Positional
  imports JsText
begin

text \<open>
  Fixed-width little- and big-endian encodings of numbers, the inverses of \<open>leNat\<close> and \<open>beNat\<close>, and the
  lemmas the reference encoders and the record framings share.
\<close>

fun leEnc :: "nat \<Rightarrow> nat \<Rightarrow> bytes" where
  "leEnc 0 n = []"
| "leEnc (Suc k) n = byteOf (n mod 256) # leEnc k (n div 256)"

lemma length_leEnc [simp]: "length (leEnc k n) = k"
  by (induction k arbitrary: n) auto

lemma leNat_leEnc: "n < 256 ^ k \<Longrightarrow> leNat (leEnc k n) = n"
proof (induction k arbitrary: n)
  case 0
  then show ?case by simp
next
  case (Suc k)
  then have "n div 256 < 256 ^ k" by (simp add: less_mult_imp_div_less)
  then show ?case using Suc.IH by simp
qed

definition beEnc :: "nat \<Rightarrow> nat \<Rightarrow> bytes" where
  "beEnc k n = rev (leEnc k n)"

lemma length_beEnc [simp]: "length (beEnc k n) = k"
  by (simp add: beEnc_def)

lemma beNat_beEnc: "n < 256 ^ k \<Longrightarrow> beNat (beEnc k n) = n"
  using leNat_leEnc [of n k] by (simp add: beEnc_def leNat_def)

lemma leEnc_add: "leEnc (a + b) n = leEnc a n @ leEnc b (n div 256 ^ a)"
  by (induction a arbitrary: n) (simp_all add: div_mult2_eq)

lemma leEnc_mod: "a \<le> k \<Longrightarrow> leEnc a (n mod 256 ^ k) = leEnc a n"
proof (induction a arbitrary: n k)
  case 0
  then show ?case by simp
next
  case (Suc a)
  then obtain j where k: "k = Suc j" by (cases k) auto
  have "n mod 256 ^ k div 256 = n div 256 mod 256 ^ j"
    by (simp add: k mod_mult2_eq)
  then show ?case using Suc k by (simp add: mod_mult2_eq)
qed

lemma beEnc_beNat: "beEnc (length bs) (beNat bs) = bs"
  by (rule beNat_inject) (simp_all add: beNat_beEnc beNat_less)

lemma beEnc_inject: "m < 256 ^ k \<Longrightarrow> n < 256 ^ k \<Longrightarrow> beEnc k m = beEnc k n \<longleftrightarrow> m = n"
  by (metis beNat_beEnc)

end
