(* ===== verification/ReceiptErrors.thy ===== *)
theory ReceiptErrors
  imports Prelude
begin

text \<open>
  packages/receipt/src/errors.ts: the codes a throw of ReceiptError carries, in the order of the
  source. A throwing function of the package returns \<open>Inl\<close> of its code; the message texts are not
  modelled.
\<close>

datatype (plugins only:) receipt_error =
    MALFORMED_CBOR | NOT_COSE_SIGN1 | UNSUPPORTED_ALG | BAD_PROTECTED_HEADER | KID_MISMATCH | UNKNOWN_KEY
    | INVALID_SIGNATURE | NONCE_MISMATCH | STALE_EVIDENCE | STALE_RECEIPT | VERIFICATION_TIME_OUT_OF_RANGE
    | UNSUPPORTED_VERSION | BAD_PAYLOAD | UNSUPPORTED_SCHEME | UNSUPPORTED_ENCRYPTION_SCHEME | MARK_MISMATCH
    | ITEM_STAMP_OUT_OF_ORDER | FRAMER_REUSED | BAD_SIGNING_KEY | BAD_POP_HEADER | BAD_POP_NONCE
    | AUTH_SCHEME_MISMATCH | EXPORT_MALFORMED_CBOR | EXPORT_BAD_HEADER | EXPORT_UNSUPPORTED_VERSION
    | EXPORT_BAD_MANIFEST | EXPORT_UNSUPPORTED_LABEL | EXPORT_DUPLICATE_ID | EXPORT_DIGEST_MISMATCH
    | EXPORT_ORIGINAL_UNAVAILABLE | EXPORT_CHAIN_BROKEN | EXPORT_ITEM_UNREACHED | EXPORT_ENDPOINT_MISMATCH
    | EXPORT_KID_MISMATCH | PACK_MALFORMED_CBOR | PACK_BAD_HEADER | PACK_UNSUPPORTED_VERSION
    | PACK_BAD_MANIFEST | PACK_DUPLICATE_ID | PACK_RECEIPT_INVALID | PACK_RECEIPT_STAMP_MISMATCH
    | PACK_CHAIN_BROKEN | PACK_ITEM_UNREACHED | PACK_CUSTODY_UNNAMED | PACK_CUSTODY_UNRESOLVED
    | PACK_CUSTODY_UNIT_OUTSIDE_BAND | PACK_ATTACHED_DIGEST_MISMATCH | PACK_ATTACHED_DUPLICATE
    | PACK_ATTACHED_UNNAMED | PACK_ATTACHED_UNRESOLVED | PACK_KID_MISMATCH | PACK_UNKNOWN_KEY
    | REDACTION_MALFORMED_CBOR | REDACTION_BAD_HEADER | REDACTION_UNSUPPORTED_VERSION
    | REDACTION_BAD_MANIFEST | REDACTION_DUPLICATE_ID | REDACTION_KID_MISMATCH | REDACTION_UNKNOWN_KEY
    | REDACTION_PACK_UNAVAILABLE | REDACTION_PACK_MISMATCH | REDACTION_PACK_DISAGREES
    | REDACTION_ITEM_ABSENT | REDACTION_SURVIVORS_EMPTY | REDACTION_SURVIVOR_CHAIN_MISMATCH
    | EPOCH_INVENTORY_MALFORMED_CBOR | EPOCH_INVENTORY_MALFORMED_JSON | EPOCH_INVENTORY_BAD_HEADER
    | EPOCH_INVENTORY_UNSUPPORTED_VERSION | EPOCH_INVENTORY_BAD_DOCUMENT | EPOCH_INVENTORY_DUPLICATE_PACK
    | EPOCH_INVENTORY_PACK_MISNAMED | EPOCH_INVENTORY_PACK_UNNAMED | EPOCH_INVENTORY_RUN_NOT_CONTIGUOUS
    | EPOCH_INVENTORY_SUMMARY_DISAGREES | EPOCH_INVENTORY_PRESENCE_UNSEALED | EPOCH_INVENTORY_PRESENCE_GAP
    | EPOCH_INVENTORY_PRESENCE_WINDOW_TOO_WIDE | EPOCH_INVENTORY_KID_MISMATCH | EPOCH_INVENTORY_UNKNOWN_KEY
    | RETENTION_UNSUPPORTED_VERSION | RETENTION_BAD_DOCUMENT

end
