(* ===== verification/Cbor.thy ===== *)
theory Cbor
  imports JsOps Positional ReceiptErrors "HOL-Library.Multiset"
begin

text \<open>
  packages/receipt/src/cbor.ts: the one CBOR writer and the two readers of the receipt package. The library
  behind them, cbor2, is a parameter (\<open>codec\<close>): what its \<open>encode\<close> writes under the deterministic options,
  and what its \<open>decode\<close> returns or throws with and without \<open>rejectFloats\<close>. \<open>cborEnc\<close> is the Core
  Deterministic Encoding of RFC 8949, and \<open>lawful\<close> states that the library implements it on the values the
  formats write. A \<open>Buffer\<close> and the \<open>Uint8Array\<close> copied from it are one byte string here, so
  \<open>plainByteInputs\<close>, which changes nothing else, has no counterpart.
\<close>

subsection \<open>Values\<close>

text \<open>
  What \<open>decode\<close> returns under \<open>preferMap\<close>. A \<open>Map\<close> is its entries in order, the first of two equal keys
  being the one \<open>get\<close> answers with; \<open>COther\<close> is every value none of the formats accepts anywhere.
\<close>

datatype cval =
    CNum jsnum
  | CBig int
  | CBytes bytes
  | CText jsstr
  | CArr "cval list"
  | CMap "(cval \<times> cval) list"
  | CTag nat cval
  | CNull
  | CUndef
  | COther

text \<open>\<open>Map.get\<close>; a missing key reads as \<open>undefined\<close>.\<close>

definition cget :: "(cval \<times> cval) list \<Rightarrow> cval \<Rightarrow> cval" where
  "cget m k = (case map_of m k of None \<Rightarrow> CUndef | Some v \<Rightarrow> v)"

abbreviation ctext :: "string \<Rightarrow> cval" where
  "ctext s \<equiv> CText (js s)"

abbreviation cint :: "int \<Rightarrow> cval" where
  "cint i \<equiv> CNum (NInt i)"

text \<open>\<open>raw.get('name')\<close>.\<close>

definition member :: "(cval \<times> cval) list \<Rightarrow> string \<Rightarrow> cval" where
  "member m name = cget m (ctext name)"

definition decodedMap :: "cval \<Rightarrow> (cval \<times> cval) list option" where
  "decodedMap v = (case v of CMap m \<Rightarrow> Some m | _ \<Rightarrow> None)"

subsection \<open>Failures\<close>

text \<open>A throw of the package is a \<open>ReceiptError\<close> with its code, or an exception of a library passed through.\<close>

datatype failure = Refused receipt_error | Thrown

abbreviation refuse :: "receipt_error \<Rightarrow> failure + 'a" where
  "refuse e \<equiv> Inl (Refused e)"

subsection \<open>The library\<close>

record codec =
  cdEncode :: "cval \<Rightarrow> bytes"
  cdDecode :: "bytes \<Rightarrow> cval option"
  cdDecodeNoFloats :: "bytes \<Rightarrow> cval option"

definition encodeCanonical :: "codec \<Rightarrow> cval \<Rightarrow> bytes" where
  "encodeCanonical C v = cdEncode C v"

definition decodeWith :: "(bytes \<Rightarrow> cval option) \<Rightarrow> bytes \<Rightarrow> receipt_error \<Rightarrow> failure + cval" where
  "decodeWith f bs malformed = (case f bs of None \<Rightarrow> refuse malformed | Some v \<Rightarrow> Inr v)"

definition decodeCanonical :: "codec \<Rightarrow> bytes \<Rightarrow> receipt_error \<Rightarrow> failure + cval" where
  "decodeCanonical C bs malformed = decodeWith (cdDecode C) bs malformed"

definition decodeClosedDocument :: "codec \<Rightarrow> bytes \<Rightarrow> receipt_error \<Rightarrow> failure + cval" where
  "decodeClosedDocument C bs malformed = decodeWith (cdDecodeNoFloats C) bs malformed"

subsection \<open>Core Deterministic Encoding\<close>

text \<open>The head of an item: the major type and the argument in its shortest form.\<close>

definition cborHead :: "nat \<Rightarrow> nat \<Rightarrow> bytes" where
  "cborHead major n =
    (if n < 24 then [byteOf (32 * major + n)]
     else if n < 2 ^ 8 then byteOf (32 * major + 24) # beEnc 1 n
     else if n < 2 ^ 16 then byteOf (32 * major + 25) # beEnc 2 n
     else if n < 2 ^ 32 then byteOf (32 * major + 26) # beEnc 4 n
     else byteOf (32 * major + 27) # beEnc 8 n)"

fun bytesLess :: "bytes \<Rightarrow> bytes \<Rightarrow> bool" where
  "bytesLess [] ys = (ys \<noteq> [])"
| "bytesLess (x # xs) [] = False"
| "bytesLess (x # xs) (y # ys) = (x < y \<or> x = y \<and> bytesLess xs ys)"

text \<open>The entries of a map, each with its encoded key, ordered by the bytes of that key.\<close>

fun insertKey :: "(bytes \<times> 'v) \<Rightarrow> (bytes \<times> 'v) list \<Rightarrow> (bytes \<times> 'v) list" where
  "insertKey p [] = [p]"
| "insertKey p (q # qs) = (if bytesLess (fst q) (fst p) then q # insertKey p qs else p # q # qs)"

definition sortKeys :: "(bytes \<times> 'v) list \<Rightarrow> (bytes \<times> 'v) list" where
  "sortKeys ps = foldr insertKey ps []"

definition intEnc :: "int \<Rightarrow> bytes" where
  "intEnc i = (if 0 \<le> i then cborHead 0 (nat i) else cborHead 1 (nat (- 1 - i)))"

fun cborEnc :: "cval \<Rightarrow> bytes" where
  "cborEnc (CNum (NInt i)) = intEnc i"
| "cborEnc (CBytes bs) = cborHead 2 (length bs) @ bs"
| "cborEnc (CText s) = (let u = textEncode s in cborHead 3 (length u) @ u)"
| "cborEnc (CArr xs) = cborHead 4 (length xs) @ concat (map cborEnc xs)"
| "cborEnc (CMap m) = cborHead 5 (length m) @
    concat (map (\<lambda>(k, e). k @ e) (sortKeys (map (\<lambda>(k, v). (cborEnc k, cborEnc v)) m)))"
| "cborEnc (CTag n v) = cborHead 6 n @ cborEnc v"
| "cborEnc CNull = [0xf6]"
| "cborEnc _ = []"

text \<open>
  The values the formats write: integers a number holds exactly, well-formed text, maps whose keys are
  distinct texts or integers, no float and no simple value but null, the tag of COSE_Sign1, and a depth of
  eight, which is more than any of them reaches and far below the limit of the library.
\<close>

fun mapKey :: "cval \<Rightarrow> bool" where
  "mapKey (CText s) = (wfText s \<and> length (textEncode s) < 2 ^ 32)"
| "mapKey (CNum (NInt i)) = (\<bar>i\<bar> \<le> MAX_SAFE_INTEGER)"
| "mapKey _ = False"

fun plain :: "nat \<Rightarrow> cval \<Rightarrow> bool" where
  "plain d (CNum n) = isSafeInteger n"
| "plain d (CBytes bs) = (length bs < 2 ^ 32)"
| "plain d (CText s) = (wfText s \<and> length (textEncode s) < 2 ^ 32)"
| "plain d (CArr xs) = (0 < d \<and> length xs < 2 ^ 32 \<and> (\<forall>x \<in> set xs. plain (d - 1) x))"
| "plain d (CMap m) = (0 < d \<and> length m < 2 ^ 32 \<and> distinct (map fst m) \<and> list_all mapKey (map fst m) \<and>
    (\<forall>e \<in> set m. plain (d - 1) (snd e)))"
| "plain d (CTag n v) = (0 < d \<and> n = 18 \<and> plain (d - 1) v)"
| "plain d CNull = True"
| "plain d _ = False"

text \<open>What a reader gets back: the same value with the entries of every map in the order of the bytes.\<close>

fun canon :: "cval \<Rightarrow> cval" where
  "canon (CArr xs) = CArr (map canon xs)"
| "canon (CMap m) = CMap (map snd (sortKeys (map (\<lambda>(k, v). (cborEnc k, (k, canon v))) m)))"
| "canon (CTag n v) = CTag n (canon v)"
| "canon v = v"

text \<open>The documented behaviour of the library on those values, the one hypothesis about it.\<close>

definition lawful :: "codec \<Rightarrow> bool" where
  "lawful C \<longleftrightarrow> (\<forall>v. plain 8 v \<longrightarrow>
    cdEncode C v = cborEnc v \<and> cdDecode C (cborEnc v) = Some (canon v) \<and>
    cdDecodeNoFloats C (cborEnc v) = Some (canon v))"

subsection \<open>Reading what was written\<close>

text \<open>
  The order of the bytes moves no member: a reader that looks members up by name and asks which names there
  are sees the map the writer built.
\<close>

definition canonEntries :: "(cval \<times> cval) list \<Rightarrow> (cval \<times> cval) list" where
  "canonEntries m = map snd (sortKeys (map (\<lambda>(k, v). (cborEnc k, (k, canon v))) m))"

lemma canon_CMap: "canon (CMap m) = CMap (canonEntries m)"
  by (simp add: canonEntries_def)

lemma mset_insertKey: "mset (insertKey p ps) = add_mset p (mset ps)"
  by (induction ps) auto

lemma mset_sortKeys: "mset (sortKeys ps) = mset ps"
  by (induction ps) (simp_all add: sortKeys_def mset_insertKey)

lemma mset_canonEntries: "mset (canonEntries m) = mset (map (\<lambda>(k, v). (k, canon v)) m)"
  unfolding canonEntries_def mset_map mset_sortKeys multiset.map_comp
  by (rule image_mset_cong) (simp split: prod.split)

lemma length_canonEntries [simp]: "length (canonEntries m) = length m"
  by (metis length_map mset_canonEntries size_mset)

lemma set_canonEntries: "set (canonEntries m) = (\<lambda>(k, v). (k, canon v)) ` set m"
  by (metis list.set_map mset_canonEntries set_mset_mset)

lemma keys_canonEntries: "fst ` set (canonEntries m) = fst ` set m"
  by (force simp: set_canonEntries)

lemma distinct_canonEntries:
  assumes "distinct (map fst m)"
  shows "distinct (map fst (canonEntries m))"
proof -
  have "mset (map fst (canonEntries m)) = mset (map fst m)"
    unfolding mset_map mset_canonEntries multiset.map_comp by (rule image_mset_cong) (simp split: prod.split)
  then show ?thesis using assms mset_eq_imp_distinct_iff by blast
qed

lemma map_of_canonEntries:
  assumes "distinct (map fst m)"
  shows "map_of (canonEntries m) k = map_option canon (map_of m k)"
proof -
  have "map_of (canonEntries m) = map_of (map (\<lambda>(k, v). (k, canon v)) m)"
    using distinct_canonEntries [OF assms] assms
    by (intro map_of_inject_set [THEN iffD2]) (auto simp: set_canonEntries comp_def split_beta)
  then show ?thesis by (simp add: map_of_map)
qed

lemma cget_canonEntries: "distinct (map fst m) \<Longrightarrow> cget (canonEntries m) k = canon (cget m k)"
  by (simp add: cget_def map_of_canonEntries split: option.split)

lemma member_canonEntries: "distinct (map fst m) \<Longrightarrow> member (canonEntries m) n = canon (member m n)"
  by (simp add: member_def cget_canonEntries)

lemma decodedMap_simps [simp]: "decodedMap (CMap m) = Some m" "decodedMap v = Some m' \<longleftrightarrow> v = CMap m'"
  by (auto simp: decodedMap_def split: cval.splits)

lemma plain_text:
  assumes "ascii s" "length s < 2 ^ 32"
  shows "plain d (CText s)" "mapKey (CText s)"
  using assms by (simp_all add: wfText_ascii length_textEncode_ascii)

lemma plain_literal:
  assumes "asciiStr s" "length s < 2 ^ 32"
  shows "plain d (ctext s)" "mapKey (ctext s)"
  using plain_text [OF ascii_js [OF assms(1)]] assms(2) by (simp_all add: js_def)

end
