(* ===== verification/Cose.thy ===== *)
theory Cose
  imports Cbor
begin

text \<open>
  packages/receipt/src/signing.ts and cose.ts: the Ed25519 seal sites, the COSE_Sign1 framing, its protected
  header and the key ids. SHA-256, the curve library and the runtime's own signer are the parameters of
  \<open>receipt_env\<close>. The lemmas are the inversion of the reader, what a seal reads back as, and that the signed
  structure commits to all it frames.
\<close>

subsection \<open>The environment\<close>

text \<open>
  \<open>ed25519.sign\<close> and \<open>ed25519.verify\<close> (with \<open>zip215: false\<close>) throw on widths they do not take, which is
  \<open>None\<close>. \<open>reNative\<close> is \<open>crypto.sign\<close> over the PKCS#8 wrapper, absent where the runtime exposes none.
\<close>

record receipt_env =
  reCodec :: codec
  reSha256 :: "bytes \<Rightarrow> bytes"
  reVerify :: "bytes \<Rightarrow> bytes \<Rightarrow> bytes \<Rightarrow> bool option"
  reSign :: "bytes \<Rightarrow> bytes \<Rightarrow> bytes option"
  rePublicKey :: "bytes \<Rightarrow> bytes"
  reNative :: "(bytes \<Rightarrow> bytes \<Rightarrow> bytes option) option"

definition thrown :: "'a option \<Rightarrow> failure + 'a" where
  "thrown r = (case r of None \<Rightarrow> Inl Thrown | Some x \<Rightarrow> Inr x)"

definition PKCS8_ED25519_SEED_PREFIX :: bytes where
  "PKCS8_ED25519_SEED_PREFIX =
    [0x30, 0x2e, 0x02, 0x01, 0x00, 0x30, 0x05, 0x06, 0x03, 0x2b, 0x65, 0x70, 0x04, 0x22, 0x04, 0x20]"

definition pkcs8Seed :: "bytes \<Rightarrow> bytes option" where
  "pkcs8Seed seed = (if length seed \<noteq> 32 then None else Some (PKCS8_ED25519_SEED_PREFIX @ seed))"

definition nativeEd25519Signer :: "receipt_env \<Rightarrow> (bytes \<Rightarrow> bytes \<Rightarrow> bytes option) option" where
  "nativeEd25519Signer env =
    (case reNative env of
       None \<Rightarrow> None
     | Some sign \<Rightarrow> Some (\<lambda>message seed. case pkcs8Seed seed of None \<Rightarrow> reSign env message seed | Some wrapper \<Rightarrow> sign message wrapper))"

definition signEd25519 :: "receipt_env \<Rightarrow> bytes \<Rightarrow> bytes \<Rightarrow> failure + bytes" where
  "signEd25519 env message privateKey =
    thrown (case nativeEd25519Signer env of
       None \<Rightarrow> reSign env message privateKey
     | Some signer \<Rightarrow> signer message privateKey)"

subsection \<open>Headers and keys\<close>

definition COSE_SIGN1_TAG :: nat where "COSE_SIGN1_TAG = 18"
definition ALG_EDDSA :: int where "ALG_EDDSA = -8"
definition COSE_HEADER_ALG :: int where "COSE_HEADER_ALG = 1"
definition COSE_HEADER_CONTENT_TYPE :: int where "COSE_HEADER_CONTENT_TYPE = 3"
definition COSE_HEADER_KID :: int where "COSE_HEADER_KID = 4"
definition RECEIPT_CONTENT_TYPE :: jsstr where "RECEIPT_CONTENT_TYPE = js ''ashaveri/receipt''"
definition ANCHOR_PROVENANCE_CONTENT_TYPE :: jsstr where
  "ANCHOR_PROVENANCE_CONTENT_TYPE = js ''ashaveri/anchor-provenance''"

definition DECLARED_PROTECTED_LABELS :: "int list" where
  "DECLARED_PROTECTED_LABELS = [COSE_HEADER_ALG, COSE_HEADER_CONTENT_TYPE, COSE_HEADER_KID]"

lemmas label_defs = COSE_SIGN1_TAG_def ALG_EDDSA_def COSE_HEADER_ALG_def COSE_HEADER_CONTENT_TYPE_def
  COSE_HEADER_KID_def DECLARED_PROTECTED_LABELS_def

record protected_header =
  phAlg :: int
  phKid :: bytes
  phContentType :: jsstr

record cose_sign1 =
  coProtected :: bytes
  coUnprotected :: "(cval \<times> cval) list"
  coPayload :: bytes
  coSignature :: bytes

record signing_key =
  skPrivateKey :: bytes
  skPublicKey :: bytes
  skKid :: bytes

definition keyId :: "receipt_env \<Rightarrow> bytes \<Rightarrow> bytes" where
  "keyId env publicKey = reSha256 env publicKey"

definition signingKeyFromSeed :: "receipt_env \<Rightarrow> bytes \<Rightarrow> failure + signing_key" where
  "signingKeyFromSeed env seed =
    (if length seed \<noteq> 32 then refuse BAD_SIGNING_KEY
     else let publicKey = rePublicKey env seed
       in Inr \<lparr>skPrivateKey = seed, skPublicKey = publicKey, skKid = keyId env publicKey\<rparr>)"

text \<open>\<open>equalBytes\<close>: the loop gathers the differing bits and breaks nowhere.\<close>

fun diffBits :: "byte \<Rightarrow> bytes \<Rightarrow> bytes \<Rightarrow> byte" where
  "diffBits d [] bs = d"
| "diffBits d (a # as) [] = diffBits (d OR (a XOR 0)) as []"
| "diffBits d (a # as) (b # bs) = diffBits (d OR (a XOR b)) as bs"

definition sameBytes :: "bytes \<Rightarrow> bytes \<Rightarrow> bool" where
  "sameBytes a b \<longleftrightarrow> length a = length b \<and> diffBits 0 a b = 0"

text \<open>A protected header map, read for one content type; \<open>bad\<close> is the code of a header that is none.\<close>

definition headerLabel :: "cval \<Rightarrow> bool" where
  "headerLabel k \<longleftrightarrow> k \<in> (\<lambda>l. cint l) ` set DECLARED_PROTECTED_LABELS"

definition readAlg :: "(cval \<times> cval) list \<Rightarrow> failure + unit" where
  "readAlg raw =
    (case cget raw (cint COSE_HEADER_ALG) of
       CNum n \<Rightarrow> if n = NInt ALG_EDDSA then Inr () else refuse UNSUPPORTED_ALG
     | _ \<Rightarrow> refuse UNSUPPORTED_ALG)"

definition readKid :: "(cval \<times> cval) list \<Rightarrow> receipt_error \<Rightarrow> failure + bytes" where
  "readKid raw bad =
    (case cget raw (cint COSE_HEADER_KID) of
       CBytes kid \<Rightarrow> if length kid \<noteq> 32 then refuse bad else Inr kid
     | _ \<Rightarrow> refuse bad)"

definition readContentType :: "(cval \<times> cval) list \<Rightarrow> jsstr \<Rightarrow> receipt_error \<Rightarrow> failure + jsstr" where
  "readContentType raw declared bad =
    (case cget raw (cint COSE_HEADER_CONTENT_TYPE) of
       CText contentType \<Rightarrow> if contentType \<noteq> declared then refuse bad else Inr contentType
     | _ \<Rightarrow> refuse bad)"

definition closedHeaderMap :: "receipt_env \<Rightarrow> bytes \<Rightarrow> receipt_error \<Rightarrow> failure + (cval \<times> cval) list" where
  "closedHeaderMap env bs bad =
    bindE (decodeClosedDocument (reCodec env) bs bad) (\<lambda>v.
      case decodedMap v of
        None \<Rightarrow> refuse bad
      | Some raw \<Rightarrow> if list_all headerLabel (map fst raw) then Inr raw else refuse bad)"

definition parseProtectedHeader :: "receipt_env \<Rightarrow> bytes \<Rightarrow> jsstr \<Rightarrow> failure + protected_header" where
  "parseProtectedHeader env bs declared =
    bindE (closedHeaderMap env bs BAD_PROTECTED_HEADER) (\<lambda>raw.
    bindE (readAlg raw) (\<lambda>_.
    bindE (readKid raw BAD_PROTECTED_HEADER) (\<lambda>kid.
    bindE (readContentType raw declared BAD_PROTECTED_HEADER) (\<lambda>contentType.
      Inr \<lparr>phAlg = ALG_EDDSA, phKid = kid, phContentType = contentType\<rparr>))))"

subsection \<open>The framing\<close>

definition sigStructure :: "receipt_env \<Rightarrow> bytes \<Rightarrow> bytes \<Rightarrow> bytes \<Rightarrow> bytes" where
  "sigStructure env protectedBytes externalAad payloadBytes =
    encodeCanonical (reCodec env) (CArr [ctext ''Signature1'', CBytes protectedBytes, CBytes externalAad, CBytes payloadBytes])"

definition buildProtectedHeader :: "receipt_env \<Rightarrow> bytes \<Rightarrow> jsstr \<Rightarrow> bytes" where
  "buildProtectedHeader env kid contentType =
    encodeCanonical (reCodec env) (CMap [(cint COSE_HEADER_ALG, cint ALG_EDDSA),
      (cint COSE_HEADER_CONTENT_TYPE, CText contentType), (cint COSE_HEADER_KID, CBytes kid)])"

definition sealCoseSign1 :: "receipt_env \<Rightarrow> bytes \<Rightarrow> bytes \<Rightarrow> bytes \<Rightarrow> (cval \<times> cval) list \<Rightarrow> bytes" where
  "sealCoseSign1 env protectedBytes payloadBytes signature unprotected =
    encodeCanonical (reCodec env) (CTag COSE_SIGN1_TAG
      (CArr [CBytes protectedBytes, CMap unprotected, CBytes payloadBytes, CBytes signature]))"

definition signCoseSign1 :: "receipt_env \<Rightarrow> bytes \<Rightarrow> signing_key \<Rightarrow> bytes \<Rightarrow> jsstr \<Rightarrow> failure + bytes" where
  "signCoseSign1 env payloadBytes key externalAad contentType =
    (let protectedBytes = buildProtectedHeader env (skKid key) contentType;
         toSign = sigStructure env protectedBytes externalAad payloadBytes
     in bindE (signEd25519 env toSign (skPrivateKey key)) (\<lambda>signature.
          Inr (sealCoseSign1 env protectedBytes payloadBytes signature [])))"

text \<open>The tag and the four elements, which the readers of every sealed document take apart alike.\<close>

definition fourElements :: "cval \<Rightarrow> failure + cose_sign1" where
  "fourElements doc =
    (case doc of
       CTag t contents \<Rightarrow>
         if t \<noteq> COSE_SIGN1_TAG then refuse NOT_COSE_SIGN1
         else (case contents of
            CArr [CBytes protectedBytes, unprotectedMap, CBytes payloadBytes, CBytes signature] \<Rightarrow>
              (case decodedMap unprotectedMap of
                 None \<Rightarrow> refuse NOT_COSE_SIGN1
               | Some unprotected \<Rightarrow>
                   if length signature \<noteq> 64 then refuse NOT_COSE_SIGN1
                   else Inr \<lparr>coProtected = protectedBytes, coUnprotected = unprotected,
                     coPayload = payloadBytes, coSignature = signature\<rparr>)
          | _ \<Rightarrow> refuse NOT_COSE_SIGN1)
     | _ \<Rightarrow> refuse NOT_COSE_SIGN1)"

definition decodeCoseSign1 :: "receipt_env \<Rightarrow> bytes \<Rightarrow> jsstr \<Rightarrow> failure + cose_sign1 \<times> protected_header" where
  "decodeCoseSign1 env bs contentType =
    bindE (decodeCanonical (reCodec env) bs MALFORMED_CBOR) (\<lambda>doc.
    bindE (fourElements doc) (\<lambda>cose.
    bindE (parseProtectedHeader env (coProtected cose) contentType) (\<lambda>header. Inr (cose, header))))"

definition checkSignature :: "receipt_env \<Rightarrow> bytes \<Rightarrow> bytes \<Rightarrow> bytes \<Rightarrow> failure + unit" where
  "checkSignature env signature toSign publicKey =
    bindE (thrown (reVerify env signature toSign publicKey)) (\<lambda>ok. if ok then Inr () else refuse INVALID_SIGNATURE)"

definition verifyCoseSign1 ::
  "receipt_env \<Rightarrow> bytes \<Rightarrow> bytes \<Rightarrow> bytes \<Rightarrow> jsstr \<Rightarrow> failure + cose_sign1 \<times> protected_header" where
  "verifyCoseSign1 env bs publicKey externalAad contentType =
    bindE (decodeCoseSign1 env bs contentType) (\<lambda>(cose, header).
    bindE (failIf (\<not> sameBytes (phKid header) (keyId env publicKey)) (Refused KID_MISMATCH)) (\<lambda>_.
    bindE (checkSignature env (coSignature cose) (sigStructure env (coProtected cose) externalAad (coPayload cose)) publicKey) (\<lambda>_.
      Inr (cose, header))))"

subsection \<open>Comparison and inversion\<close>

lemma xor_byte_0: "(a :: byte) XOR b = 0 \<longleftrightarrow> a = b"
proof
  assume "a XOR b = 0"
  then have "(a XOR b) XOR b = b" by simp
  then show "a = b" by (simp add: xor.assoc)
qed simp

lemma diffBits_0: "length a = length b \<Longrightarrow> diffBits d a b = 0 \<longleftrightarrow> d = 0 \<and> a = b"
  by (induction d a b rule: diffBits.induct) (auto simp: or_eq_0_iff xor_byte_0)

lemma sameBytes_iff [simp]: "sameBytes a b \<longleftrightarrow> a = b"
  using diffBits_0 [of a b 0] by (auto simp: sameBytes_def)

lemma thrown_Inr [simp]: "thrown r = Inr x \<longleftrightarrow> r = Some x"
  by (cases r) (auto simp: thrown_def)

lemma decodeWith_Inr [simp]: "decodeWith f bs e = Inr v \<longleftrightarrow> f bs = Some v"
  by (auto simp: decodeWith_def split: option.splits)

lemma decodeCanonical_Inr [simp]: "decodeCanonical C bs e = Inr v \<longleftrightarrow> cdDecode C bs = Some v"
  by (simp add: decodeCanonical_def)

lemma decodeClosedDocument_Inr [simp]: "decodeClosedDocument C bs e = Inr v \<longleftrightarrow> cdDecodeNoFloats C bs = Some v"
  by (simp add: decodeClosedDocument_def)

lemma closedHeaderMap_Inr:
  "closedHeaderMap env bs bad = Inr raw \<longleftrightarrow>
    cdDecodeNoFloats (reCodec env) bs = Some (CMap raw) \<and> list_all headerLabel (map fst raw)"
  by (auto simp: closedHeaderMap_def result_simps split: option.splits if_splits)

lemma readAlg_Inr: "readAlg raw = Inr u \<longleftrightarrow> cget raw (cint COSE_HEADER_ALG) = cint ALG_EDDSA"
  by (auto simp: readAlg_def split: cval.splits if_splits)

lemma readKid_Inr: "readKid raw e = Inr kid \<longleftrightarrow> cget raw (cint COSE_HEADER_KID) = CBytes kid \<and> length kid = 32"
  by (auto simp: readKid_def split: cval.splits if_splits)

lemma readContentType_Inr:
  "readContentType raw d e = Inr c \<longleftrightarrow> cget raw (cint COSE_HEADER_CONTENT_TYPE) = CText c \<and> c = d"
  by (auto simp: readContentType_def split: cval.splits if_splits)

lemma parseProtectedHeader_Inr:
  "parseProtectedHeader env bs declared = Inr h \<longleftrightarrow>
    (\<exists>raw. cdDecodeNoFloats (reCodec env) bs = Some (CMap raw) \<and> list_all headerLabel (map fst raw) \<and>
      cget raw (cint COSE_HEADER_ALG) = cint ALG_EDDSA \<and> cget raw (cint COSE_HEADER_KID) = CBytes (phKid h) \<and>
      length (phKid h) = 32 \<and> cget raw (cint COSE_HEADER_CONTENT_TYPE) = CText declared \<and>
      h = \<lparr>phAlg = ALG_EDDSA, phKid = phKid h, phContentType = declared\<rparr>)"
  by (auto simp: parseProtectedHeader_def bindE_Inr closedHeaderMap_Inr readAlg_Inr readKid_Inr readContentType_Inr)

lemma fourElements_Inr:
  "fourElements v = Inr co \<longleftrightarrow>
    v = CTag COSE_SIGN1_TAG (CArr [CBytes (coProtected co), CMap (coUnprotected co), CBytes (coPayload co), CBytes (coSignature co)])
      \<and> length (coSignature co) = 64"
  by (cases co) (auto simp: fourElements_def split: cval.splits list.splits option.splits if_splits)

lemma checkSignature_Inr: "checkSignature env s m k = Inr u \<longleftrightarrow> reVerify env s m k = Some True"
  by (auto simp: checkSignature_def bindE_Inr)

lemma decodeCoseSign1_Inr:
  "decodeCoseSign1 env bs ct = Inr (co, h) \<longleftrightarrow>
    (\<exists>v. cdDecode (reCodec env) bs = Some v \<and> fourElements v = Inr co) \<and> parseProtectedHeader env (coProtected co) ct = Inr h"
  by (auto simp: decodeCoseSign1_def bindE_Inr)

lemma verifyCoseSign1_Inr:
  "verifyCoseSign1 env bs pk aad ct = Inr (co, h) \<longleftrightarrow>
    decodeCoseSign1 env bs ct = Inr (co, h) \<and> phKid h = keyId env pk \<and>
    reVerify env (coSignature co) (sigStructure env (coProtected co) aad (coPayload co)) pk = Some True"
  by (auto simp: verifyCoseSign1_def bindE_Inr checkSignature_Inr)

subsection \<open>What a seal reads back as\<close>

lemma lawfulD:
  assumes "lawful C" "plain 8 v"
  shows "cdEncode C v = cborEnc v" "cdDecode C (cdEncode C v) = Some (canon v)" "cdDecodeNoFloats C (cdEncode C v) = Some (canon v)"
  using assms by (simp_all add: lawful_def)

lemma header_reads_back:
  assumes "lawful (reCodec env)" "length kid = 32" "ascii ct" "length ct < 2 ^ 32"
  shows "parseProtectedHeader env (buildProtectedHeader env kid ct) ct =
    Inr \<lparr>phAlg = ALG_EDDSA, phKid = kid, phContentType = ct\<rparr>"
proof -
  define m where "m = [(cint COSE_HEADER_ALG, cint ALG_EDDSA), (cint COSE_HEADER_CONTENT_TYPE, CText ct), (cint COSE_HEADER_KID, CBytes kid)]"
  have d: "distinct (map fst m)" by (simp add: m_def label_defs)
  have "plain 8 (CMap m)"
    using assms(2-4) by (simp add: m_def label_defs MAX_SAFE_INTEGER_def wfText_ascii length_textEncode_ascii)
  then have "cdDecodeNoFloats (reCodec env) (buildProtectedHeader env kid ct) = Some (CMap (canonEntries m))"
    using lawfulD(3) [OF assms(1)] by (simp add: buildProtectedHeader_def encodeCanonical_def m_def [symmetric] canon_CMap del: canon.simps(2))
  moreover have "list_all headerLabel (map fst (canonEntries m))"
    using keys_canonEntries [of m] by (auto simp: list_all_iff m_def headerLabel_def label_defs)
  ultimately show ?thesis
    unfolding parseProtectedHeader_Inr using assms(2) d
    by (auto simp: cget_canonEntries) (simp_all add: m_def cget_def label_defs)
qed

lemma length_cborHead: "length (cborHead major n) \<le> 9"
  by (simp add: cborHead_def)

lemma length_cborEnc_CMap:
  "length (cborEnc (CMap m)) \<le> 9 + sum_list (map (\<lambda>(k, v). length (cborEnc k) + length (cborEnc v)) m)"
proof -
  define ps where "ps = map (\<lambda>(k, v). (cborEnc k, cborEnc v)) m"
  have "length (concat (map (\<lambda>(k, e). k @ e) (sortKeys ps))) = sum_list (map (\<lambda>(k, e). length k + length e) (sortKeys ps))"
    by (induction "sortKeys ps" rule: list.induct) (auto simp: length_concat comp_def split_beta)
  also have "\<dots> = sum_mset (image_mset (\<lambda>(k, e). length k + length e) (mset (sortKeys ps)))"
    by (simp only: mset_map [symmetric] sum_mset_sum_list)
  also have "\<dots> = sum_list (map (\<lambda>(k, e). length k + length e) ps)"
    by (simp only: mset_sortKeys mset_map [symmetric] sum_mset_sum_list)
  finally show ?thesis
    using length_cborHead [of 5 "length m"] by (simp add: ps_def comp_def case_prod_unfold)
qed

text \<open>An upper bound of the encoded length that does not sort.\<close>

fun cborBound :: "cval \<Rightarrow> nat" where
  "cborBound (CBytes bs) = 9 + length bs"
| "cborBound (CText s) = 9 + length (textEncode s)"
| "cborBound (CArr xs) = 9 + sum_list (map cborBound xs)"
| "cborBound (CMap m) = 9 + sum_list (map (\<lambda>(k, v). cborBound k + cborBound v) m)"
| "cborBound (CTag n v) = 9 + cborBound v"
| "cborBound (CNum n) = 9"
| "cborBound (CBig i) = 9"
| "cborBound CNull = 9"
| "cborBound CUndef = 9"
| "cborBound COther = 9"

lemma length_intEnc: "length (intEnc i) \<le> 9"
  by (simp add: intEnc_def length_cborHead)

lemma length_cborEnc: "length (cborEnc v) \<le> cborBound v"
proof (induction v rule: cborBound.induct)
  case (3 xs)
  then have "sum_list (map (length \<circ> cborEnc) xs) \<le> sum_list (map cborBound xs)"
    by (intro sum_list_mono) simp
  then show ?case using length_cborHead [of 4 "length xs"] by (simp add: length_concat)
next
  case (4 m)
  then have "sum_list (map (\<lambda>(k, v). length (cborEnc k) + length (cborEnc v)) m) \<le> sum_list (map (\<lambda>(k, v). cborBound k + cborBound v) m)"
    by (intro sum_list_mono) (auto intro!: add_mono)
  then show ?case using length_cborEnc_CMap [of m] by simp
next
  case (6 n)
  then show ?case by (cases n) (simp_all add: length_intEnc)
qed (simp_all add: Let_def length_cborHead add_mono)

lemma textEncode_js [simp]: "asciiStr s \<Longrightarrow> length (textEncode (js s)) = length s"
  using length_textEncode_ascii [OF ascii_js] by (simp add: js_def)

lemma length_header:
  assumes "lawful (reCodec env)" "length kid = 32" "ascii ct" "length ct < 2 ^ 16"
  shows "length (buildProtectedHeader env kid ct) < 2 ^ 32"
proof -
  define m where "m = [(cint COSE_HEADER_ALG, cint ALG_EDDSA), (cint COSE_HEADER_CONTENT_TYPE, CText ct), (cint COSE_HEADER_KID, CBytes kid)]"
  have "plain 8 (CMap m)"
    using assms(2-4) by (simp add: m_def label_defs MAX_SAFE_INTEGER_def wfText_ascii length_textEncode_ascii)
  then have h: "buildProtectedHeader env kid ct = cborEnc (CMap m)"
    using lawfulD(1) [OF assms(1)] by (simp add: buildProtectedHeader_def encodeCanonical_def m_def)
  have ints: "length (intEnc i) \<le> 9" for i by (simp add: intEnc_def length_cborHead)
  have "sum_list (map (\<lambda>(k, v). length (cborEnc k) + length (cborEnc v)) m) \<le> 200 + length ct"
    using assms(2,3) length_cborHead [of 3 "length ct"] length_cborHead [of 2 32]
    using assms(3) ints [of COSE_HEADER_ALG] ints [of ALG_EDDSA] ints [of COSE_HEADER_CONTENT_TYPE] ints [of COSE_HEADER_KID]
    by (simp add: m_def Let_def length_textEncode_ascii)
  then show ?thesis unfolding h using length_cborEnc_CMap [of m] assms(4) by simp
qed

definition envelopeValue :: "bytes \<Rightarrow> bytes \<Rightarrow> bytes \<Rightarrow> (cval \<times> cval) list \<Rightarrow> cval" where
  "envelopeValue p pl s u = CTag COSE_SIGN1_TAG (CArr [CBytes p, CMap u, CBytes pl, CBytes s])"

lemma seal_reads_back:
  assumes "lawful (reCodec env)" "length p < 2 ^ 32" "length pl < 2 ^ 32" "length s = 64"
  shows "\<exists>v. cdDecode (reCodec env) (sealCoseSign1 env p pl s []) = Some v \<and>
    fourElements v = Inr \<lparr>coProtected = p, coUnprotected = [], coPayload = pl, coSignature = s\<rparr>"
proof -
  have "plain 8 (envelopeValue p pl s [])" using assms(2-4) by (simp add: envelopeValue_def label_defs)
  moreover have "canon (envelopeValue p pl s []) = envelopeValue p pl s []" by (simp add: envelopeValue_def sortKeys_def)
  ultimately show ?thesis
    using lawfulD(2) [OF assms(1)] assms(4)
    by (auto simp: sealCoseSign1_def encodeCanonical_def envelopeValue_def [symmetric])
       (simp add: envelopeValue_def fourElements_Inr)
qed

lemma sigStructure_inject:
  assumes "lawful (reCodec env)"
    and "length p < 2 ^ 32" "length a < 2 ^ 32" "length m < 2 ^ 32" "length p' < 2 ^ 32" "length a' < 2 ^ 32" "length m' < 2 ^ 32"
    and "sigStructure env p a m = sigStructure env p' a' m'"
  shows "p = p' \<and> a = a' \<and> m = m'"
proof -
  have s: "plain 7 (ctext ''Signature1'')" by (rule plain_literal(1)) (simp_all add: asciiStr_def)
  have d: "cdDecode (reCodec env) (sigStructure env p a m) = Some (CArr [ctext ''Signature1'', CBytes p, CBytes a, CBytes m])"
    if "length p < 2 ^ 32" "length a < 2 ^ 32" "length m < 2 ^ 32" for p a m
  proof -
    have "plain 8 (CArr [ctext ''Signature1'', CBytes p, CBytes a, CBytes m])"
      using that s by (simp del: plain.simps(3))
    then show ?thesis using lawfulD(2) [OF assms(1)] by (simp add: sigStructure_def encodeCanonical_def)
  qed
  from d [OF assms(2-4)] d [OF assms(5-7)] show ?thesis unfolding assms(8) by simp
qed

subsection \<open>Signers\<close>

text \<open>A document sealed under a key: what the readers of every format establish of the signature.\<close>

definition sealedBy :: "receipt_env \<Rightarrow> cose_sign1 \<Rightarrow> bytes \<Rightarrow> bool" where
  "sealedBy env co pk \<longleftrightarrow>
    reVerify env (coSignature co) (sigStructure env (coProtected co) [] (coPayload co)) pk = Some True"

text \<open>A key whose halves are a pair: what it signs is 64 bytes and verifies, and its kid is the digest of its public half.\<close>

definition workingKey :: "receipt_env \<Rightarrow> signing_key \<Rightarrow> bool" where
  "workingKey env key \<longleftrightarrow> skKid key = keyId env (skPublicKey key) \<and> length (skKid key) = 32 \<and>
    (\<forall>m. \<exists>s. signEd25519 env m (skPrivateKey key) = Inr s \<and> length s = 64 \<and> reVerify env s m (skPublicKey key) = Some True)"

lemma sealed_opens:
  assumes law: "lawful (reCodec env)" and key: "workingKey env key"
    and ct: "ascii ct" "length ct < 2 ^ 16" and pl: "length pl < 2 ^ 32"
  shows "\<exists>bs co. signCoseSign1 env pl key [] ct = Inr bs \<and>
    decodeCoseSign1 env bs ct = Inr (co, \<lparr>phAlg = ALG_EDDSA, phKid = skKid key, phContentType = ct\<rparr>) \<and>
    coPayload co = pl \<and> coProtected co = buildProtectedHeader env (skKid key) ct \<and> sealedBy env co (skPublicKey key)"
proof -
  define ph where "ph = buildProtectedHeader env (skKid key) ct"
  have kid: "length (skKid key) = 32" using key unfolding workingKey_def by blast
  obtain s where s: "signEd25519 env (sigStructure env ph [] pl) (skPrivateKey key) = Inr s" "length s = 64"
      "reVerify env s (sigStructure env ph [] pl) (skPublicKey key) = Some True"
    using key unfolding workingKey_def by blast
  have len: "length ph < 2 ^ 32" unfolding ph_def by (rule length_header [OF law kid ct])
  have ct': "length ct < 2 ^ 32" using ct(2) by simp
  obtain v where v: "cdDecode (reCodec env) (sealCoseSign1 env ph pl s []) = Some v"
      "fourElements v = Inr \<lparr>coProtected = ph, coUnprotected = [], coPayload = pl, coSignature = s\<rparr>"
    using seal_reads_back [OF law len pl s(2)] by blast
  have "signCoseSign1 env pl key [] ct = Inr (sealCoseSign1 env ph pl s [])"
    using s(1) by (simp add: signCoseSign1_def ph_def [symmetric])
  moreover have "decodeCoseSign1 env (sealCoseSign1 env ph pl s []) ct =
      Inr (\<lparr>coProtected = ph, coUnprotected = [], coPayload = pl, coSignature = s\<rparr>,
        \<lparr>phAlg = ALG_EDDSA, phKid = skKid key, phContentType = ct\<rparr>)"
    unfolding decodeCoseSign1_Inr using v header_reads_back [OF law kid ct(1) ct'] by (simp add: ph_def)
  ultimately show ?thesis using s(3) by (auto simp: ph_def sealedBy_def)
qed

end
