(* ===== verification/Doubles.thy ===== *)
theory Doubles
  imports Complex_Main Json JsOps
begin

text \<open>
  IEEE 754 double arithmetic on rationals: \<open>rnd x\<close> is the double nearest to \<open>x\<close>, ties to the even
  significand, with 53 significant bits or the subnormal step \<open>2 ^ -1074\<close>; an operation of the source
  is the exact operation followed by \<open>rnd\<close>. Overflow to infinity is left out: where a model uses
  \<open>rnd\<close> it says why its values stay finite. The lemmas show that rounding is monotone, exact on
  integers up to \<open>2 ^ 53\<close>, and within one part in \<open>2 ^ 53\<close>.
\<close>

definition binade :: "rat \<Rightarrow> int" where
  "binade x =
    (let (a, b) = quotient_of x; l = int (bitLen (nat a)) - int (bitLen (nat b)) in
     if 2 powi l \<le> x then l else l - 1)"

definition roundEven :: "rat \<Rightarrow> int" where
  "roundEven x =
    (let f = \<lfloor>x\<rfloor>; r = x - of_int f in
     if r < 1 / 2 \<or> r = 1 / 2 \<and> even f then f else f + 1)"

definition ulpExp :: "rat \<Rightarrow> int" where
  "ulpExp x = max (binade x - 52) (- 1074)"

definition rnd :: "rat \<Rightarrow> rat" where
  "rnd x = (if x = 0 then 0 else sgn x * of_int (roundEven (\<bar>x\<bar> / 2 powi ulpExp \<bar>x\<bar>)) * 2 powi ulpExp \<bar>x\<bar>)"

subsection \<open>The binade of a number\<close>

lemma powi_nat: "(2 :: rat) powi int n = 2 ^ n"
  by simp

lemma powi_mono: "m \<le> n \<Longrightarrow> (2 :: rat) powi m \<le> 2 powi n"
  by (rule power_int_increasing) simp_all

lemma powi_strict: "m < n \<Longrightarrow> (2 :: rat) powi m < 2 powi n"
  by (rule power_int_strict_increasing) simp_all

lemma bitLen_rat: "0 < n \<Longrightarrow> (2 :: rat) powi (int (bitLen n) - 1) \<le> of_nat n \<and> of_nat n < (2 :: rat) powi int (bitLen n)"
proof -
  assume n: "0 < n"
  note b = bitLen_bounds [OF n]
  have "int (bitLen n) - 1 = int (bitLen n - 1)" using b by simp
  then have "(2 :: rat) powi (int (bitLen n) - 1) = of_nat (2 ^ (bitLen n - 1))" by (simp only: powi_nat) simp
  moreover have "(2 :: rat) powi int (bitLen n) = of_nat (2 ^ bitLen n)" by simp
  ultimately show ?thesis using b by (simp only: of_nat_le_iff of_nat_less_iff)
qed

lemma binade_bounds:
  assumes "0 < x"
  shows "2 powi binade x \<le> x \<and> x < 2 powi (binade x + 1)"
proof -
  obtain a b where q: "quotient_of x = (a, b)" by (cases "quotient_of x")
  have x: "x = of_int a / of_int b" and b0: "0 < b" using quotient_of_div [OF q] quotient_of_denom_pos [OF q] by simp_all
  have a0: "0 < a" using assms x b0 by (simp add: zero_less_divide_iff)
  define m where "m = bitLen (nat a)"
  define n where "n = bitLen (nat b)"
  have a: "(2 :: rat) powi (int m - 1) \<le> of_int a" "of_int a < (2 :: rat) powi int m"
    using bitLen_rat [of "nat a"] a0 by (simp_all add: m_def of_nat_nat del: of_int_power_less_of_int_cancel_iff)
  have b: "(2 :: rat) powi (int n - 1) \<le> of_int b" "of_int b < (2 :: rat) powi int n"
    using bitLen_rat [of "nat b"] b0 by (simp_all add: n_def of_nat_nat)
  have "x < 2 powi int m / 2 powi (int n - 1)"
    unfolding x by (rule frac_less) (use a b a0 in simp_all)
  then have up: "x < 2 powi (int m - int n + 1)"
    by (simp add: power_int_diff power_int_add)
  have "2 powi (int m - 1) / 2 powi int n \<le> x"
    unfolding x by (rule frac_le) (use a(1) b(2) b0 a0 in \<open>simp_all del: of_int_less_of_int_power_cancel_iff\<close>)
  moreover have "2 powi (int m - int n - 1) = 2 powi (int m - 1) / (2 :: rat) powi int n"
  proof -
    have "int m - int n - 1 = (int m - 1) - int n" by simp
    then show ?thesis by (simp only:) (rule power_int_diff, simp)
  qed
  ultimately have low: "2 powi (int m - int n - 1) \<le> x" by simp
  show ?thesis
    using up low by (auto simp: binade_def q Let_def m_def n_def not_le)
qed

lemma binade_mono:
  assumes "0 < x" "x \<le> y"
  shows "binade x \<le> binade y"
proof (rule ccontr)
  assume "\<not> ?thesis"
  then have "(2 :: rat) powi (binade y + 1) \<le> 2 powi binade x" by (intro powi_mono) simp
  then show False using binade_bounds [of x] binade_bounds [of y] assms by linarith
qed

subsection \<open>Rounding to an integer\<close>

lemma roundEven_int [simp]: "roundEven (of_int n) = n"
  by (simp add: roundEven_def)

lemma roundEven_error: "\<bar>of_int (roundEven x) - x\<bar> \<le> 1 / 2"
  using floor_correct [of x] by (auto simp: roundEven_def Let_def)

lemma roundEven_mono:
  assumes "x \<le> y"
  shows "roundEven x \<le> roundEven y"
proof (cases "\<lfloor>x\<rfloor> = \<lfloor>y\<rfloor>")
  case True
  then show ?thesis using assms by (auto simp: roundEven_def Let_def)
next
  case False
  then have "\<lfloor>x\<rfloor> + 1 \<le> \<lfloor>y\<rfloor>" using floor_mono [OF assms] by simp
  moreover have "roundEven x \<le> \<lfloor>x\<rfloor> + 1" "\<lfloor>y\<rfloor> \<le> roundEven y" by (simp_all add: roundEven_def Let_def)
  ultimately show ?thesis by linarith
qed

subsection \<open>Rounding to a double\<close>

lemma rnd_pos: "0 < x \<Longrightarrow> rnd x = of_int (roundEven (x / 2 powi ulpExp x)) * 2 powi ulpExp x"
  by (simp add: rnd_def)

lemma rnd_0 [simp]: "rnd 0 = 0"
  by (simp add: rnd_def)

lemma rnd_uminus: "rnd (- x) = - rnd x"
  by (simp add: rnd_def)

lemma rnd_exact:
  assumes "0 < x" and "x / 2 powi ulpExp x = of_int n"
  shows "rnd x = x"
  unfolding rnd_pos [OF assms(1)] assms(2) roundEven_int
  unfolding assms(2) [symmetric] by simp

lemma powi_integer: "m \<le> n \<Longrightarrow> \<exists>k. (2 :: rat) powi n / 2 powi m = of_int k"
proof -
  assume "m \<le> n"
  then have "(2 :: rat) powi n / 2 powi m = 2 powi int (nat (n - m))" by (simp add: power_int_diff)
  also have "\<dots> = of_int (2 ^ nat (n - m))" by (simp only: powi_nat) simp
  finally show ?thesis by blast
qed

lemma rnd_powi:
  assumes "0 < x" "x \<le> 2 powi n" "ulpExp x \<le> n"
  shows "rnd x \<le> 2 powi n"
proof -
  obtain k where k: "(2 :: rat) powi n / 2 powi ulpExp x = of_int k" using powi_integer [OF assms(3)] by blast
  have "x / 2 powi ulpExp x \<le> 2 powi n / 2 powi ulpExp x" using assms(2) by (simp add: divide_right_mono)
  then have "roundEven (x / 2 powi ulpExp x) \<le> k" unfolding k using roundEven_mono [of _ "of_int k"] by simp
  then have "of_int (roundEven (x / 2 powi ulpExp x)) * 2 powi ulpExp x \<le> of_int k * (2 :: rat) powi ulpExp x"
    by (intro mult_right_mono) simp_all
  then show ?thesis using assms(1) k by (simp add: rnd_pos field_simps)
qed

lemma rnd_powi_le:
  assumes "0 < y" "2 powi n \<le> y" "ulpExp y \<le> n"
  shows "2 powi n \<le> rnd y"
proof -
  obtain k where k: "(2 :: rat) powi n / 2 powi ulpExp y = of_int k" using powi_integer [OF assms(3)] by blast
  have "2 powi n / 2 powi ulpExp y \<le> y / 2 powi ulpExp y" using assms(2) by (simp add: divide_right_mono)
  then have "k \<le> roundEven (y / 2 powi ulpExp y)" unfolding k using roundEven_mono [of "of_int k"] by simp
  then have "of_int k * (2 :: rat) powi ulpExp y \<le> of_int (roundEven (y / 2 powi ulpExp y)) * 2 powi ulpExp y"
    by (intro mult_right_mono) simp_all
  then show ?thesis using assms(1) k by (simp add: rnd_pos field_simps)
qed

lemma rnd_mono_pos:
  assumes "0 < x" "x \<le> y"
  shows "rnd x \<le> rnd y"
proof (cases "ulpExp x = ulpExp y")
  case True
  have "roundEven (x / 2 powi ulpExp y) \<le> roundEven (y / 2 powi ulpExp y)"
    using assms by (intro roundEven_mono divide_right_mono) simp_all
  then show ?thesis using assms True by (simp add: rnd_pos)
next
  case False
  have y: "0 < y" using assms by simp
  have "binade x \<le> binade y" by (rule binade_mono [OF assms])
  then have u: "ulpExp y = binade y - 52" "ulpExp x < ulpExp y" using False by (auto simp: ulpExp_def)
  then have "binade x < binade y" by (auto simp: ulpExp_def)
  then have "(2 :: rat) powi (binade x + 1) \<le> 2 powi binade y" by (intro powi_mono) simp
  then have "x \<le> 2 powi binade y" using binade_bounds [OF assms(1)] by simp
  then have "rnd x \<le> 2 powi binade y" by (rule rnd_powi [OF assms(1)]) (use u in simp)
  also have "\<dots> \<le> rnd y" by (rule rnd_powi_le [OF y]) (use binade_bounds [OF y] u in simp_all)
  finally show ?thesis .
qed

lemma rnd_nonneg:
  assumes "0 \<le> x"
  shows "0 \<le> rnd x"
proof -
  let ?y = "\<bar>x\<bar> / 2 powi ulpExp \<bar>x\<bar>"
  have "of_int 0 \<le> ?y" by simp
  then have "0 \<le> roundEven ?y" using roundEven_mono [of "of_int 0" ?y] roundEven_int [of 0] by metis
  then show ?thesis using assms by (simp add: rnd_def)
qed

lemma rnd_mono: "x \<le> y \<Longrightarrow> rnd x \<le> rnd y"
proof -
  assume xy: "x \<le> y"
  consider "0 < x" | "x \<le> 0" "0 \<le> y" | "y < 0" by linarith
  then show ?thesis
  proof cases
    case 1
    then show ?thesis using xy by (rule rnd_mono_pos)
  next
    case 2
    then show ?thesis using rnd_nonneg [of "- x"] rnd_nonneg [of y] by (simp add: rnd_uminus)
  next
    case 3
    then show ?thesis using rnd_mono_pos [of "- y" "- x"] xy by (simp add: rnd_uminus)
  qed
qed

lemma rnd_of_int:
  assumes "\<bar>n\<bar> \<le> 2 ^ 53"
  shows "rnd (of_int n) = of_int n"
proof -
  have pos: "rnd (of_int n) = of_int n" if n: "0 < n" "n \<le> 2 ^ 53" for n
  proof -
    let ?x = "of_int n :: rat"
    have x: "0 < ?x" using n by simp
    show ?thesis
    proof (cases "n = 2 ^ 53")
      case True
      have e: "?x = 2 powi 53" using True by simp
      have "binade ?x = 53"
      proof (rule antisym)
        show "binade ?x \<le> 53"
        proof (rule ccontr)
          assume "\<not> ?thesis"
          then have "(2 :: rat) powi 54 \<le> 2 powi binade ?x" by (intro powi_mono) simp
          then show False using binade_bounds [OF x] e by simp
        qed
        show "53 \<le> binade ?x"
        proof (rule ccontr)
          assume "\<not> ?thesis"
          then have "(2 :: rat) powi (binade ?x + 1) \<le> 2 powi 53" by (intro powi_mono) simp
          then show False using binade_bounds [OF x] e by simp
        qed
      qed
      then have "ulpExp ?x = 1" by (simp add: ulpExp_def)
      then show ?thesis using x e by (intro rnd_exact [of _ "2 ^ 52"]) simp_all
    next
      case False
      have "binade ?x < 53"
      proof (rule ccontr)
        assume "\<not> ?thesis"
        then have "(2 :: rat) powi 53 \<le> 2 powi binade ?x" by (intro powi_mono) simp
        then have "of_int (2 ^ 53) \<le> ?x" using binade_bounds [OF x] by simp
        then show False using n False by (simp only: of_int_le_iff)
      qed
      then have u: "ulpExp ?x \<le> 0" by (simp add: ulpExp_def)
      then obtain k where "(2 :: rat) powi 0 / 2 powi ulpExp ?x = of_int k" using powi_integer by blast
      then have "?x / 2 powi ulpExp ?x = of_int (n * k)" by (simp add: field_simps)
      then show ?thesis by (rule rnd_exact [OF x])
    qed
  qed
  consider "0 < n" | "n = 0" | "n < 0" by linarith
  then show ?thesis
  proof cases
    case 3
    then show ?thesis using pos [of "- n"] assms by (simp add: rnd_uminus)
  qed (use pos assms in simp_all)
qed

lemma rnd_error:
  assumes "2 powi - 1022 \<le> x"
  shows "\<bar>rnd x - x\<bar> \<le> x / 2 ^ 53"
proof -
  have x: "0 < x" using assms zero_less_power_int [of "2 :: rat" "- 1022"] by linarith
  let ?u = "2 powi ulpExp x :: rat"
  have "- 1022 \<le> binade x"
  proof (rule ccontr)
    assume "\<not> ?thesis"
    then have "(2 :: rat) powi (binade x + 1) \<le> 2 powi - 1022" by (intro powi_mono) simp
    then show False using binade_bounds [OF x] assms by linarith
  qed
  then have "ulpExp x = binade x - 52" by (simp add: ulpExp_def)
  then have u: "?u / 2 = 2 powi binade x / 2 ^ 53" by (simp add: power_int_diff)
  have "rnd x - x = (of_int (roundEven (x / ?u)) - x / ?u) * ?u" using x by (simp add: rnd_pos field_simps)
  then have "\<bar>rnd x - x\<bar> = \<bar>of_int (roundEven (x / ?u)) - x / ?u\<bar> * ?u" by (simp add: abs_mult)
  also have "\<dots> \<le> 1 / 2 * ?u" by (intro mult_right_mono roundEven_error) simp
  also have "\<dots> = 2 powi binade x / 2 ^ 53" using u by simp
  also have "\<dots> \<le> x / 2 ^ 53" using binade_bounds [OF x] by (intro divide_right_mono) simp_all
  finally show ?thesis .
qed

end
