(* ===== verification/Receipt.thy ===== *)
theory Receipt
  imports Cose Doubles
begin

text \<open>
  packages/receipt/src/receipt.ts with disclosure.ts and line-text.ts: the payload of a receipt at its two
  versions, the reader of it, the writer, and the issue and verification of a receipt. A count or a stamp is
  a \<open>nat\<close>, which the reader establishes of every number it takes; the version of a payload is whether it
  holds \<open>enc\<close>.
\<close>

subsection \<open>Vocabulary\<close>

datatype tee_kind = TeeSoftware | TeeSnp | TeeSnpGpucc | TeeTdx | TeeTdxGpucc

fun teeLabel :: "tee_kind \<Rightarrow> jsstr" where
  "teeLabel TeeSoftware = js ''software''"
| "teeLabel TeeSnp = js ''snp''"
| "teeLabel TeeSnpGpucc = js ''snp+gpucc''"
| "teeLabel TeeTdx = js ''tdx''"
| "teeLabel TeeTdxGpucc = js ''tdx+gpucc''"

definition teeKinds :: "tee_kind list" where
  "teeKinds = [TeeSoftware, TeeSnp, TeeSnpGpucc, TeeTdx, TeeTdxGpucc]"

definition MEASUREMENT_BYTES :: "tee_kind \<Rightarrow> nat" where
  "MEASUREMENT_BYTES k = (if k = TeeSoftware then 32 else 48)"

definition teeOf :: "jsstr \<Rightarrow> tee_kind option" where
  "teeOf s = find (\<lambda>k. teeLabel k = s) teeKinds"

text \<open>The names every object inherits from \<open>Object.prototype\<close>, which the \<open>in\<close> operator finds too.\<close>

definition OBJECT_PROTOTYPE_MEMBERS :: "jsstr list" where
  "OBJECT_PROTOTYPE_MEMBERS = map js [''constructor'', ''hasOwnProperty'', ''isPrototypeOf'', ''propertyIsEnumerable'',
    ''toLocaleString'', ''toString'', ''valueOf'', ''__defineGetter__'', ''__defineSetter__'', ''__lookupGetter__'',
    ''__lookupSetter__'', ''__proto__'']"

definition isTeeKind :: "cval \<Rightarrow> bool" where
  "isTeeKind v = (case v of CText s \<Rightarrow> teeOf s \<noteq> None \<or> s \<in> set OBJECT_PROTOTYPE_MEMBERS | _ \<Rightarrow> False)"

definition claimsConfidentialDevice :: "tee_kind \<Rightarrow> bool" where
  "claimsConfidentialDevice k = startsWith (rev (js ''+gpucc'')) (rev (teeLabel k))"

definition PARSED_VERSIONS :: "int list" where "PARSED_VERSIONS = [1, 2]"

definition isReceiptVersion :: "int \<Rightarrow> bool" where
  "isReceiptVersion v \<longleftrightarrow> v \<in> set PARSED_VERSIONS"

datatype mark_scheme = MarkNone | MarkProvenanceV1

fun schemeLabel :: "mark_scheme \<Rightarrow> jsstr" where
  "schemeLabel MarkNone = js ''none''"
| "schemeLabel MarkProvenanceV1 = js ''provenance-v1''"

definition markingScheme :: "jsstr \<Rightarrow> mark_scheme option" where
  "markingScheme s = find (\<lambda>k. schemeLabel k = s) [MarkNone, MarkProvenanceV1]"

datatype encryption = EncPlaintext | EncSession bytes

definition ENCRYPTION_NONE :: jsstr where "ENCRYPTION_NONE = js ''none''"
definition ENCRYPTION_SESSION :: jsstr where "ENCRYPTION_SESSION = js ''x25519-aes-256-gcm-v1''"

datatype absence = AbsentAtSource | NotTakenIn

fun absenceLabel :: "absence \<Rightarrow> jsstr" where
  "absenceLabel AbsentAtSource = js ''absent-at-source''"
| "absenceLabel NotTakenIn = js ''not-taken-in''"

definition PRESENCE_HELD :: jsstr where "PRESENCE_HELD = js ''held''"

datatype collateral_slot = Held bytes | Absent absence jsstr

record measurement =
  msTee :: tee_kind
  msM :: bytes

record evidence_ref =
  erD :: bytes
  erTs :: nat
  erUrl :: jsstr

record token_metering =
  tmP :: nat
  tmC :: nat

record marking =
  mkSch :: mark_scheme
  mkD :: bytes

record stamp_disclosure =
  sdName :: jsstr
  sdUnc :: "nat option"

record validity_anchor =
  cvCollateral :: collateral_slot
  cvValidity :: collateral_slot

record item_stamp =
  itT :: nat
  itD :: bytes

record receipt_payload =
  rpIss :: jsstr
  rpIns :: jsstr
  rpIat :: nat
  rpNce :: bytes
  rpReq :: bytes
  rpRes :: bytes
  rpMdl :: jsstr
  rpWts :: bytes
  rpMeas :: measurement
  rpAtt :: evidence_ref
  rpEpk :: nat
  rpTok :: token_metering
  rpMk :: marking
  rpSd :: stamp_disclosure
  rpCva :: validity_anchor
  rpItm :: "item_stamp list"
  rpEnc :: "encryption option"

definition receiptVersion :: "receipt_payload \<Rightarrow> int" where
  "receiptVersion p = (case rpEnc p of None \<Rightarrow> 1 | Some _ \<Rightarrow> 2)"

subsection \<open>The closed maps\<close>

datatype defined_map = DefinedMap "jsstr list" "(jsstr \<times> defined_map) list"

definition leafMap :: "string list \<Rightarrow> defined_map" where
  "leafMap names = DefinedMap (map js names) []"

definition PAYLOAD_MEMBERS :: "string list" where
  "PAYLOAD_MEMBERS = [''v'', ''iss'', ''ins'', ''iat'', ''nce'', ''req'', ''res'', ''mdl'', ''wts'', ''meas'', ''att'',
    ''epk'', ''tok'', ''mk'', ''sd'', ''cva'', ''itm'']"

definition PAYLOAD_V2_MEMBERS :: "string list" where
  "PAYLOAD_V2_MEMBERS = PAYLOAD_MEMBERS @ [''enc'']"

definition SHARED_NESTED_MAPS :: "(jsstr \<times> defined_map) list" where
  "SHARED_NESTED_MAPS = map (\<lambda>(n, ms). (js n, leafMap ms))
    [(''meas'', [''tee'', ''m'']), (''att'', [''d'', ''ts'', ''url'']), (''tok'', [''p'', ''c'']),
     (''mk'', [''sch'', ''d'']), (''sd'', [''name'', ''unc'']), (''cva'', [''col'', ''val''])]"

definition DEFINED_MAPS :: "int \<Rightarrow> defined_map" where
  "DEFINED_MAPS v = DefinedMap (map js (if v = 1 then PAYLOAD_MEMBERS else PAYLOAD_V2_MEMBERS)) SHARED_NESTED_MAPS"

text \<open>Whether the walk over a map, and over the maps its definition nests, finds only defined members.\<close>

function membersDefined :: "defined_map \<Rightarrow> (cval \<times> cval) list \<Rightarrow> bool" where
  "membersDefined (DefinedMap members nested) raw =
    list_all (\<lambda>(k, v). case k of
        CText s \<Rightarrow> s \<in> set members \<and>
          (case map_of nested s of
             None \<Rightarrow> True
           | Some inner \<Rightarrow> (case decodedMap v of None \<Rightarrow> True | Some m \<Rightarrow> membersDefined inner m))
      | _ \<Rightarrow> False) raw"
  by pat_completeness auto
termination
proof (relation "measure (\<lambda>(d, raw). size d)", simp, clarsimp)
  fix nested :: "(jsstr \<times> defined_map) list" and s inner
  assume "map_of nested s = Some inner"
  then have "(s, inner) \<in> set nested" by (rule map_of_SomeD)
  then have "size inner < size_list (size_prod (\<lambda>_. 0) size) nested"
    by (induction nested) auto
  then show "size inner < Suc (size_list (size_prod (\<lambda>_. 0) size) nested)" by simp
qed

definition assertMembersAreDefined :: "(cval \<times> cval) list \<Rightarrow> defined_map \<Rightarrow> failure + unit" where
  "assertMembersAreDefined raw defined = failIf (\<not> membersDefined defined raw) (Refused BAD_PAYLOAD)"

subsection \<open>Reading a payload\<close>

text \<open>The checks a position of the payload is written with: a whole number from zero, a text, bytes of a width.\<close>

definition uintOf :: "cval \<Rightarrow> nat option" where
  "uintOf v = (case v of CNum (NInt i) \<Rightarrow> if 0 \<le> i \<and> i \<le> MAX_SAFE_INTEGER then Some (nat i) else None | _ \<Rightarrow> None)"

definition readUint :: "cval \<Rightarrow> failure + nat" where
  "readUint v = (case uintOf v of None \<Rightarrow> refuse BAD_PAYLOAD | Some n \<Rightarrow> Inr n)"

definition readTstr :: "cval \<Rightarrow> failure + jsstr" where
  "readTstr v = (case v of CText s \<Rightarrow> Inr s | _ \<Rightarrow> refuse BAD_PAYLOAD)"

definition readBstr :: "nat \<Rightarrow> cval \<Rightarrow> failure + bytes" where
  "readBstr n v = (case v of CBytes bs \<Rightarrow> if length bs \<noteq> n then refuse BAD_PAYLOAD else Inr bs | _ \<Rightarrow> refuse BAD_PAYLOAD)"

definition readMap :: "cval \<Rightarrow> failure + (cval \<times> cval) list" where
  "readMap v = (case decodedMap v of None \<Rightarrow> refuse BAD_PAYLOAD | Some m \<Rightarrow> Inr m)"

definition claimedVersion :: "cval \<Rightarrow> int list \<Rightarrow> failure + int" where
  "claimedVersion v accepted =
    (case v of
       CNum (NInt i) \<Rightarrow>
         if \<not> isReceiptVersion i then refuse UNSUPPORTED_VERSION
         else if i \<notin> set accepted then refuse UNSUPPORTED_VERSION
         else Inr i
     | _ \<Rightarrow> refuse BAD_PAYLOAD)"

text \<open>\<open>meas\<close>: an inherited name passes \<open>isTeeKind\<close> and has no width, so no byte string is as long.\<close>

definition readMeasurement :: "cval \<Rightarrow> failure + measurement" where
  "readMeasurement v =
    bindE (readMap v) (\<lambda>meas.
      let tee = member meas ''tee'' in
      if \<not> isTeeKind tee then refuse BAD_PAYLOAD
      else case tee of
        CText s \<Rightarrow>
          (case teeOf s of
             None \<Rightarrow> refuse BAD_PAYLOAD
           | Some kind \<Rightarrow> bindE (readBstr (MEASUREMENT_BYTES kind) (member meas ''m'')) (\<lambda>m. Inr \<lparr>msTee = kind, msM = m\<rparr>))
      | _ \<Rightarrow> refuse BAD_PAYLOAD)"

definition readEvidenceRef :: "cval \<Rightarrow> failure + evidence_ref" where
  "readEvidenceRef v =
    bindE (readMap v) (\<lambda>att.
    bindE (readBstr 32 (member att ''d'')) (\<lambda>d.
    bindE (readUint (member att ''ts'')) (\<lambda>ts.
    bindE (readTstr (member att ''url'')) (\<lambda>url. Inr \<lparr>erD = d, erTs = ts, erUrl = url\<rparr>))))"

definition readTokenMetering :: "cval \<Rightarrow> failure + token_metering" where
  "readTokenMetering v =
    bindE (readMap v) (\<lambda>tok.
    bindE (readUint (member tok ''p'')) (\<lambda>p.
    bindE (readUint (member tok ''c'')) (\<lambda>c. Inr \<lparr>tmP = p, tmC = c\<rparr>)))"

definition readMarking :: "(cval \<times> cval) list \<Rightarrow> failure + marking" where
  "readMarking raw =
    (let v = member raw ''mk'' in
     if v = CUndef then refuse BAD_PAYLOAD
     else bindE (readMap v) (\<lambda>mk.
          bindE (readTstr (member mk ''sch'')) (\<lambda>sch.
          case markingScheme sch of
            None \<Rightarrow> refuse UNSUPPORTED_SCHEME
          | Some scheme \<Rightarrow> bindE (readBstr 32 (member mk ''d'')) (\<lambda>d. Inr \<lparr>mkSch = scheme, mkD = d\<rparr>))))"

definition readStampDisclosure :: "(cval \<times> cval) list \<Rightarrow> failure + stamp_disclosure" where
  "readStampDisclosure raw =
    (let v = member raw ''sd'' in
     if v = CUndef then refuse BAD_PAYLOAD
     else bindE (readMap v) (\<lambda>sd.
          bindE (readTstr (member sd ''name'')) (\<lambda>name.
          let unc = member sd ''unc'' in
          if unc \<noteq> CNull then bindE (readUint unc) (\<lambda>n. Inr \<lparr>sdName = name, sdUnc = Some n\<rparr>)
          else Inr \<lparr>sdName = name, sdUnc = None\<rparr>)))"

text \<open>One arm of the anchor, closed by the label that selects it.\<close>

definition readCollateralSlot :: "cval \<Rightarrow> failure + collateral_slot" where
  "readCollateralSlot v =
    bindE (readMap v) (\<lambda>slot.
      case member slot ''p'' of
        CText presence \<Rightarrow>
          if presence = PRESENCE_HELD then
            bindE (assertMembersAreDefined slot (leafMap [''p'', ''d''])) (\<lambda>_.
            bindE (readBstr 32 (member slot ''d'')) (\<lambda>d. Inr (Held d)))
          else (case find (\<lambda>a. absenceLabel a = presence) [AbsentAtSource, NotTakenIn] of
             None \<Rightarrow> refuse BAD_PAYLOAD
           | Some absence \<Rightarrow>
               bindE (assertMembersAreDefined slot (leafMap [''p'', ''r''])) (\<lambda>_.
               bindE (readTstr (member slot ''r'')) (\<lambda>reason. Inr (Absent absence reason))))
      | _ \<Rightarrow> refuse BAD_PAYLOAD)"

definition readCollateralAnchor :: "(cval \<times> cval) list \<Rightarrow> failure + validity_anchor" where
  "readCollateralAnchor raw =
    (let v = member raw ''cva'' in
     if v = CUndef then refuse BAD_PAYLOAD
     else bindE (readMap v) (\<lambda>cva.
          bindE (readCollateralSlot (member cva ''col'')) (\<lambda>col.
          bindE (readCollateralSlot (member cva ''val'')) (\<lambda>validity.
            Inr \<lparr>cvCollateral = col, cvValidity = validity\<rparr>))))"

definition readItemStamp :: "cval \<Rightarrow> failure + item_stamp" where
  "readItemStamp v =
    bindE (readMap v) (\<lambda>one.
    bindE (assertMembersAreDefined one (leafMap [''t'', ''d''])) (\<lambda>_.
    bindE (readUint (member one ''t'')) (\<lambda>stamp.
    bindE (readBstr 32 (member one ''d'')) (\<lambda>d. Inr \<lparr>itT = stamp, itD = d\<rparr>))))"

fun stampsInOrder :: "item_stamp list \<Rightarrow> bool" where
  "stampsInOrder (a # b # rest) = (itT a \<le> itT b \<and> stampsInOrder (b # rest))"
| "stampsInOrder _ = True"

definition readItemStamps :: "(cval \<times> cval) list \<Rightarrow> failure + item_stamp list" where
  "readItemStamps raw =
    (case member raw ''itm'' of
       CArr xs \<Rightarrow>
         if xs = [] then refuse BAD_PAYLOAD
         else bindE (mapE readItemStamp xs) (\<lambda>items.
           if stampsInOrder items then Inr items else refuse ITEM_STAMP_OUT_OF_ORDER)
     | _ \<Rightarrow> refuse BAD_PAYLOAD)"

definition readEncryption :: "(cval \<times> cval) list \<Rightarrow> failure + encryption" where
  "readEncryption raw =
    (let v = member raw ''enc'' in
     if v = CUndef then refuse BAD_PAYLOAD
     else bindE (readMap v) (\<lambda>arm.
          bindE (readTstr (member arm ''sch'')) (\<lambda>sch.
          if sch = ENCRYPTION_NONE then
            bindE (assertMembersAreDefined arm (leafMap [''sch''])) (\<lambda>_. Inr EncPlaintext)
          else if sch = ENCRYPTION_SESSION then
            bindE (assertMembersAreDefined arm (leafMap [''sch'', ''pk''])) (\<lambda>_.
            bindE (readBstr 32 (member arm ''pk'')) (\<lambda>pk. Inr (EncSession pk)))
          else refuse UNSUPPORTED_ENCRYPTION_SCHEME)))"

definition parsePayload :: "receipt_env \<Rightarrow> bytes \<Rightarrow> int list \<Rightarrow> failure + receipt_payload" where
  "parsePayload env bs accepted =
    bindE (decodeClosedDocument (reCodec env) bs BAD_PAYLOAD) (\<lambda>doc.
    bindE (readMap doc) (\<lambda>raw.
    bindE (claimedVersion (member raw ''v'') accepted) (\<lambda>version.
    bindE (assertMembersAreDefined raw (DEFINED_MAPS version)) (\<lambda>_.
    bindE (readTstr (member raw ''iss'')) (\<lambda>iss.
    bindE (readTstr (member raw ''ins'')) (\<lambda>ins.
    bindE (readUint (member raw ''iat'')) (\<lambda>iat.
    bindE (readBstr 16 (member raw ''nce'')) (\<lambda>nce.
    bindE (readBstr 32 (member raw ''req'')) (\<lambda>req.
    bindE (readBstr 32 (member raw ''res'')) (\<lambda>res.
    bindE (readTstr (member raw ''mdl'')) (\<lambda>mdl.
    bindE (readBstr 32 (member raw ''wts'')) (\<lambda>wts.
    bindE (readMeasurement (member raw ''meas'')) (\<lambda>meas.
    bindE (readEvidenceRef (member raw ''att'')) (\<lambda>att.
    bindE (readUint (member raw ''epk'')) (\<lambda>epk.
    bindE (readTokenMetering (member raw ''tok'')) (\<lambda>tok.
    bindE (readMarking raw) (\<lambda>mk.
    bindE (readStampDisclosure raw) (\<lambda>sd.
    bindE (readCollateralAnchor raw) (\<lambda>cva.
    bindE (readItemStamps raw) (\<lambda>itm.
    bindE (if version = 2 then bindE (readEncryption raw) (\<lambda>enc. Inr (Some enc)) else Inr None) (\<lambda>enc.
      Inr \<lparr>rpIss = iss, rpIns = ins, rpIat = iat, rpNce = nce, rpReq = req, rpRes = res, rpMdl = mdl, rpWts = wts,
        rpMeas = meas, rpAtt = att, rpEpk = epk, rpTok = tok, rpMk = mk, rpSd = sd, rpCva = cva, rpItm = itm,
        rpEnc = enc\<rparr>)))))))))))))))))))))"

subsection \<open>Writing a payload\<close>

text \<open>
  The characters that forge a line: control and format characters (the Unicode classes Cc and Cf), the two
  separators and the tag block.
\<close>

definition FORMAT_CHARACTERS :: "(nat \<times> nat) list" where
  "FORMAT_CHARACTERS = [(0xad, 0xad), (0x600, 0x605), (0x61c, 0x61c), (0x6dd, 0x6dd), (0x70f, 0x70f), (0x890, 0x891),
    (0x8e2, 0x8e2), (0x180e, 0x180e), (0x200b, 0x200f), (0x202a, 0x202e), (0x2060, 0x2064), (0x2066, 0x206f),
    (0xfeff, 0xfeff), (0xfff9, 0xfffb), (0x110bd, 0x110bd), (0x110cd, 0x110cd), (0x13430, 0x1343f),
    (0x1bca0, 0x1bca3), (0x1d173, 0x1d17a), (0xe0001, 0xe0001), (0xe0020, 0xe007f)]"

definition forgesALine :: "nat \<Rightarrow> bool" where
  "forgesALine c \<longleftrightarrow> c \<le> 0x1f \<or> 0x7f \<le> c \<and> c \<le> 0x9f \<or> list_ex (\<lambda>(a, b). a \<le> c \<and> c \<le> b) FORMAT_CHARACTERS \<or>
    c = 0x2028 \<or> c = 0x2029 \<or> 0xe0000 \<le> c \<and> c \<le> 0xe007f"

definition firstForgingCodePoint :: "jsstr \<Rightarrow> nat option" where
  "firstForgingCodePoint s = find forgesALine (utf16_points s)"

definition assertLineSafeText :: "jsstr \<Rightarrow> failure + unit" where
  "assertLineSafeText s =
    bindE (failIf (firstForgingCodePoint s \<noteq> None) (Refused BAD_PAYLOAD)) (\<lambda>_.
      failIf (s \<noteq> jsTrim s) (Refused BAD_PAYLOAD))"

fun slotTexts :: "collateral_slot \<Rightarrow> jsstr list" where
  "slotTexts (Held _) = []"
| "slotTexts (Absent _ reason) = [reason]"

definition attestedTexts :: "receipt_payload \<Rightarrow> jsstr list" where
  "attestedTexts p = [rpIss p, rpIns p, rpMdl p, erUrl (rpAtt p), schemeLabel (mkSch (rpMk p)), sdName (rpSd p)] @
    slotTexts (cvCollateral (rpCva p)) @ slotTexts (cvValidity (rpCva p))"

definition assertEncodable :: "receipt_payload \<Rightarrow> failure + unit" where
  "assertEncodable p = bindE (mapE assertLineSafeText (attestedTexts p)) (\<lambda>_. Inr ())"

definition markingMembers :: "marking \<Rightarrow> cval" where
  "markingMembers mk = CMap [(ctext ''sch'', CText (schemeLabel (mkSch mk))), (ctext ''d'', CBytes (mkD mk))]"

fun collateralSlotMembers :: "collateral_slot \<Rightarrow> cval" where
  "collateralSlotMembers (Held d) = CMap [(ctext ''p'', CText PRESENCE_HELD), (ctext ''d'', CBytes d)]"
| "collateralSlotMembers (Absent a reason) = CMap [(ctext ''p'', CText (absenceLabel a)), (ctext ''r'', CText reason)]"

fun encryptionMembers :: "encryption \<Rightarrow> cval" where
  "encryptionMembers EncPlaintext = CMap [(ctext ''sch'', CText ENCRYPTION_NONE)]"
| "encryptionMembers (EncSession pk) = CMap [(ctext ''sch'', CText ENCRYPTION_SESSION), (ctext ''pk'', CBytes pk)]"

definition itemMembers :: "item_stamp \<Rightarrow> cval" where
  "itemMembers it = CMap [(ctext ''t'', cint (int (itT it))), (ctext ''d'', CBytes (itD it))]"

definition payloadEntries :: "receipt_payload \<Rightarrow> (cval \<times> cval) list" where
  "payloadEntries p =
    [(ctext ''v'', cint (receiptVersion p)), (ctext ''iss'', CText (rpIss p)), (ctext ''ins'', CText (rpIns p)),
     (ctext ''iat'', cint (int (rpIat p))), (ctext ''nce'', CBytes (rpNce p)), (ctext ''req'', CBytes (rpReq p)),
     (ctext ''res'', CBytes (rpRes p)), (ctext ''mdl'', CText (rpMdl p)), (ctext ''wts'', CBytes (rpWts p)),
     (ctext ''meas'', CMap [(ctext ''tee'', CText (teeLabel (msTee (rpMeas p)))), (ctext ''m'', CBytes (msM (rpMeas p)))]),
     (ctext ''att'', CMap [(ctext ''d'', CBytes (erD (rpAtt p))), (ctext ''ts'', cint (int (erTs (rpAtt p)))),
       (ctext ''url'', CText (erUrl (rpAtt p)))]),
     (ctext ''epk'', cint (int (rpEpk p))),
     (ctext ''tok'', CMap [(ctext ''p'', cint (int (tmP (rpTok p)))), (ctext ''c'', cint (int (tmC (rpTok p))))]),
     (ctext ''mk'', markingMembers (rpMk p)),
     (ctext ''sd'', CMap [(ctext ''name'', CText (sdName (rpSd p))),
       (ctext ''unc'', case sdUnc (rpSd p) of None \<Rightarrow> CNull | Some n \<Rightarrow> cint (int n))]),
     (ctext ''cva'', CMap [(ctext ''col'', collateralSlotMembers (cvCollateral (rpCva p))),
       (ctext ''val'', collateralSlotMembers (cvValidity (rpCva p)))]),
     (ctext ''itm'', CArr (map itemMembers (rpItm p)))] @
    (case rpEnc p of None \<Rightarrow> [] | Some enc \<Rightarrow> [(ctext ''enc'', encryptionMembers enc)])"

definition encodePayload :: "receipt_env \<Rightarrow> receipt_payload \<Rightarrow> failure + bytes" where
  "encodePayload env p =
    bindE (assertEncodable p) (\<lambda>_. Inr (encodeCanonical (reCodec env) (CMap (payloadEntries p))))"

definition issueReceipt :: "receipt_env \<Rightarrow> receipt_payload \<Rightarrow> signing_key \<Rightarrow> failure + bytes" where
  "issueReceipt env p key =
    bindE (encodePayload env p) (\<lambda>payloadBytes.
    bindE (failIf (length (msM (rpMeas p)) \<noteq> MEASUREMENT_BYTES (msTee (rpMeas p))) (Refused BAD_PAYLOAD)) (\<lambda>_.
      signCoseSign1 env payloadBytes key [] RECEIPT_CONTENT_TYPE))"

subsection \<open>Verification\<close>

record verify_receipt_options =
  rvPublicKey :: "bytes option"
  rvResolveKey :: "(bytes \<Rightarrow> bytes option) option"
  rvExpectedNonce :: "bytes option"
  rvNowSeconds :: "jsnum option"
  rvFreshnessSeconds :: "rat option"
  rvEvidenceFreshnessSeconds :: "rat option"
  rvAcceptedVersions :: "int list option"

record verified_receipt =
  vcPayload :: receipt_payload
  vcHeader :: protected_header
  vcCose :: cose_sign1

definition acceptedVersions :: "int list option \<Rightarrow> int list" where
  "acceptedVersions given = (case given of None \<Rightarrow> PARSED_VERSIONS | Some vs \<Rightarrow> vs)"

definition decodeReceipt :: "receipt_env \<Rightarrow> bytes \<Rightarrow> int list option \<Rightarrow> failure + verified_receipt" where
  "decodeReceipt env bs accepted =
    bindE (decodeCoseSign1 env bs RECEIPT_CONTENT_TYPE) (\<lambda>(cose, header).
    bindE (parsePayload env (coPayload cose) (acceptedVersions accepted)) (\<lambda>payload.
      Inr \<lparr>vcPayload = payload, vcHeader = header, vcCose = cose\<rparr>))"

definition EARLIEST_VERIFICATION_SECONDS :: int where "EARLIEST_VERIFICATION_SECONDS = 1000000000"
definition LATEST_VERIFICATION_SECONDS :: int where "LATEST_VERIFICATION_SECONDS = 4294967295"

definition verificationSeconds :: "jsnum \<Rightarrow> failure + int" where
  "verificationSeconds handed =
    (case handed of
       NInt i \<Rightarrow>
         if \<not> isSafeInteger handed \<or> i < EARLIEST_VERIFICATION_SECONDS \<or> LATEST_VERIFICATION_SECONDS < i
         then refuse VERIFICATION_TIME_OUT_OF_RANGE else Inr i
     | _ \<Rightarrow> refuse VERIFICATION_TIME_OUT_OF_RANGE)"

definition isStale :: "rat option \<Rightarrow> int \<Rightarrow> nat \<Rightarrow> bool" where
  "isStale window now stamp = (case window of None \<Rightarrow> False | Some w \<Rightarrow> of_int \<bar>now - int stamp\<bar> > w)"

text \<open>\<open>clockMs\<close> is the reading of \<open>Date.now()\<close>, which is used when no instant was handed over.\<close>

definition verifyReceipt :: "receipt_env \<Rightarrow> int \<Rightarrow> bytes \<Rightarrow> verify_receipt_options \<Rightarrow> failure + verified_receipt" where
  "verifyReceipt env clockMs bs opts =
    bindE (case rvPublicKey opts of
        Some publicKey \<Rightarrow> verifyCoseSign1 env bs publicKey [] RECEIPT_CONTENT_TYPE
      | None \<Rightarrow> (case rvResolveKey opts of
          Some resolveKey \<Rightarrow>
            bindE (decodeCoseSign1 env bs RECEIPT_CONTENT_TYPE) (\<lambda>(cose, header).
              case resolveKey (phKid header) of
                None \<Rightarrow> refuse UNKNOWN_KEY
              | Some key \<Rightarrow> verifyCoseSign1 env bs key [] RECEIPT_CONTENT_TYPE)
        | None \<Rightarrow> refuse UNKNOWN_KEY)) (\<lambda>(cose, header).
    bindE (parsePayload env (coPayload cose) (acceptedVersions (rvAcceptedVersions opts))) (\<lambda>payload.
    bindE (failIf (case rvExpectedNonce opts of None \<Rightarrow> False | Some nonce \<Rightarrow> \<not> sameBytes (rpNce payload) nonce)
        (Refused NONCE_MISMATCH)) (\<lambda>_.
    bindE (case rvNowSeconds opts of Some handed \<Rightarrow> verificationSeconds handed
        | None \<Rightarrow> Inr \<lfloor>rnd (of_int clockMs / 1000)\<rfloor>) (\<lambda>nowSeconds.
    bindE (failIf (isStale (rvFreshnessSeconds opts) nowSeconds (rpIat payload)) (Refused STALE_RECEIPT)) (\<lambda>_.
    bindE (failIf (isStale (rvEvidenceFreshnessSeconds opts) nowSeconds (erTs (rpAtt payload))) (Refused STALE_EVIDENCE)) (\<lambda>_.
      Inr \<lparr>vcPayload = payload, vcHeader = header, vcCose = cose\<rparr>))))))"

end
