(* ===== verification/RecordChain.thy ===== *)
theory RecordChain
  imports Prelude "HOL-Library.Multiset"
begin

text \<open>
  Records linked by digests: each names the digest of the one before it, the first names an anchor and the
  last hashes to the head. The locale \<open>record_chain\<close> states what a framing of records owes such a run, and
  proves what two runs between the same endpoints have in common. A collision is a value, never an assumption
  that there is none.
\<close>

primrec chained :: "('r \<Rightarrow> bytes) \<Rightarrow> ('r \<Rightarrow> bytes) \<Rightarrow> bytes \<Rightarrow> 'r list \<Rightarrow> bytes \<Rightarrow> bool" where
  "chained dg pv c [] h \<longleftrightarrow> c = h"
| "chained dg pv c (r # rs) h \<longleftrightarrow> pv r = c \<and> chained dg pv (dg r) rs h"

lemma chained_append: "chained dg pv c (xs @ ys) h \<longleftrightarrow> (\<exists>d. chained dg pv c xs d \<and> chained dg pv d ys h)"
  by (induction xs arbitrary: c) auto

lemma chained_snoc: "chained dg pv c (xs @ [r]) h \<longleftrightarrow> chained dg pv c xs (pv r) \<and> dg r = h"
  by (auto simp: chained_append)

definition collision :: "(bytes \<Rightarrow> bytes) \<Rightarrow> bytes \<Rightarrow> bytes \<Rightarrow> bool" where
  "collision hash x y \<longleftrightarrow> x \<noteq> y \<and> hash x = hash y"

locale record_chain =
  fixes hash :: "bytes \<Rightarrow> bytes"
    and ok :: "'r \<Rightarrow> bool"
    and frame :: "'r \<Rightarrow> bytes"
    and prev :: "'r \<Rightarrow> bytes"
    and core :: "'r \<Rightarrow> 'c"
  assumes frame_inject: "ok r \<Longrightarrow> ok s \<Longrightarrow> frame r = frame s \<Longrightarrow> core r = core s"
    and prev_core: "core r = core s \<Longrightarrow> prev r = prev s"
begin

definition digest :: "'r \<Rightarrow> bytes" where
  "digest r = hash (frame r)"

lemma digest_inject: "ok r \<Longrightarrow> ok s \<Longrightarrow> digest r = digest s \<Longrightarrow> core r = core s \<or> collision hash (frame r) (frame s)"
  using frame_inject unfolding digest_def collision_def by blast

lemma endpoints_commit:
  assumes "chained digest prev a rs h" "chained digest prev a ss h" "list_all ok rs" "list_all ok ss"
  shows "map core rs = map core ss \<or> (\<exists>r \<in> set rs. \<exists>s \<in> set ss. collision hash (frame r) (frame s)) \<or>
    (\<exists>r \<in> set rs \<union> set ss. hash (frame r) = a)"
  using assms
proof (induction rs arbitrary: ss h rule: rev_induct)
  case Nil
  then show ?case by (cases ss rule: rev_cases) (auto simp: chained_snoc digest_def)
next
  case (snoc r rs)
  show ?case
  proof (cases ss rule: rev_cases)
    case Nil
    then show ?thesis using snoc.prems by (auto simp: chained_snoc digest_def)
  next
    case (snoc ys s)
    with snoc.prems have e: "digest r = digest s" "ok r" "ok s" "chained digest prev a rs (prev r)" "chained digest prev a ys (prev s)"
        "list_all ok rs" "list_all ok ys"
      by (simp_all add: chained_snoc)
    from digest_inject [OF e(2,3,1)] show ?thesis
    proof
      assume c: "core r = core s"
      then have "chained digest prev a ys (prev r)" using e(5) prev_core by metis
      from snoc.IH [OF e(4) this e(6,7)] show ?thesis using c unfolding snoc by auto
    qed (use snoc in auto)
  qed
qed

text \<open>No run of one digest list is a longer run: a run from the anchor determines its length by its head.\<close>

lemma proper_prefix_head:
  assumes "chained digest prev a (rs @ ss) h" "chained digest prev a rs h" "ss \<noteq> []" "list_all ok (rs @ ss)"
  shows "\<exists>r \<in> set (rs @ ss). hash (frame r) = a \<or> (\<exists>s \<in> set (rs @ ss). collision hash (frame r) (frame s))"
proof -
  have "length (map core (rs @ ss)) \<noteq> length (map core rs)" using assms(3) by simp
  then have "map core (rs @ ss) \<noteq> map core rs" by metis
  then show ?thesis using endpoints_commit [OF assms(1,2)] assms(4) by auto
qed

end

end
