(* ===== verification/AttestTypes.thy ===== *)
theory AttestTypes
  imports JsValue
begin

text \<open>
  The shared types of packages/attest-core: the error codes of src/errors.ts (a throw of
  AttestationError is \<open>Inl\<close> of its code; the prose of a message is not modelled), the evidence
  types of src/types.ts, and the operations the package takes from the @noble libraries, which
  are parameters of the model.
\<close>

datatype aerr =
    MALFORMED_ATTESTATION | UNSUPPORTED_VERSION | UNKNOWN_PLATFORM | UNKNOWN_STACK
  | UNSUPPORTED_PLATFORM | TRAILING_BYTES | MALFORMED_QUOTE | UNSUPPORTED_QUOTE
  | MALFORMED_REPORT | MALFORMED_GPU_BUNDLE | UNSUPPORTED_SIGNATURE_ALGO | BAD_EVENT_DIGEST
  | BAD_EVENT_PREIMAGE | EVENT_LOG_MISMATCH | RTMR_MISMATCH | REPORT_DATA_MISMATCH
  | CHALLENGE_MISMATCH | QE_REPORT_MISMATCH | MR_CONFIG_MISMATCH | BAD_MR_CONFIG_ID
  | PIN_MISMATCH | MALFORMED_CERTIFICATE | UNSUPPORTED_CERT_ALGORITHM | CERT_CHAIN_INVALID
  | CERT_EXPIRED | PRODUCT_MISMATCH | MISSING_TRUST_ROOT | BAD_SIGNATURE | DEBUG_NOT_ALLOWED
  | POLICY_NOT_ALLOWED
  | ANCHOR_LEDGER_NOT_SEALED | ANCHOR_LEDGER_BAD_HEADER | ANCHOR_LEDGER_PIN_MISSING
  | ANCHOR_LEDGER_PIN_MISMATCH | ANCHOR_LEDGER_KEY_UNDECLARED | ANCHOR_LEDGER_UNSUPPORTED_VERSION
  | ANCHOR_LEDGER_BAD_DOCUMENT | ANCHOR_LEDGER_FILE_UNNAMED | ANCHOR_LEDGER_BYTES_UNAVAILABLE
  | ANCHOR_LEDGER_DIGEST_MISMATCH | ANCHOR_LEDGER_SPKI_MISMATCH | ANCHOR_LEDGER_LICENCE_UNKNOWN
  | ANCHOR_LEDGER_INSTANT_OUT_OF_RANGE

text \<open>@noble/hashes and @noble/curves: two digests, two ECDSA verifiers and the curve orders.\<close>

record noble =
  sha256 :: "bytes \<Rightarrow> bytes"
  sha384 :: "bytes \<Rightarrow> bytes"
  p256verify :: "bytes \<Rightarrow> bytes \<Rightarrow> bytes \<Rightarrow> bool"
  p384verify :: "bytes \<Rightarrow> bytes \<Rightarrow> bytes \<Rightarrow> bool"
  p256order :: nat
  p384order :: nat

datatype event_version = EV1 | EV2

record runtime_event =
  reEvent :: jsstr
  rePayload :: bytes
  reVersion :: event_version

record tdx_event =
  teImr :: nat
  teEventType :: nat
  teDigest :: bytes
  teEvent :: jsstr
  teEventPayload :: bytes
  teVersion :: event_version
  tePreimage :: "jsstr option"

datatype platform_evidence =
    Tdx bytes "tdx_event list"
  | GcpTdx bytes "tdx_event list" jsval
  | NitroEnclave bytes
  | AwsNitroTpm bytes
  | SevSnp bytes "bytes list" jsstr

datatype stack_kind = Dstack | DstackPod

record stack_evidence =
  seReportData :: bytes
  seRuntimeEvents :: "runtime_event list"
  seConfig :: jsstr
  seReportDataPayload :: "jsstr option"
  seStackKind :: stack_kind

datatype att_version = V0 | V1

record attestation =
  attVersion :: att_version
  attPlatform :: platform_evidence
  attStack :: stack_evidence

definition DSTACK_RUNTIME_EVENT_TYPE :: nat where
  "DSTACK_RUNTIME_EVENT_TYPE = 0x08000001"

definition MAX_ATTESTATION_BYTES :: nat where
  "MAX_ATTESTATION_BYTES = 10 * 1024 * 1024"

text \<open>A concrete instance of the library's record, on which the witnesses evaluate.\<close>

definition quietNoble :: noble where
  "quietNoble = \<lparr>sha256 = \<lambda>m. take 32 (m @ replicate 32 0), sha384 = \<lambda>m. take 48 (m @ replicate 48 0),
    p256verify = \<lambda>s m k. False, p384verify = \<lambda>s m k. False, p256order = 7, p384order = 11\<rparr>"

end
