(* ===== verification/Reader.thy ===== *)
theory Reader
  imports AttestTypes Positional
begin

text \<open>
  The cursor both binary readers of packages/attest-core keep: ScaleReader (src/scale.ts) and
  MsgpackReader (src/msgpack.ts) are a byte array and a position. An operation is a function of the
  cursor that throws a code or returns a value with the moved cursor. Two locales state what a
  reading operation promises; loops over such operations are reasoned about once, inside them.
\<close>

record reader =
  rbytes :: bytes
  rpos :: nat

type_synonym 'a rd = "reader \<Rightarrow> aerr + 'a \<times> reader"

definition rret :: "'a \<Rightarrow> 'a rd" where
  "rret x r = Inr (x, r)"

definition rfail :: "aerr \<Rightarrow> 'a rd" where
  "rfail e r = Inl e"

definition rbind :: "'a rd \<Rightarrow> ('a \<Rightarrow> 'b rd) \<Rightarrow> 'b rd" where
  "rbind f g r = (case f r of Inl e \<Rightarrow> Inl e | Inr (x, r') \<Rightarrow> g x r')"

text \<open>The constructor: the class refuses an input over ten mebibytes.\<close>

definition newReader :: "bytes \<Rightarrow> aerr + reader" where
  "newReader bs =
    (if length bs > MAX_ATTESTATION_BYTES then Inl MALFORMED_ATTESTATION
     else Inr \<lparr>rbytes = bs, rpos = 0\<rparr>)"

definition remaining :: "reader \<Rightarrow> nat" where
  "remaining r = length (rbytes r) - rpos r"

definition assertEnd :: "unit rd" where
  "assertEnd r = (if remaining r \<noteq> 0 then Inl TRAILING_BYTES else Inr ((), r))"

definition requireBytes :: "nat \<Rightarrow> unit rd" where
  "requireBytes n r = (if remaining r < n then Inl MALFORMED_ATTESTATION else Inr ((), r))"

definition readByte :: "byte rd" where
  "readByte = rbind (requireBytes 1) (\<lambda>_ r. Inr (rbytes r ! rpos r, r\<lparr>rpos := rpos r + 1\<rparr>))"

text \<open>\<open>slice(pos, pos + len)\<close> behind \<open>require(len)\<close>.\<close>

definition readFixed :: "nat \<Rightarrow> bytes rd" where
  "readFixed n =
    rbind (requireBytes n)
      (\<lambda>_ r. Inr (slice (rbytes r) (rpos r) (rpos r + n), r\<lparr>rpos := rpos r + n\<rparr>))"

text \<open>\<open>for (let i = 0; i < count; i++) items.push(readItem(...))\<close>.\<close>

fun readTimes :: "nat \<Rightarrow> 'a rd \<Rightarrow> 'a list rd" where
  "readTimes 0 f = rret []"
| "readTimes (Suc n) f = rbind f (\<lambda>x. rbind (readTimes n f) (\<lambda>xs. rret (x # xs)))"

text \<open>The same loop with variables it updates.\<close>

fun foldTimes :: "nat \<Rightarrow> ('s \<Rightarrow> 's rd) \<Rightarrow> 's \<Rightarrow> 's rd" where
  "foldTimes 0 f s = rret s"
| "foldTimes (Suc n) f s = rbind (f s) (foldTimes n f)"

subsection \<open>What is left to read\<close>

definition rest :: "reader \<Rightarrow> bytes" where
  "rest r = drop (rpos r) (rbytes r)"

lemma length_rest [simp]: "length (rest r) = remaining r"
  by (simp add: rest_def remaining_def)

lemma rbind_Inr [result_simps]:
  "rbind f g r = Inr (y, s) \<longleftrightarrow> (\<exists>x r'. f r = Inr (x, r') \<and> g x r' = Inr (y, s))"
  by (auto simp: rbind_def split: sum.splits)

lemma rbind_Inl [result_simps]:
  "rbind f g r = Inl e \<longleftrightarrow> f r = Inl e \<or> (\<exists>x r'. f r = Inr (x, r') \<and> g x r' = Inl e)"
  by (auto simp: rbind_def split: sum.splits)

lemma rret_Inr [simp]: "rret x r = Inr (y, s) \<longleftrightarrow> y = x \<and> s = r"
  by (auto simp: rret_def)

lemma rret_Inl [simp]: "rret x r \<noteq> Inl e"
  by (simp add: rret_def)

lemma rfail_Inr [simp]: "rfail e r \<noteq> Inr y"
  by (simp add: rfail_def)

lemma rfail_Inl [simp]: "rfail e r = Inl d \<longleftrightarrow> d = e"
  by (auto simp: rfail_def)

lemma requireBytes_Inr [result_simps]:
  "requireBytes n r = Inr (u, s) \<longleftrightarrow> n \<le> remaining r \<and> s = r"
  by (auto simp: requireBytes_def)

lemma requireBytes_Inl [result_simps]:
  "requireBytes n r = Inl e \<longleftrightarrow> remaining r < n \<and> e = MALFORMED_ATTESTATION"
  by (auto simp: requireBytes_def)

lemma readByte_Inr [result_simps]:
  "readByte r = Inr (b, s) \<longleftrightarrow>
    0 < remaining r \<and> b = rbytes r ! rpos r \<and> s = r\<lparr>rpos := rpos r + 1\<rparr>"
  by (auto simp: readByte_def result_simps)

lemma readByte_Inl [result_simps]:
  "readByte r = Inl e \<longleftrightarrow> remaining r = 0 \<and> e = MALFORMED_ATTESTATION"
  by (auto simp: readByte_def result_simps)

lemma readFixed_Inr [result_simps]:
  "readFixed n r = Inr (bs, s) \<longleftrightarrow>
    n \<le> remaining r \<and> bs = slice (rbytes r) (rpos r) (rpos r + n) \<and> s = r\<lparr>rpos := rpos r + n\<rparr>"
  by (auto simp: readFixed_def result_simps)

lemma readFixed_Inl [result_simps]:
  "readFixed n r = Inl e \<longleftrightarrow> remaining r < n \<and> e = MALFORMED_ATTESTATION"
  by (auto simp: readFixed_def result_simps)

subsection \<open>The contract of a reading operation\<close>

locale reader_op =
  fixes f :: "'a rd"
  assumes keeps: "f r = Inr (x, r') \<Longrightarrow> rbytes r' = rbytes r"
    and forward: "f r = Inr (x, r') \<Longrightarrow> rpos r \<le> rpos r'"
    and inside: "f r = Inr (x, r') \<Longrightarrow> rpos r \<le> length (rbytes r) \<Longrightarrow> rpos r' \<le> length (rbytes r)"

locale item_reader = reader_op +
  assumes consumes: "f r = Inr (x, r') \<Longrightarrow> rpos r < rpos r'"

lemma reader_op_rret: "reader_op (rret x)"
  by unfold_locales auto

lemma reader_op_rfail: "reader_op (rfail e)"
  by unfold_locales auto

lemma reader_op_rbind:
  assumes "reader_op f" and "\<And>x. reader_op (g x)"
  shows "reader_op (rbind f g)"
proof unfold_locales
  fix r y s
  assume "rbind f g r = Inr (y, s)"
  then obtain x t where f: "f r = Inr (x, t)" and g: "g x t = Inr (y, s)"
    by (auto simp: result_simps)
  note F = reader_op.keeps [OF assms(1) f] reader_op.forward [OF assms(1) f]
    reader_op.inside [OF assms(1) f]
  note G = reader_op.keeps [OF assms(2) g] reader_op.forward [OF assms(2) g]
    reader_op.inside [OF assms(2) g]
  show "rbytes s = rbytes r" using F G by simp
  show "rpos r \<le> rpos s" using F G by simp
  show "rpos r \<le> length (rbytes r) \<Longrightarrow> rpos s \<le> length (rbytes r)" using F G by simp
qed

lemma item_reader_rbind:
  assumes "item_reader f" and "\<And>x. reader_op (g x)"
  shows "item_reader (rbind f g)"
proof -
  have f: "reader_op f" using assms(1) by (rule item_reader.axioms(1))
  have "item_reader_axioms (rbind f g)"
  proof
    fix r y s
    assume "rbind f g r = Inr (y, s)"
    then obtain x t where "f r = Inr (x, t)" and "g x t = Inr (y, s)"
      by (auto simp: result_simps)
    then show "rpos r < rpos s"
      using item_reader.consumes [OF assms(1)] reader_op.forward [OF assms(2)]
      by (metis order_less_le_trans)
  qed
  with reader_op_rbind [OF f assms(2)] show ?thesis by (rule item_reader.intro)
qed

lemma item_reader_then:
  assumes "reader_op f" and "\<And>x. item_reader (g x)"
  shows "item_reader (rbind f g)"
proof -
  have g: "reader_op (g x)" for x using assms(2) by (rule item_reader.axioms(1))
  have "item_reader_axioms (rbind f g)"
  proof
    fix r y s
    assume "rbind f g r = Inr (y, s)"
    then obtain x t where "f r = Inr (x, t)" and "g x t = Inr (y, s)"
      by (auto simp: result_simps)
    then show "rpos r < rpos s"
      using item_reader.consumes [OF assms(2)] reader_op.forward [OF assms(1)]
      by (metis order_le_less_trans)
  qed
  with reader_op_rbind [OF assms(1) g] show ?thesis by (rule item_reader.intro)
qed

lemma reader_op_if: "reader_op f \<Longrightarrow> reader_op g \<Longrightarrow> reader_op (if c then f else g)"
  by simp

lemma item_reader_op: "item_reader f \<Longrightarrow> reader_op f"
  by (rule item_reader.axioms(1))

lemma item_reader_rfail: "item_reader (rfail e)"
  by unfold_locales auto

lemma reader_op_case_sum:
  assumes "\<And>e. reader_op (f e)" and "\<And>x. reader_op (g x)"
  shows "reader_op (case v of Inl e \<Rightarrow> f e | Inr x \<Rightarrow> g x)"
  using assms by (cases v) auto

lemma reader_op_case_option:
  assumes "reader_op f" and "\<And>x. reader_op (g x)"
  shows "reader_op (case v of None \<Rightarrow> f | Some x \<Rightarrow> g x)"
  using assms by (cases v) auto

context reader_op begin

lemma readTimes_op: "reader_op (readTimes n f)"
proof (induction n)
  case 0
  show ?case by (simp add: reader_op_rret)
next
  case (Suc n)
  have "reader_op f" by (rule reader_op_axioms)
  then show ?case using Suc
    by (simp add: reader_op_rbind reader_op_rret)
qed

lemma readTimes_length: "readTimes n f r = Inr (xs, s) \<Longrightarrow> length xs = n"
  by (induction n arbitrary: r xs) (auto simp: result_simps)

end

context item_reader begin

text \<open>Every item costs a byte, so a declared count never outgrows the input.\<close>

lemma readTimes_costs: "readTimes n f r = Inr (xs, s) \<Longrightarrow> rpos r + n \<le> rpos s"
proof (induction n arbitrary: r xs)
  case 0
  then show ?case by simp
next
  case (Suc n)
  then obtain x t ys where f: "f r = Inr (x, t)" and t: "readTimes n f t = Inr (ys, s)"
    by (auto simp: result_simps)
  from consumes [OF f] Suc.IH [OF t] show ?case by simp
qed

lemma readTimes_bounded:
  assumes "readTimes n f r = Inr (xs, s)" and "rpos r \<le> length (rbytes r)"
  shows "length xs \<le> remaining r"
proof -
  have "rpos r + n \<le> rpos s" using assms(1) by (rule readTimes_costs)
  moreover have "rpos s \<le> length (rbytes r)"
    using assms reader_op.inside [OF readTimes_op] by blast
  ultimately show ?thesis
    using readTimes_length [OF assms(1)] by (simp add: remaining_def)
qed

end

subsection \<open>The primitives keep the contract\<close>

interpretation requireBytes: reader_op "requireBytes n" for n
  by unfold_locales (auto simp: result_simps)

interpretation readByte: item_reader readByte
  by unfold_locales (auto simp: result_simps remaining_def)

interpretation readFixed: reader_op "readFixed n" for n
  by unfold_locales (auto simp: result_simps remaining_def)

lemmas reader_intros =
  reader_op_rbind reader_op_rret reader_op_rfail reader_op_if reader_op_case_option
  requireBytes.reader_op_axioms readFixed.reader_op_axioms readByte.reader_op_axioms

subsection \<open>Reading a prefix\<close>

text \<open>\<open>reads f bs x\<close>: whatever follows, \<open>f\<close> on an input that starts with \<open>bs\<close> returns \<open>x\<close> and has consumed exactly \<open>bs\<close>.\<close>

definition reads :: "'a rd \<Rightarrow> bytes \<Rightarrow> 'a \<Rightarrow> bool" where
  "reads f bs x \<longleftrightarrow>
    (\<forall>r t. rpos r \<le> length (rbytes r) \<longrightarrow> rest r = bs @ t \<longrightarrow>
      f r = Inr (x, r\<lparr>rpos := rpos r + length bs\<rparr>))"

lemma reads_rret: "reads (rret x) [] x"
  by (simp add: reads_def rret_def)

lemma rest_advance:
  "rest r = bs @ t \<Longrightarrow> rest (r\<lparr>rpos := rpos r + length bs\<rparr>) = t"
  by (simp add: rest_def) (metis add.commute append_eq_conv_conj drop_drop)

lemma inside_advance:
  "rpos r \<le> length (rbytes r) \<Longrightarrow> rest r = bs @ t \<Longrightarrow> rpos r + length bs \<le> length (rbytes r)"
  using length_rest [of r] by (simp add: remaining_def)

lemma reads_rbind:
  assumes "reads f bs x" and "reads (g x) cs y"
  shows "reads (rbind f g) (bs @ cs) y"
  unfolding reads_def
proof (intro allI impI)
  fix r t
  assume in_r: "rpos r \<le> length (rbytes r)" and r: "rest r = (bs @ cs) @ t"
  let ?s = "r\<lparr>rpos := rpos r + length bs\<rparr>"
  have f: "f r = Inr (x, ?s)"
    using assms(1) in_r r by (simp add: reads_def)
  have s: "rest ?s = cs @ t" using r by (intro rest_advance) simp
  have in_s: "rpos ?s \<le> length (rbytes ?s)" using inside_advance [OF in_r] r by simp
  have "g x ?s = Inr (y, ?s\<lparr>rpos := rpos ?s + length cs\<rparr>)"
    using assms(2) s in_s unfolding reads_def by blast
  then show "rbind f g r = Inr (y, r\<lparr>rpos := rpos r + length (bs @ cs)\<rparr>)"
    using f by (simp add: rbind_def add.assoc)
qed

lemma reads_readByte: "reads readByte [b] b"
proof -
  have "rbytes r ! rpos r = b" if "rest r = b # t" for r t
    using that by (metis rest_def nth_via_drop)
  moreover have "0 < remaining r" if "rest r = b # t" for r t
    using that length_rest [of r] by simp
  ultimately show ?thesis by (simp add: reads_def readByte_Inr)
qed

lemma reads_readFixed: "n = length bs \<Longrightarrow> reads (readFixed n) bs bs"
proof -
  have "slice (rbytes r) (rpos r) (rpos r + length bs) = bs \<and> length bs \<le> remaining r"
    if "rest r = bs @ t" for r t
    using that length_rest [of r] by (simp add: slice_def rest_def [symmetric])
  then show "n = length bs \<Longrightarrow> reads (readFixed n) bs bs"
    by (auto simp: reads_def readFixed_Inr)
qed

lemma reads_readTimes:
  "list_all2 (reads f) bss xs \<Longrightarrow> reads (readTimes (length xs) f) (concat bss) xs"
proof (induction bss xs rule: list_all2_induct)
  case Nil
  then show ?case by (simp add: reads_rret)
next
  case (Cons bs bss x xs)
  have "reads (readTimes (Suc (length xs)) f) (bs @ concat bss @ []) (x # xs)"
    unfolding readTimes.simps
    by (intro reads_rbind [OF Cons.hyps(1)] reads_rbind [OF Cons.IH] reads_rret)
  then show ?case by simp
qed

lemma reads_start:
  "reads f bs x \<Longrightarrow> f \<lparr>rbytes = bs @ t, rpos = 0\<rparr> = Inr (x, \<lparr>rbytes = bs @ t, rpos = length bs\<rparr>)"
  by (simp add: reads_def rest_def)

end
