(* ===== verification/Scale.thy ===== *)
theory Scale
  imports Reader
begin

text \<open>
  ScaleReader of packages/attest-core/src/scale.ts: little-endian fields, the compact length of
  SCALE in its one-, two- and four-byte modes, length-prefixed vectors and strings. \<open>compact\<close>
  is a reference encoder of the compact form; the lemmas show that the reader inverts it, that
  every operation moves the cursor forward inside the input, and what each mode refuses.
\<close>

definition readU32 :: "nat rd" where
  "readU32 =
    rbind (requireBytes 4) (\<lambda>_ r.
      let b = rbytes r; p = rpos r;
          v = u32or (b ! p) (b ! (p + 1)) (b ! (p + 2)) (b ! (p + 3))
      in Inr (unat v, r\<lparr>rpos := p + 4\<rparr>))"

definition readCompact :: "nat rd" where
  "readCompact =
    rbind (requireBytes 1) (\<lambda>_ r.
      let b = rbytes r; p = rpos r; first = b ! p; mode = first AND 3
      in if mode = 0 then Inr (unat (drop_bit 2 first), r\<lparr>rpos := p + 1\<rparr>)
         else if mode = 1 then
           rbind (requireBytes 2) (\<lambda>_ r.
             Inr (unat (drop_bit 2 (u32or (b ! p) (b ! (p + 1)) 0 0)), r\<lparr>rpos := p + 2\<rparr>)) r
         else if mode = 2 then
           rbind (requireBytes 4) (\<lambda>_ r.
             let v = u32or (b ! p) (b ! (p + 1)) (b ! (p + 2)) (b ! (p + 3));
                 len = unat (drop_bit 2 v)
             in if len > MAX_ATTESTATION_BYTES then Inl MALFORMED_ATTESTATION
                else Inr (len, r\<lparr>rpos := p + 4\<rparr>)) r
         else Inl MALFORMED_ATTESTATION)"

definition readVec :: "bytes rd" where
  "readVec = rbind readCompact readFixed"

definition readString :: "jsstr rd" where
  "readString =
    rbind readVec (\<lambda>bs.
      case textDecodeFatal bs of Some s \<Rightarrow> rret s | None \<Rightarrow> rfail MALFORMED_ATTESTATION)"

definition readVecItems :: "'a rd \<Rightarrow> 'a list rd" where
  "readVecItems readItem = rbind readCompact (\<lambda>count. readTimes count readItem)"

subsection \<open>The contract\<close>

lemma readU32_Inr:
  "readU32 r = Inr (v, s) \<longleftrightarrow>
    4 \<le> remaining r \<and> v = leNat (slice (rbytes r) (rpos r) (rpos r + 4)) \<and>
    s = r\<lparr>rpos := rpos r + 4\<rparr>"
proof -
  have "leNat (slice (rbytes r) (rpos r) (rpos r + 4)) =
      leNat [rbytes r ! rpos r, rbytes r ! (rpos r + 1), rbytes r ! (rpos r + 2), rbytes r ! (rpos r + 3)]"
    if "4 \<le> remaining r"
  proof -
    have "slice (rbytes r) (rpos r) (rpos r + 4) =
        [rbytes r ! rpos r, rbytes r ! (rpos r + 1), rbytes r ! (rpos r + 2), rbytes r ! (rpos r + 3)]"
      using that by (intro nth_equalityI)
        (auto simp: remaining_def nth_slice less_Suc_eq numeral_eq_Suc nth_Cons split: nat.splits)
    then show ?thesis by simp
  qed
  then show ?thesis
    by (auto simp: readU32_def result_simps Let_def unat_u32or)
qed

interpretation readU32: item_reader readU32
  by unfold_locales (auto simp: readU32_Inr remaining_def)

interpretation readCompact: item_reader readCompact
  by unfold_locales
     (auto simp: readCompact_def result_simps Let_def remaining_def split: if_splits)

lemma item_readVec: "item_reader readVec"
  unfolding readVec_def
  by (rule item_reader_rbind) (rule readCompact.item_reader_axioms, rule readFixed.reader_op_axioms)

interpretation readVec: item_reader readVec
  by (rule item_readVec)

lemma item_readString: "item_reader readString"
  unfolding readString_def
  by (rule item_reader_rbind) (auto intro!: reader_intros item_readVec)

interpretation readString: item_reader readString
  by (rule item_readString)

lemma item_readVecItems: "reader_op f \<Longrightarrow> item_reader (readVecItems f)"
  unfolding readVecItems_def
  by (rule item_reader_rbind) (auto intro: readCompact.item_reader_axioms reader_op.readTimes_op)

text \<open>A count-prefixed list of items that each consume a byte is no longer than what was left.\<close>

lemma readVecItems_bounded:
  assumes "item_reader f" and "readVecItems f r = Inr (xs, s)" and "rpos r \<le> length (rbytes r)"
  shows "length xs < remaining r"
proof -
  obtain n t where c: "readCompact r = Inr (n, t)" and x: "readTimes n f t = Inr (xs, s)"
    using assms(2) by (auto simp: readVecItems_def result_simps)
  have "length xs \<le> remaining t"
    using item_reader.readTimes_bounded [OF assms(1) x] readCompact.inside [OF c assms(3)]
      readCompact.keeps [OF c] by simp
  moreover have "remaining t < remaining r"
    using readCompact.consumes [OF c] readCompact.keeps [OF c] readCompact.inside [OF c assms(3)]
    by (simp add: remaining_def)
  ultimately show ?thesis by simp
qed

lemma unat_drop2_byte: "unat (drop_bit 2 (b :: byte)) = unat b div 4"
  by (simp add: drop_bit_eq_div unat_div_distrib)

lemma unat_drop2_u32: "unat (drop_bit 2 (w :: 32 word)) = unat w div 4"
  by (simp add: drop_bit_eq_div unat_div_distrib)

lemma readCompact_limit:
  "readCompact r = Inr (n, s) \<Longrightarrow> n \<le> MAX_ATTESTATION_BYTES"
proof -
  have a: "unat (drop_bit 2 (b :: byte)) \<le> 10485760" for b
    by (rule order_trans [OF unat_byte_le]) simp
  have b: "unat (drop_bit 2 (u32or b c 0 0)) < 65536" for b c
  proof -
    have "unat (drop_bit 2 (u32or b c 0 0)) \<le> unat (u32or b c 0 0)"
      by (simp add: unat_drop2_u32)
    also have "unat (u32or b c 0 0) = unat b + 256 * unat c" by (simp add: unat_u32or)
    also have "\<dots> \<le> 255 + 256 * 255"
      by (rule add_mono [OF unat_byte_le mult_le_mono2 [OF unat_byte_le]])
    finally show ?thesis by simp
  qed
  show "readCompact r = Inr (n, s) \<Longrightarrow> n \<le> MAX_ATTESTATION_BYTES"
    using a [of "rbytes r ! rpos r"] b [of "rbytes r ! rpos r" "rbytes r ! (rpos r + 1)"]
    by (auto simp: readCompact_def result_simps Let_def MAX_ATTESTATION_BYTES_def split: if_splits)
qed

subsection \<open>The compact encoding and its inverse\<close>

definition compact :: "nat \<Rightarrow> bytes" where
  "compact n =
    (if n < 64 then [byteOf (n * 4)]
     else if n < 16384 then [byteOf (n * 4 mod 256 + 1), byteOf (n * 4 div 256)]
     else
       [byteOf (n * 4 mod 256 + 2), byteOf (n * 4 div 256 mod 256),
        byteOf (n * 4 div 65536 mod 256), byteOf (n * 4 div 16777216)])"

lemma byte_mode: "unat (b AND 3 :: byte) = unat b mod 4"
proof -
  have "b AND 3 = take_bit 2 b" by (simp add: take_bit_eq_mask mask_numeral)
  then have "unat (b AND 3) = take_bit 2 (unat b)" by (simp only: unsigned_take_bit_eq)
  then show ?thesis by (simp add: take_bit_eq_mod)
qed

lemma mode_eq: "n < 256 \<Longrightarrow> (b AND 3 = (of_nat n :: byte)) = (unat b mod 4 = n)"
  using byte_mode [of b] by (metis byteOf_def unat_byteOf word_unat_eq_iff)

lemma byte_modes:
  "(b AND 3 = (0 :: byte)) = (unat b mod 4 = 0)" "(b AND 3 = (1 :: byte)) = (unat b mod 4 = 1)"
  "(b AND 3 = (2 :: byte)) = (unat b mod 4 = 2)"
  using mode_eq [of 0 b] mode_eq [of 1 b] mode_eq [of 2 b] by simp_all

lemma rest_nth: "rest r = bs @ t \<Longrightarrow> i < length bs \<Longrightarrow> rbytes r ! (rpos r + i) = bs ! i"
proof -
  assume r: "rest r = bs @ t" and i: "i < length bs"
  have "length (rest r) = length bs + length t" using r by simp
  then have "rpos r + i < length (rbytes r)" using i by (simp add: remaining_def)
  then have "rbytes r ! (rpos r + i) = rest r ! i" by (simp add: rest_def)
  also have "\<dots> = bs ! i" using r i by (simp add: nth_append)
  finally show ?thesis .
qed

lemma compact_mod4: "n * 4 mod 256 mod 4 = (0 :: nat)"
  by (simp add: mod_mod_cancel)

lemma mod4_plus: "x mod 4 = 0 \<Longrightarrow> (x + 1) mod 4 = 1 \<and> (x + 2) mod 4 = (2 :: nat)"
  by presburger

lemma compact_low: "n * 4 mod 256 < 253" for n :: nat
proof -
  have "n * 4 mod 256 = 4 * (n mod 64)" using mult_mod_right [of 4 n 64] by (simp add: mult.commute)
  moreover have "n mod 64 < 64" by simp
  ultimately show ?thesis by linarith
qed

lemma split256: "(m :: nat) mod 256 + 256 * (m div 256) = m"
  by simp

lemma le2_plus1: "a + 256 * b = c \<Longrightarrow> a + 1 + 256 * (b + 256 * 0) = c + (1 :: nat)"
  by simp

lemma le4_plus2:
  "a + 256 * x = n \<Longrightarrow> b + 256 * y = x \<Longrightarrow> c + 256 * z = y \<Longrightarrow>
    a + 2 + 256 * (b + 256 * (c + 256 * (z + 256 * 0))) = n + (2 :: nat)"
  by auto

lemma readCompact_mode0:
  assumes "1 \<le> remaining r" and "unat (rbytes r ! rpos r) mod 4 = 0"
  shows "readCompact r = Inr (unat (rbytes r ! rpos r) div 4, r\<lparr>rpos := rpos r + 1\<rparr>)"
  using assms
  by (simp add: readCompact_def rbind_def requireBytes_def Let_def byte_modes unat_drop2_byte)

lemma readCompact_mode1:
  assumes "2 \<le> remaining r" and "unat (rbytes r ! rpos r) mod 4 = 1"
  shows "readCompact r =
    Inr (leNat [rbytes r ! rpos r, rbytes r ! (rpos r + 1)] div 4, r\<lparr>rpos := rpos r + 2\<rparr>)"
  using assms
  by (simp add: readCompact_def rbind_def requireBytes_def Let_def byte_modes unat_drop2_u32 unat_u32or)

lemma readCompact_mode2:
  assumes "4 \<le> remaining r" and "unat (rbytes r ! rpos r) mod 4 = 2"
    and "leNat [rbytes r ! rpos r, rbytes r ! (rpos r + 1), rbytes r ! (rpos r + 2),
        rbytes r ! (rpos r + 3)] = n * 4 + 2"
    and "n \<le> MAX_ATTESTATION_BYTES"
  shows "readCompact r = Inr (n, r\<lparr>rpos := rpos r + 4\<rparr>)"
proof -
  have "unat (drop_bit 2 (u32or (rbytes r ! rpos r) (rbytes r ! (rpos r + 1))
      (rbytes r ! (rpos r + 2)) (rbytes r ! (rpos r + 3)))) = n"
    unfolding unat_drop2_u32 unat_u32or assms(3) by simp
  then show ?thesis using assms(1,2,4)
    by (simp add: readCompact_def rbind_def requireBytes_def Let_def byte_modes)
qed

lemma reads_readCompact:
  assumes "n \<le> MAX_ATTESTATION_BYTES"
  shows "reads readCompact (compact n) n"
  unfolding reads_def
proof (intro allI impI)
  fix r t
  assume r: "rest r = compact n @ t"
  define b where "b i = rbytes r ! (rpos r + i)" for i
  have b: "b i = compact n ! i" if "i < length (compact n)" for i
    using rest_nth [OF r that] by (simp add: b_def)
  have b_0: "rbytes r ! rpos r = b 0" by (simp add: b_def)
  have len: "length (compact n) \<le> remaining r" using r length_rest [of r] by simp
  have low: "n * 4 mod 256 < 253" by (rule compact_low)
  note m = mod4_plus [OF compact_mod4 [of n]]
  consider (one) "n < 64" | (two) "64 \<le> n" "n < 16384" | (four) "16384 \<le> n" by linarith
  then show "readCompact r = Inr (n, r\<lparr>rpos := rpos r + length (compact n)\<rparr>)"
  proof cases
    case one
    then have "b 0 = byteOf (n * 4)" "1 \<le> remaining r" "length (compact n) = 1"
      using b [of 0] len by (simp_all add: compact_def)
    then show ?thesis using one readCompact_mode0 [of r] by (simp add: b_0)
  next
    case two
    then have c: "compact n = [byteOf (n * 4 mod 256 + 1), byteOf (n * 4 div 256)]"
      by (simp add: compact_def)
    have b0: "b 0 = byteOf (n * 4 mod 256 + 1)" and b1: "b 1 = byteOf (n * 4 div 256)"
      using b [of 0] b [of 1] by (simp_all add: c)
    have "n * 4 div 256 < 256" using two by auto
    then have u: "unat (b 0) = n * 4 mod 256 + 1" "unat (b 1) = n * 4 div 256"
      using low unfolding b0 b1 by simp_all
    have "leNat [b 0, b 1] = n * 4 + 1"
      unfolding leNat_Cons leNat_Nil u by (rule le2_plus1 [OF split256])
    then have "leNat [b 0, b 1] div 4 = n" by simp
    moreover have "unat (b 0) mod 4 = 1" unfolding u using m by blast
    moreover have "2 \<le> remaining r" "length (compact n) = 2" using len by (simp_all add: c)
    ultimately show ?thesis using readCompact_mode1 [of r] unfolding b_0 b_def by metis
  next
    case four
    then have c: "compact n = [byteOf (n * 4 mod 256 + 2), byteOf (n * 4 div 256 mod 256),
        byteOf (n * 4 div 65536 mod 256), byteOf (n * 4 div 16777216)]"
      by (simp add: compact_def)
    have bs: "b 0 = byteOf (n * 4 mod 256 + 2)" "b 1 = byteOf (n * 4 div 256 mod 256)"
      "b 2 = byteOf (n * 4 div 65536 mod 256)" "b 3 = byteOf (n * 4 div 16777216)"
      using b [of 0] b [of 1] b [of 2] b [of 3] by (simp_all add: c)
    have "n * 4 div 16777216 < 256" using assms by (auto simp: MAX_ATTESTATION_BYTES_def)
    then have u: "unat (b 0) = n * 4 mod 256 + 2" "unat (b 1) = n * 4 div 256 mod 256"
      "unat (b 2) = n * 4 div 65536 mod 256" "unat (b 3) = n * 4 div 16777216"
      using low unfolding bs by simp_all
    have d: "n * 4 div 65536 = n * 4 div 256 div 256"
      "n * 4 div 16777216 = n * 4 div 256 div 256 div 256"
      by (simp_all add: div_mult2_eq [symmetric])
    have "leNat [b 0, b 1, b 2, b 3] = n * 4 + 2"
      unfolding leNat_Cons leNat_Nil u d by (rule le4_plus2 [OF split256 split256 split256])
    moreover have "unat (b 0) mod 4 = 2" unfolding u using m by blast
    moreover have "4 \<le> remaining r" "length (compact n) = 4" using len by (simp_all add: c)
    ultimately show ?thesis using readCompact_mode2 [of r n] assms unfolding b_0 b_def by metis
  qed
qed

subsection \<open>Reference encoders of the other fields\<close>

definition vecEnc :: "bytes \<Rightarrow> bytes" where
  "vecEnc bs = compact (length bs) @ bs"

definition strEnc :: "jsstr \<Rightarrow> bytes" where
  "strEnc s = vecEnc (textEncode s)"

definition itemsEnc :: "('a \<Rightarrow> bytes) \<Rightarrow> 'a list \<Rightarrow> bytes" where
  "itemsEnc enc xs = compact (length xs) @ concat (map enc xs)"

lemma reads_readU32: "n < 2 ^ 32 \<Longrightarrow> reads readU32 (leEnc 4 n) n"
proof -
  assume n: "n < 2 ^ 32"
  have "readU32 r = Inr (n, r\<lparr>rpos := rpos r + 4\<rparr>)" if "rest r = leEnc 4 n @ t" for r t
  proof -
    have "slice (rbytes r) (rpos r) (rpos r + 4) = leEnc 4 n"
      using that by (simp add: slice_def rest_def [symmetric] del: leEnc.simps)
    moreover have "4 \<le> remaining r" using that length_rest [of r] by (simp del: leEnc.simps)
    ultimately show ?thesis using n leNat_leEnc [of n 4] by (simp add: readU32_Inr del: leEnc.simps)
  qed
  then show ?thesis unfolding reads_def length_leEnc by blast
qed

lemma reads_readVec: "length bs \<le> MAX_ATTESTATION_BYTES \<Longrightarrow> reads readVec (vecEnc bs) bs"
  unfolding readVec_def vecEnc_def
  by (rule reads_rbind [OF reads_readCompact reads_readFixed]) simp_all

lemma reads_readString:
  assumes "plainText s" and "length (textEncode s) \<le> MAX_ATTESTATION_BYTES"
  shows "reads readString (strEnc s) s"
proof -
  have "reads readString (vecEnc (textEncode s) @ []) s"
    unfolding readString_def
    by (rule reads_rbind [OF reads_readVec [OF assms(2)]])
       (simp add: textDecode_encode [OF assms(1)] reads_rret)
  then show ?thesis by (simp add: strEnc_def)
qed

lemma reads_readVecItems:
  assumes "\<And>x. x \<in> set xs \<Longrightarrow> reads f (enc x) x" and "length xs \<le> MAX_ATTESTATION_BYTES"
  shows "reads (readVecItems f) (itemsEnc enc xs) xs"
  unfolding readVecItems_def itemsEnc_def
proof (rule reads_rbind [OF reads_readCompact [OF assms(2)]])
  have "list_all2 (reads f) (map enc xs) xs"
    using assms(1) by (simp add: list_all2_conv_all_nth)
  then show "reads (readTimes (length xs) f) (concat (map enc xs)) xs"
    by (rule reads_readTimes)
qed

end
