(* ===== verification/Msgpack.thy ===== *)
theory Msgpack
  imports Reader
begin

text \<open>
  MsgpackReader of packages/attest-core/src/msgpack.ts. \<open>readValue\<close> recurses through maps and
  arrays; the model recurses on a fuel that \<open>readValue\<close> sets from the bytes left, and
  \<open>valueF_enough\<close> shows it never runs out, so the reader returns or throws on every input.
\<close>

definition readSize :: "nat \<Rightarrow> nat rd" where
  "readSize n = rbind (readFixed n) (\<lambda>bs. rret (beNat bs))"

definition readMapHeader :: "nat rd" where
  "readMapHeader =
    rbind readByte (\<lambda>marker.
      if marker AND 0xf0 = 0x80 then rret (unat (marker AND 0x0f))
      else if marker = 0xde then readSize 2
      else if marker = 0xdf then readSize 4
      else rfail MALFORMED_ATTESTATION)"

definition readArrayHeader :: "nat rd" where
  "readArrayHeader =
    rbind readByte (\<lambda>marker.
      if marker AND 0xf0 = 0x90 then rret (unat (marker AND 0x0f))
      else if marker = 0xdc then readSize 2
      else if marker = 0xdd then readSize 4
      else rfail MALFORMED_ATTESTATION)"

text \<open>The eight-byte marker, shared by \<open>readUint\<close> and \<open>readValue\<close>: over 53 bits is refused.\<close>

definition readU53 :: "nat rd" where
  "readU53 =
    rbind (readSize 4) (\<lambda>hi. rbind (readSize 4) (\<lambda>lo.
      if hi > 0x1fffff then rfail MALFORMED_ATTESTATION else rret (hi * 0x100000000 + lo)))"

definition uintAt :: "byte \<Rightarrow> nat rd" where
  "uintAt marker =
    (if unat marker \<le> 0x7f then rret (unat marker)
     else if marker = 0xcc then rbind readByte (\<lambda>b. rret (unat b))
     else if marker = 0xcd then readSize 2
     else if marker = 0xce then readSize 4
     else if marker = 0xcf then readU53
     else rfail MALFORMED_ATTESTATION)"

definition readUint :: "nat rd" where
  "readUint = rbind readByte uintAt"

definition readBin :: "bytes rd" where
  "readBin =
    rbind readByte (\<lambda>marker.
      rbind (if marker = 0xc4 then rbind readByte (\<lambda>b. rret (unat b))
             else if marker = 0xc5 then readSize 2
             else if marker = 0xc6 then readSize 4
             else rfail MALFORMED_ATTESTATION) readFixed)"

definition decodeUtf8 :: "bytes \<Rightarrow> jsstr rd" where
  "decodeUtf8 bs =
    (case textDecodeFatal bs of Some s \<Rightarrow> rret s | None \<Rightarrow> rfail MALFORMED_ATTESTATION)"

definition strLength :: "byte \<Rightarrow> nat rd" where
  "strLength marker =
    (if marker AND 0xe0 = 0xa0 then rret (unat (marker AND 0x1f))
     else if marker = 0xd9 then rbind readByte (\<lambda>b. rret (unat b))
     else if marker = 0xda then readSize 2
     else if marker = 0xdb then readSize 4
     else rfail MALFORMED_ATTESTATION)"

definition readStr :: "jsstr rd" where
  "readStr = rbind readByte (\<lambda>marker. rbind (strLength marker) (\<lambda>len. rbind (readFixed len) decodeUtf8))"

definition readNil :: "unit rd" where
  "readNil = rbind readByte (\<lambda>marker. if marker \<noteq> 0xc0 then rfail MALFORMED_ATTESTATION else rret ())"

subsection \<open>readValue\<close>

definition jsnat :: "nat \<Rightarrow> jsval" where
  "jsnat n = JNum (NInt (int n))"

definition sint64 :: "nat \<Rightarrow> int" where
  "sint64 n = (if n < 2 ^ 63 then int n else int n - 2 ^ 64)"

text \<open>The markers of \<open>readValue\<close> that hold no value inside, in the source's order.\<close>

definition leafValue :: "byte \<Rightarrow> jsval rd" where
  "leafValue marker =
    (if marker AND 0xe0 = 0xa0 \<or> marker = 0xd9 \<or> marker = 0xda \<or> marker = 0xdb then
       rbind (strLength marker) (\<lambda>len. rbind (readFixed len) (\<lambda>bs. rbind (decodeUtf8 bs) (\<lambda>s. rret (JStr s))))
     else if marker = 0xc4 \<or> marker = 0xc5 \<or> marker = 0xc6 then
       rbind (if marker = 0xc4 then rbind readByte (\<lambda>b. rret (unat b))
              else if marker = 0xc5 then readSize 2 else readSize 4)
         (\<lambda>len. rbind (readFixed len) (\<lambda>bs. rret (JBin bs)))
     else if marker = 0xca then rbind (readSize 4) (\<lambda>n. rret (JNum (float32 n)))
     else if marker = 0xcb then rbind (readSize 8) (\<lambda>n. rret (JNum (float64 n)))
     else if marker = 0xcc then rbind readByte (\<lambda>b. rret (jsnat (unat b)))
     else if marker = 0xcd then rbind (readSize 2) (\<lambda>n. rret (jsnat n))
     else if marker = 0xce then rbind (readSize 4) (\<lambda>n. rret (jsnat n))
     else if marker = 0xcf then rbind readU53 (\<lambda>n. rret (jsnat n))
     else if marker = 0xd0 then rbind readByte (\<lambda>b. rret (JNum (NInt (int (unat b) - 0x100))))
     else if marker = 0xd1 then rbind (readSize 2) (\<lambda>n. rret (JNum (NInt (int n - 0x10000))))
     else if marker = 0xd2 then rbind (readSize 4) (\<lambda>n. rret (JNum (NInt (int n - 0x100000000))))
     else if marker = 0xd3 then rbind (readSize 8) (\<lambda>n. rret (JBig (sint64 n)))
     else if 0xd4 \<le> unat marker \<and> unat marker \<le> 0xd8 then
       rbind (readFixed (unat marker - 0xd4)) (\<lambda>bs. rret (JBin bs))
     else if marker = 0xc7 \<or> marker = 0xc8 \<or> marker = 0xc9 then
       rbind (if marker = 0xc7 then rbind readByte (\<lambda>b. rret (unat b))
              else if marker = 0xc8 then readSize 2 else readSize 4)
         (\<lambda>len. rbind readByte (\<lambda>_. rbind (readFixed len) (\<lambda>bs. rret (JBin bs))))
     else rfail MALFORMED_ATTESTATION)"

definition mapCount :: "byte \<Rightarrow> nat rd" where
  "mapCount marker =
    (if marker = 0xde then readSize 2 else if marker = 0xdf then readSize 4
     else rret (unat (marker AND 0x0f)))"

definition arrayCount :: "byte \<Rightarrow> nat rd" where
  "arrayCount marker =
    (if marker = 0xdc then readSize 2 else if marker = 0xdd then readSize 4
     else rret (unat (marker AND 0x0f)))"

text \<open>Operations with fuel: \<open>None\<close> is fuel exhausted.\<close>

type_synonym 'a frd = "reader \<Rightarrow> (aerr + 'a \<times> reader) option"

definition flift :: "'a rd \<Rightarrow> 'a frd" where
  "flift f r = Some (f r)"

definition fbind :: "'a frd \<Rightarrow> ('a \<Rightarrow> 'b frd) \<Rightarrow> 'b frd" where
  "fbind f g r =
    (case f r of None \<Rightarrow> None | Some (Inl e) \<Rightarrow> Some (Inl e) | Some (Inr (x, r')) \<Rightarrow> g x r')"

fun valueF :: "nat \<Rightarrow> jsval frd"
  and fieldsF :: "nat \<Rightarrow> nat \<Rightarrow> jsval \<Rightarrow> jsval frd"
  and itemsF :: "nat \<Rightarrow> nat \<Rightarrow> jsval list frd" where
  "valueF 0 = (\<lambda>r. None)"
| "valueF (Suc k) =
    fbind (flift readByte) (\<lambda>marker.
      if unat marker \<le> 0x7f then flift (rret (jsnat (unat marker)))
      else if unat marker \<ge> 0xe0 then flift (rret (JNum (NInt (int (unat marker) - 0x100))))
      else if marker = 0xc0 then flift (rret JNull)
      else if marker = 0xc2 then flift (rret (JBool False))
      else if marker = 0xc3 then flift (rret (JBool True))
      else if marker AND 0xf0 = 0x80 \<or> marker = 0xde \<or> marker = 0xdf then
        fbind (flift (mapCount marker)) (\<lambda>count. fieldsF k count (JObj [] None))
      else if marker AND 0xf0 = 0x90 \<or> marker = 0xdc \<or> marker = 0xdd then
        fbind (flift (arrayCount marker)) (\<lambda>count. fbind (itemsF k count) (\<lambda>xs. flift (rret (JArr xs))))
      else flift (leafValue marker))"
| "fieldsF 0 count out = (\<lambda>r. None)"
| "fieldsF (Suc k) count out =
    (if count = 0 then flift (rret out)
     else fbind (flift readStr) (\<lambda>key.
       fbind (valueF k) (\<lambda>v. fieldsF k (count - 1) (setProp out key v))))"
| "itemsF 0 count = (\<lambda>r. None)"
| "itemsF (Suc k) count =
    (if count = 0 then flift (rret [])
     else fbind (valueF k) (\<lambda>x. fbind (itemsF k (count - 1)) (\<lambda>xs. flift (rret (x # xs)))))"

definition valueFuel :: "reader \<Rightarrow> nat" where
  "valueFuel r = 2 * remaining r + 1"

definition readValue :: "jsval rd" where
  "readValue r =
    (case valueF (valueFuel r) r of Some res \<Rightarrow> res | None \<Rightarrow> Inl MALFORMED_ATTESTATION)"

definition skipValue :: "unit rd" where
  "skipValue = rbind readValue (\<lambda>_. rret ())"

definition isMsgpackMapPrefix :: "byte \<Rightarrow> bool" where
  "isMsgpackMapPrefix firstByte \<longleftrightarrow>
    firstByte AND 0xf0 = 0x80 \<or> firstByte = 0xde \<or> firstByte = 0xdf"

subsection \<open>The contract\<close>

lemma op_readSize: "reader_op (readSize n)"
  unfolding readSize_def by (intro reader_intros)

lemma op_readU53: "reader_op readU53"
  unfolding readU53_def by (intro reader_intros op_readSize)

lemma op_decodeUtf8: "reader_op (decodeUtf8 bs)"
  unfolding decodeUtf8_def by (intro reader_intros)

lemma op_strLength: "reader_op (strLength m)"
  unfolding strLength_def
  by (intro reader_intros op_readSize item_reader_op [OF readByte.item_reader_axioms])

lemmas mp_intros = reader_intros op_readSize op_readU53 op_decodeUtf8 op_strLength

lemma op_leafValue: "reader_op (leafValue m)"
  unfolding leafValue_def by (intro mp_intros)

lemma op_mapCount: "reader_op (mapCount m)" and op_arrayCount: "reader_op (arrayCount m)"
  unfolding mapCount_def arrayCount_def by (intro mp_intros)+

lemma item_readStr: "item_reader readStr"
  unfolding readStr_def
  by (intro item_reader_rbind readByte.item_reader_axioms mp_intros)

interpretation readStr: item_reader readStr
  by (rule item_readStr)

lemma item_readMapHeader: "item_reader readMapHeader"
  unfolding readMapHeader_def by (intro item_reader_rbind readByte.item_reader_axioms mp_intros)

interpretation readMapHeader: item_reader readMapHeader
  by (rule item_readMapHeader)

lemma item_readArrayHeader: "item_reader readArrayHeader"
  unfolding readArrayHeader_def by (intro item_reader_rbind readByte.item_reader_axioms mp_intros)

interpretation readArrayHeader: item_reader readArrayHeader
  by (rule item_readArrayHeader)

lemma item_readUint: "item_reader readUint"
  unfolding readUint_def uintAt_def by (intro item_reader_rbind readByte.item_reader_axioms mp_intros)

interpretation readUint: item_reader readUint
  by (rule item_readUint)

lemma item_readBin: "item_reader readBin"
  unfolding readBin_def by (intro item_reader_rbind readByte.item_reader_axioms mp_intros)

interpretation readBin: item_reader readBin
  by (rule item_readBin)


subsection \<open>The fuel of readValue is enough\<close>

definition moved :: "nat \<Rightarrow> reader \<Rightarrow> reader \<Rightarrow> bool" where
  "moved n r s \<longleftrightarrow> rbytes s = rbytes r \<and> rpos r + n \<le> rpos s \<and>
    (rpos r \<le> length (rbytes r) \<longrightarrow> rpos s \<le> length (rbytes r))"

lemma moved_op: "reader_op f \<Longrightarrow> f r = Inr (x, s) \<Longrightarrow> moved 0 r s"
  unfolding moved_def
  using reader_op.keeps reader_op.forward reader_op.inside by fastforce

lemma moved_item:
  assumes "item_reader f" and "f r = Inr (x, s)"
  shows "moved 1 r s"
  using moved_op [OF item_reader_op [OF assms(1)] assms(2)] item_reader.consumes [OF assms]
  by (simp add: moved_def)

lemma moved_trans: "moved m r s \<Longrightarrow> moved n s t \<Longrightarrow> moved (m + n) r t"
  by (auto simp: moved_def)

lemma moved_weaken: "moved m r s \<Longrightarrow> n \<le> m \<Longrightarrow> moved n r s"
  by (auto simp: moved_def)

lemma moved_remaining:
  "moved n r s \<Longrightarrow> rpos r \<le> length (rbytes r) \<Longrightarrow>
    remaining s + n \<le> remaining r \<and> rpos s \<le> length (rbytes s)"
  by (auto simp: moved_def remaining_def)

definition fmoves :: "nat \<Rightarrow> 'a frd \<Rightarrow> bool" where
  "fmoves n f \<longleftrightarrow> (\<forall>r x s. f r = Some (Inr (x, s)) \<longrightarrow> moved n r s)"

lemma fmoves_none: "fmoves n (\<lambda>r. None)"
  by (simp add: fmoves_def)

lemma fmoves_flift: "reader_op f \<Longrightarrow> fmoves 0 (flift f)"
  by (auto simp: fmoves_def flift_def intro: moved_op)

lemma fmoves_flift_item: "item_reader f \<Longrightarrow> fmoves 1 (flift f)"
  by (auto simp: fmoves_def flift_def simp del: One_nat_def intro: moved_item)

lemma fbind_Some:
  "fbind f g r = Some (Inr (y, t)) \<longleftrightarrow>
    (\<exists>x s. f r = Some (Inr (x, s)) \<and> g x s = Some (Inr (y, t)))"
  by (auto simp: fbind_def split: option.splits sum.splits)

lemma fmoves_fbind: "fmoves m f \<Longrightarrow> (\<And>x. fmoves n (g x)) \<Longrightarrow> fmoves (m + n) (fbind f g)"
  unfolding fmoves_def fbind_Some using moved_trans by metis

lemma fmoves_weaken: "fmoves m f \<Longrightarrow> n \<le> m \<Longrightarrow> fmoves n f"
  unfolding fmoves_def using moved_weaken by blast

lemma fmoves_if:
  "(c \<Longrightarrow> fmoves n f) \<Longrightarrow> (\<not> c \<Longrightarrow> fmoves n g) \<Longrightarrow> fmoves n (if c then f else g)"
  by simp

lemma fmoves_fbind0: "fmoves 0 f \<Longrightarrow> (\<And>x. fmoves 0 (g x)) \<Longrightarrow> fmoves 0 (fbind f g)"
  using fmoves_fbind [of 0 f 0 g] by simp

lemma fmoves_fbind1: "fmoves 1 f \<Longrightarrow> (\<And>x. fmoves 0 (g x)) \<Longrightarrow> fmoves 1 (fbind f g)"
  using fmoves_fbind [of 1 f 0 g] by simp

lemma valueF_moves:
  "fmoves 1 (valueF k)" "fmoves 0 (fieldsF k n out)" "fmoves 0 (itemsF k n)"
proof (induction k and k n out and k n rule: valueF_fieldsF_itemsF.induct)
  case (2 k)
  then show ?case unfolding valueF.simps
    by (intro fmoves_fbind1 fmoves_flift_item readByte.item_reader_axioms fmoves_if fmoves_fbind0
        fmoves_flift reader_op_rret op_mapCount op_arrayCount op_leafValue) blast+
next
  case (4 k n out)
  show ?case
  proof (cases "n = 0")
    case True
    then show ?thesis by (simp add: fmoves_flift reader_op_rret)
  next
    case False
    show ?thesis unfolding fieldsF.simps if_not_P [OF False]
      by (intro fmoves_fbind0 fmoves_weaken [OF 4(1)] fmoves_flift item_reader_op item_readStr False 4(2)) simp
  qed
next
  case (6 k n)
  show ?case
  proof (cases "n = 0")
    case True
    then show ?thesis by (simp add: fmoves_flift reader_op_rret)
  next
    case False
    show ?thesis unfolding itemsF.simps if_not_P [OF False]
      by (intro fmoves_fbind0 fmoves_weaken [OF 6(1)] fmoves_flift reader_op_rret False 6(2)) simp
  qed
qed (simp_all add: fmoves_none)

text \<open>Every nested call is one level of fuel deeper and, within two levels, a byte further.\<close>

definition runs :: "'a frd \<Rightarrow> reader \<Rightarrow> bool" where
  "runs f r \<longleftrightarrow> f r \<noteq> None"

lemma runs_flift: "runs (flift f) r"
  by (simp add: runs_def flift_def)

lemma runs_fbind:
  "runs f r \<Longrightarrow> (\<And>x s. f r = Some (Inr (x, s)) \<Longrightarrow> runs (g x) s) \<Longrightarrow> runs (fbind f g) r"
  by (auto simp: runs_def fbind_def split: option.splits sum.splits)

lemma fmoves_remaining:
  "fmoves n f \<Longrightarrow> f r = Some (Inr (x, s)) \<Longrightarrow> rpos r \<le> length (rbytes r) \<Longrightarrow>
    remaining s + n \<le> remaining r \<and> rpos s \<le> length (rbytes s)"
  unfolding fmoves_def using moved_remaining by blast

lemma valueF_runs:
  "rpos r \<le> length (rbytes r) \<Longrightarrow> 2 * remaining r + 1 \<le> k \<Longrightarrow> runs (valueF k) r"
  "rpos r \<le> length (rbytes r) \<Longrightarrow> 2 * remaining r + 2 \<le> k \<Longrightarrow> runs (fieldsF k n out) r"
  "rpos r \<le> length (rbytes r) \<Longrightarrow> 2 * remaining r + 2 \<le> k \<Longrightarrow> runs (itemsF k n) r"
proof (induction k and k n out and k n arbitrary: r and r and r rule: valueF_fieldsF_itemsF.induct)
  case (2 k)
  show ?case unfolding valueF.simps
  proof (rule runs_fbind [OF runs_flift])
    fix m s
    assume "flift readByte r = Some (Inr (m, s))"
    then have s: "remaining s + 1 \<le> remaining r" "rpos s \<le> length (rbytes s)"
      using fmoves_remaining [OF fmoves_flift_item [OF readByte.item_reader_axioms]] 2(3) by blast+
    have sub: "2 * remaining t + 2 \<le> k \<and> rpos t \<le> length (rbytes t)"
      if "flift f s = Some (Inr (x, t))" "reader_op f" for f :: "nat rd" and x t
      using fmoves_remaining [OF fmoves_flift [OF that(2)] that(1)] s 2(4) by simp
    have maps: "runs (fbind (flift (mapCount m)) (\<lambda>count. fieldsF k count (JObj [] None))) s"
      if "\<not> unat m \<le> 127" "\<not> 224 \<le> unat m" "m \<noteq> 192" "m \<noteq> 194" "m \<noteq> 195"
        "m AND 240 = 128 \<or> m = 222 \<or> m = 223"
    proof (rule runs_fbind [OF runs_flift])
      fix c t
      assume "flift (mapCount m) s = Some (Inr (c, t))"
      then have t: "2 * remaining t + 2 \<le> k" "rpos t \<le> length (rbytes t)"
        using sub op_mapCount by blast+
      show "runs (fieldsF k c (JObj [] None)) t" by (rule 2(1) [OF that t(2,1)])
    qed
    have arrays: "runs (fbind (flift (arrayCount m)) (\<lambda>count. fbind (itemsF k count) (\<lambda>xs. flift (rret (JArr xs))))) s"
      if "\<not> unat m \<le> 127" "\<not> 224 \<le> unat m" "m \<noteq> 192" "m \<noteq> 194" "m \<noteq> 195"
        "\<not> (m AND 240 = 128 \<or> m = 222 \<or> m = 223)" "m AND 240 = 144 \<or> m = 220 \<or> m = 221"
    proof (rule runs_fbind [OF runs_flift])
      fix c t
      assume "flift (arrayCount m) s = Some (Inr (c, t))"
      then have t: "2 * remaining t + 2 \<le> k" "rpos t \<le> length (rbytes t)"
        using sub op_arrayCount by blast+
      have "runs (itemsF k c) t" by (rule 2(2) [OF that t(2,1)])
      then show "runs (fbind (itemsF k c) (\<lambda>xs. flift (rret (JArr xs)))) t"
        by (rule runs_fbind) (rule runs_flift)
    qed
    show "runs (if unat m \<le> 127 then flift (rret (jsnat (unat m)))
      else if 224 \<le> unat m then flift (rret (JNum (NInt (int (unat m) - 256))))
      else if m = 192 then flift (rret JNull)
      else if m = 194 then flift (rret (JBool False))
      else if m = 195 then flift (rret (JBool True))
      else if m AND 240 = 128 \<or> m = 222 \<or> m = 223 then
        fbind (flift (mapCount m)) (\<lambda>count. fieldsF k count (JObj [] None))
      else if m AND 240 = 144 \<or> m = 220 \<or> m = 221 then
        fbind (flift (arrayCount m)) (\<lambda>count. fbind (itemsF k count) (\<lambda>xs. flift (rret (JArr xs))))
      else flift (leafValue m)) s"
      using maps arrays by (simp add: runs_flift)
  qed
next
  case (4 k n out)
  show ?case
  proof (cases "n = 0")
    case True
    then show ?thesis by (simp add: runs_flift)
  next
    case False
    have "runs (fbind (flift readStr) (\<lambda>key. fbind (valueF k) (\<lambda>v. fieldsF k (n - 1) (setProp out key v)))) r"
    proof (rule runs_fbind [OF runs_flift])
      fix key s
      assume "flift readStr r = Some (Inr (key, s))"
      then have s: "remaining s + 1 \<le> remaining r" "rpos s \<le> length (rbytes s)"
        using fmoves_remaining [OF fmoves_flift_item [OF item_readStr]] 4(3) by blast+
      show "runs (fbind (valueF k) (\<lambda>v. fieldsF k (n - 1) (setProp out key v))) s"
      proof (rule runs_fbind)
        show "runs (valueF k) s" using 4(1) [OF False] s 4(4) by simp
        fix v t
        assume "valueF k s = Some (Inr (v, t))"
        then have "remaining t + 1 \<le> remaining s" "rpos t \<le> length (rbytes t)"
          using fmoves_remaining [OF valueF_moves(1)] s by blast+
        then show "runs (fieldsF k (n - 1) (setProp out key v)) t" using 4(2) [OF False] s 4(4) by simp
      qed
    qed
    then show ?thesis using False by simp
  qed
next
  case (6 k n)
  show ?case
  proof (cases "n = 0")
    case True
    then show ?thesis by (simp add: runs_flift)
  next
    case False
    have "runs (fbind (valueF k) (\<lambda>x. fbind (itemsF k (n - 1)) (\<lambda>xs. flift (rret (x # xs))))) r"
    proof (rule runs_fbind)
      show "runs (valueF k) r" using 6(1) [OF False] 6(3,4) by simp
      fix v t
      assume "valueF k r = Some (Inr (v, t))"
      then have "remaining t + 1 \<le> remaining r" "rpos t \<le> length (rbytes t)"
        using fmoves_remaining [OF valueF_moves(1)] 6(3) by blast+
      then show "runs (fbind (itemsF k (n - 1)) (\<lambda>xs. flift (rret (v # xs)))) t"
        using 6(2) [OF False] 6(4) by (intro runs_fbind runs_flift) simp
    qed
    then show ?thesis using False by simp
  qed
qed simp_all

lemma valueF_enough: "rpos r \<le> length (rbytes r) \<Longrightarrow> valueF (valueFuel r) r = Some (readValue r)"
  using valueF_runs(1) [of r "valueFuel r"] by (auto simp: readValue_def valueFuel_def runs_def)

lemma readValue_moves: "readValue r = Inr (v, s) \<Longrightarrow> moved 1 r s"
  using valueF_moves(1) [of "valueFuel r"]
  by (auto simp: readValue_def fmoves_def split: option.splits)

lemma item_readValue: "item_reader readValue"
  by unfold_locales (use readValue_moves in \<open>fastforce simp: moved_def\<close>)+

interpretation readValue: item_reader readValue
  by (rule item_readValue)


subsection \<open>readValue without its fuel\<close>

definition fle :: "'a frd \<Rightarrow> 'a frd \<Rightarrow> bool" where
  "fle f g \<longleftrightarrow> (\<forall>r x. f r = Some x \<longrightarrow> g r = Some x)"

lemma fle_refl: "fle f f"
  by (simp add: fle_def)

lemma fle_fbind: "fle f f' \<Longrightarrow> (\<And>x. fle (g x) (g' x)) \<Longrightarrow> fle (fbind f g) (fbind f' g')"
  unfolding fle_def fbind_def by (fastforce split: option.splits sum.splits)

lemma fle_if: "(c \<Longrightarrow> fle f f') \<Longrightarrow> (\<not> c \<Longrightarrow> fle g g') \<Longrightarrow> fle (if c then f else g) (if c then f' else g')"
  by simp

lemma fuel_step:
  "fle (valueF k) (valueF (Suc k))"
  "fle (fieldsF k n out) (fieldsF (Suc k) n out)"
  "fle (itemsF k n) (itemsF (Suc k) n)"
proof (induction k and k n out and k n rule: valueF_fieldsF_itemsF.induct)
  case (2 k)
  show ?case unfolding valueF.simps(2) [of k] valueF.simps(2) [of "Suc k"]
    by (intro fle_fbind fle_refl fle_if 2(1) 2(2)) auto
next
  case (4 k n out)
  show ?case unfolding fieldsF.simps(2) [of k n out] fieldsF.simps(2) [of "Suc k" n out]
    by (intro fle_fbind fle_refl fle_if 4(1) 4(2))
next
  case (6 k n)
  show ?case unfolding itemsF.simps(2) [of k n] itemsF.simps(2) [of "Suc k" n]
    by (intro fle_fbind fle_refl fle_if 6(1) 6(2))
qed (simp_all add: fle_def)

lemma fle_mono:
  assumes "\<And>k. fle (f k) (f (Suc k))" and "k \<le> k'"
  shows "fle (f k) (f k')"
  using assms(2)
proof (induction k' rule: dec_induct)
  case base
  show ?case by (rule fle_refl)
next
  case (step n)
  then show ?case using assms(1) [of n] by (auto simp: fle_def)
qed

definition readFields :: "nat \<Rightarrow> jsval \<Rightarrow> jsval rd" where
  "readFields n out r =
    (case fieldsF (valueFuel r + 1) n out r of Some res \<Rightarrow> res | None \<Rightarrow> Inl MALFORMED_ATTESTATION)"

definition readItems :: "nat \<Rightarrow> jsval list rd" where
  "readItems n r =
    (case itemsF (valueFuel r + 1) n r of Some res \<Rightarrow> res | None \<Rightarrow> Inl MALFORMED_ATTESTATION)"

definition agree :: "'a frd \<Rightarrow> 'a rd \<Rightarrow> reader \<Rightarrow> bool" where
  "agree f g r \<longleftrightarrow> f r = Some (g r)"

lemma agree_flift: "agree (flift g) g r"
  by (simp add: agree_def flift_def)

lemma agree_fbind:
  "agree f f' r \<Longrightarrow> (\<And>x s. f' r = Inr (x, s) \<Longrightarrow> agree (g x) (g' x) s) \<Longrightarrow>
    agree (fbind f g) (rbind f' g') r"
  by (auto simp: agree_def fbind_def rbind_def split: sum.splits)

lemma agree_if:
  "(c \<Longrightarrow> agree f f' r) \<Longrightarrow> (\<not> c \<Longrightarrow> agree g g' r) \<Longrightarrow>
    agree (if c then f else g) (if c then f' else g') r"
  by simp

lemma agree_unique: "agree f g r \<Longrightarrow> agree f g' r \<Longrightarrow> g r = g' r"
  by (simp add: agree_def)

definition inside :: "reader \<Rightarrow> bool" where
  "inside r \<longleftrightarrow> rpos r \<le> length (rbytes r)"

lemma agree_enough:
  assumes "\<And>k. fle (f k) (f (Suc k))" and "k \<le> k'" and "runs (f k) r"
    and "g r = (case f k r of Some res \<Rightarrow> res | None \<Rightarrow> Inl MALFORMED_ATTESTATION)"
  shows "agree (f k') g r"
proof -
  obtain x where x: "f k r = Some x" using assms(3) by (auto simp: runs_def)
  moreover have "f k' r = Some x" using fle_mono [of f, OF assms(1,2)] x by (simp add: fle_def)
  ultimately show ?thesis using assms(4) by (simp add: agree_def)
qed

lemma agree_value: "inside r \<Longrightarrow> valueFuel r \<le> k \<Longrightarrow> agree (valueF k) readValue r"
  by (rule agree_enough [where f = valueF and k = "valueFuel r"])
     (auto simp: fuel_step(1) inside_def valueFuel_def readValue_def simp del: valueF.simps intro!: valueF_runs(1))

lemma agree_fields: "inside r \<Longrightarrow> valueFuel r < k \<Longrightarrow> agree (fieldsF k n out) (readFields n out) r"
  by (rule agree_enough [where f = "\<lambda>k. fieldsF k n out" and k = "valueFuel r + 1"])
     (auto simp: fuel_step(2) inside_def valueFuel_def readFields_def simp del: fieldsF.simps intro!: valueF_runs(2))

lemma agree_items: "inside r \<Longrightarrow> valueFuel r < k \<Longrightarrow> agree (itemsF k n) (readItems n) r"
  by (rule agree_enough [where f = "\<lambda>k. itemsF k n" and k = "valueFuel r + 1"])
     (auto simp: fuel_step(3) inside_def valueFuel_def readItems_def simp del: itemsF.simps intro!: valueF_runs(3))

lemma inside_item:
  "item_reader f \<Longrightarrow> f r = Inr (x, s) \<Longrightarrow> inside r \<Longrightarrow> inside s \<and> valueFuel s + 2 \<le> valueFuel r"
  using moved_remaining [OF moved_item] unfolding inside_def valueFuel_def by fastforce

lemma inside_op:
  "reader_op f \<Longrightarrow> f r = Inr (x, s) \<Longrightarrow> inside r \<Longrightarrow> inside s \<and> valueFuel s \<le> valueFuel r"
  using moved_remaining [OF moved_op] unfolding inside_def valueFuel_def by fastforce

text \<open>What the source writes: the recursion through the markers, without fuel.\<close>

definition valueAt :: "byte \<Rightarrow> jsval rd" where
  "valueAt marker =
    (if unat marker \<le> 0x7f then rret (jsnat (unat marker))
     else if unat marker \<ge> 0xe0 then rret (JNum (NInt (int (unat marker) - 0x100)))
     else if marker = 0xc0 then rret JNull
     else if marker = 0xc2 then rret (JBool False)
     else if marker = 0xc3 then rret (JBool True)
     else if marker AND 0xf0 = 0x80 \<or> marker = 0xde \<or> marker = 0xdf then
       rbind (mapCount marker) (\<lambda>count. readFields count (JObj [] None))
     else if marker AND 0xf0 = 0x90 \<or> marker = 0xdc \<or> marker = 0xdd then
       rbind (arrayCount marker) (\<lambda>count. rbind (readItems count) (\<lambda>xs. rret (JArr xs)))
     else leafValue marker)"

lemma readValue_unfold: "inside r \<Longrightarrow> readValue r = rbind readByte valueAt r"
proof (rule agree_unique)
  assume r: "inside r"
  show "agree (valueF (Suc (valueFuel r))) readValue r" by (rule agree_value [OF r]) simp
  show "agree (valueF (Suc (valueFuel r))) (rbind readByte valueAt) r"
    unfolding valueF.simps
  proof (rule agree_fbind [OF agree_flift])
    fix m s
    assume "readByte r = Inr (m, s)"
    then have s: "inside s" "valueFuel s + 2 \<le> valueFuel r"
      using inside_item [OF readByte.item_reader_axioms _ r] by blast+
    have tm: "inside t" "valueFuel t < valueFuel r" if "mapCount m s = Inr (c, t)" for c t
      using inside_op [OF op_mapCount that s(1)] s(2) by auto
    have ta: "inside t" "valueFuel t < valueFuel r" if "arrayCount m s = Inr (c, t)" for c t
      using inside_op [OF op_arrayCount that s(1)] s(2) by auto
    show "agree (if unat m \<le> 0x7f then flift (rret (jsnat (unat m)))
      else if unat m \<ge> 0xe0 then flift (rret (JNum (NInt (int (unat m) - 0x100))))
      else if m = 0xc0 then flift (rret JNull)
      else if m = 0xc2 then flift (rret (JBool False))
      else if m = 0xc3 then flift (rret (JBool True))
      else if m AND 0xf0 = 0x80 \<or> m = 0xde \<or> m = 0xdf then
        fbind (flift (mapCount m)) (\<lambda>count. fieldsF (valueFuel r) count (JObj [] None))
      else if m AND 0xf0 = 0x90 \<or> m = 0xdc \<or> m = 0xdd then
        fbind (flift (arrayCount m))
          (\<lambda>count. fbind (itemsF (valueFuel r) count) (\<lambda>xs. flift (rret (JArr xs))))
      else flift (leafValue m)) (valueAt m) s"
      unfolding valueAt_def
      by (intro agree_if agree_fbind agree_flift agree_fields agree_items)
         (use tm ta in auto)
  qed
qed

lemma readFields_0: "inside r \<Longrightarrow> readFields 0 out r = Inr (out, r)"
  by (simp add: readFields_def valueFuel_def flift_def rret_def)

lemma readItems_0: "inside r \<Longrightarrow> readItems 0 r = Inr ([], r)"
  by (simp add: readItems_def valueFuel_def flift_def rret_def)

lemma readFields_Suc:
  assumes r: "inside r"
  shows "readFields (Suc n) out r =
    rbind readStr (\<lambda>key. rbind readValue (\<lambda>v. readFields n (setProp out key v))) r"
proof (rule agree_unique)
  show "agree (fieldsF (Suc (valueFuel r)) (Suc n) out) (readFields (Suc n) out) r"
    by (rule agree_fields [OF r]) simp
  have "agree (fbind (flift readStr) (\<lambda>key. fbind (valueF (valueFuel r)) (\<lambda>v. fieldsF (valueFuel r) n (setProp out key v))))
    (rbind readStr (\<lambda>key. rbind readValue (\<lambda>v. readFields n (setProp out key v)))) r"
  proof (intro agree_fbind agree_flift agree_value agree_fields)
    fix key s
    assume "readStr r = Inr (key, s)"
    then have s: "inside s" "valueFuel s + 2 \<le> valueFuel r" using inside_item [OF item_readStr _ r] by blast+
    then show "inside s" "valueFuel s \<le> valueFuel r" by simp_all
    fix v t
    assume "readValue s = Inr (v, t)"
    then show "inside t" "valueFuel t < valueFuel r" using inside_item [OF item_readValue _ s(1)] s(2) by auto
  qed
  then show "agree (fieldsF (Suc (valueFuel r)) (Suc n) out)
    (rbind readStr (\<lambda>key. rbind readValue (\<lambda>v. readFields n (setProp out key v)))) r" by simp
qed

lemma readItems_Suc:
  assumes r: "inside r"
  shows "readItems (Suc n) r = rbind readValue (\<lambda>x. rbind (readItems n) (\<lambda>xs. rret (x # xs))) r"
proof (rule agree_unique)
  show "agree (itemsF (Suc (valueFuel r)) (Suc n)) (readItems (Suc n)) r"
    by (rule agree_items [OF r]) simp
  have "agree (fbind (valueF (valueFuel r)) (\<lambda>x. fbind (itemsF (valueFuel r) n) (\<lambda>xs. flift (rret (x # xs)))))
    (rbind readValue (\<lambda>x. rbind (readItems n) (\<lambda>xs. rret (x # xs)))) r"
  proof (intro agree_fbind agree_flift agree_value agree_items)
    show "inside r" "valueFuel r \<le> valueFuel r" using r by simp_all
    fix v t
    assume "readValue r = Inr (v, t)"
    then show "inside t" "valueFuel t < valueFuel r" using inside_item [OF item_readValue _ r] by auto
  qed
  then show "agree (itemsF (Suc (valueFuel r)) (Suc n))
    (rbind readValue (\<lambda>x. rbind (readItems n) (\<lambda>xs. rret (x # xs)))) r" by simp
qed

subsection \<open>Markers\<close>

lemma byte_and_low: "unat ((b :: byte) AND 0x0f) = unat b mod 16" "unat (b AND 0x1f) = unat b mod 32"
  using unat_and_low [of b 4] unat_and_low [of b 5] by (simp_all add: mask_numeral)

lemma byte_and_high: "unat ((b :: byte) AND 0xf0) = 16 * (unat b div 16)" "unat (b AND 0xe0) = 32 * (unat b div 32)"
proof -
  have l: "unat b < 256" by simp
  have "take_bit 4 (drop_bit 4 (unat b)) = unat b div 16" "take_bit 3 (drop_bit 5 (unat b)) = unat b div 32"
    using l by (simp_all add: take_bit_eq_mod drop_bit_eq_div less_mult_imp_div_less)
  then show "unat (b AND 0xf0) = 16 * (unat b div 16)" "unat (b AND 0xe0) = 32 * (unat b div 32)"
    using and_high_nat [of "unat b" 4 4] and_high_nat [of "unat b" 5 3]
    by (simp_all add: unsigned_and_eq push_bit_eq_mult mask_numeral)
qed

lemma marker_high:
  "b AND 0xf0 = (0x80 :: byte) \<longleftrightarrow> unat b div 16 = 8"
  "b AND 0xf0 = (0x90 :: byte) \<longleftrightarrow> unat b div 16 = 9"
  "b AND 0xe0 = (0xa0 :: byte) \<longleftrightarrow> unat b div 32 = 5"
  by (simp_all add: word_unat_eq_iff byte_and_high)

subsection \<open>A reference encoder\<close>

text \<open>
  The shortest form of each value, as the MessagePack specification lays it out, for every value
  the reader represents: not floats, not extension types, not integers that need a 64-bit number.
\<close>

definition uintEnc :: "nat \<Rightarrow> bytes" where
  "uintEnc n =
    (if n \<le> 0x7f then [byteOf n] else if n < 2 ^ 8 then [0xcc, byteOf n]
     else if n < 2 ^ 16 then 0xcd # beEnc 2 n else if n < 2 ^ 32 then 0xce # beEnc 4 n
     else 0xcf # beEnc 8 n)"

definition negEnc :: "nat \<Rightarrow> bytes" where
  "negEnc m =
    (if m \<le> 32 then [byteOf (0x100 - m)] else if m \<le> 2 ^ 7 then [0xd0, byteOf (0x100 - m)]
     else if m \<le> 2 ^ 15 then 0xd1 # beEnc 2 (0x10000 - m) else 0xd2 # beEnc 4 (0x100000000 - m))"

definition strHead :: "nat \<Rightarrow> bytes" where
  "strHead n =
    (if n < 32 then [byteOf (0xa0 + n)] else if n < 2 ^ 8 then [0xd9, byteOf n]
     else if n < 2 ^ 16 then 0xda # beEnc 2 n else 0xdb # beEnc 4 n)"

definition binHead :: "nat \<Rightarrow> bytes" where
  "binHead n =
    (if n < 2 ^ 8 then [0xc4, byteOf n] else if n < 2 ^ 16 then 0xc5 # beEnc 2 n else 0xc6 # beEnc 4 n)"

definition arrayHead :: "nat \<Rightarrow> bytes" where
  "arrayHead n =
    (if n < 16 then [byteOf (0x90 + n)] else if n < 2 ^ 16 then 0xdc # beEnc 2 n else 0xdd # beEnc 4 n)"

definition mapHead :: "nat \<Rightarrow> bytes" where
  "mapHead n =
    (if n < 16 then [byteOf (0x80 + n)] else if n < 2 ^ 16 then 0xde # beEnc 2 n else 0xdf # beEnc 4 n)"

definition mpStr :: "jsstr \<Rightarrow> bytes" where
  "mpStr s = strHead (length (textEncode s)) @ textEncode s"

definition mpBin :: "bytes \<Rightarrow> bytes" where
  "mpBin bs = binHead (length bs) @ bs"

definition intEnc :: "int \<Rightarrow> bytes" where
  "intEnc i = (if 0 \<le> i then uintEnc (nat i) else negEnc (nat (- i)))"

fun mpEnc :: "jsval \<Rightarrow> bytes" where
  "mpEnc JNull = [0xc0]"
| "mpEnc (JBool b) = [if b then 0xc3 else 0xc2]"
| "mpEnc (JNum (NInt i)) = intEnc i"
| "mpEnc (JBig i) = 0xd3 # beEnc 8 (nat (i mod 2 ^ 64))"
| "mpEnc (JStr s) = mpStr s"
| "mpEnc (JBin bs) = mpBin bs"
| "mpEnc (JArr xs) = arrayHead (length xs) @ concat (map mpEnc xs)"
| "mpEnc (JObj fs p) = mapHead (length fs) @ concat (map (\<lambda>f. mpStr (fst f) @ mpEnc (snd f)) fs)"
| "mpEnc _ = []"

definition strOk :: "jsstr \<Rightarrow> bool" where
  "strOk s \<longleftrightarrow> plainText s \<and> length (textEncode s) < 2 ^ 32"

fun mpOk :: "jsval \<Rightarrow> bool" where
  "mpOk JNull = True"
| "mpOk (JBool b) = True"
| "mpOk (JNum (NInt i)) = (- (2 ^ 31) \<le> i \<and> i < 2 ^ 53)"
| "mpOk (JBig i) = (- (2 ^ 63) \<le> i \<and> i < 2 ^ 63)"
| "mpOk (JStr s) = strOk s"
| "mpOk (JBin bs) = (length bs < 2 ^ 32)"
| "mpOk (JArr xs) = (length xs < 2 ^ 32 \<and> (\<forall>x\<in>set xs. mpOk x))"
| "mpOk (JObj fs p) =
    (p = None \<and> length fs < 2 ^ 32 \<and> distinct (map fst fs) \<and> protoKey \<notin> fst ` set fs \<and>
     (\<forall>f\<in>set fs. strOk (fst f) \<and> mpOk (snd f)))"
| "mpOk _ = False"

lemma reads_then: "reads f bs x \<Longrightarrow> reads (rbind f (\<lambda>y. rret (h y))) bs (h x)"
  using reads_rbind [where f = f and g = "\<lambda>y. rret (h y)" and cs = "[]", OF _ reads_rret] by simp

lemma reads_marker: "reads (g m) bs x \<Longrightarrow> reads (rbind readByte g) (m # bs) x"
  using reads_rbind [where f = readByte and g = g and bs = "[m]", OF reads_readByte] by simp

lemma reads_readSize: "n < 256 ^ k \<Longrightarrow> reads (readSize k) (beEnc k n) n"
  unfolding readSize_def
  using reads_then [where h = beNat, OF reads_readFixed [of k "beEnc k n"]] by (simp add: beNat_beEnc)

lemma reads_byte_nat: "n < 256 \<Longrightarrow> reads (rbind readByte (\<lambda>b. rret (unat b))) [byteOf n] n"
  using reads_then [where h = unat, OF reads_readByte [of "byteOf n"]] by simp

lemma head_div_mod: "a < m \<Longrightarrow> (m * k + a) div m = k \<and> (m * k + a) mod m = (a :: nat)"
  by simp

lemma strHead_cases:
  assumes n: "n < 2 ^ 32"
  obtains (head) m bs where "strHead n = m # bs" and "reads (strLength m) bs n"
    and "unat m div 32 = 5 \<or> m \<in> {0xd9, 0xda, 0xdb}"
proof -
  consider (low) "n < 32" | (one) "32 \<le> n" "n < 2 ^ 8" | (two) "2 ^ 8 \<le> n" "n < 2 ^ 16"
    | (four) "2 ^ 16 \<le> n" by linarith
  then show ?thesis
  proof cases
    case low
    then have m: "unat (byteOf (160 + n)) = 160 + n" by simp
    have d: "(160 + n) div 32 = 5" "(160 + n) mod 32 = n" using head_div_mod [of n 32 5] low by simp_all
    have "strLength (byteOf (160 + n)) = rret n"
      using m d by (simp add: strLength_def marker_high byte_and_low)
    then show ?thesis using low m d by (intro head [of "byteOf (160 + n)" "[]"]) (simp_all add: strHead_def reads_rret)
  next
    case one
    then show ?thesis using reads_byte_nat [of n]
      by (intro head [of "0xd9" "[byteOf n]"]) (simp_all add: strHead_def strLength_def)
  next
    case two
    then show ?thesis using reads_readSize [of n 2]
      by (intro head [of "0xda" "beEnc 2 n"]) (simp_all add: strHead_def strLength_def)
  next
    case four
    then show ?thesis using reads_readSize [of n 4] n
      by (intro head [of "0xdb" "beEnc 4 n"]) (simp_all add: strHead_def strLength_def)
  qed
qed

lemma reads_strLength: "n < 2 ^ 32 \<Longrightarrow> reads (rbind readByte strLength) (strHead n) n"
  using reads_marker [where g = strLength] by (metis strHead_cases)

lemma rbind_assoc: "rbind (rbind f g) h = rbind f (\<lambda>x. rbind (g x) h)"
  by (rule ext) (simp add: rbind_def split: sum.splits)

lemma rbind_rret [simp]: "rbind (rret x) f = f x"
  by (rule ext) (simp add: rbind_def rret_def)

lemma reads_decodeUtf8: "plainText s \<Longrightarrow> reads (decodeUtf8 (textEncode s)) [] s"
  by (simp add: decodeUtf8_def textDecode_encode reads_rret)

lemma reads_readStr: "strOk s \<Longrightarrow> reads readStr (mpStr s) s"
proof -
  assume s: "strOk s"
  let ?bs = "textEncode s"
  have "reads (rbind (readFixed (length ?bs)) decodeUtf8) (?bs @ []) s"
    using s by (intro reads_rbind [OF reads_readFixed] reads_decodeUtf8) (simp_all add: strOk_def)
  then have "reads (rbind (readFixed (length ?bs)) decodeUtf8) ?bs s" by simp
  then have "reads (rbind (rbind readByte strLength) (\<lambda>len. rbind (readFixed len) decodeUtf8)) (mpStr s) s"
    unfolding mpStr_def using s by (intro reads_rbind [OF reads_strLength]) (simp_all add: strOk_def)
  then show ?thesis by (simp add: readStr_def rbind_assoc)
qed

definition binLength :: "byte \<Rightarrow> nat rd" where
  "binLength m =
    (if m = 0xc4 then rbind readByte (\<lambda>b. rret (unat b)) else if m = 0xc5 then readSize 2
     else if m = 0xc6 then readSize 4 else rfail MALFORMED_ATTESTATION)"

lemma reads_binLength: "n < 2 ^ 32 \<Longrightarrow> reads (rbind readByte binLength) (binHead n) n"
  unfolding binHead_def
  using reads_byte_nat [of n] reads_readSize [of n 2] reads_readSize [of n 4]
  by (cases "n < 2 ^ 8"; cases "n < 2 ^ 16"; simp) (intro reads_marker; simp add: binLength_def)+

lemma reads_readBin: "length bs < 2 ^ 32 \<Longrightarrow> reads readBin (mpBin bs) bs"
proof -
  assume "length bs < 2 ^ 32"
  then have "reads (rbind (rbind readByte binLength) readFixed) (mpBin bs) bs"
    unfolding mpBin_def by (intro reads_rbind [OF reads_binLength] reads_readFixed) simp_all
  then show ?thesis by (simp add: readBin_def rbind_assoc binLength_def)
qed

text \<open>A marker with a readable rest: what \<open>readValue\<close> does after it.\<close>

lemma reads_readValue: "reads (valueAt m) bs v \<Longrightarrow> reads readValue (m # bs) v"
  using reads_marker [where g = valueAt] readValue_unfold
  by (auto simp: reads_def inside_def)

lemma beEnc_8: "beEnc 8 n = beEnc 4 (n div 2 ^ 32) @ beEnc 4 (n mod 2 ^ 32)"
  using leEnc_add [of 4 4 n] leEnc_mod [of 4 4 n] by (simp add: beEnc_def)

lemma reads_readU53: "n < 2 ^ 53 \<Longrightarrow> reads readU53 (beEnc 8 n) n"
proof -
  assume n: "n < 2 ^ 53"
  let ?hi = "n div 2 ^ 32" and ?lo = "n mod 2 ^ 32"
  have hi: "?hi \<le> 0x1fffff" using n by (simp add: less_mult_imp_div_less)
  have "reads (rret (?hi * 0x100000000 + ?lo)) [] n" using reads_rret [of n] by simp
  then have lo: "reads (rbind (readSize 4) (\<lambda>lo. if ?hi > 0x1fffff then rfail MALFORMED_ATTESTATION
      else rret (?hi * 0x100000000 + lo))) (beEnc 4 ?lo @ []) n"
    by (intro reads_rbind [OF reads_readSize]) (use hi in simp_all)
  have "?hi < 256 ^ 4" using hi by simp
  from reads_rbind [where f = "readSize 4" and g = "\<lambda>hi. rbind (readSize 4) (\<lambda>lo.
      if hi > 0x1fffff then rfail MALFORMED_ATTESTATION else rret (hi * 0x100000000 + lo))",
      OF reads_readSize [OF this] lo]
  show ?thesis by (simp add: readU53_def beEnc_8)
qed

lemma reads_readUint: "n < 2 ^ 53 \<Longrightarrow> reads readUint (uintEnc n) n"
proof -
  assume n: "n < 2 ^ 53"
  consider (low) "n \<le> 0x7f" | (one) "0x7f < n" "n < 2 ^ 8" | (two) "2 ^ 8 \<le> n" "n < 2 ^ 16"
    | (four) "2 ^ 16 \<le> n" "n < 2 ^ 32" | (eight) "2 ^ 32 \<le> n" by linarith
  then show ?thesis
    unfolding readUint_def
    by cases (use n reads_byte_nat [of n] reads_readSize [of n 2] reads_readSize [of n 4]
       reads_readU53 [of n] in \<open>simp_all add: uintEnc_def reads_marker uintAt_def reads_rret\<close>)
qed

text \<open>Nothing \<open>readUint\<close> returns is beyond the integers a double holds exactly.\<close>

lemma readSize_less: "readSize k r = Inr (n, s) \<Longrightarrow> n < 256 ^ k"
proof -
  assume "readSize k r = Inr (n, s)"
  then have "k \<le> remaining r \<and> n = beNat (slice (rbytes r) (rpos r) (rpos r + k))"
    by (simp add: readSize_def result_simps)
  moreover have "beNat (slice (rbytes r) (rpos r) (rpos r + k)) < 256 ^ length (slice (rbytes r) (rpos r) (rpos r + k))"
    by (rule beNat_less)
  ultimately show ?thesis by (simp add: remaining_def)
qed

lemma readU53_less: "readU53 r = Inr (n, s) \<Longrightarrow> n < 2 ^ 53"
proof -
  assume "readU53 r = Inr (n, s)"
  then obtain hi lo t where h: "hi \<le> 0x1fffff" and n: "n = hi * 0x100000000 + lo" and "readSize 4 t = Inr (lo, s)"
    by (simp add: readU53_def result_simps split: if_splits) (metis not_le)
  then have "lo < 2 ^ 32" using readSize_less by fastforce
  then show ?thesis using h n by simp
qed

lemma readUint_less: "readUint r = Inr (n, s) \<Longrightarrow> n < 2 ^ 53"
proof -
  assume "readUint r = Inr (n, s)"
  then obtain m t where n: "uintAt m t = Inr (n, s)" by (auto simp: readUint_def rbind_Inr)
  have b: "unat (x :: byte) < 2 ^ 53" for x
    using unat_byte_less [of x] by (rule order_less_trans) simp
  show ?thesis using n b readSize_less [of 2 t n s] readSize_less [of 4 t n s] readU53_less [of t n s]
    by (auto simp: uintAt_def rbind_Inr split: if_splits)
qed

lemma valueAt_leaf:
  "\<not> unat m \<le> 0x7f \<Longrightarrow> \<not> 0xe0 \<le> unat m \<Longrightarrow> m \<notin> {0xc0, 0xc2, 0xc3, 0xde, 0xdf, 0xdc, 0xdd} \<Longrightarrow>
    unat m div 16 \<noteq> 8 \<Longrightarrow> unat m div 16 \<noteq> 9 \<Longrightarrow> valueAt m = leafValue m"
  by (simp add: valueAt_def marker_high)

lemma valueAt_markers [simp]:
  "m \<in> {0xc4, 0xc5, 0xc6, 0xca, 0xcb, 0xcc, 0xcd, 0xce, 0xcf, 0xd0, 0xd1, 0xd2, 0xd3,
     0xd4, 0xd5, 0xd6, 0xd7, 0xd8, 0xd9, 0xda, 0xdb, 0xc7, 0xc8, 0xc9} \<Longrightarrow>
    valueAt m = leafValue m"
  by (rule valueAt_leaf) auto

lemma reads_value_int: "- (2 ^ 31) \<le> i \<Longrightarrow> i < 2 ^ 53 \<Longrightarrow> reads readValue (intEnc i) (JNum (NInt i))"
proof (cases "0 \<le> i")
  case True
  assume "i < 2 ^ 53"
  then have n: "nat i < 2 ^ 53" using True by simp
  define n where "n = nat i"
  have i: "i = int n" "n < 2 ^ 53" using True n by (simp_all add: n_def)
  note sizes = reads_then [where h = jsnat, OF reads_readSize [of n 2]]
    reads_then [where h = jsnat, OF reads_readSize [of n 4]]
    reads_then [where h = jsnat, OF reads_readU53 [of n]]
    reads_then [where h = jsnat, OF reads_byte_nat [of n]]
  have "reads readValue (uintEnc n) (jsnat n)"
    using sizes i(2)
    by (auto simp: uintEnc_def leafValue_def rbind_assoc reads_rret valueAt_def
        intro!: reads_readValue)
  then show ?thesis using i by (simp add: intEnc_def jsnat_def)
next
  case False
  assume "- (2 ^ 31) \<le> i"
  define m where "m = nat (- i)"
  have m: "i = - int m" "0 < m" "m \<le> 2 ^ 31" using False \<open>- (2 ^ 31) \<le> i\<close> by (simp_all add: m_def)
  have sized: "reads readValue (mk # bs) (JNum (NInt (- int m)))"
    if "reads f bs (k - m)" "m \<le> k" "valueAt mk = rbind f (\<lambda>n. rret (JNum (NInt (int n - int k))))"
    for mk bs f k
  proof -
    have "reads (valueAt mk) bs (JNum (NInt (int (k - m) - int k)))"
      unfolding that(3) by (rule reads_then [where h = "\<lambda>n. JNum (NInt (int n - int k))", OF that(1)])
    then show ?thesis using that(2) by (intro reads_readValue) (simp add: of_nat_diff)
  qed
  consider (low) "m \<le> 32" | (one) "32 < m" "m \<le> 2 ^ 7" | (two) "2 ^ 7 < m" "m \<le> 2 ^ 15"
    | (four) "2 ^ 15 < m" by linarith
  then have "reads readValue (negEnc m) (JNum (NInt (- int m)))"
  proof cases
    case low
    then have "unat (byteOf (256 - m)) = 256 - m" using m by simp
    then have "valueAt (byteOf (256 - m)) = rret (JNum (NInt (- int m)))"
      using low by (auto simp: valueAt_def of_nat_diff)
    then show ?thesis using low reads_readValue [of "byteOf (256 - m)" "[]"] by (simp add: negEnc_def reads_rret)
  next
    case one
    then have "reads (rbind readByte (\<lambda>b. rret (unat b))) [byteOf (0x100 - m)] (0x100 - m)"
      by (intro reads_byte_nat) simp
    from sized [OF this, of "0xd0"] one show ?thesis by (simp add: negEnc_def leafValue_def rbind_assoc)
  next
    case two
    then have "reads (readSize 2) (beEnc 2 (0x10000 - m)) (0x10000 - m)" by (intro reads_readSize) simp
    from sized [OF this, of "0xd1"] two show ?thesis by (simp add: negEnc_def leafValue_def)
  next
    case four
    then have "reads (readSize 4) (beEnc 4 (0x100000000 - m)) (0x100000000 - m)" by (intro reads_readSize) simp
    from sized [OF this, of "0xd2"] four m show ?thesis by (simp add: negEnc_def leafValue_def)
  qed
  then show ?thesis using False by (simp add: intEnc_def m_def)
qed

lemma sint64_mod: "- (2 ^ 63) \<le> i \<Longrightarrow> i < 2 ^ 63 \<Longrightarrow> sint64 (nat (i mod 2 ^ 64)) = i"
proof -
  assume i: "- (2 ^ 63) \<le> i" "i < 2 ^ 63"
  have "i mod 2 ^ 64 = (if 0 \<le> i then i else i + 2 ^ 64)"
  proof (cases "0 \<le> i")
    case True
    then show ?thesis using i by simp
  next
    case False
    have "(i + 2 ^ 64) mod 2 ^ 64 = i + 2 ^ 64" using i False by (intro mod_pos_pos_trivial) auto
    then show ?thesis using False by simp
  qed
  then show ?thesis using i by (auto simp: sint64_def nat_less_iff)
qed

lemma reads_value_big:
  "- (2 ^ 63) \<le> i \<Longrightarrow> i < 2 ^ 63 \<Longrightarrow> reads readValue (0xd3 # beEnc 8 (nat (i mod 2 ^ 64))) (JBig i)"
proof (rule reads_readValue)
  assume i: "- (2 ^ 63) \<le> i" "i < 2 ^ 63"
  have "nat (i mod 2 ^ 64) < 256 ^ 8" by (simp add: nat_less_iff)
  from reads_then [where h = "\<lambda>n. JBig (sint64 n)", OF reads_readSize [OF this]]
  show "reads (valueAt 0xd3) (beEnc 8 (nat (i mod 2 ^ 64))) (JBig i)"
    using sint64_mod [OF i] by (simp add: leafValue_def)
qed

lemma value_str:
  assumes "unat m div 32 = 5 \<or> m \<in> {0xd9, 0xda, 0xdb}"
  shows "valueAt m = rbind (strLength m) (\<lambda>len. rbind (readFixed len) (\<lambda>bs. rbind (decodeUtf8 bs) (\<lambda>s. rret (JStr s))))"
proof -
  have "valueAt m = leafValue m"
  proof (cases "m \<in> {0xd9, 0xda, 0xdb}")
    case False
    then have u: "unat m div 32 = 5" using assms by simp
    then have "unat m < 192" "160 \<le> unat m" by linarith+
    then have "m \<notin> {0xc0, 0xc2, 0xc3, 0xde, 0xdf, 0xdc, 0xdd}" by auto
    moreover have "unat m div 16 \<noteq> 8" "unat m div 16 \<noteq> 9" using u by linarith+
    ultimately show ?thesis using \<open>unat m < 192\<close> \<open>160 \<le> unat m\<close> by (intro valueAt_leaf) auto
  qed auto
  then show ?thesis using assms by (auto simp: leafValue_def marker_high)
qed

lemma reads_value_str: "strOk s \<Longrightarrow> reads readValue (mpStr s) (JStr s)"
proof -
  assume s: "strOk s"
  define n where "n = length (textEncode s)"
  have n: "n < 2 ^ 32" using s by (simp add: n_def strOk_def)
  then obtain m bs where h: "strHead n = m # bs" and l: "reads (strLength m) bs n" and
    m: "unat m div 32 = 5 \<or> m \<in> {0xd9, 0xda, 0xdb}" by (rule strHead_cases)
  have "reads (rbind (readFixed n) (\<lambda>bs. rbind (decodeUtf8 bs) (\<lambda>s. rret (JStr s)))) (textEncode s @ []) (JStr s)"
    by (intro reads_rbind [OF reads_readFixed] reads_then [where h = JStr] reads_decodeUtf8)
       (use s in \<open>simp_all add: n_def strOk_def\<close>)
  then have "reads (valueAt m) (bs @ textEncode s) (JStr s)"
    unfolding value_str [OF m] by (intro reads_rbind [OF l]) simp
  then show ?thesis using reads_readValue by (simp add: mpStr_def n_def [symmetric] h)
qed

lemma reads_value_bin: "length bs < 2 ^ 32 \<Longrightarrow> reads readValue (mpBin bs) (JBin bs)"
proof -
  assume n: "length bs < 2 ^ 32"
  have fin: "reads (rbind (readFixed (length bs)) (\<lambda>bs. rret (JBin bs))) bs (JBin bs)"
    by (rule reads_then [where h = JBin]) (simp add: reads_readFixed)
  have "reads readValue (m # h @ bs) (JBin bs)"
    if "reads f h (length bs)" "valueAt m = rbind f (\<lambda>len. rbind (readFixed len) (\<lambda>bs. rret (JBin bs)))" for m h f
    by (rule reads_readValue)
       (unfold that(2), rule reads_rbind [where g = "\<lambda>len. rbind (readFixed len) (\<lambda>bs. rret (JBin bs))", OF that(1) fin])
  from this [OF reads_byte_nat, of "0xc4"] this [OF reads_readSize, of 2 "0xc5"] this [OF reads_readSize, of 4 "0xc6"]
  show ?thesis using n by (simp add: mpBin_def binHead_def leafValue_def)
qed

lemma reads_readFields:
  assumes "\<forall>f\<in>set fs. strOk (fst f) \<and> reads readValue (enc (snd f)) (snd f)"
    and "distinct (map fst (acc @ fs))" and "protoKey \<notin> fst ` set fs"
  shows "reads (readFields (length fs) (JObj acc None))
    (concat (map (\<lambda>f. mpStr (fst f) @ enc (snd f)) fs)) (JObj (acc @ fs) None)"
  using assms
proof (induction fs arbitrary: acc)
  case Nil
  then show ?case by (simp add: reads_def readFields_0 inside_def)
next
  case (Cons f fs)
  obtain k v where f: "f = (k, v)" by (cases f)
  have "upsert k v acc = acc @ [(k, v)]" if "k \<notin> fst ` set acc"
    using that by (induction acc) auto
  then have set: "setProp (JObj acc None) k v = JObj (acc @ [(k, v)]) None"
    using Cons.prems(2,3) f by auto
  have IH: "reads (readFields (length fs) (JObj (acc @ [(k, v)]) None))
    (concat (map (\<lambda>f. mpStr (fst f) @ enc (snd f)) fs)) (JObj ((acc @ [(k, v)]) @ fs) None)"
    using Cons.prems f by (intro Cons.IH) auto
  have k: "reads readStr (mpStr k) k" and v: "reads readValue (enc v) v"
    using Cons.prems(1) f reads_readStr by auto
  have "reads (rbind readStr (\<lambda>key. rbind readValue (\<lambda>v. readFields (length fs) (setProp (JObj acc None) key v))))
    (mpStr k @ enc v @ concat (map (\<lambda>f. mpStr (fst f) @ enc (snd f)) fs)) (JObj (acc @ f # fs) None)"
    by (rule reads_rbind [OF k], rule reads_rbind [OF v]) (unfold set, use IH f in simp)
  then show ?case
    by (simp add: reads_def readFields_Suc inside_def f)
qed

lemma reads_readItems:
  assumes "\<forall>x\<in>set xs. reads readValue (enc x) x"
  shows "reads (readItems (length xs)) (concat (map enc xs)) xs"
  using assms
proof (induction xs)
  case Nil
  then show ?case by (simp add: reads_def readItems_0 inside_def)
next
  case (Cons x xs)
  then have x: "reads readValue (enc x) x" and xs: "reads (readItems (length xs)) (concat (map enc xs)) xs" by auto
  have "reads (rbind readValue (\<lambda>x. rbind (readItems (length xs)) (\<lambda>xs. rret (x # xs))))
    (enc x @ concat (map enc xs)) (x # xs)"
    by (rule reads_rbind [OF x]) (rule reads_then [where h = "\<lambda>xs. x # xs", OF xs])
  then show ?case by (simp add: reads_def readItems_Suc inside_def)
qed

text \<open>A container's head: the marker after which \<open>readValue\<close> recurses, and its count.\<close>

lemma fix_head:
  assumes "n < 16" and "k \<in> {8, 9}"
  shows "unat (byteOf (16 * k + n)) = 16 * k + n" "(16 * k + n) mod 16 = n" "(16 * k + n) div 16 = k"
    "127 < 16 * k + n" "16 * k + n < 192"
  using assms head_div_mod [of n 16 k] by auto

lemma low_marker: "unat (m :: byte) < 192 \<Longrightarrow> m \<notin> {0xc0, 0xc2, 0xc3, 0xde, 0xdf, 0xdc, 0xdd} \<and> unat m < 0xe0"
  by auto

lemma mapHead_cases:
  assumes n: "n < 2 ^ 32"
  obtains (head) m bs where "mapHead n = m # bs" and "reads (mapCount m) bs n"
    and "valueAt m = rbind (mapCount m) (\<lambda>count. readFields count (JObj [] None))"
proof -
  consider (low) "n < 16" | (two) "16 \<le> n" "n < 2 ^ 16" | (four) "2 ^ 16 \<le> n" by linarith
  then show ?thesis
  proof cases
    case low
    note F = fix_head [OF low, of 8, simplified]
    then have "byteOf (128 + n) \<notin> {0xc0, 0xc2, 0xc3, 0xde, 0xdf, 0xdc, 0xdd}" using low_marker [of "byteOf (128 + n)"] by simp
    then show ?thesis using F low
      by (intro head [of "byteOf (128 + n)" "[]"])
         (simp_all add: mapHead_def mapCount_def byte_and_low reads_rret valueAt_def marker_high)
  next
    case two
    then show ?thesis using reads_readSize [of n 2]
      by (intro head [of "0xde" "beEnc 2 n"]) (simp_all add: mapHead_def mapCount_def valueAt_def)
  next
    case four
    then show ?thesis using reads_readSize [of n 4] n
      by (intro head [of "0xdf" "beEnc 4 n"]) (simp_all add: mapHead_def mapCount_def valueAt_def)
  qed
qed

lemma arrayHead_cases:
  assumes n: "n < 2 ^ 32"
  obtains (head) m bs where "arrayHead n = m # bs" and "reads (arrayCount m) bs n"
    and "valueAt m = rbind (arrayCount m) (\<lambda>count. rbind (readItems count) (\<lambda>xs. rret (JArr xs)))"
proof -
  consider (low) "n < 16" | (two) "16 \<le> n" "n < 2 ^ 16" | (four) "2 ^ 16 \<le> n" by linarith
  then show ?thesis
  proof cases
    case low
    note F = fix_head [OF low, of 9, simplified]
    then have "byteOf (144 + n) \<notin> {0xc0, 0xc2, 0xc3, 0xde, 0xdf, 0xdc, 0xdd}" using low_marker [of "byteOf (144 + n)"] by simp
    then show ?thesis using F low
      by (intro head [of "byteOf (144 + n)" "[]"])
         (simp_all add: arrayHead_def arrayCount_def byte_and_low reads_rret valueAt_def marker_high)
  next
    case two
    then show ?thesis using reads_readSize [of n 2]
      by (intro head [of "0xdc" "beEnc 2 n"]) (simp_all add: arrayHead_def arrayCount_def valueAt_def)
  next
    case four
    then show ?thesis using reads_readSize [of n 4] n
      by (intro head [of "0xdd" "beEnc 4 n"]) (simp_all add: arrayHead_def arrayCount_def valueAt_def)
  qed
qed

text \<open>Round trip: every representable value is read back from its encoding, whatever follows.\<close>

lemma reads_mpEnc: "mpOk v \<Longrightarrow> reads readValue (mpEnc v) v"
proof (induction v rule: mpEnc.induct)
  case (4 i)
  then show ?case using reads_value_big by simp
next
  case (7 xs)
  then have n: "length xs < 2 ^ 32" and xs: "\<forall>x\<in>set xs. reads readValue (mpEnc x) x" by auto
  from n obtain m bs where h: "arrayHead (length xs) = m # bs" "reads (arrayCount m) bs (length xs)"
    "valueAt m = rbind (arrayCount m) (\<lambda>count. rbind (readItems count) (\<lambda>xs. rret (JArr xs)))"
    by (rule arrayHead_cases)
  have "reads (valueAt m) (bs @ concat (map mpEnc xs)) (JArr xs)"
    unfolding h(3) by (rule reads_rbind [OF h(2)]) (rule reads_then [where h = JArr, OF reads_readItems [OF xs]])
  then show ?case using reads_readValue h(1) by simp
next
  case (8 fs p)
  then have n: "length fs < 2 ^ 32" and p: "p = None" "distinct (map fst ([] @ fs))" "protoKey \<notin> fst ` set fs"
    and fs: "\<forall>f\<in>set fs. strOk (fst f) \<and> reads readValue (mpEnc (snd f)) (snd f)" by auto
  from n obtain m bs where h: "mapHead (length fs) = m # bs" "reads (mapCount m) bs (length fs)"
    "valueAt m = rbind (mapCount m) (\<lambda>count. readFields count (JObj [] None))"
    by (rule mapHead_cases)
  have "reads (valueAt m) (bs @ concat (map (\<lambda>f. mpStr (fst f) @ mpEnc (snd f)) fs)) (JObj fs None)"
    unfolding h(3) using reads_readFields [OF fs p(2,3)] by (intro reads_rbind [OF h(2)]) simp
  then show ?case using reads_readValue h(1) p(1) by simp
qed (auto simp: reads_value_int reads_value_str reads_value_bin valueAt_def reads_rret
    intro!: reads_readValue)

lemma reads_readMapHeader: "n < 2 ^ 32 \<Longrightarrow> reads readMapHeader (mapHead n) n"
proof -
  assume n: "n < 2 ^ 32"
  have at: "reads readMapHeader (m # bs) n" if "reads (mapCount m) bs n" "unat m div 16 = 8 \<or> m = 0xde \<or> m = 0xdf"
    for m bs
    unfolding readMapHeader_def using that by (intro reads_marker) (auto simp: mapCount_def marker_high)
  consider (low) "n < 16" | (two) "16 \<le> n" "n < 2 ^ 16" | (four) "2 ^ 16 \<le> n" by linarith
  then show ?thesis
  proof cases
    case low
    note F = fix_head [OF low, of 8, simplified]
    then have "byteOf (128 + n) \<notin> {0xc0, 0xc2, 0xc3, 0xde, 0xdf, 0xdc, 0xdd}" using low_marker [of "byteOf (128 + n)"] by simp
    then show ?thesis using F low at [of "byteOf (128 + n)" "[]"]
      by (simp add: mapHead_def mapCount_def byte_and_low reads_rret)
  next
    case two
    then show ?thesis using reads_readSize [of n 2] at [of "0xde" "beEnc 2 n"] by (simp add: mapHead_def mapCount_def)
  next
    case four
    then show ?thesis using reads_readSize [of n 4] at [of "0xdf" "beEnc 4 n"] n by (simp add: mapHead_def mapCount_def)
  qed
qed

lemma reads_skipValue: "mpOk v \<Longrightarrow> reads skipValue (mpEnc v) ()"
  unfolding skipValue_def by (rule reads_then [where h = "\<lambda>_. ()", OF reads_mpEnc])

lemma strOk_literal: "asciiStr s \<Longrightarrow> length s < 2 ^ 32 \<Longrightarrow> strOk (js s)"
  using ascii_js [of s] by (simp add: strOk_def plainText_ascii length_textEncode_ascii)

subsection \<open>Properties\<close>

text \<open>
  C31 Round trip of the MessagePack reader: a value written by the reference encoder (integers, big
  integers, strings, binary data, nested arrays and maps without duplicate keys) is read back by
  \<open>readValue\<close>, whatever bytes follow it, and the reader stops exactly at the end of the encoding.
\<close>

theorem readValue_roundtrip:
  assumes "mpOk v"
  shows "readValue \<lparr>rbytes = mpEnc v @ t, rpos = 0\<rparr> =
    Inr (v, \<lparr>rbytes = mpEnc v @ t, rpos = length (mpEnc v)\<rparr>)"
  by (rule reads_start [OF reads_mpEnc [OF assms]])

lemma readValue_roundtrip_witness:
  "readValue \<lparr>rbytes =
      mpEnc (JObj [(js ''k'', JArr [JNum (NInt (- 5)), JNull]), (js ''d'', JBin [7])] None) @ [0xc1], rpos = 0\<rparr> =
    Inr (JObj [(js ''k'', JArr [JNum (NInt (- 5)), JNull]), (js ''d'', JBin [7])] None,
      \<lparr>rbytes = mpEnc (JObj [(js ''k'', JArr [JNum (NInt (- 5)), JNull]), (js ''d'', JBin [7])] None) @ [0xc1],
       rpos = length (mpEnc (JObj [(js ''k'', JArr [JNum (NInt (- 5)), JNull]), (js ''d'', JBin [7])] None))\<rparr>)"
  by (rule readValue_roundtrip) (simp add: strOk_literal asciiStr_def protoKey_def)

text \<open>
  C32 The recursive reader terminates: the fuel \<open>readValue\<close> starts with is never used up, so whatever
  the bytes are, however deep the nesting they announce, the fuelled reader returns a value or an error
  and it is the one \<open>readValue\<close> reports.
\<close>

theorem readValue_terminates:
  assumes "rpos r \<le> length (rbytes r)"
  shows "valueF (valueFuel r) r = Some (readValue r)"
  by (rule valueF_enough [OF assms])

lemma readValue_terminates_witness:
  "valueF (valueFuel \<lparr>rbytes = [0x91, 0x91, 0x91], rpos = 0\<rparr>) \<lparr>rbytes = [0x91, 0x91, 0x91], rpos = 0\<rparr> =
    Some (readValue \<lparr>rbytes = [0x91, 0x91, 0x91], rpos = 0\<rparr>)"
  by (rule readValue_terminates) simp

subsection \<open>Two markers read otherwise than the MessagePack specification lays them out\<close>

text \<open>
  A non-negative number sent in a signed 8-bit field (marker 0xd0) comes back reduced by 256: the
  reader subtracts unconditionally.
\<close>

theorem int8_nonnegative:
  assumes "b < 0x80"
  shows "readValue \<lparr>rbytes = [0xd0, byteOf b], rpos = 0\<rparr> =
    Inr (JNum (NInt (int b - 0x100)), \<lparr>rbytes = [0xd0, byteOf b], rpos = 2\<rparr>)"
proof -
  have "reads (valueAt 0xd0) [byteOf b] (JNum (NInt (int b - 0x100)))"
    using assms reads_then [where h = "\<lambda>n. JNum (NInt (int n - 0x100))", OF reads_byte_nat [of b]]
    by (simp add: leafValue_def rbind_assoc)
  from reads_start [OF reads_readValue [OF this], of "[]"] show ?thesis by simp
qed

lemma int8_nonnegative_witness:
  "readValue \<lparr>rbytes = [0xd0, byteOf 5], rpos = 0\<rparr> =
    Inr (JNum (NInt (int 5 - 0x100)), \<lparr>rbytes = [0xd0, byteOf 5], rpos = 2\<rparr>)"
  by (rule int8_nonnegative) simp

text \<open>
  A fixed extension (markers 0xd4 to 0xd8) carries a type byte and \<open>2 ^ (marker - 0xd4)\<close> bytes; the reader
  takes \<open>marker - 0xd4\<close> bytes and no type, so what follows the value is read from its middle.
\<close>

lemma fixext_misframed:
  assumes "k \<le> 4" and "length bs = k"
  shows "reads readValue (byteOf (0xd4 + k) # bs) (JBin bs)"
proof (rule reads_readValue)
  have k: "k \<in> {0, 1, 2, 3, 4}" using assms(1) by auto
  then have m: "unat (byteOf (0xd4 + k)) = 0xd4 + k" by auto
  have "valueAt (byteOf (0xd4 + k)) = rbind (readFixed k) (\<lambda>bs. rret (JBin bs))"
    using k m by (auto simp: leafValue_def byteOf_def)
  then show "reads (valueAt (byteOf (0xd4 + k))) bs (JBin bs)"
    using reads_then [where h = JBin, OF reads_readFixed [OF assms(2) [symmetric]]] by simp
qed

text \<open>
  Consequence for a framed value: a fixext value of the MessagePack specification (marker, type byte,
  \<open>2 ^ (marker - 0xd4)\<close> data bytes) is not read as one value. The reader returns \<open>marker - 0xd4\<close>
  bytes that start with the type byte and leaves the reader inside the value.
\<close>

theorem fixext_leaves_reader_inside:
  assumes "k \<le> 4" and "length dat = 2 ^ k"
  shows "readValue \<lparr>rbytes = byteOf (0xd4 + k) # ty # dat, rpos = 0\<rparr> =
    Inr (JBin (take k (ty # dat)), \<lparr>rbytes = byteOf (0xd4 + k) # ty # dat, rpos = Suc k\<rparr>)"
proof -
  define xs where "xs = ty # dat"
  have "k \<le> length xs" by (simp add: xs_def assms(2) le_SucI less_imp_le_nat)
  then have l: "length (take k xs) = k" by simp
  have s: "(byteOf (0xd4 + k) # take k xs) @ drop k xs = byteOf (0xd4 + k) # xs"
    "length (byteOf (0xd4 + k) # take k xs) = Suc k"
    by (simp_all only: append_Cons append_take_drop_id list.size l)
  have "readValue \<lparr>rbytes = byteOf (0xd4 + k) # xs, rpos = 0\<rparr> =
    Inr (JBin (take k xs), \<lparr>rbytes = byteOf (0xd4 + k) # xs, rpos = Suc k\<rparr>)"
    using reads_start [OF fixext_misframed [OF assms(1) l], of "drop k xs"] unfolding s .
  then show ?thesis by (simp only: xs_def)
qed

lemma fixext_leaves_reader_inside_witness:
  "readValue \<lparr>rbytes = [byteOf (0xd4 + 1), 5, 8, 9], rpos = 0\<rparr> =
    Inr (JBin (take 1 [5, 8, 9]), \<lparr>rbytes = [byteOf (0xd4 + 1), 5, 8, 9], rpos = Suc 1\<rparr>)"
  by (rule fixext_leaves_reader_inside) simp_all

end
