(* ===== verification/Decode.thy ===== *)
theory Decode
  imports Scale Msgpack
begin

text \<open>
  packages/attest-core/src/decode.ts: the attestation envelope. The first byte chooses between the
  legacy SCALE envelope (V0) and the msgpack one (V1); both end in one \<open>attestation\<close>. A failure
  is its error code; the prose of the messages (\<open>describeValue\<close>) is not modelled. Below the
  model: what every decoded attestation satisfies, and the round trips of both envelopes against
  reference encoders.
\<close>

subsection \<open>The legacy SCALE envelope\<close>

definition decodeV0TdxEvent :: "tdx_event rd" where
  "decodeV0TdxEvent =
    rbind readU32 (\<lambda>imr. rbind readU32 (\<lambda>eventType. rbind readVec (\<lambda>digest.
    rbind readString (\<lambda>event. rbind readVec (\<lambda>eventPayload.
      rret \<lparr>teImr = imr, teEventType = eventType, teDigest = digest, teEvent = event,
        teEventPayload = eventPayload, teVersion = EV1, tePreimage = None\<rparr>)))))"

definition decodeV0RuntimeEvent :: "runtime_event rd" where
  "decodeV0RuntimeEvent =
    rbind readString (\<lambda>event. rbind readVec (\<lambda>payload.
      rret \<lparr>reEvent = event, rePayload = payload, reVersion = EV1\<rparr>))"

definition decodeV0Platform :: "platform_evidence rd" where
  "decodeV0Platform =
    rbind readByte (\<lambda>variant.
      if variant = 0 then
        rbind readVec (\<lambda>quote. rbind (readVecItems decodeV0TdxEvent) (\<lambda>eventLog. rret (Tdx quote eventLog)))
      else if variant = 1 then rfail UNSUPPORTED_VERSION
      else if variant = 2 then rbind readVec (\<lambda>nsmQuote. rret (NitroEnclave nsmQuote))
      else if variant = 3 then
        rbind readVec (\<lambda>report. rbind (readVecItems readVec) (\<lambda>certChain.
          rbind readString (\<lambda>mrConfig. rret (SevSnp report certChain mrConfig))))
      else if variant = 4 then rbind readVec (\<lambda>attestationDoc. rret (AwsNitroTpm attestationDoc))
      else rfail UNKNOWN_PLATFORM)"

definition decodeV0 :: "attestation rd" where
  "decodeV0 =
    rbind readByte (\<lambda>tag.
    if tag \<noteq> 0 then rfail UNSUPPORTED_VERSION
    else rbind decodeV0Platform (\<lambda>platform.
      rbind (readVecItems decodeV0RuntimeEvent) (\<lambda>runtimeEvents.
      rbind (readFixed 64) (\<lambda>reportData.
      rbind readString (\<lambda>config.
      rbind assertEnd (\<lambda>_.
        rret \<lparr>attVersion = V0, attPlatform = platform,
          attStack = \<lparr>seReportData = reportData, seRuntimeEvents = runtimeEvents, seConfig = config,
            seReportDataPayload = None, seStackKind = Dstack\<rparr>\<rparr>))))))"

subsection \<open>Typed reads of untyped fields\<close>

definition requireBin :: "jsval \<Rightarrow> string \<Rightarrow> aerr + bytes" where
  "requireBin obj key =
    (case getProp obj (js key) of JBin bs \<Rightarrow> Inr bs | _ \<Rightarrow> Inl MALFORMED_ATTESTATION)"

definition requireStr :: "jsval \<Rightarrow> string \<Rightarrow> aerr + jsstr" where
  "requireStr obj key =
    (case getProp obj (js key) of JStr s \<Rightarrow> Inr s | _ \<Rightarrow> Inl MALFORMED_ATTESTATION)"

definition requireUint :: "jsval \<Rightarrow> string \<Rightarrow> aerr + nat" where
  "requireUint obj key =
    (case asUint (getProp obj (js key)) of Some n \<Rightarrow> Inr n | None \<Rightarrow> Inl MALFORMED_ATTESTATION)"

definition requireArray :: "jsval \<Rightarrow> string \<Rightarrow> aerr + jsval list" where
  "requireArray obj key =
    (case getProp obj (js key) of JArr xs \<Rightarrow> Inr xs | _ \<Rightarrow> Inl MALFORMED_ATTESTATION)"

text \<open>\<open>entry === null || typeof entry !== 'object' || entry instanceof Uint8Array\<close>, refused.\<close>

definition requireMap :: "jsval \<Rightarrow> aerr + unit" where
  "requireMap entry =
    failIf (entry = JNull \<or> \<not> typeofObject entry \<or> (\<exists>bs. entry = JBin bs)) MALFORMED_ATTESTATION"

lemma requireMap_code [code]:
  "requireMap entry =
    (case entry of JArr _ \<Rightarrow> Inr () | JObj _ _ \<Rightarrow> Inr () | _ \<Rightarrow> Inl MALFORMED_ATTESTATION)"
  by (simp add: requireMap_def failIf_def split: jsval.splits)

text \<open>The \<open>version\<close> field of an event: absent or null is 1; else it has to be the number 1 or 2.\<close>

definition eventVersion :: "jsval \<Rightarrow> aerr + event_version" where
  "eventVersion v =
    (if v = JUndef \<or> v = JNull then Inr EV1
     else if v = JNum (NInt 1) then Inr EV1
     else if v = JNum (NInt 2) then Inr EV2
     else Inl MALFORMED_ATTESTATION)"

subsection \<open>The msgpack envelope\<close>

definition readTdxEvent :: "jsval \<Rightarrow> aerr + tdx_event" where
  "readTdxEvent entry =
    bindE (requireMap entry) (\<lambda>_.
    bindE (requireUint entry ''imr'') (\<lambda>imr.
    bindE (requireUint entry ''event_type'') (\<lambda>eventType.
    bindE (requireBin entry ''digest'') (\<lambda>digest.
    bindE (requireStr entry ''event'') (\<lambda>event.
    bindE (requireBin entry ''event_payload'') (\<lambda>eventPayload.
    bindE (eventVersion (getProp entry (js ''version''))) (\<lambda>version.
    bindE (case getProp entry (js ''preimage'') of
        JUndef \<Rightarrow> Inr None | JNull \<Rightarrow> Inr None | JStr s \<Rightarrow> Inr (Some s)
      | _ \<Rightarrow> Inl MALFORMED_ATTESTATION) (\<lambda>preimage.
      Inr \<lparr>teImr = imr, teEventType = eventType, teDigest = digest, teEvent = event,
        teEventPayload = eventPayload, teVersion = version, tePreimage = preimage\<rparr>))))))))"

definition readTdxEvents :: "jsval list \<Rightarrow> aerr + tdx_event list" where
  "readTdxEvents entries = mapE readTdxEvent entries"

definition certEntry :: "jsval \<Rightarrow> aerr + bytes" where
  "certEntry entry = (case entry of JBin bs \<Rightarrow> Inr bs | _ \<Rightarrow> Inl MALFORMED_ATTESTATION)"

definition platformOf :: "jsstr \<Rightarrow> jsval \<Rightarrow> aerr + platform_evidence" where
  "platformOf kind obj =
    (if kind = js ''tdx'' then
       bindE (requireBin obj ''quote'') (\<lambda>quote.
       bindE (requireArray obj ''event_log'') (\<lambda>entries.
       bindE (readTdxEvents entries) (\<lambda>eventLog. Inr (Tdx quote eventLog))))
     else if kind = js ''gcp-tdx'' then
       bindE (requireBin obj ''quote'') (\<lambda>quote.
       bindE (requireArray obj ''event_log'') (\<lambda>entries.
       bindE (readTdxEvents entries) (\<lambda>eventLog.
         Inr (GcpTdx quote eventLog (getProp obj (js ''tpm_quote''))))))
     else if kind = js ''nitro-enclave'' then
       bindE (requireBin obj ''nsm_quote'') (\<lambda>nsmQuote. Inr (NitroEnclave nsmQuote))
     else if kind = js ''aws-nitro-tpm'' then
       bindE (requireBin obj ''attestation_doc'') (\<lambda>doc. Inr (AwsNitroTpm doc))
     else if kind = js ''sev-snp'' then
       bindE (requireBin obj ''report'') (\<lambda>report.
       bindE (requireArray obj ''cert_chain'') (\<lambda>entries.
       bindE (mapE certEntry entries) (\<lambda>certChain.
       bindE (requireStr obj ''mr_config'') (\<lambda>mrConfig. Inr (SevSnp report certChain mrConfig)))))
     else Inl UNKNOWN_PLATFORM)"

text \<open>The loop both parts share: the last \<open>kind\<close> and the last \<open>data\<close> win, other keys are skipped.\<close>

definition kindData :: "jsstr option \<times> jsval \<Rightarrow> (jsstr option \<times> jsval) rd" where
  "kindData s =
    rbind readStr (\<lambda>key.
      if key = js ''kind'' then rbind readStr (\<lambda>k. rret (Some k, snd s))
      else if key = js ''data'' then rbind readValue (\<lambda>v. rret (fst s, v))
      else rbind skipValue (\<lambda>_. rret s))"

definition readKindData :: "(jsstr option \<times> jsval) rd" where
  "readKindData = rbind readMapHeader (\<lambda>count. foldTimes count kindData (None, JNull))"

definition rlift :: "aerr + 'a \<Rightarrow> 'a rd" where
  "rlift v = (case v of Inl e \<Rightarrow> rfail e | Inr x \<Rightarrow> rret x)"

definition decodeV1Platform :: "platform_evidence rd" where
  "decodeV1Platform =
    rbind readKindData (\<lambda>(kind, data).
      case kind of
        None \<Rightarrow> rfail MALFORMED_ATTESTATION
      | Some k \<Rightarrow>
          if data = JNull \<or> \<not> typeofObject data then rfail MALFORMED_ATTESTATION
          else rlift (platformOf k data))"

definition runtimeEntry :: "jsval \<Rightarrow> aerr + runtime_event" where
  "runtimeEntry entry =
    bindE (requireMap entry) (\<lambda>_.
    bindE (requireStr entry ''event'') (\<lambda>event.
    bindE (requireBin entry ''payload'') (\<lambda>payload.
    bindE (eventVersion (getProp entry (js ''version''))) (\<lambda>version.
      Inr \<lparr>reEvent = event, rePayload = payload, reVersion = version\<rparr>))))"

definition stackOf :: "stack_kind \<Rightarrow> jsval \<Rightarrow> aerr + stack_evidence" where
  "stackOf kind obj =
    bindE (requireBin obj ''report_data'') (\<lambda>reportData.
    bindE (failIf (length reportData \<noteq> 64) MALFORMED_ATTESTATION) (\<lambda>_.
    bindE (requireArray obj ''runtime_events'') (\<lambda>entries.
    bindE (mapE runtimeEntry entries) (\<lambda>runtimeEvents.
    bindE (requireStr obj ''config'') (\<lambda>config.
    bindE (case kind of
        DstackPod \<Rightarrow> bindE (requireStr obj ''report_data_payload'') (\<lambda>s. Inr (Some s))
      | Dstack \<Rightarrow> Inr (case getProp obj (js ''report_data_payload'') of JStr s \<Rightarrow> Some s | _ \<Rightarrow> None)) (\<lambda>payload.
      Inr \<lparr>seReportData = reportData, seRuntimeEvents = runtimeEvents, seConfig = config,
        seReportDataPayload = payload, seStackKind = kind\<rparr>))))))"

definition stackKindOf :: "jsstr option \<Rightarrow> aerr + stack_kind" where
  "stackKindOf kind =
    (if kind = Some (js ''dstack'') then Inr Dstack
     else if kind = Some (js ''dstack-pod'') then Inr DstackPod
     else Inl (if kind = None then MALFORMED_ATTESTATION else UNKNOWN_STACK))"

definition decodeV1Stack :: "stack_evidence rd" where
  "decodeV1Stack =
    rbind readKindData (\<lambda>(kind, data).
      rbind (rlift (stackKindOf kind)) (\<lambda>k.
        if data = JNull \<or> \<not> typeofObject data then rfail MALFORMED_ATTESTATION
        else rlift (stackOf k data)))"

record v1_fields =
  vfVersion :: "nat option"
  vfPlatform :: "platform_evidence option"
  vfStack :: "stack_evidence option"

definition v1Field :: "v1_fields \<Rightarrow> v1_fields rd" where
  "v1Field s =
    rbind readStr (\<lambda>key.
      if key = js ''version'' then rbind readUint (\<lambda>v. rret (s\<lparr>vfVersion := Some v\<rparr>))
      else if key = js ''platform'' then rbind decodeV1Platform (\<lambda>p. rret (s\<lparr>vfPlatform := Some p\<rparr>))
      else if key = js ''stack'' then rbind decodeV1Stack (\<lambda>t. rret (s\<lparr>vfStack := Some t\<rparr>))
      else rbind skipValue (\<lambda>_. rret s))"

definition decodeV1 :: "attestation rd" where
  "decodeV1 =
    rbind readMapHeader (\<lambda>count.
    rbind (foldTimes count v1Field \<lparr>vfVersion = None, vfPlatform = None, vfStack = None\<rparr>) (\<lambda>s.
      if vfVersion s \<noteq> Some 1 then rfail UNSUPPORTED_VERSION
      else case vfPlatform s of
        None \<Rightarrow> rfail MALFORMED_ATTESTATION
      | Some platform \<Rightarrow>
          (case vfStack s of
             None \<Rightarrow> rfail MALFORMED_ATTESTATION
           | Some stack \<Rightarrow>
               rbind assertEnd (\<lambda>_. rret \<lparr>attVersion = V1, attPlatform = platform, attStack = stack\<rparr>))))"

definition runReader :: "'a rd \<Rightarrow> bytes \<Rightarrow> aerr + 'a" where
  "runReader f bs = bindE (newReader bs) (\<lambda>r. bindE (f r) (\<lambda>(x, _). Inr x))"

definition decodeAttestation :: "bytes \<Rightarrow> aerr + attestation" where
  "decodeAttestation bs =
    (if bs = [] then Inl MALFORMED_ATTESTATION
     else if bs ! 0 = 0x00 then runReader decodeV0 bs
     else if isMsgpackMapPrefix (bs ! 0) then runReader decodeV1 bs
     else Inl MALFORMED_ATTESTATION)"

subsection \<open>Contracts\<close>

lemma item_decodeV0TdxEvent: "item_reader decodeV0TdxEvent"
  unfolding decodeV0TdxEvent_def
  by (intro item_reader_rbind readU32.item_reader_axioms reader_intros item_reader_op
      [OF readU32.item_reader_axioms] item_reader_op [OF item_readVec] item_reader_op [OF item_readString])

interpretation decodeV0TdxEvent: item_reader decodeV0TdxEvent
  by (rule item_decodeV0TdxEvent)

lemma item_decodeV0RuntimeEvent: "item_reader decodeV0RuntimeEvent"
  unfolding decodeV0RuntimeEvent_def
  by (intro item_reader_rbind item_readString reader_intros item_reader_op [OF item_readVec])

interpretation decodeV0RuntimeEvent: item_reader decodeV0RuntimeEvent
  by (rule item_decodeV0RuntimeEvent)

lemma item_decodeV0Platform: "item_reader decodeV0Platform"
  unfolding decodeV0Platform_def
  by (intro item_reader_rbind readByte.item_reader_axioms reader_intros item_reader_op [OF item_readVec]
      item_reader_op [OF item_readString] item_reader_op [OF item_readVecItems]
      decodeV0TdxEvent.reader_op_axioms)

interpretation decodeV0Platform: item_reader decodeV0Platform
  by (rule item_decodeV0Platform)

subsection \<open>Reading an envelope to its end\<close>

text \<open>\<open>outcome f bs t v\<close>: on an input that is \<open>bs\<close> and then \<open>t\<close>, the operation ends in \<open>v\<close>.\<close>

definition outcome :: "'a rd \<Rightarrow> bytes \<Rightarrow> bytes \<Rightarrow> aerr + 'a \<Rightarrow> bool" where
  "outcome f bs t v \<longleftrightarrow>
    (\<forall>r. rpos r \<le> length (rbytes r) \<longrightarrow> rest r = bs @ t \<longrightarrow> bindE (f r) (\<lambda>(x, _). Inr x) = v)"

lemma outcome_rbind:
  assumes "reads f bs x" and "outcome (g x) cs t v"
  shows "outcome (rbind f g) (bs @ cs) t v"
  unfolding outcome_def
proof (intro allI impI)
  fix r
  assume in_r: "rpos r \<le> length (rbytes r)" and r: "rest r = (bs @ cs) @ t"
  let ?s = "r\<lparr>rpos := rpos r + length bs\<rparr>"
  have f: "f r = Inr (x, ?s)" using assms(1) in_r r by (simp add: reads_def)
  have "rest ?s = cs @ t" using r by (intro rest_advance) simp
  moreover have "rpos ?s \<le> length (rbytes ?s)" using inside_advance [OF in_r] r by simp
  ultimately have "bindE (g x ?s) (\<lambda>(x, _). Inr x) = v" using assms(2) unfolding outcome_def by blast
  then show "bindE (rbind f g r) (\<lambda>(x, _). Inr x) = v" using f by (simp add: rbind_def)
qed

lemma outcome_end:
  "outcome (rbind assertEnd (\<lambda>_. rret y)) [] t (if t = [] then Inr y else Inl TRAILING_BYTES)"
proof -
  have "remaining r = length t" if "rest r = [] @ t" for r using that length_rest [of r] by simp
  then show ?thesis by (auto simp: outcome_def rbind_def assertEnd_def rret_def)
qed

lemma runReader_outcome:
  "outcome f bs t v \<Longrightarrow> length (bs @ t) \<le> MAX_ATTESTATION_BYTES \<Longrightarrow> runReader f (bs @ t) = v"
  by (simp add: runReader_def newReader_def outcome_def rest_def)

subsection \<open>V0 round trip\<close>

definition textOk :: "jsstr \<Rightarrow> bool" where
  "textOk s \<longleftrightarrow> plainText s \<and> length (textEncode s) \<le> MAX_ATTESTATION_BYTES"

definition binOk :: "bytes \<Rightarrow> bool" where
  "binOk bs \<longleftrightarrow> length bs \<le> MAX_ATTESTATION_BYTES"

definition v0TdxEnc :: "tdx_event \<Rightarrow> bytes" where
  "v0TdxEnc e =
    leEnc 4 (teImr e) @ leEnc 4 (teEventType e) @ vecEnc (teDigest e) @ strEnc (teEvent e) @
    vecEnc (teEventPayload e)"

definition v0TdxOk :: "tdx_event \<Rightarrow> bool" where
  "v0TdxOk e \<longleftrightarrow> teImr e < 2 ^ 32 \<and> teEventType e < 2 ^ 32 \<and> binOk (teDigest e) \<and>
    textOk (teEvent e) \<and> binOk (teEventPayload e) \<and> teVersion e = EV1 \<and> tePreimage e = None"

definition v0RuntimeEnc :: "runtime_event \<Rightarrow> bytes" where
  "v0RuntimeEnc e = strEnc (reEvent e) @ vecEnc (rePayload e)"

definition v0RuntimeOk :: "runtime_event \<Rightarrow> bool" where
  "v0RuntimeOk e \<longleftrightarrow> textOk (reEvent e) \<and> binOk (rePayload e) \<and> reVersion e = EV1"

fun v0PlatformEnc :: "platform_evidence \<Rightarrow> bytes" where
  "v0PlatformEnc (Tdx quote es) = 0 # vecEnc quote @ itemsEnc v0TdxEnc es"
| "v0PlatformEnc (NitroEnclave q) = 2 # vecEnc q"
| "v0PlatformEnc (SevSnp report chain cfg) = 3 # vecEnc report @ itemsEnc vecEnc chain @ strEnc cfg"
| "v0PlatformEnc (AwsNitroTpm d) = 4 # vecEnc d"
| "v0PlatformEnc (GcpTdx _ _ _) = []"

fun v0PlatformOk :: "platform_evidence \<Rightarrow> bool" where
  "v0PlatformOk (Tdx quote es) = (binOk quote \<and> length es \<le> MAX_ATTESTATION_BYTES \<and> list_all v0TdxOk es)"
| "v0PlatformOk (NitroEnclave q) = binOk q"
| "v0PlatformOk (SevSnp report chain cfg) =
    (binOk report \<and> length chain \<le> MAX_ATTESTATION_BYTES \<and> list_all binOk chain \<and> textOk cfg)"
| "v0PlatformOk (AwsNitroTpm d) = binOk d"
| "v0PlatformOk (GcpTdx _ _ _) = False"

definition v0Enc :: "attestation \<Rightarrow> bytes" where
  "v0Enc a =
    0 # v0PlatformEnc (attPlatform a) @ itemsEnc v0RuntimeEnc (seRuntimeEvents (attStack a)) @
    seReportData (attStack a) @ strEnc (seConfig (attStack a))"

definition v0Ok :: "attestation \<Rightarrow> bool" where
  "v0Ok a \<longleftrightarrow> attVersion a = V0 \<and> v0PlatformOk (attPlatform a) \<and>
    list_all v0RuntimeOk (seRuntimeEvents (attStack a)) \<and>
    length (seRuntimeEvents (attStack a)) \<le> MAX_ATTESTATION_BYTES \<and>
    length (seReportData (attStack a)) = 64 \<and> textOk (seConfig (attStack a)) \<and>
    seReportDataPayload (attStack a) = None \<and> seStackKind (attStack a) = Dstack"

lemma reads_fieldOk:
  "binOk bs \<Longrightarrow> reads readVec (vecEnc bs) bs" "textOk s \<Longrightarrow> reads readString (strEnc s) s"
  by (simp_all add: binOk_def textOk_def reads_readVec reads_readString)

lemma reads_last: "reads f bs x \<Longrightarrow> (\<And>y. g y = rret (h y)) \<Longrightarrow> reads (rbind f g) bs (h x)"
  using reads_then [of f bs x h] by presburger

lemma reads_v0Tdx: "v0TdxOk e \<Longrightarrow> reads decodeV0TdxEvent (v0TdxEnc e) e"
  unfolding decodeV0TdxEvent_def v0TdxEnc_def
  by (cases e, simp only: v0TdxOk_def tdx_event.simps)
     (intro reads_rbind [OF reads_readU32] reads_rbind [OF reads_fieldOk(1)] reads_rbind [OF reads_fieldOk(2)]
       reads_last [OF reads_fieldOk(1)] | simp)+

lemma reads_v0Runtime: "v0RuntimeOk e \<Longrightarrow> reads decodeV0RuntimeEvent (v0RuntimeEnc e) e"
  unfolding decodeV0RuntimeEvent_def v0RuntimeEnc_def
  by (cases e, simp only: v0RuntimeOk_def runtime_event.simps)
     (intro reads_rbind [OF reads_fieldOk(2)] reads_last [OF reads_fieldOk(1)] | simp)+

lemma reads_items:
  "(\<And>x. P x \<Longrightarrow> reads f (enc x) x) \<Longrightarrow> list_all P xs \<Longrightarrow> length xs \<le> MAX_ATTESTATION_BYTES \<Longrightarrow>
    reads (readVecItems f) (itemsEnc enc xs) xs"
  by (rule reads_readVecItems) (simp_all add: list_all_iff)

lemma reads_v0Platform: "v0PlatformOk p \<Longrightarrow> reads decodeV0Platform (v0PlatformEnc p) p"
proof (cases p)
  case (Tdx q es)
  assume "v0PlatformOk p"
  then have ok: "binOk q" "list_all v0TdxOk es" "length es \<le> MAX_ATTESTATION_BYTES" by (simp_all add: Tdx)
  show ?thesis unfolding decodeV0Platform_def Tdx v0PlatformEnc.simps
    by (rule reads_marker)
       (simp, intro reads_rbind [OF reads_fieldOk(1)] reads_then [where h = "Tdx q"] ok
         reads_items [OF reads_v0Tdx] | assumption)+
next
  case (SevSnp rep chain cfg)
  assume "v0PlatformOk p"
  then have ok: "binOk rep" "list_all binOk chain" "length chain \<le> MAX_ATTESTATION_BYTES" "textOk cfg"
    by (simp_all add: SevSnp)
  show ?thesis unfolding decodeV0Platform_def SevSnp v0PlatformEnc.simps
    by (rule reads_marker)
       (simp, intro reads_rbind [OF reads_fieldOk(1)] reads_then [where h = "SevSnp rep chain"] ok
         reads_rbind [OF reads_items] reads_fieldOk | assumption)+
next
  case (NitroEnclave q)
  assume "v0PlatformOk p"
  then show ?thesis unfolding decodeV0Platform_def NitroEnclave v0PlatformEnc.simps
    by (intro reads_marker) (simp add: reads_then reads_fieldOk)
next
  case (AwsNitroTpm q)
  assume "v0PlatformOk p"
  then show ?thesis unfolding decodeV0Platform_def AwsNitroTpm v0PlatformEnc.simps
    by (intro reads_marker) (simp add: reads_then reads_fieldOk)
qed simp

lemma outcome_v0:
  assumes "v0Ok a"
  shows "outcome decodeV0 (v0Enc a) t (if t = [] then Inr a else Inl TRAILING_BYTES)"
proof -
  define s where "s = attStack a"
  have p: "v0PlatformOk (attPlatform a)" and re: "list_all v0RuntimeOk (seRuntimeEvents s)"
    "length (seRuntimeEvents s) \<le> MAX_ATTESTATION_BYTES"
    and rd: "64 = length (seReportData s)" and c: "textOk (seConfig s)"
    and a: "a = \<lparr>attVersion = V0, attPlatform = attPlatform a,
          attStack = \<lparr>seReportData = seReportData s, seRuntimeEvents = seRuntimeEvents s, seConfig = seConfig s,
            seReportDataPayload = None, seStackKind = Dstack\<rparr>\<rparr>" (is "a = ?a")
    using assms by (simp_all add: v0Ok_def s_def)
  have e: "v0Enc a = [0] @ v0PlatformEnc (attPlatform a) @ itemsEnc v0RuntimeEnc (seRuntimeEvents s) @
    seReportData s @ strEnc (seConfig s) @ []" by (simp add: v0Enc_def s_def)
  have fin: "outcome (rbind assertEnd (\<lambda>_. rret ?a)) [] t (if t = [] then Inr a else Inl TRAILING_BYTES)"
    unfolding a [symmetric] by (rule outcome_end)
  have "outcome (rbind decodeV0Platform (\<lambda>platform.
      rbind (readVecItems decodeV0RuntimeEvent) (\<lambda>runtimeEvents.
      rbind (readFixed 64) (\<lambda>reportData.
      rbind readString (\<lambda>config.
      rbind assertEnd (\<lambda>_.
        rret \<lparr>attVersion = V0, attPlatform = platform,
          attStack = \<lparr>seReportData = reportData, seRuntimeEvents = runtimeEvents, seConfig = config,
            seReportDataPayload = None, seStackKind = Dstack\<rparr>\<rparr>))))))
    (v0PlatformEnc (attPlatform a) @ itemsEnc v0RuntimeEnc (seRuntimeEvents s) @
    seReportData s @ strEnc (seConfig s) @ []) t (if t = [] then Inr a else Inl TRAILING_BYTES)"
    by (rule outcome_rbind [OF reads_v0Platform [OF p]],
        rule outcome_rbind [OF reads_items [OF reads_v0Runtime re]], assumption,
        rule outcome_rbind [OF reads_readFixed [OF rd]],
        rule outcome_rbind [OF reads_fieldOk(2) [OF c]], rule fin)
  then show ?thesis unfolding e decodeV0_def
    by (intro outcome_rbind [OF reads_readByte]) simp
qed

text \<open>A V0 envelope decodes to what was encoded, and one with anything after it is refused.\<close>

text \<open>
  Round trip of the legacy SCALE envelope: decoding the encoding of any well-formed version 0
  attestation gives it back, and the same bytes with anything after them are refused as trailing bytes.
\<close>

theorem decode_v0Enc:
  assumes "v0Ok a" and "length (v0Enc a @ t) \<le> MAX_ATTESTATION_BYTES"
  shows "decodeAttestation (v0Enc a @ t) = (if t = [] then Inr a else Inl TRAILING_BYTES)"
proof -
  have "decodeAttestation (v0Enc a @ t) = runReader decodeV0 (v0Enc a @ t)"
    by (simp add: decodeAttestation_def v0Enc_def)
  then show ?thesis using runReader_outcome [OF outcome_v0 [OF assms(1)] assms(2)] by simp
qed

definition sampleV0 :: attestation where
  "sampleV0 = \<lparr>attVersion = V0, attPlatform = NitroEnclave [1, 2, 3],
    attStack = \<lparr>seReportData = replicate 64 9, seRuntimeEvents = [], seConfig = js ''{}'',
      seReportDataPayload = None, seStackKind = Dstack\<rparr>\<rparr>"

lemma textOk_literal: "asciiStr s \<Longrightarrow> length s \<le> MAX_ATTESTATION_BYTES \<Longrightarrow> textOk (js s)"
  using ascii_js [of s] by (simp add: textOk_def plainText_ascii length_textEncode_ascii)

lemma sampleV0_ok: "v0Ok sampleV0"
proof -
  have "textOk (js ''{}'')" by (rule textOk_literal) (simp_all add: asciiStr_def MAX_ATTESTATION_BYTES_def)
  then show ?thesis by (simp add: v0Ok_def sampleV0_def binOk_def MAX_ATTESTATION_BYTES_def)
qed

lemma sampleV0_short: "length (v0Enc sampleV0) \<le> MAX_ATTESTATION_BYTES"
proof -
  have "length (strEnc (js ''{}'')) \<le> 10"
    by (simp add: strEnc_def vecEnc_def compact_def textEncode_ascii ascii_js asciiStr_def length_textEncode_ascii)
  then show ?thesis
    by (simp add: v0Enc_def sampleV0_def itemsEnc_def vecEnc_def compact_def MAX_ATTESTATION_BYTES_def)
qed

lemma decode_v0_ok: "v0Ok a \<Longrightarrow> length (v0Enc a) \<le> MAX_ATTESTATION_BYTES \<Longrightarrow> decodeAttestation (v0Enc a) = Inr a"
  using runReader_outcome [OF outcome_v0, of a "[]"] by (simp add: decodeAttestation_def v0Enc_def)

lemma decode_sampleV0: "decodeAttestation (v0Enc sampleV0) = Inr sampleV0"
  by (rule decode_v0_ok [OF sampleV0_ok sampleV0_short])

lemma decode_v0Enc_witness: "decodeAttestation (v0Enc sampleV0 @ []) = (if ([] :: bytes) = [] then Inr sampleV0 else Inl TRAILING_BYTES)"
  by (rule decode_v0Enc [OF sampleV0_ok]) (use sampleV0_short in simp)

subsection \<open>V1 round trip\<close>

definition versionVal :: "event_version \<Rightarrow> jsval" where
  "versionVal v = jsnat (case v of EV1 \<Rightarrow> 1 | EV2 \<Rightarrow> 2)"

definition optStr :: "jsstr option \<Rightarrow> jsval" where
  "optStr s = (case s of None \<Rightarrow> JNull | Some t \<Rightarrow> JStr t)"

definition tdxEventVal :: "tdx_event \<Rightarrow> jsval" where
  "tdxEventVal e = JObj
    [(js ''imr'', jsnat (teImr e)), (js ''event_type'', jsnat (teEventType e)),
     (js ''digest'', JBin (teDigest e)), (js ''event'', JStr (teEvent e)),
     (js ''event_payload'', JBin (teEventPayload e)), (js ''version'', versionVal (teVersion e)),
     (js ''preimage'', optStr (tePreimage e))] None"

definition runtimeEventVal :: "runtime_event \<Rightarrow> jsval" where
  "runtimeEventVal e = JObj
    [(js ''event'', JStr (reEvent e)), (js ''payload'', JBin (rePayload e)),
     (js ''version'', versionVal (reVersion e))] None"

fun platformKind :: "platform_evidence \<Rightarrow> jsstr" where
  "platformKind (Tdx _ _) = js ''tdx''"
| "platformKind (GcpTdx _ _ _) = js ''gcp-tdx''"
| "platformKind (NitroEnclave _) = js ''nitro-enclave''"
| "platformKind (AwsNitroTpm _) = js ''aws-nitro-tpm''"
| "platformKind (SevSnp _ _ _) = js ''sev-snp''"

fun platformVal :: "platform_evidence \<Rightarrow> jsval" where
  "platformVal (Tdx q es) = JObj [(js ''quote'', JBin q), (js ''event_log'', JArr (map tdxEventVal es))] None"
| "platformVal (GcpTdx q es t) = JObj
    [(js ''quote'', JBin q), (js ''event_log'', JArr (map tdxEventVal es)), (js ''tpm_quote'', t)] None"
| "platformVal (NitroEnclave q) = JObj [(js ''nsm_quote'', JBin q)] None"
| "platformVal (AwsNitroTpm d) = JObj [(js ''attestation_doc'', JBin d)] None"
| "platformVal (SevSnp r chain cfg) = JObj
    [(js ''report'', JBin r), (js ''cert_chain'', JArr (map JBin chain)), (js ''mr_config'', JStr cfg)] None"

definition stackName :: "stack_kind \<Rightarrow> jsstr" where
  "stackName k = (case k of Dstack \<Rightarrow> js ''dstack'' | DstackPod \<Rightarrow> js ''dstack-pod'')"

definition stackVal :: "stack_evidence \<Rightarrow> jsval" where
  "stackVal s = JObj
    [(js ''report_data'', JBin (seReportData s)),
     (js ''runtime_events'', JArr (map runtimeEventVal (seRuntimeEvents s))),
     (js ''config'', JStr (seConfig s)), (js ''report_data_payload'', optStr (seReportDataPayload s))] None"

definition kindVal :: "jsstr \<Rightarrow> jsval \<Rightarrow> jsval" where
  "kindVal k v = JObj [(js ''kind'', JStr k), (js ''data'', v)] None"

definition v1Val :: "attestation \<Rightarrow> jsval" where
  "v1Val a = JObj
    [(js ''version'', jsnat 1),
     (js ''platform'', kindVal (platformKind (attPlatform a)) (platformVal (attPlatform a))),
     (js ''stack'', kindVal (stackName (seStackKind (attStack a))) (stackVal (attStack a)))] None"

definition v1Enc :: "attestation \<Rightarrow> bytes" where
  "v1Enc a = mpEnc (v1Val a)"

text \<open>
  What the envelope can carry: representable values, 64 bytes of report data, and a payload
  where the pod stack requires one.
\<close>

definition v1Ok :: "attestation \<Rightarrow> bool" where
  "v1Ok a \<longleftrightarrow> attVersion a = V1 \<and> mpOk (platformVal (attPlatform a)) \<and> mpOk (stackVal (attStack a)) \<and>
    length (seReportData (attStack a)) = 64 \<and>
    (seStackKind (attStack a) = DstackPod \<longrightarrow> seReportDataPayload (attStack a) \<noteq> None)"

lemma eventVersion_versionVal [simp]: "eventVersion (versionVal v) = Inr v"
  by (cases v) (simp_all add: eventVersion_def versionVal_def jsnat_def)

lemma asUint_jsnat [simp]: "asUint (jsnat n) = Some n"
  by (simp add: jsnat_def)

lemma readTdxEvent_val [simp]: "readTdxEvent (tdxEventVal e) = Inr e"
  by (simp add: readTdxEvent_def tdxEventVal_def requireMap_def failIf_def requireUint_def
      requireBin_def requireStr_def optStr_def split: option.splits)

lemma runtimeEntry_val [simp]: "runtimeEntry (runtimeEventVal e) = Inr e"
  by (simp add: runtimeEntry_def runtimeEventVal_def requireMap_def failIf_def requireBin_def requireStr_def)

lemma mapE_map: "(\<And>x. f (g x) = Inr x) \<Longrightarrow> mapE f (map g xs) = Inr xs"
  by (induction xs) auto

lemma platformOf_val: "platformOf (platformKind p) (platformVal p) = Inr p"
  by (cases p) (simp_all add: platformOf_def requireBin_def requireArray_def requireStr_def
      readTdxEvents_def mapE_map certEntry_def)

lemma stackOf_val:
  assumes "length (seReportData s) = 64" and "seStackKind s = DstackPod \<longrightarrow> seReportDataPayload s \<noteq> None"
  shows "stackOf (seStackKind s) (stackVal s) = Inr s"
  using assms
  by (cases s) (auto simp: stackOf_def stackVal_def requireBin_def requireArray_def requireStr_def
      mapE_map optStr_def failIf_def split: stack_kind.splits option.splits)

lemma platformVal_obj: "typeofObject (platformVal p) \<and> platformVal p \<noteq> JNull"
  by (cases p) auto

lemma stackVal_obj: "typeofObject (stackVal s) \<and> stackVal s \<noteq> JNull"
  by (simp add: stackVal_def)

lemma reads_fold_step:
  "reads (f s) bs t \<Longrightarrow> reads (foldTimes n f t) cs u \<Longrightarrow> reads (foldTimes (Suc n) f s) (bs @ cs) u"
  unfolding foldTimes.simps by (rule reads_rbind)

lemma key_literals [simp]:
  "strOk (js ''kind'')" "strOk (js ''data'')" "strOk (js ''version'')" "strOk (js ''platform'')"
  "strOk (js ''stack'')" "strOk (js ''tdx'')" "strOk (js ''gcp-tdx'')" "strOk (js ''nitro-enclave'')"
  "strOk (js ''aws-nitro-tpm'')" "strOk (js ''sev-snp'')" "strOk (js ''dstack'')" "strOk (js ''dstack-pod'')"
  by (intro strOk_literal; simp add: asciiStr_def)+

lemma reads_kindData:
  assumes "strOk k" and "mpOk v"
  shows "reads readKindData (mpEnc (kindVal k v)) (Some k, v)"
proof -
  have "reads (kindData (None, JNull)) (mpStr (js ''kind'') @ mpStr k) (Some k, JNull)"
    unfolding kindData_def
    by (intro reads_rbind [OF reads_readStr]) (use assms reads_then [where h = "\<lambda>k. (Some k, JNull)", OF reads_readStr] in simp_all)
  moreover have "reads (kindData (Some k, JNull)) (mpStr (js ''data'') @ mpEnc v) (Some k, v)"
    unfolding kindData_def
    by (intro reads_rbind [OF reads_readStr]) (use reads_then [where h = "\<lambda>v. (Some k, v)", OF reads_mpEnc [OF assms(2)]] in simp_all)
  ultimately have "reads (foldTimes 2 kindData (None, JNull))
    ((mpStr (js ''kind'') @ mpStr k) @ (mpStr (js ''data'') @ mpEnc v) @ []) (Some k, v)"
    unfolding numeral_2_eq_2 by - (erule reads_fold_step, erule reads_fold_step, simp add: reads_rret)
  then have "reads readKindData (mapHead 2 @ (mpStr (js ''kind'') @ mpStr k) @ (mpStr (js ''data'') @ mpEnc v) @ []) (Some k, v)"
    unfolding readKindData_def by (intro reads_rbind [OF reads_readMapHeader]) simp_all
  then show ?thesis by (simp add: kindVal_def numeral_2_eq_2)
qed

lemma reads_v1Platform:
  assumes "mpOk (platformVal p)"
  shows "reads decodeV1Platform (mpEnc (kindVal (platformKind p) (platformVal p))) p"
proof -
  have "strOk (platformKind p)" by (cases p) simp_all
  from reads_rbind [where cs = "[]" and y = p and g = "\<lambda>(kind, data). case kind of None \<Rightarrow> rfail MALFORMED_ATTESTATION
      | Some k \<Rightarrow> if data = JNull \<or> \<not> typeofObject data then rfail MALFORMED_ATTESTATION
          else rlift (platformOf k data)", OF reads_kindData [OF this assms]]
  show ?thesis using platformVal_obj [of p]
    by (simp add: decodeV1Platform_def platformOf_val rlift_def reads_rret)
qed

lemma reads_v1Stack:
  assumes "mpOk (stackVal s)" and "length (seReportData s) = 64"
    and "seStackKind s = DstackPod \<longrightarrow> seReportDataPayload s \<noteq> None"
  shows "reads decodeV1Stack (mpEnc (kindVal (stackName (seStackKind s)) (stackVal s))) s"
proof -
  have "strOk (stackName (seStackKind s))" by (cases "seStackKind s") (simp_all add: stackName_def)
  moreover have "stackKindOf (Some (stackName (seStackKind s))) = Inr (seStackKind s)"
    by (cases "seStackKind s") (simp_all add: stackName_def stackKindOf_def)
  ultimately show ?thesis
    using stackVal_obj [of s] stackOf_val [OF assms(2,3)]
      reads_rbind [where cs = "[]" and y = s and g = "\<lambda>(kind, data). rbind (rlift (stackKindOf kind)) (\<lambda>k.
        if data = JNull \<or> \<not> typeofObject data then rfail MALFORMED_ATTESTATION
        else rlift (stackOf k data))", OF reads_kindData [OF _ assms(1)]]
    by (simp add: decodeV1Stack_def rlift_def reads_rret)
qed

lemma outcome_v1:
  assumes "v1Ok a"
  shows "outcome decodeV1 (v1Enc a) t (if t = [] then Inr a else Inl TRAILING_BYTES)"
proof -
  let ?p = "attPlatform a" and ?s = "attStack a"
  let ?pe = "mpEnc (kindVal (platformKind ?p) (platformVal ?p))"
  let ?se = "mpEnc (kindVal (stackName (seStackKind ?s)) (stackVal ?s))"
  let ?f0 = "\<lparr>vfVersion = None, vfPlatform = None, vfStack = None\<rparr>"
  let ?f1 = "\<lparr>vfVersion = Some 1, vfPlatform = None, vfStack = None\<rparr>"
  let ?f2 = "\<lparr>vfVersion = Some 1, vfPlatform = Some ?p, vfStack = None\<rparr>"
  let ?f3 = "\<lparr>vfVersion = Some 1, vfPlatform = Some ?p, vfStack = Some ?s\<rparr>"
  have p: "reads decodeV1Platform ?pe ?p" and s: "reads decodeV1Stack ?se ?s"
    using assms by (auto simp: v1Ok_def intro: reads_v1Platform reads_v1Stack)
  have v: "reads readUint (uintEnc 1) 1" by (intro reads_readUint) simp
  have "reads (v1Field ?f0) (mpStr (js ''version'') @ uintEnc 1) ?f1"
    "reads (v1Field ?f1) (mpStr (js ''platform'') @ ?pe) ?f2"
    "reads (v1Field ?f2) (mpStr (js ''stack'') @ ?se) ?f3"
    unfolding v1Field_def
    by (intro reads_rbind [OF reads_readStr], simp,
        simp add: reads_then [OF v, of "\<lambda>v. ?f0\<lparr>vfVersion := Some v\<rparr>", simplified]
          reads_then [OF p, of "\<lambda>v. ?f1\<lparr>vfPlatform := Some v\<rparr>", simplified]
          reads_then [OF s, of "\<lambda>v. ?f2\<lparr>vfStack := Some v\<rparr>", simplified])+
  then have loop: "reads (foldTimes 3 v1Field ?f0) ((mpStr (js ''version'') @ uintEnc 1) @ (mpStr (js ''platform'') @ ?pe) @
    (mpStr (js ''stack'') @ ?se) @ []) ?f3"
    unfolding numeral_3_eq_3
    by - (erule reads_fold_step, erule reads_fold_step, erule reads_fold_step, simp add: reads_rret)
  have a: "\<lparr>attVersion = V1, attPlatform = ?p, attStack = ?s\<rparr> = a"
    using assms by (cases a) (simp add: v1Ok_def)
  have "outcome decodeV1 (mapHead 3 @ ((mpStr (js ''version'') @ uintEnc 1) @ (mpStr (js ''platform'') @ ?pe) @
    (mpStr (js ''stack'') @ ?se) @ []) @ []) t (if t = [] then Inr a else Inl TRAILING_BYTES)"
    unfolding decodeV1_def
    by (intro outcome_rbind [OF reads_readMapHeader] outcome_rbind [OF loop])
       (use outcome_end [of a t] a in simp_all)
  then show ?thesis by (simp add: v1Enc_def v1Val_def jsnat_def intEnc_def numeral_3_eq_3 split del: if_split)
qed

text \<open>A V1 envelope decodes to what was encoded, and one with anything after it is refused.\<close>

text \<open>
  C24 Round trip of the MessagePack envelope: decoding the reference encoding of any well-formed version 1
  attestation, on each of the five platforms and both stacks, gives it back, and with anything after it
  the bytes are refused as trailing.
\<close>

theorem decode_v1Enc:
  assumes "v1Ok a" and "length (v1Enc a @ t) \<le> MAX_ATTESTATION_BYTES"
  shows "decodeAttestation (v1Enc a @ t) = (if t = [] then Inr a else Inl TRAILING_BYTES)"
proof -
  have "v1Enc a \<noteq> []" "(v1Enc a @ t) ! 0 = 0x83"
    by (simp_all add: v1Enc_def v1Val_def mapHead_def byteOf_def)
  then have "decodeAttestation (v1Enc a @ t) = runReader decodeV1 (v1Enc a @ t)"
    by (simp add: decodeAttestation_def isMsgpackMapPrefix_def)
  then show ?thesis using runReader_outcome [OF outcome_v1 [OF assms(1)] assms(2)] by simp
qed

definition sampleV1 :: attestation where
  "sampleV1 = \<lparr>attVersion = V1, attPlatform = NitroEnclave [1, 2, 3],
    attStack = \<lparr>seReportData = replicate 64 9, seRuntimeEvents = [], seConfig = js ''{}'',
      seReportDataPayload = None, seStackKind = Dstack\<rparr>\<rparr>"

lemma length_v1Enc_sample: "length (v1Enc sampleV1) \<le> MAX_ATTESTATION_BYTES"
  by (simp add: v1Enc_def v1Val_def sampleV1_def kindVal_def stackVal_def stackName_def mapHead_def arrayHead_def
      mpStr_def strHead_def mpBin_def binHead_def jsnat_def intEnc_def uintEnc_def length_textEncode_ascii ascii_js
      asciiStr_def optStr_def MAX_ATTESTATION_BYTES_def beEnc_def)

lemma decode_v1Enc_witness: "decodeAttestation (v1Enc sampleV1 @ []) = (if ([] :: bytes) = [] then Inr sampleV1 else Inl TRAILING_BYTES)"
proof (rule decode_v1Enc)
  show "v1Ok sampleV1"
    by (simp add: v1Ok_def sampleV1_def stackVal_def optStr_def strOk_literal asciiStr_def protoKey_def)
  show "length (v1Enc sampleV1 @ []) \<le> MAX_ATTESTATION_BYTES" using length_v1Enc_sample by simp
qed

subsection \<open>What every decoded attestation satisfies\<close>

definition isGcp :: "platform_evidence \<Rightarrow> bool" where
  "isGcp p = (case p of GcpTdx _ _ _ \<Rightarrow> True | _ \<Rightarrow> False)"

definition stackWf :: "stack_evidence \<Rightarrow> bool" where
  "stackWf s \<longleftrightarrow> length (seReportData s) = 64 \<and>
    (seStackKind s = DstackPod \<longrightarrow> seReportDataPayload s \<noteq> None)"

definition v0Wf :: "attestation \<Rightarrow> bool" where
  "v0Wf a \<longleftrightarrow> \<not> isGcp (attPlatform a) \<and> seStackKind (attStack a) = Dstack \<and>
    seReportDataPayload (attStack a) = None \<and> list_all (\<lambda>e. reVersion e = EV1) (seRuntimeEvents (attStack a))"

lemma foldTimes_inv:
  "foldTimes n f s r = Inr (t, r') \<Longrightarrow> P s \<Longrightarrow>
    (\<And>s q t q'. P s \<Longrightarrow> f s q = Inr (t, q') \<Longrightarrow> P t) \<Longrightarrow> P t"
proof (induction n arbitrary: s r)
  case 0
  then show ?case by simp
next
  case (Suc n)
  from Suc.prems(1) obtain u q where u: "f s r = Inr (u, q)" "foldTimes n f u q = Inr (t, r')"
    by (auto simp: rbind_Inr)
  have "P u" by (rule Suc.prems(3) [OF Suc.prems(2) u(1)])
  then show ?case by (rule Suc.IH [OF u(2)]) (rule Suc.prems(3))
qed

lemma readTimes_inv:
  "readTimes n f r = Inr (xs, s) \<Longrightarrow> (\<And>q x q'. f q = Inr (x, q') \<Longrightarrow> P x) \<Longrightarrow> list_all P xs"
  by (induction n arbitrary: r xs) (auto simp: rbind_Inr)

lemma rlift_Inr [simp]: "rlift v r = Inr (x, s) \<longleftrightarrow> v = Inr x \<and> s = r"
  by (cases v) (auto simp: rlift_def)

lemma stackOf_wf: "stackOf k obj = Inr s \<Longrightarrow> stackWf s"
  by (auto simp: stackOf_def stackWf_def bindE_Inr split: stack_kind.splits)

lemma decodeV1Stack_wf: "decodeV1Stack r = Inr (s, r') \<Longrightarrow> stackWf s"
  by (auto simp: decodeV1Stack_def rbind_Inr stackOf_wf split: if_splits)

lemma decodeV1_wf: "decodeV1 r = Inr (a, r') \<Longrightarrow> attVersion a = V1 \<and> stackWf (attStack a)"
proof -
  assume "decodeV1 r = Inr (a, r')"
  then obtain n q s q' where l: "foldTimes n v1Field \<lparr>vfVersion = None, vfPlatform = None, vfStack = None\<rparr> q = Inr (s, q')"
    and a: "attVersion a = V1" "vfStack s = Some (attStack a)"
    by (auto simp: decodeV1_def rbind_Inr split: if_splits option.splits)
  have "\<forall>t. vfStack s = Some t \<longrightarrow> stackWf t"
    by (rule foldTimes_inv [OF l])
       (auto simp: v1Field_def rbind_Inr decodeV1Stack_wf split: if_splits)
  with a show ?thesis by simp
qed

lemma decodeV0_wf: "decodeV0 r = Inr (a, r') \<Longrightarrow> attVersion a = V0 \<and> stackWf (attStack a) \<and> v0Wf a"
proof -
  assume d: "decodeV0 r = Inr (a, r')"
  have p: "decodeV0Platform q = Inr (x, q') \<Longrightarrow> \<not> isGcp x" for q x q'
    by (auto simp: decodeV0Platform_def rbind_Inr isGcp_def split: if_splits)
  have e: "decodeV0RuntimeEvent q = Inr (x, q') \<Longrightarrow> reVersion x = EV1" for q x q'
    by (auto simp: decodeV0RuntimeEvent_def rbind_Inr)
  have es: "readVecItems decodeV0RuntimeEvent q = Inr (xs, q') \<Longrightarrow> list_all (\<lambda>e. reVersion e = EV1) xs" for q xs q'
    unfolding readVecItems_def rbind_Inr using readTimes_inv [where P = "\<lambda>e. reVersion e = EV1"] e by blast
  have f: "readFixed 64 q = Inr (bs, q') \<Longrightarrow> length bs = 64" for q bs q'
    by (auto simp: readFixed_Inr remaining_def)
  show ?thesis using d p es f
    by (fastforce simp: decodeV0_def rbind_Inr stackWf_def v0Wf_def split: if_splits)
qed

lemma runReader_Inr:
  "runReader f bs = Inr x \<Longrightarrow> length bs \<le> MAX_ATTESTATION_BYTES \<and> (\<exists>r. f \<lparr>rbytes = bs, rpos = 0\<rparr> = Inr (x, r))"
  by (auto simp: runReader_def newReader_def bindE_Inr split: if_splits)

text \<open>
  C25 What a caller may rely on once decoding succeeded: the input is not empty and within the size limit,
  the report data is 64 bytes, a pod stack carries its payload, the version is 0 exactly when the first
  byte is, and a version 0 attestation has none of the version 1 features.
\<close>

theorem decodeAttestation_wf:
  assumes "decodeAttestation bs = Inr a"
  shows "bs \<noteq> [] \<and> length bs \<le> MAX_ATTESTATION_BYTES \<and> stackWf (attStack a) \<and>
    (attVersion a = V0 \<longleftrightarrow> bs ! 0 = 0) \<and> (attVersion a = V0 \<longrightarrow> v0Wf a)"
  using assms decodeV0_wf decodeV1_wf runReader_Inr [of decodeV0 bs a] runReader_Inr [of decodeV1 bs a]
  by (auto simp: decodeAttestation_def split: if_splits)

lemma decodeAttestation_wf_witness:
  "v0Enc sampleV0 \<noteq> [] \<and> length (v0Enc sampleV0) \<le> MAX_ATTESTATION_BYTES \<and> stackWf (attStack sampleV0) \<and>
    v0Enc sampleV0 ! 0 = 0 \<and> v0Wf sampleV0"
  using decodeAttestation_wf [OF decode_sampleV0] by (simp add: sampleV0_def)

end
