(* ===== verification/Events.thy ===== *)
theory Events
  imports AttestTypes
begin

text \<open>
  packages/attest-core/src/events.ts: the preimage and digest of a runtime event, the replay of
  RTMR 3 and the validation of the platform event log against the runtime events of the stack.
  \<open>sha384\<close> is the @noble operation, taken from the \<open>noble\<close> argument. \<open>toHex\<close> and \<open>fromHex\<close> of
  the same file are in JsText.
\<close>

definition concatBytes :: "bytes list \<Rightarrow> bytes" where
  "concatBytes parts = concat parts"

text \<open>\<open>'\u' + code.toString(16).padStart(4, '0')\<close>.\<close>

definition uEscape :: "nat \<Rightarrow> jsstr" where
  "uEscape code =
    js [CHR 0x5C, CHR ''u''] @
    [hexDigit (code div 4096 mod 16), hexDigit (code div 256 mod 16), hexDigit (code div 16 mod 16),
     hexDigit (code mod 16)]"

definition jcsEscapeChar :: "nat \<Rightarrow> jsstr" where
  "jcsEscapeChar code =
    (if code = 0x08 then js [CHR 0x5C, CHR ''b'']
     else if code = 0x09 then js [CHR 0x5C, CHR ''t'']
     else if code = 0x0a then js [CHR 0x5C, CHR ''n'']
     else if code = 0x0c then js [CHR 0x5C, CHR ''f'']
     else if code = 0x0d then js [CHR 0x5C, CHR ''r'']
     else if code = 0x22 then js [CHR 0x5C, CHR 0x22]
     else if code = 0x5c then js [CHR 0x5C, CHR 0x5C]
     else if code < 0x20 \<or> 0xd800 \<le> code \<and> code \<le> 0xdfff then uEscape code
     else [cuOf code])"

text \<open>One step of the loop: a supplementary code point is copied and both its units are skipped.\<close>

definition jcsEscapePoint :: "nat \<Rightarrow> jsstr" where
  "jcsEscapePoint code = (if code \<ge> 0x10000 then utf16_enc1 code else jcsEscapeChar code)"

definition quoteMark :: jsstr where
  "quoteMark = js [CHR 0x22]"

definition jcsEscape :: "jsstr \<Rightarrow> jsstr" where
  "jcsEscape value = quoteMark @ concat (map jcsEscapePoint (utf16_points value)) @ quoteMark"

definition canonicalEventJsonV2 :: "jsstr \<Rightarrow> bytes \<Rightarrow> jsstr" where
  "canonicalEventJsonV2 event payload =
    js ''{'' @ jcsEscape (js ''name'') @ js '':'' @ jcsEscape event @ js '','' @
    jcsEscape (js ''payload'') @ js '':'' @ quoteMark @ toHex payload @ quoteMark @ js '','' @
    jcsEscape (js ''type'') @ js '':134217729}''"

definition v1Prefix :: bytes where
  "v1Prefix = [0x01, 0x00, 0x00, 0x08, 0x3a]"

definition runtimeEventPreimage :: "runtime_event \<Rightarrow> bytes" where
  "runtimeEventPreimage e =
    (case reVersion e of
       EV1 \<Rightarrow> concatBytes [v1Prefix, textEncode (reEvent e), [0x3a], rePayload e]
     | EV2 \<Rightarrow> textEncode (canonicalEventJsonV2 (reEvent e) (rePayload e)))"

definition runtimeEventDigest :: "noble \<Rightarrow> runtime_event \<Rightarrow> bytes" where
  "runtimeEventDigest N e = sha384 N (runtimeEventPreimage e)"

definition isRuntimeEvent :: "tdx_event \<Rightarrow> bool" where
  "isRuntimeEvent e \<longleftrightarrow> teEventType e = DSTACK_RUNTIME_EVENT_TYPE"

definition runtimeOf :: "tdx_event \<Rightarrow> runtime_event" where
  "runtimeOf e = \<lparr>reEvent = teEvent e, rePayload = teEventPayload e, reVersion = teVersion e\<rparr>"

definition tdxEventDigest :: "noble \<Rightarrow> tdx_event \<Rightarrow> bytes" where
  "tdxEventDigest N e = (if isRuntimeEvent e then runtimeEventDigest N (runtimeOf e) else teDigest e)"

definition extend :: "noble \<Rightarrow> bytes \<Rightarrow> bytes \<Rightarrow> bytes" where
  "extend N mr digest = sha384 N (concatBytes [mr, digest])"

definition replayRtmr3 :: "noble \<Rightarrow> runtime_event list \<Rightarrow> bytes" where
  "replayRtmr3 N es = foldl (\<lambda>mr e. extend N mr (runtimeEventDigest N e)) (replicate 48 0) es"

text \<open>The comparison loop; \<open>equalBytes_iff\<close> below shows it decides equality.\<close>

fun equalBytes :: "bytes \<Rightarrow> bytes \<Rightarrow> bool" where
  "equalBytes [] [] = True"
| "equalBytes (a # as) (b # bs) = (if length as \<noteq> length bs then False else if a \<noteq> b then False else equalBytes as bs)"
| "equalBytes _ _ = False"

definition validateV2Preimage :: "noble \<Rightarrow> tdx_event \<Rightarrow> aerr + unit" where
  "validateV2Preimage N e =
    (case tePreimage e of
       None \<Rightarrow> Inl BAD_EVENT_PREIMAGE
     | Some p \<Rightarrow>
         bindE (failIf (\<not> isHex p) BAD_EVENT_PREIMAGE) (\<lambda>_.
         bindE (case fromHex p of None \<Rightarrow> Inl BAD_EVENT_PREIMAGE | Some bs \<Rightarrow> Inr bs) (\<lambda>supplied.
         bindE (failIf (\<not> equalBytes (sha384 N supplied) (teDigest e)) BAD_EVENT_PREIMAGE) (\<lambda>_.
         failIf (\<not> equalBytes supplied
           (runtimeEventPreimage \<lparr>reEvent = teEvent e, rePayload = teEventPayload e, reVersion = EV2\<rparr>))
           BAD_EVENT_PREIMAGE))))"

definition checkLogEvent :: "noble \<Rightarrow> tdx_event \<Rightarrow> aerr + unit" where
  "checkLogEvent N e =
    bindE (failIf (teImr e > 3) BAD_EVENT_DIGEST) (\<lambda>_.
      if isRuntimeEvent e then
        bindE (failIf (\<not> equalBytes (tdxEventDigest N e) (teDigest e)) BAD_EVENT_DIGEST) (\<lambda>_.
          if teVersion e = EV2 then validateV2Preimage N e else Inr ())
      else Inr ())"

definition checkPair :: "tdx_event \<times> runtime_event \<Rightarrow> aerr + unit" where
  "checkPair = (\<lambda>(tdx, runtime).
    bindE (failIf (teEvent tdx \<noteq> reEvent runtime \<or> teEventType tdx \<noteq> DSTACK_RUNTIME_EVENT_TYPE \<or>
        \<not> equalBytes (teEventPayload tdx) (rePayload runtime)) EVENT_LOG_MISMATCH) (\<lambda>_.
      failIf (teVersion tdx \<noteq> reVersion runtime) EVENT_LOG_MISMATCH))"

definition imr3Events :: "tdx_event list \<Rightarrow> tdx_event list" where
  "imr3Events log = filter (\<lambda>e. teImr e = 3) log"

definition validateEventLog :: "noble \<Rightarrow> tdx_event list \<Rightarrow> runtime_event list \<Rightarrow> aerr + unit" where
  "validateEventLog N eventLog runtimeEvents =
    bindE (mapE (checkLogEvent N) eventLog) (\<lambda>_.
    bindE (failIf (length (imr3Events eventLog) \<noteq> length runtimeEvents) EVENT_LOG_MISMATCH) (\<lambda>_.
    bindE (mapE checkPair (zip (imr3Events eventLog) runtimeEvents)) (\<lambda>_. Inr ())))"

subsection \<open>Comparison and validation\<close>

lemma equalBytes_iff [simp]: "equalBytes a b \<longleftrightarrow> a = b"
  by (induction a b rule: equalBytes.induct) auto

lemma checkLogEvent_ok:
  "checkLogEvent N e = Inr () \<longleftrightarrow>
    teImr e \<le> 3 \<and> (isRuntimeEvent e \<longrightarrow>
      teDigest e = runtimeEventDigest N (runtimeOf e) \<and>
      (teVersion e = EV2 \<longrightarrow> (\<exists>p. tePreimage e = Some p \<and> fromHex p = Some (runtimeEventPreimage (runtimeOf e)))))"
  by (auto simp: checkLogEvent_def bindE_Inr tdxEventDigest_def validateV2Preimage_def runtimeEventDigest_def
      runtimeOf_def fromHex_def split: option.splits)

lemma checkPair_ok: "checkPair p = Inr () \<longleftrightarrow> isRuntimeEvent (fst p) \<and> runtimeOf (fst p) = snd p"
  by (cases p; cases "snd p") (auto simp: checkPair_def bindE_Inr isRuntimeEvent_def runtimeOf_def)

lemma mapE_unit: "mapE f xs = Inr us \<Longrightarrow> (us :: unit list) = replicate (length xs) () \<and> (\<forall>x\<in>set xs. f x = Inr ())"
  by (induction xs arbitrary: us) (auto simp: bindE_Inr)

lemma mapE_unit_iff: "(\<exists>us. mapE f xs = Inr (us :: unit list)) \<longleftrightarrow> (\<forall>x\<in>set xs. f x = Inr ())"
proof
  show "\<forall>x\<in>set xs. f x = Inr () \<Longrightarrow> \<exists>us. mapE f xs = Inr us"
    by (induction xs) (auto simp: bindE_Inr)
qed (use mapE_unit in blast)

lemma validateEventLog_iff:
  "validateEventLog N log es = Inr () \<longleftrightarrow>
    (\<forall>e\<in>set log. checkLogEvent N e = Inr ()) \<and>
    list_all2 (\<lambda>t e. isRuntimeEvent t \<and> runtimeOf t = e) (imr3Events log) es"
proof -
  have "validateEventLog N log es = Inr () \<longleftrightarrow>
      (\<exists>us. mapE (checkLogEvent N) log = Inr us) \<and> length (imr3Events log) = length es \<and>
      (\<exists>us. mapE checkPair (zip (imr3Events log) es) = Inr us)"
    by (auto simp: validateEventLog_def bindE_Inr)
  then show ?thesis
    unfolding mapE_unit_iff list_all2_iff by (simp add: checkPair_ok split_beta)
qed

text \<open>
  A validated log: the IMR-3 entries are the stack's runtime events, in order, and replaying the
  events extends the register with the digests the log stores.
\<close>

lemma imr3_runtime: "validateEventLog N log es = Inr () \<Longrightarrow> map runtimeOf (imr3Events log) = es"
  by (auto simp: validateEventLog_iff list_all2_conv_all_nth intro!: nth_equalityI)

text \<open>
  C27 The check of an event log makes the replayed register the one the log itself records: once
  \<open>validateEventLog\<close> accepted, replaying the stack's runtime events extends the zero register with the
  digests of the log's RTMR3 entries, in order.
\<close>

theorem replay_of_log:
  assumes "validateEventLog N log es = Inr ()"
  shows "replayRtmr3 N es = foldl (extend N) (replicate 48 0) (map teDigest (imr3Events log))"
proof -
  have d: "teDigest t = runtimeEventDigest N (runtimeOf t)" if "t \<in> set (imr3Events log)" for t
  proof -
    have "isRuntimeEvent t" using assms that
      by (auto simp: validateEventLog_iff list_all2_conv_all_nth in_set_conv_nth)
    moreover have "checkLogEvent N t = Inr ()" using assms that
      by (simp add: validateEventLog_iff imr3Events_def)
    ultimately show ?thesis by (simp add: checkLogEvent_ok)
  qed
  have "foldl (\<lambda>mr e. extend N mr (runtimeEventDigest N e)) m (map runtimeOf ts) = foldl (extend N) m (map teDigest ts)"
    if "\<forall>t\<in>set ts. teDigest t = runtimeEventDigest N (runtimeOf t)" for ts m
    using that by (induction ts arbitrary: m) auto
  with d show ?thesis unfolding replayRtmr3_def imr3_runtime [OF assms, symmetric] by blast
qed

lemma replay_of_log_witness:
  "replayRtmr3 quietNoble [\<lparr>reEvent = [], rePayload = [9], reVersion = EV1\<rparr>] =
    foldl (extend quietNoble) (replicate 48 0) (map teDigest (imr3Events
      [\<lparr>teImr = 3, teEventType = DSTACK_RUNTIME_EVENT_TYPE,
        teDigest = runtimeEventDigest quietNoble \<lparr>reEvent = [], rePayload = [9], reVersion = EV1\<rparr>,
        teEvent = [], teEventPayload = [9], teVersion = EV1, tePreimage = None\<rparr>]))"
  by (rule replay_of_log)
     (simp add: validateEventLog_iff checkLogEvent_ok imr3Events_def isRuntimeEvent_def runtimeOf_def)

subsection \<open>The V2 preimage determines the event\<close>

definition codePoint :: "nat \<Rightarrow> bool" where
  "codePoint c \<longleftrightarrow> c < 0x110000"

text \<open>The inverse of one escape: the code point and what follows it.\<close>

definition unhex4 :: "jsstr \<Rightarrow> nat" where
  "unhex4 s = foldl (\<lambda>n c. n * 16 + the (hexVal c)) 0 s"

definition unescape1 :: "jsstr \<Rightarrow> nat \<times> jsstr" where
  "unescape1 s =
    (case s of
       [] \<Rightarrow> (0, [])
     | c # t \<Rightarrow>
         if c = cuOf 0x5c then
           (case t of
              [] \<Rightarrow> (0, [])
            | d # u \<Rightarrow>
                if unat d = 0x62 then (0x08, u) else if unat d = 0x74 then (0x09, u)
                else if unat d = 0x6e then (0x0a, u) else if unat d = 0x66 then (0x0c, u)
                else if unat d = 0x72 then (0x0d, u) else if unat d = 0x22 then (0x22, u)
                else if unat d = 0x5c then (0x5c, u)
                else (unhex4 (take 4 u), drop 4 u))
         else if highSur c then (hd (utf16_points (take 2 s)), drop 2 s)
         else (unat c, t))"

lemma js_chars: "js [CHR 0x5C, c] = [cuOf 0x5c, of_char c]" "quoteMark = [cuOf 0x22]"
  by (simp_all add: js_def cuOf_def quoteMark_def)

lemma base16:
  "d * 16 + r2 = b \<Longrightarrow> b * 16 + r1 = a \<Longrightarrow> a * 16 + r0 = c \<Longrightarrow> ((d * 16 + r2) * 16 + r1) * 16 + r0 = (c :: nat)"
  by simp

lemma hex4:
  assumes "c < 65536"
  shows "((c div 4096 mod 16 * 16 + c div 256 mod 16) * 16 + c div 16 mod 16) * 16 + c mod 16 = (c :: nat)"
proof (rule base16)
  have m: "c div 4096 mod 16 = c div 4096" using assms by (simp add: less_mult_imp_div_less)
  have d: "c div 256 = c div 16 div 16" "c div 4096 = c div 256 div 16" by (simp_all add: div_mult2_eq [symmetric])
  show "c div 4096 mod 16 * 16 + c div 256 mod 16 = c div 256" unfolding m unfolding d(2) by (rule div_mult_mod_eq)
  show "c div 256 * 16 + c div 16 mod 16 = c div 16" unfolding d(1) by (rule div_mult_mod_eq)
  show "c div 16 * 16 + c mod 16 = c" by (rule div_mult_mod_eq)
qed

lemma cuOf_inject: "m < 65536 \<Longrightarrow> n < 65536 \<Longrightarrow> cuOf m = cuOf n \<longleftrightarrow> m = n"
  by (metis unat_cuOf)

lemma unescape1_pair:
  assumes "0x10000 \<le> c" and "codePoint c"
  shows "unescape1 (utf16_enc1 c @ t) = (c, t)" "utf16_enc1 c @ t \<noteq> quoteMark @ u"
proof -
  define h l where "h = 0xD800 + (c - 0x10000) div 1024" and "l = 0xDC00 + (c - 0x10000) mod 1024"
  have e: "utf16_enc1 c = [cuOf h, cuOf l]" using assms(1) by (simp add: utf16_enc1_def h_def l_def)
  have "(c - 0x10000) div 1024 < 1024" using assms by (simp add: codePoint_def less_mult_imp_div_less)
  moreover have "(c - 0x10000) mod 1024 < 1024" by simp
  ultimately have h: "h \<le> 0xDBFF" "0xD800 \<le> h" "l \<le> 0xDFFF" "0xDC00 \<le> l"
    unfolding h_def l_def by linarith+
  have "hd (utf16_points [cuOf h, cuOf l]) = c"
    using utf16_points_encode [of "[c]"] assms e
    by (simp add: scalar_def surrogate_def codePoint_def utf16_encode_def)
  then show "unescape1 (utf16_enc1 c @ t) = (c, t)"
    using h by (simp add: e unescape1_def cuOf_inject highSur_def numeral_2_eq_2 del: utf16_points.simps)
  show "utf16_enc1 c @ t \<noteq> quoteMark @ u" using h by (simp add: e js_chars cuOf_inject)
qed

lemma unescape1_char:
  assumes "c < 0x10000"
  shows "unescape1 (jcsEscapeChar c @ t) = (c, t)" "jcsEscapeChar c @ t \<noteq> quoteMark @ u"
proof -
  have u: "unescape1 (uEscape c @ t) = (c, t)"
    using hex4 [OF assms] less_mult_imp_div_less [of c 16 4096] assms
    by (simp add: uEscape_def js_chars unescape1_def unhex4_def unat_of_char)
  show "unescape1 (jcsEscapeChar c @ t) = (c, t)"
    using u assms
    by (auto simp: jcsEscapeChar_def js_chars unescape1_def unat_of_char highSur_def cuOf_inject)
  show "jcsEscapeChar c @ t \<noteq> quoteMark @ u"
    using assms by (auto simp: jcsEscapeChar_def js_chars uEscape_def cuOf_inject)
qed

lemma unescape1_point:
  assumes "codePoint c"
  shows "unescape1 (jcsEscapePoint c @ t) = (c, t)" "jcsEscapePoint c @ t \<noteq> quoteMark @ u"
  using assms unescape1_pair unescape1_char by (auto simp: jcsEscapePoint_def)

lemma escapes_inject:
  assumes "list_all codePoint ps" "list_all codePoint qs"
    and "concat (map jcsEscapePoint ps) @ quoteMark @ t = concat (map jcsEscapePoint qs) @ quoteMark @ u"
  shows "ps = qs \<and> t = u"
  using assms
proof (induction ps arbitrary: qs)
  case Nil
  then show ?case
  proof (cases qs)
    case (Cons q qs')
    then have "jcsEscapePoint q @ concat (map jcsEscapePoint qs') @ quoteMark @ u = quoteMark @ t"
      using Nil by simp
    then show ?thesis using unescape1_point(2) [of q] Cons Nil by auto
  qed simp
next
  case (Cons p ps)
  have p: "codePoint p" using Cons by simp
  have e: "jcsEscapePoint p @ concat (map jcsEscapePoint ps) @ quoteMark @ t =
    concat (map jcsEscapePoint qs) @ quoteMark @ u" using Cons.prems(3) by simp
  show ?case
  proof (cases qs)
    case Nil
    then show ?thesis using e unescape1_point(2) [OF p] by auto
  next
    case (Cons q qs')
    then have q: "codePoint q" and qs': "list_all codePoint qs'" using \<open>list_all codePoint qs\<close> by auto
    have "(p, concat (map jcsEscapePoint ps) @ quoteMark @ t) = (q, concat (map jcsEscapePoint qs') @ quoteMark @ u)"
      using arg_cong [OF e, of unescape1] unescape1_point(1) [OF p] unescape1_point(1) [OF q] Cons by simp
    then show ?thesis using Cons.IH [OF _ qs'] Cons.prems Cons by simp
  qed
qed

lemma points_utf16: "list_all codePoint (utf16_points s)"
  using utf16_points_less by (auto simp: list_all_iff codePoint_def)

lemma jcsEscape_inject: "jcsEscape s @ t = jcsEscape r @ u \<Longrightarrow> s = r \<and> t = u"
proof -
  assume "jcsEscape s @ t = jcsEscape r @ u"
  then have "utf16_points s = utf16_points r \<and> t = u"
    by (intro escapes_inject points_utf16) (simp add: jcsEscape_def)
  then show ?thesis by (metis utf16_encode_points)
qed

lemma canonicalEventJsonV2_inject:
  "canonicalEventJsonV2 e p = canonicalEventJsonV2 f q \<longleftrightarrow> e = f \<and> p = q"
proof
  assume "canonicalEventJsonV2 e p = canonicalEventJsonV2 f q"
  then have "jcsEscape e @ js '','' @ jcsEscape (js ''payload'') @ js '':'' @ quoteMark @ toHex p @ quoteMark @
      js '','' @ jcsEscape (js ''type'') @ js '':134217729}'' =
    jcsEscape f @ js '','' @ jcsEscape (js ''payload'') @ js '':'' @ quoteMark @ toHex q @ quoteMark @
      js '','' @ jcsEscape (js ''type'') @ js '':134217729}''"
    by (simp add: canonicalEventJsonV2_def)
  then have "e = f \<and> js '','' @ jcsEscape (js ''payload'') @ js '':'' @ quoteMark @ toHex p @ quoteMark @
      js '','' @ jcsEscape (js ''type'') @ js '':134217729}'' =
    js '','' @ jcsEscape (js ''payload'') @ js '':'' @ quoteMark @ toHex q @ quoteMark @
      js '','' @ jcsEscape (js ''type'') @ js '':134217729}''"
    by (rule jcsEscape_inject)
  then show "e = f \<and> p = q" by (simp add: toHex_inject)
qed simp

lemma hexDigit_ascii' [simp]: "ascii [hexDigit (n mod 16)]"
  by (simp add: ascii_def)

lemma wfText_escape: "codePoint c \<Longrightarrow> wfText (jcsEscapePoint c)"
proof (cases "c < 0x10000")
  case True
  have e: "ascii (js [CHR 0x5C, d])" if "(of_char d :: nat) < 0x80" for d
    using that by (intro ascii_js) (simp add: asciiStr_def)
  have "ascii (uEscape c)" using e [of "CHR ''u''"]
    by (simp add: uEscape_def ascii_def)
  moreover have "wfText [cuOf c]" if "\<not> surrogate c"
    using that True by (intro iffD2 [OF wfText_iff] exI [of _ "[c]"])
      (simp add: scalar_def utf16_encode_def utf16_enc1_def)
  ultimately show ?thesis using True e
    by (auto simp: jcsEscapePoint_def jcsEscapeChar_def surrogate_def intro: wfText_ascii)
next
  case False
  then show "codePoint c \<Longrightarrow> ?thesis"
    by (auto simp: jcsEscapePoint_def wfText_iff codePoint_def scalar_def surrogate_def utf16_encode_def
        intro!: exI [of _ "[c]"])
qed

lemma wfText_jcsEscape: "wfText (jcsEscape s)"
proof -
  have "ascii quoteMark" unfolding quoteMark_def by (intro ascii_js) (simp add: asciiStr_def)
  then have q: "wfText quoteMark" by (rule wfText_ascii)
  have "list_all wfText (map jcsEscapePoint (utf16_points s))"
    using points_utf16 [of s] by (auto simp: list_all_iff wfText_escape)
  with q show ?thesis unfolding jcsEscape_def by (intro wfText_append wfText_concat)
qed

lemma wfText_canonical: "wfText (canonicalEventJsonV2 e p)"
  unfolding canonicalEventJsonV2_def quoteMark_def
  by (intro wfText_append wfText_jcsEscape; intro wfText_ascii ascii_js ascii_toHex; simp add: asciiStr_def)

lemma v2_preimage_inject:
  assumes "reVersion e = EV2" "reVersion f = EV2" "runtimeEventPreimage e = runtimeEventPreimage f"
  shows "e = f"
proof -
  have "canonicalEventJsonV2 (reEvent e) (rePayload e) = canonicalEventJsonV2 (reEvent f) (rePayload f)"
    using assms textEncode_inject [OF wfText_canonical wfText_canonical] by (simp add: runtimeEventPreimage_def)
  then show ?thesis using assms(1,2) by (simp add: canonicalEventJsonV2_inject)
qed

text \<open>A V1 preimage starts with the event type, a V2 preimage with an opening brace.\<close>

lemma preimage_versions:
  "runtimeEventPreimage e ! 0 = (case reVersion e of EV1 \<Rightarrow> 0x01 | EV2 \<Rightarrow> 0x7b)"
proof -
  have "textEncode (js ''{'' @ t) ! 0 = 0x7b" if "wfText t" for t
  proof -
    have "utf16_points (js ''{'' @ t) = 0x7b # utf16_points t"
      by (cases t) (simp_all add: js_def highSur_def)
    moreover have "wfText (js ''{'' @ t)"
      by (rule wfText_append [OF wfText_ascii [OF ascii_js] that]) (simp add: asciiStr_def)
    ultimately show ?thesis
      by (simp add: textEncode_wf utf8_enc1_def byteOf_def)
  qed
  moreover obtain t where "canonicalEventJsonV2 (reEvent e) (rePayload e) = js ''{'' @ t"
    by (simp add: canonicalEventJsonV2_def)
  moreover have "wfText t" if "canonicalEventJsonV2 (reEvent e) (rePayload e) = js ''{'' @ t" for t
  proof -
    have "utf16_points (js ''{'' @ t) = 0x7b # utf16_points t"
      by (cases t) (simp_all add: js_def highSur_def)
    then show ?thesis using wfText_canonical [of "reEvent e" "rePayload e"] that
      by (simp add: wfText_def)
  qed
  ultimately show ?thesis
    by (simp add: runtimeEventPreimage_def concatBytes_def v1Prefix_def split: event_version.splits)
qed

subsection \<open>The replayed register determines the events\<close>

text \<open>What a replay hashes: per event its preimage, and the register followed by the digest.\<close>

fun replayInputs :: "noble \<Rightarrow> bytes \<Rightarrow> runtime_event list \<Rightarrow> bytes list" where
  "replayInputs N mr [] = []"
| "replayInputs N mr (e # es) =
    runtimeEventPreimage e # concatBytes [mr, runtimeEventDigest N e] #
    replayInputs N (extend N mr (runtimeEventDigest N e)) es"

lemma replayInputs_snoc:
  "replayInputs N mr (es @ [e]) =
    replayInputs N mr es @ [runtimeEventPreimage e,
      concatBytes [foldl (\<lambda>mr e. extend N mr (runtimeEventDigest N e)) mr es, runtimeEventDigest N e]]"
  by (induction es arbitrary: mr) simp_all

lemma replay_snoc: "replayRtmr3 N (es @ [e]) = extend N (replayRtmr3 N es) (runtimeEventDigest N e)"
  by (simp add: replayRtmr3_def)

definition zeroRegister :: bytes where
  "zeroRegister = replicate 48 0"

lemma replay_Nil: "replayRtmr3 N [] = zeroRegister"
  by (simp add: replayRtmr3_def zeroRegister_def)

lemma last_input:
  "concatBytes [replayRtmr3 N es, runtimeEventDigest N e] \<in> set (replayInputs N zeroRegister (es @ [e]))"
  by (simp add: replayInputs_snoc replayRtmr3_def zeroRegister_def)

lemma preimage_input: "runtimeEventPreimage e \<in> set (replayInputs N m (es @ [e]))"
  by (simp add: replayInputs_snoc)

lemma inputs_subset: "set (replayInputs N m es) \<subseteq> set (replayInputs N m (es @ [e]))"
  by (auto simp: replayInputs_snoc)

lemma replay_not_zero:
  "\<forall>a\<in>set (replayInputs N zeroRegister (es @ [e])). sha384 N a \<noteq> zeroRegister \<Longrightarrow>
    replayRtmr3 N (es @ [e]) \<noteq> zeroRegister"
  using last_input [of N es e] by (simp only: replay_snoc extend_def) blast

lemma replay_preimages:
  assumes "replayRtmr3 N xs = replayRtmr3 N ys"
    and "\<And>m. length (sha384 N m) = 48"
    and "\<forall>a\<in>set (replayInputs N zeroRegister xs). \<forall>b\<in>set (replayInputs N zeroRegister ys).
      sha384 N a = sha384 N b \<longrightarrow> a = b"
    and "\<forall>a\<in>set (replayInputs N zeroRegister xs @ replayInputs N zeroRegister ys). sha384 N a \<noteq> zeroRegister"
  shows "map runtimeEventPreimage xs = map runtimeEventPreimage ys"
  using assms(1,3,4)
proof (induction xs arbitrary: ys rule: rev_induct)
  case Nil
  show ?case
  proof (cases ys rule: rev_cases)
    case (snoc ys' y)
    then have "replayRtmr3 N ys \<noteq> zeroRegister" using Nil(3) replay_not_zero [of N ys' y] by simp
    then show ?thesis using Nil(1) by (simp add: replay_Nil)
  qed simp
next
  case (snoc x xs)
  show ?case
  proof (cases ys rule: rev_cases)
    case Nil
    have "replayRtmr3 N (xs @ [x]) \<noteq> zeroRegister" using snoc.prems(3) by (intro replay_not_zero) simp
    then show ?thesis using snoc.prems(1) Nil by (simp add: replay_Nil)
  next
    case (snoc ys' y)
    note ys = this
    let ?a = "concatBytes [replayRtmr3 N xs, runtimeEventDigest N x]"
    let ?b = "concatBytes [replayRtmr3 N ys', runtimeEventDigest N y]"
    have ab: "?a \<in> set (replayInputs N zeroRegister (xs @ [x]))" "?b \<in> set (replayInputs N zeroRegister ys)"
      unfolding ys by (rule last_input)+
    moreover have "sha384 N ?a = sha384 N ?b" using snoc.prems(1) by (simp add: replay_snoc extend_def ys)
    ultimately have "?a = ?b" using snoc.prems(2) by blast
    then have "replayRtmr3 N xs @ runtimeEventDigest N x = replayRtmr3 N ys' @ runtimeEventDigest N y"
      by (simp add: concatBytes_def)
    moreover have "length (runtimeEventDigest N x) = length (runtimeEventDigest N y)"
      by (simp add: runtimeEventDigest_def assms(2))
    ultimately have d: "runtimeEventDigest N x = runtimeEventDigest N y" and r: "replayRtmr3 N xs = replayRtmr3 N ys'"
      by simp_all
    have "sha384 N (runtimeEventPreimage x) = sha384 N (runtimeEventPreimage y)"
      using d by (simp only: runtimeEventDigest_def)
    then have "runtimeEventPreimage x = runtimeEventPreimage y"
      using snoc.prems(2) preimage_input [of x N zeroRegister xs] preimage_input [of y N zeroRegister ys']
      unfolding ys by blast
    moreover have "map runtimeEventPreimage xs = map runtimeEventPreimage ys'"
    proof (rule snoc.IH [OF r])
      note sub = inputs_subset [of N zeroRegister xs x] inputs_subset [of N zeroRegister ys' y]
      show "\<forall>a\<in>set (replayInputs N zeroRegister xs). \<forall>b\<in>set (replayInputs N zeroRegister ys').
          sha384 N a = sha384 N b \<longrightarrow> a = b"
        using snoc.prems(2) sub unfolding ys by blast
      show "\<forall>a\<in>set (replayInputs N zeroRegister xs @ replayInputs N zeroRegister ys'). sha384 N a \<noteq> zeroRegister"
        using snoc.prems(3) sub unfolding ys set_append by blast
    qed
    ultimately show ?thesis by (simp add: ys)
  qed
qed

lemma v2_preimages_inject:
  "map runtimeEventPreimage xs = map runtimeEventPreimage ys \<Longrightarrow> list_all (\<lambda>e. reVersion e = EV2) xs \<Longrightarrow> xs = ys"
proof (induction xs arbitrary: ys)
  case Nil
  then show ?case by simp
next
  case (Cons x xs)
  then obtain y ys' where ys: "ys = y # ys'" by (cases ys) auto
  then have "runtimeEventPreimage x = runtimeEventPreimage y" using Cons by simp
  moreover from this have "reVersion y = EV2"
    using preimage_versions [of x] preimage_versions [of y] Cons.prems(2) by (cases "reVersion y") auto
  ultimately have "x = y" using v2_preimage_inject Cons.prems(2) by simp
  then show ?case using Cons ys by simp
qed

subsection \<open>Properties\<close>

text \<open>
  C26 A quoted RTMR3 commits to the whole sequence of version 2 events: if two runtime event lists replay
  to the same register, SHA-384 gives 48 bytes and has neither a collision nor the zero register among the
  strings the two replays hash, and the first list holds version 2 events, the lists are equal: no event
  can be added, dropped, reordered or altered under a register the hardware signed.
\<close>

theorem replay_commits:
  assumes "replayRtmr3 N xs = replayRtmr3 N ys"
    and "list_all (\<lambda>e. reVersion e = EV2) xs"
    and "\<And>m. length (sha384 N m) = 48"
    and "\<forall>a\<in>set (replayInputs N zeroRegister xs). \<forall>b\<in>set (replayInputs N zeroRegister ys).
      sha384 N a = sha384 N b \<longrightarrow> a = b"
    and "\<forall>a\<in>set (replayInputs N zeroRegister xs @ replayInputs N zeroRegister ys). sha384 N a \<noteq> zeroRegister"
  shows "xs = ys"
  by (rule v2_preimages_inject [OF replay_preimages [OF assms(1,3,4,5)] assms(2)])

definition headNoble :: noble where
  "headNoble = quietNoble\<lparr>sha384 := \<lambda>m. replicate 47 1 @ [m ! 0]\<rparr>"

definition sampleEvent :: runtime_event where
  "sampleEvent = \<lparr>reEvent = js ''a'', rePayload = [1], reVersion = EV2\<rparr>"

lemma headNoble_simps [simp]:
  "sha384 headNoble m = replicate 47 1 @ [m ! 0]" "runtimeEventDigest headNoble sampleEvent = replicate 47 1 @ [0x7b]"
  using preimage_versions [of sampleEvent] by (simp_all add: headNoble_def runtimeEventDigest_def sampleEvent_def)

lemma zeroRegister_simps [simp]: "(zeroRegister @ d) ! 0 = 0" "zeroRegister \<noteq> 1 # d"
  by (simp_all add: zeroRegister_def numeral_eq_Suc)

lemma replay_commits_witness: "[sampleEvent, sampleEvent] = [sampleEvent, sampleEvent]"
proof (rule replay_commits [where N = headNoble])
  have p: "runtimeEventPreimage sampleEvent ! 0 = 0x7b"
    using preimage_versions [of sampleEvent] by (simp add: sampleEvent_def)
  have one: "replicate 47 (1 :: byte) @ d = 1 # replicate 46 1 @ d" for d by (simp add: numeral_eq_Suc)
  have i: "replayInputs headNoble zeroRegister ([sampleEvent, sampleEvent]) =
      [runtimeEventPreimage sampleEvent, zeroRegister @ replicate 47 1 @ [0x7b], runtimeEventPreimage sampleEvent,
       (replicate 47 1 @ [0]) @ replicate 47 1 @ [0x7b]]"
    by (simp add: extend_def concatBytes_def)
  show "\<forall>a\<in>set (replayInputs headNoble zeroRegister ([sampleEvent, sampleEvent])).
      \<forall>b\<in>set (replayInputs headNoble zeroRegister [sampleEvent, sampleEvent]).
        sha384 headNoble a = sha384 headNoble b \<longrightarrow> a = b"
    using i by (simp add: p one)
  show "\<forall>a\<in>set (replayInputs headNoble zeroRegister ([sampleEvent, sampleEvent]) @
        replayInputs headNoble zeroRegister [sampleEvent, sampleEvent]). sha384 headNoble a \<noteq> zeroRegister"
    using one [of "[]"] by (auto simp: zeroRegister_def numeral_eq_Suc)
qed (simp_all add: sampleEvent_def)

text \<open>
  A version 1 preimage does not commit to where the event's name ends: whatever stands after a colon
  in the name can be moved to the front of the payload, and the digest, hence the register, is the same.
\<close>

theorem v1_preimage_boundary:
  assumes "wfText name" and "wfText post"
  shows "runtimeEventPreimage \<lparr>reEvent = name @ js '':'' @ post, rePayload = q, reVersion = EV1\<rparr> =
    runtimeEventPreimage \<lparr>reEvent = name, rePayload = textEncode post @ [0x3a] @ q, reVersion = EV1\<rparr>"
proof -
  have c: "wfText (js '':'')" "textEncode (js '':'') = [0x3a]"
    by (simp_all add: wfText_ascii ascii_js asciiStr_def textEncode_ascii) (simp add: js_def byteOf_def unat_of_char)
  then have "textEncode (name @ js '':'' @ post) = textEncode name @ [0x3a] @ textEncode post"
    using assms by (simp add: textEncode_append wfText_append)
  then show ?thesis by (simp add: runtimeEventPreimage_def concatBytes_def)
qed

lemma v1_preimage_boundary_witness:
  "runtimeEventPreimage \<lparr>reEvent = js ''app'' @ js '':'' @ js ''id'', rePayload = [1], reVersion = EV1\<rparr> =
    runtimeEventPreimage \<lparr>reEvent = js ''app'', rePayload = textEncode (js ''id'') @ [0x3a] @ [1], reVersion = EV1\<rparr>"
  by (rule v1_preimage_boundary; rule wfText_ascii; rule ascii_js; simp add: asciiStr_def)

end
