(* ===== verification/RsaPss.thy ===== *)
theory RsaPss
  imports Reader
begin

text \<open>
  packages/attest-core/src/rsa-pss.ts: RSASSA-PSS verification with SHA-384 and MGF1-SHA-384.
  Bigints are \<open>nat\<close> (no value here is negative), a loop over a counter is a recursion on it.
\<close>

subsection \<open>modPow\<close>

text \<open>The square-and-multiply loop, with its three variables.\<close>

function modPowLoop :: "nat \<Rightarrow> nat \<Rightarrow> nat \<Rightarrow> nat \<Rightarrow> nat" where
  "modPowLoop result b e modulus =
    (if e > 0 then
       modPowLoop (if odd e then result * b mod modulus else result) (b * b mod modulus) (e div 2) modulus
     else result)"
  by pat_completeness auto
termination by (relation "measure (\<lambda>(_, _, e, _). e)") auto

declare modPowLoop.simps [simp del]

definition modPow :: "nat \<Rightarrow> nat \<Rightarrow> nat \<Rightarrow> nat" where
  "modPow base exponent modulus = modPowLoop 1 (base mod modulus) exponent modulus"

lemma modPowLoop_spec: "r < m \<Longrightarrow> modPowLoop r b e m = r * b ^ e mod m"
proof (induction r b e m rule: modPowLoop.induct)
  case (1 r b e m)
  show ?case
  proof (cases "e > 0")
    case False
    then show ?thesis using 1(2) by (simp add: modPowLoop.simps)
  next
    case True
    have m: "0 < m" using 1(2) by simp
    have lt: "(if odd e then r * b mod m else r) < m" using 1(2) m by simp
    have "modPowLoop r b e m = modPowLoop (if odd e then r * b mod m else r) (b * b mod m) (e div 2) m"
      by (subst modPowLoop.simps) (use True in simp)
    also have "\<dots> = (if odd e then r * b mod m else r) * (b * b mod m) ^ (e div 2) mod m"
      by (rule 1(1) [OF True lt])
    also have "\<dots> = (if odd e then r * b else r) * (b * b) ^ (e div 2) mod m"
    proof -
      have c: "(x mod m) * (y mod m) ^ k mod m = x * y ^ k mod m" for x y k
        by (metis mod_mult_left_eq mod_mult_right_eq power_mod)
      have "r = r mod m" using 1(2) by simp
      then have "(if odd e then r * b mod m else r) = (if odd e then r * b else r) mod m" by simp
      then show ?thesis by (simp only: c)
    qed
    also have "(if odd e then r * b else r) * (b * b) ^ (e div 2) = r * b ^ e"
    proof (cases "odd e")
      case True
      then obtain k where "e = 2 * k + 1" by (rule oddE)
      then show ?thesis by (simp add: power_mult_distrib mult_2 power_add)
    next
      case False
      then obtain k where "e = 2 * k" by (auto elim: evenE)
      then show ?thesis by (simp add: power_mult_distrib mult_2 power_add)
    qed
    finally show ?thesis .
  qed
qed

lemma modPow_spec: "1 < m \<Longrightarrow> modPow b e m = b ^ e mod m"
  by (simp add: modPow_def modPowLoop_spec power_mod)

subsection \<open>Byte strings of numbers and masks\<close>

definition u32be :: "nat \<Rightarrow> bytes" where
  "u32be value =
    [byteOf (value div 2 ^ 24 mod 256), byteOf (value div 2 ^ 16 mod 256), byteOf (value div 2 ^ 8 mod 256),
     byteOf (value mod 256)]"

text \<open>The mask generation loop: \<open>pos\<close> bytes are written, \<open>counter\<close> blocks hashed.\<close>

function mgf1Loop :: "noble \<Rightarrow> bytes \<Rightarrow> nat \<Rightarrow> nat \<Rightarrow> nat \<Rightarrow> bytes option" where
  "mgf1Loop N seed len pos counter =
    (if pos < len then
       let block = sha384 N (seed @ u32be counter); n = min (length block) (len - pos) in
       if n = 0 then None
       else map_option (\<lambda>out. take n block @ out) (mgf1Loop N seed len (pos + n) (counter + 1))
     else Some [])"
  by pat_completeness auto
termination
  by (relation "measure (\<lambda>(_, _, len, pos, _). len - pos)")
     (auto simp: min_def simp flip: length_greater_0_conv)

declare mgf1Loop.simps [simp del]

text \<open>\<open>None\<close> is the loop that never ends, which an empty digest would make; SHA-384 gives 48 bytes.\<close>

definition mgf1 :: "noble \<Rightarrow> bytes \<Rightarrow> nat \<Rightarrow> bytes option" where
  "mgf1 N seed len = mgf1Loop N seed len 0 0"

definition bigintToBytes :: "nat \<Rightarrow> nat \<Rightarrow> bytes" where
  "bigintToBytes value len = rev (leEnc len value)"

definition bytesToBigint :: "bytes \<Rightarrow> nat" where
  "bytesToBigint bs = beNat bs"

definition xorBytes :: "bytes \<Rightarrow> bytes \<Rightarrow> bytes" where
  "xorBytes a b = map2 (XOR) a b"

text \<open>\<open>value.toString(2).length\<close>.\<close>

fun bitLength :: "nat \<Rightarrow> nat" where
  "bitLength n = (if n < 2 then 1 else Suc (bitLength (n div 2)))"

declare bitLength.simps [simp del]

definition ceilDiv8 :: "nat \<Rightarrow> nat" where
  "ceilDiv8 n = (n + 7) div 8"

definition topMask :: "nat \<Rightarrow> byte" where
  "topMask zeroBits = (if zeroBits > 0 then byteOf (0xff * 2 ^ (8 - zeroBits) mod 256) else 0)"

definition HASH_LENGTH :: nat where
  "HASH_LENGTH = 48"

definition clearTop :: "nat \<Rightarrow> bytes \<Rightarrow> bytes" where
  "clearTop zeroBits db = (if zeroBits > 0 then db[0 := db ! 0 AND (0xff XOR topMask zeroBits)] else db)"

text \<open>RFC 8017 9.1.2 on the encoded message \<open>em\<close>, in the source's order.\<close>

definition pssCheck :: "noble \<Rightarrow> bytes \<Rightarrow> bytes \<Rightarrow> nat \<Rightarrow> nat \<Rightarrow> bool option" where
  "pssCheck N message em emBits saltLength =
    (let emLength = length em in
     if em ! (emLength - 1) \<noteq> 0xbc then Some False
     else
       let maskedDbLength = emLength - HASH_LENGTH - 1;
           maskedDb = take maskedDbLength em;
           hash = slice em maskedDbLength (emLength - 1);
           zeroBits = 8 * emLength - emBits
       in if zeroBits > 0 \<and> maskedDb ! 0 AND topMask zeroBits \<noteq> 0 then Some False
          else
            map_option (\<lambda>dbMask.
              let db = clearTop zeroBits (xorBytes maskedDb dbMask);
                  psLength = maskedDbLength - saltLength - 1
              in if \<not> list_all (\<lambda>b. b = 0) (take psLength db) then False
                 else if db ! psLength \<noteq> 0x01 then False
                 else sha384 N (replicate 8 0 @ sha384 N message @ drop (psLength + 1) db) = hash)
            (mgf1 N hash maskedDbLength))"

definition verifyRsaPssSha384 :: "noble \<Rightarrow> bytes \<Rightarrow> bytes \<Rightarrow> nat \<Rightarrow> nat \<Rightarrow> nat \<Rightarrow> bool option" where
  "verifyRsaPssSha384 N message signature modulus exponent saltLength =
    (let modulusBits = bitLength modulus;
         keyLength = ceilDiv8 modulusBits
     in if length signature \<noteq> keyLength then Some False
        else
          let signatureValue = bytesToBigint signature
          in if signatureValue \<le> 0 \<or> signatureValue \<ge> modulus then Some False
             else
               let emBits = modulusBits - 1;
                   emLength = ceilDiv8 emBits
               in if emLength < HASH_LENGTH + saltLength + 2 then Some False
                  else
                    let em = drop (keyLength - emLength)
                               (bigintToBytes (modPow signatureValue exponent modulus) keyLength)
                    in pssCheck N message em emBits saltLength)"

subsection \<open>Totality and the mask\<close>

definition digest48 :: "noble \<Rightarrow> bool" where
  "digest48 N \<longleftrightarrow> (\<forall>m. length (sha384 N m) = 48)"

lemma mgf1Loop_total: "digest48 N \<Longrightarrow> \<exists>out. mgf1Loop N seed len pos c = Some out \<and> length out = len - pos"
proof (induction N seed len pos c rule: mgf1Loop.induct)
  case (1 N seed len pos c)
  show ?case
  proof (cases "pos < len")
    case False
    then show ?thesis by (simp add: mgf1Loop.simps)
  next
    case True
    let ?b = "sha384 N (seed @ u32be c)" and ?n = "min 48 (len - pos)"
    have b: "length ?b = 48" using 1(2) by (simp add: digest48_def)
    then have n: "min (length ?b) (len - pos) = ?n" "?n \<noteq> 0" using True by simp_all
    obtain out where o: "mgf1Loop N seed len (pos + ?n) (c + 1) = Some out" "length out = len - (pos + ?n)"
      using 1(1) [OF True refl n(1) [symmetric] n(2) 1(2)] by blast
    have "mgf1Loop N seed len pos c = Some (take ?n ?b @ out)"
      by (subst mgf1Loop.simps) (use True n o b in \<open>simp add: Let_def\<close>)
    moreover have "length (take ?n ?b @ out) = len - pos" using o b True by simp
    ultimately show ?thesis by blast
  qed
qed

lemma mgf1_total:
  assumes "digest48 N"
  obtains out where "mgf1 N seed len = Some out" and "length out = len"
  using mgf1Loop_total [OF assms, of seed len 0 0] by (auto simp: mgf1_def)

text \<open>The verifier returns on every input, whatever the key and the signature are.\<close>

text \<open>
  Verification always returns: with a hash of 48 bytes the mask generation loop writes every byte it was
  asked for, whatever message, signature and key are presented.
\<close>

theorem verifyRsaPss_total: "digest48 N \<Longrightarrow> verifyRsaPssSha384 N m s n e k \<noteq> None"
proof -
  assume d: "digest48 N"
  have "pssCheck N m em b k \<noteq> None" for em b
  proof -
    obtain out where "mgf1 N (slice em (length em - HASH_LENGTH - 1) (length em - 1)) (length em - HASH_LENGTH - 1) = Some out"
      using mgf1_total [OF d] by blast
    then show ?thesis unfolding pssCheck_def Let_def by auto
  qed
  then show ?thesis unfolding verifyRsaPssSha384_def Let_def by auto
qed

lemma quiet48: "digest48 quietNoble"
  by (auto simp: digest48_def quietNoble_def min_def)

lemma verifyRsaPss_total_witness: "verifyRsaPssSha384 quietNoble [1] [2] 3 65537 48 \<noteq> None"
  by (rule verifyRsaPss_total [OF quiet48])

subsection \<open>The check is the RFC 8017 encoding\<close>

text \<open>What the check undoes, with the mask and the masks of bits of the code.\<close>

definition saltedHash :: "noble \<Rightarrow> bytes \<Rightarrow> bytes \<Rightarrow> bytes" where
  "saltedHash N message salt = sha384 N (replicate 8 0 @ sha384 N message @ salt)"

definition maskedEncode :: "noble \<Rightarrow> bytes \<Rightarrow> nat \<Rightarrow> bytes \<Rightarrow> bytes" where
  "maskedEncode N message emBits salt =
    (let emLength = ceilDiv8 emBits;
         H = saltedHash N message salt;
         db = replicate (emLength - length salt - HASH_LENGTH - 2) 0 @ [0x01] @ salt;
         dbMask = the (mgf1 N H (emLength - HASH_LENGTH - 1))
     in clearTop (8 * emLength - emBits) (xorBytes db dbMask) @ H @ [0xbc])"

lemma xorBytes_xorBytes: "length a = length b \<Longrightarrow> xorBytes (xorBytes a b) b = a"
  by (induction a b rule: list_induct2) (simp_all add: xorBytes_def xor.assoc)

lemma length_xorBytes [simp]: "length (xorBytes a b) = min (length a) (length b)"
  by (simp add: xorBytes_def)

lemma length_clearTop [simp]: "length (clearTop z a) = length a"
  by (simp add: clearTop_def)

lemma mask_xor: "((a XOR m) AND c XOR m) AND c = a AND (c :: byte)"
  by (rule bit_eqI) (auto simp: bit_simps)

lemma clearTop_xor:
  assumes "length a = length m" and "0 < length a"
  shows "clearTop z (xorBytes (clearTop z (xorBytes a m)) m) = clearTop z a"
proof -
  obtain x xs y ys where a: "a = x # xs" "m = y # ys" and l: "length xs = length ys"
    using assms by (cases a; cases m) auto
  have "xorBytes (xorBytes xs ys) ys = xs" using l by (rule xorBytes_xorBytes)
  then show ?thesis using l by (simp add: clearTop_def a xorBytes_def mask_xor xor.assoc)
qed

definition topClear :: "nat \<Rightarrow> bytes \<Rightarrow> bool" where
  "topClear z a \<longleftrightarrow> \<not> (z > 0 \<and> a ! 0 AND topMask z \<noteq> 0)"

lemma topClear_clearTop: "0 < length a \<Longrightarrow> topClear z (clearTop z a)"
proof -
  have f: "(0xff :: byte) = - 1" by simp
  have "(x AND (0xff XOR m)) AND m = (0 :: byte)" for x m
    unfolding f by (rule bit_eqI) (auto simp: bit_simps)
  then show "0 < length a \<Longrightarrow> topClear z (clearTop z a)"
    by (cases a) (simp_all add: topClear_def clearTop_def)
qed

lemma clearTop_id: "0 < length a \<Longrightarrow> topClear z a \<Longrightarrow> clearTop z a = a"
proof -
  have "x AND (0xff XOR m) = x" if "x AND m = 0" for x m :: byte
  proof -
    have f: "(0xff :: byte) = - 1" by simp
    have "x = x AND (0xff XOR m) OR x AND m"
      unfolding f by (rule bit_eqI) (auto simp: bit_simps)
    then show ?thesis using that by simp
  qed
  then show "0 < length a \<Longrightarrow> topClear z a \<Longrightarrow> clearTop z a = a"
    by (cases a) (auto simp: topClear_def clearTop_def)
qed

lemma topMask_one: "z < 8 \<Longrightarrow> (0x01 :: byte) AND topMask z = 0"
proof -
  assume "z < 8"
  then have "z \<in> {0, 1, 2, 3, 4, 5, 6, 7}" by auto
  then show ?thesis by (auto simp: topMask_def byteOf_def)
qed

lemma topClear_db: "z < 8 \<Longrightarrow> topClear z (replicate n 0 @ [0x01] @ salt)"
  by (cases n) (simp_all add: topClear_def topMask_one)

lemma pssCheck_encode:
  assumes "digest48 N" and "HASH_LENGTH + length salt + 2 \<le> ceilDiv8 emBits"
  shows "pssCheck N message (maskedEncode N message emBits salt) emBits (length salt) = Some True"
proof -
  define emLength where "emLength = ceilDiv8 emBits"
  define H where "H = saltedHash N message salt"
  define n where "n = emLength - HASH_LENGTH - 1"
  define z where "z = 8 * emLength - emBits"
  define db where "db = replicate (emLength - length salt - HASH_LENGTH - 2) 0 @ [0x01] @ salt"
  obtain mask where mask: "mgf1 N H n = Some mask" "length mask = n" using mgf1_total [OF assms(1)] by blast
  have H: "length H = 48" using assms(1) by (simp add: H_def saltedHash_def digest48_def)
  have len: "length db = n" "0 < n" "emLength = n + 49"
    using assms(2) by (auto simp: db_def n_def HASH_LENGTH_def emLength_def)
  define m where "m = clearTop z (xorBytes db mask)"
  have em: "maskedEncode N message emBits salt = m @ H @ [0xbc]"
    unfolding maskedEncode_def Let_def emLength_def [symmetric] H_def [symmetric] n_def [symmetric]
      mask(1) option.sel db_def [symmetric] z_def [symmetric] m_def by simp
  have z: "z < 8" unfolding z_def emLength_def ceilDiv8_def by presburger
  have m: "length m = n" using len mask(2) by (simp add: m_def)
  have clear: "topClear z m" unfolding m_def using len mask(2) by (intro topClear_clearTop) simp
  have "clearTop z (xorBytes m mask) = clearTop z db"
    unfolding m_def using len mask(2) by (intro clearTop_xor) simp_all
  also have "\<dots> = db" using len z topClear_db by (intro clearTop_id) (simp_all add: db_def)
  finally have unmask: "clearTop z (xorBytes m mask) = db" .
  let ?em = "m @ H @ [0xbc]"
  have p: "length ?em = emLength" "?em ! (emLength - 1) = 0xbc" "take n ?em = m" "slice ?em n (emLength - 1) = H"
    using m H len by (simp_all add: nth_append slice_def)
  have ps: "n - length salt - 1 = emLength - length salt - HASH_LENGTH - 2" using len by (simp add: HASH_LENGTH_def)
  have "take (n - length salt - 1) db = replicate (n - length salt - 1) 0" "db ! (n - length salt - 1) = 0x01"
    "drop (n - length salt - 1 + 1) db = salt"
    unfolding ps by (simp_all add: db_def nth_append)
  then have fin: "(if \<not> list_all (\<lambda>b. b = 0) (take (n - length salt - 1) db) then False
      else if db ! (n - length salt - 1) \<noteq> 0x01 then False
      else sha384 N (replicate 8 0 @ sha384 N message @ drop (n - length salt - 1 + 1) db) = H)"
    by (simp add: list_all_iff H_def saltedHash_def)
  have "\<not> (z > 0 \<and> m ! 0 AND topMask z \<noteq> 0)" using clear by (simp add: topClear_def)
  then show ?thesis
    unfolding em pssCheck_def Let_def p(1) p(2) n_def [symmetric] p(3) p(4) z_def [symmetric] mask(1) option.map unmask
    using fin by simp
qed

lemma pssCheck_sound:
  assumes "digest48 N" and "HASH_LENGTH + k + 2 \<le> ceilDiv8 emBits" and "length em = ceilDiv8 emBits"
    and "pssCheck N message em emBits k = Some True"
  shows "\<exists>salt. length salt = k \<and> em = maskedEncode N message emBits salt"
proof -
  define emLength where "emLength = ceilDiv8 emBits"
  define n where "n = emLength - HASH_LENGTH - 1"
  define z where "z = 8 * emLength - emBits"
  define m where "m = take n em"
  define H where "H = slice em n (emLength - 1)"
  define ps where "ps = n - k - 1"
  obtain mask where mask: "mgf1 N H n = Some mask" "length mask = n" using mgf1_total [OF assms(1)] by blast
  define db where "db = clearTop z (xorBytes m mask)"
  have len: "0 < n" "emLength = n + 49" "ps + 1 + k = n" "length em = emLength"
    using assms(2,3) by (auto simp: n_def HASH_LENGTH_def emLength_def ps_def)
  have check: "em ! (emLength - 1) = 0xbc" "topClear z m"
    "list_all (\<lambda>b. b = 0) (take ps db)" "db ! ps = 0x01" "H = saltedHash N message (drop (ps + 1) db)"
    using assms(4)
    unfolding pssCheck_def Let_def len(4) n_def [symmetric] m_def [symmetric] H_def [symmetric]
      z_def [symmetric] mask(1) option.map ps_def [symmetric] db_def [symmetric] topClear_def saltedHash_def
    by (auto split: if_splits)
  define salt where "salt = drop (ps + 1) db"
  have lm: "length m = n" "length db = n" using len mask(2) by (simp_all add: m_def db_def)
  then have salt: "length salt = k" using len by (simp add: salt_def)
  have "take ps db = replicate ps 0"
    using replicate_length_same [of "take ps db" 0] check(3) lm(2) len by (simp add: list_all_iff)
  then have db: "db = replicate ps 0 @ [0x01] @ salt"
    using id_take_nth_drop [of ps db] check(4) lm(2) len by (simp add: salt_def)
  have "m = clearTop z m" using clearTop_id [of m z] check(2) lm len by simp
  also have "\<dots> = clearTop z (xorBytes (clearTop z (xorBytes m mask)) mask)"
    using lm mask(2) len by (intro clearTop_xor [symmetric]) simp_all
  finally have m: "m = clearTop z (xorBytes db mask)" by (simp add: db_def)
  have "em = take n em @ slice em n (emLength - 1) @ drop (emLength - 1) em"
    using len by (simp add: slice_append_drop)
  moreover have "drop (emLength - 1) em = [0xbc]"
    using check(1) len by (metis Cons_nth_drop_Suc One_nat_def Suc_diff_1 add_gr_0 diff_less drop_all le_refl
        zero_less_numeral zero_less_one)
  ultimately have em: "em = m @ H @ [0xbc]" by (simp add: m_def H_def)
  have ps: "emLength - length salt - HASH_LENGTH - 2 = ps" using len salt by (simp add: HASH_LENGTH_def)
  have H: "saltedHash N message salt = H" using check(5) by (simp add: salt_def)
  have "em = maskedEncode N message emBits salt"
    unfolding maskedEncode_def Let_def emLength_def [symmetric] H n_def [symmetric]
      mask(1) option.sel z_def [symmetric] ps db [symmetric] m [symmetric] by (rule em)
  with salt show ?thesis by blast
qed

lemma length_bigintToBytes [simp]: "length (bigintToBytes v n) = n"
  by (simp add: bigintToBytes_def)

lemma ceilDiv8_pred: "ceilDiv8 (b - 1) \<le> ceilDiv8 b"
  by (simp add: ceilDiv8_def div_le_mono)

lemma verify_masked:
  assumes "digest48 N"
  shows "verifyRsaPssSha384 N msg sig n e k = Some True \<longleftrightarrow>
    length sig = ceilDiv8 (bitLength n) \<and> 0 < beNat sig \<and> beNat sig < n \<and>
    HASH_LENGTH + k + 2 \<le> ceilDiv8 (bitLength n - 1) \<and>
    (\<exists>salt. length salt = k \<and>
      drop (ceilDiv8 (bitLength n) - ceilDiv8 (bitLength n - 1))
        (bigintToBytes (beNat sig ^ e mod n) (ceilDiv8 (bitLength n))) =
      maskedEncode N msg (bitLength n - 1) salt)" (is "?l = ?r")
proof -
  let ?b = "bitLength n"
  let ?em = "drop (ceilDiv8 ?b - ceilDiv8 (?b - 1)) (bigintToBytes (beNat sig ^ e mod n) (ceilDiv8 ?b))"
  have len: "length ?em = ceilDiv8 (?b - 1)" using ceilDiv8_pred [of ?b] by simp
  have iff: "pssCheck N msg ?em (?b - 1) k = Some True \<longleftrightarrow>
      (\<exists>salt. length salt = k \<and> ?em = maskedEncode N msg (?b - 1) salt)"
    if "HASH_LENGTH + k + 2 \<le> ceilDiv8 (?b - 1)"
    using pssCheck_sound [OF assms that len] pssCheck_encode [OF assms, of _ "?b - 1" msg] that by metis
  have pow: "modPow (beNat sig) e n = beNat sig ^ e mod n" if "0 < beNat sig" "beNat sig < n"
    using that by (intro modPow_spec) simp
  show ?thesis
  proof (cases "length sig = ceilDiv8 ?b \<and> 0 < beNat sig \<and> beNat sig < n \<and> HASH_LENGTH + k + 2 \<le> ceilDiv8 (?b - 1)")
    case True
    then have "verifyRsaPssSha384 N msg sig n e k = pssCheck N msg ?em (?b - 1) k"
      using pow by (simp add: verifyRsaPssSha384_def Let_def bytesToBigint_def)
    then show ?thesis using iff True by simp
  next
    case False
    then show ?thesis by (auto simp: verifyRsaPssSha384_def Let_def bytesToBigint_def)
  qed
qed

subsection \<open>RFC 8017\<close>

text \<open>
  The signature scheme as RFC 8017 writes it, over SHA-384, from its own primitives: I2OSP and OS2IP (4.1 and
  4.2), MGF1 (B.2.1), EMSA-PSS-ENCODE under a given salt (9.1.1), and the condition RSASSA-PSS-VERIFY (8.1.2)
  puts on a signature and the representative \<open>m\<close> that RSAVP1 gave for it. A modulus has \<open>b\<close> bits.
\<close>

definition I2OSP :: "nat \<Rightarrow> nat \<Rightarrow> bytes" where
  "I2OSP x len = map (\<lambda>i. byteOf (x div 256 ^ (len - 1 - i) mod 256)) [0..<len]"

definition OS2IP :: "bytes \<Rightarrow> nat" where
  "OS2IP bs = (\<Sum>i<length bs. unat (bs ! i) * 256 ^ (length bs - 1 - i))"

definition ceilQuot :: "nat \<Rightarrow> nat \<Rightarrow> nat" where
  "ceilQuot d x = x div d + (if x mod d = 0 then 0 else 1)"

definition MGF1 :: "noble \<Rightarrow> bytes \<Rightarrow> nat \<Rightarrow> bytes" where
  "MGF1 N seed len = take len (concat (map (\<lambda>counter. sha384 N (seed @ I2OSP counter 4)) [0..<ceilQuot 48 len]))"

fun zeroLeft :: "nat \<Rightarrow> bytes \<Rightarrow> bytes" where
  "zeroLeft bits (x # xs) = take_bit (8 - bits) x # xs"
| "zeroLeft bits [] = []"

definition pssEncode :: "noble \<Rightarrow> bytes \<Rightarrow> nat \<Rightarrow> bytes \<Rightarrow> bytes" where
  "pssEncode N message emBits salt =
    (let emLen = ceilQuot 8 emBits;
         H = sha384 N (replicate 8 0 @ sha384 N message @ salt);
         DB = replicate (emLen - length salt - 48 - 2) 0 @ [0x01] @ salt;
         maskedDB = map2 (XOR) DB (MGF1 N H (emLen - 48 - 1))
     in zeroLeft (8 * emLen - emBits) maskedDB @ H @ [0xbc])"

definition hasBits :: "nat \<Rightarrow> nat \<Rightarrow> bool" where
  "hasBits n b \<longleftrightarrow> n < 2 ^ b \<and> (0 < b \<longrightarrow> 2 ^ (b - 1) \<le> n)"

definition rfcVerifies :: "noble \<Rightarrow> bytes \<Rightarrow> bytes \<Rightarrow> nat \<Rightarrow> nat \<Rightarrow> nat \<Rightarrow> nat \<Rightarrow> bool" where
  "rfcVerifies N message sig n b saltLength m \<longleftrightarrow>
    (let emLen = ceilQuot 8 (b - 1) in
     length sig = ceilQuot 8 b \<and> OS2IP sig < n \<and> m < 256 ^ emLen \<and> 48 + saltLength + 2 \<le> emLen \<and>
     (\<exists>salt. length salt = saltLength \<and> I2OSP m emLen = pssEncode N message (b - 1) salt))"

lemma leEnc_nth: "i < k \<Longrightarrow> leEnc k n ! i = byteOf (n div 256 ^ i mod 256)"
  by (induction k arbitrary: n i) (auto simp: nth_Cons div_mult2_eq split: nat.split)

lemma I2OSP_beEnc: "I2OSP x len = beEnc len x"
  by (rule nth_equalityI) (simp_all add: I2OSP_def beEnc_def rev_nth leEnc_nth)

lemma OS2IP_beNat: "OS2IP bs = beNat bs"
  by (induction bs) (simp_all add: OS2IP_def beNat_Cons sum.lessThan_Suc_shift del: sum.lessThan_Suc)

lemma u32be_I2OSP: "u32be x = I2OSP x 4"
proof -
  have "[0..<4] = [0, 1, 2, 3 :: nat]" by (simp add: upt_rec)
  then show ?thesis by (simp add: u32be_def I2OSP_def)
qed

lemma ceilDiv8_quot: "ceilDiv8 x = ceilQuot 8 x"
proof -
  have "x + 7 = (x mod 8 + 7) + x div 8 * 8" by simp
  then have "(x + 7) div 8 = x div 8 + (x mod 8 + 7) div 8" by (metis add.commute div_mult_self1 zero_neq_numeral)
  moreover have "x mod 8 \<in> {0, 1, 2, 3, 4, 5, 6, 7}" using mod_less_divisor [of 8 x] by auto
  ultimately show ?thesis by (auto simp: ceilDiv8_def ceilQuot_def)
qed

lemma ceilQuot_step: "0 < r \<Longrightarrow> ceilQuot 48 r = Suc (ceilQuot 48 (r - 48))"
proof (cases "48 \<le> r")
  case True
  then show ?thesis by (simp add: ceilQuot_def le_div_geq le_mod_geq)
next
  case False
  moreover assume "0 < r"
  ultimately show ?thesis by (simp add: ceilQuot_def)
qed

lemma mgf1Loop_blocks:
  "digest48 N \<Longrightarrow> mgf1Loop N seed len pos c =
    Some (take (len - pos) (concat (map (\<lambda>i. sha384 N (seed @ I2OSP i 4)) [c..<c + ceilQuot 48 (len - pos)])))"
proof (induction N seed len pos c rule: mgf1Loop.induct)
  case (1 N seed len pos c)
  show ?case
  proof (cases "pos < len")
    case False
    then show ?thesis by (simp add: mgf1Loop.simps)
  next
    case True
    let ?b = "sha384 N (seed @ u32be c)" and ?n = "min 48 (len - pos)"
    let ?rest = "\<lambda>k. concat (map (\<lambda>i. sha384 N (seed @ I2OSP i 4)) [c + 1..<c + 1 + k])"
    have b: "length ?b = 48" using 1(2) by (simp add: digest48_def)
    then have n: "min (length ?b) (len - pos) = ?n" "?n \<noteq> 0" using True by simp_all
    have q: "ceilQuot 48 (len - pos) = Suc (ceilQuot 48 (len - (pos + ?n)))"
    proof -
      have "len - (pos + ?n) = (len - pos) - 48" by simp
      then show ?thesis using ceilQuot_step [of "len - pos"] True by simp
    qed
    have u: "[c..<c + ceilQuot 48 (len - pos)] = c # [c + 1..<c + 1 + ceilQuot 48 (len - (pos + ?n))]"
      unfolding q by (simp add: upt_conv_Cons)
    have "mgf1Loop N seed len pos c = Some (take ?n ?b @ take (len - (pos + ?n)) (?rest (ceilQuot 48 (len - (pos + ?n)))))"
      by (subst mgf1Loop.simps) (use True n 1(1) [OF True refl n(1) [symmetric] n(2) 1(2)] in \<open>simp add: Let_def\<close>)
    also have "\<dots> = Some (take (len - pos) (?b @ ?rest (ceilQuot 48 (len - (pos + ?n)))))" using b by (simp add: min_def)
    finally show ?thesis unfolding u by (simp add: u32be_I2OSP)
  qed
qed

lemma mgf1_rfc: "digest48 N \<Longrightarrow> mgf1 N seed len = Some (MGF1 N seed len)"
  by (simp add: mgf1_def mgf1Loop_blocks MGF1_def)

lemma length_MGF1: "digest48 N \<Longrightarrow> length (MGF1 N seed len) = len"
  using mgf1_total [of N seed len] mgf1_rfc [of N seed len] by auto

lemma and_mask_eq: "(x :: byte) = x AND 255"
proof -
  have f: "(255 :: byte) = - 1" by simp
  show ?thesis unfolding f by simp
qed

lemma clearTop_zeroLeft: "z < 8 \<Longrightarrow> 0 < length bs \<Longrightarrow> clearTop z bs = zeroLeft z bs"
proof (cases bs)
  case (Cons x xs)
  assume "z < 8"
  then have "z \<in> {0, 1, 2, 3, 4, 5, 6, 7}" by auto
  then have "(if z > 0 then x AND (0xff XOR topMask z) else x) = take_bit (8 - z) x"
    using and_mask_eq by (auto simp: topMask_def byteOf_def take_bit_eq_mask mask_eq_exp_minus_1)
  then show ?thesis by (simp add: Cons clearTop_def split: if_splits)
qed simp

lemma maskedEncode_rfc:
  assumes "digest48 N" and "48 + length salt + 2 \<le> ceilQuot 8 emBits"
  shows "maskedEncode N message emBits salt = pssEncode N message emBits salt"
proof -
  have "8 * ceilQuot 8 emBits - emBits < 8" unfolding ceilQuot_def by presburger
  then show ?thesis
    using assms length_MGF1 [OF assms(1)]
    by (simp add: maskedEncode_def pssEncode_def Let_def ceilDiv8_quot HASH_LENGTH_def mgf1_rfc saltedHash_def xorBytes_def
        clearTop_zeroLeft)
qed

lemma bitLength_eq: "2 ^ k \<le> n \<Longrightarrow> n < 2 ^ Suc k \<Longrightarrow> bitLength n = Suc k"
proof (induction k arbitrary: n)
  case 0
  then show ?case by (simp add: bitLength.simps)
next
  case (Suc k)
  have "2 \<le> n" using Suc.prems(1) order_trans [of 2 "2 ^ Suc k" n] by simp
  moreover have "2 ^ k \<le> n div 2" "n div 2 < 2 ^ Suc k" using Suc.prems by auto
  then have "bitLength (n div 2) = Suc k" by (rule Suc.IH)
  ultimately show ?case by (subst bitLength.simps) simp
qed

lemma hasBits_bitLength: "hasBits n b \<Longrightarrow> 0 < n \<Longrightarrow> 0 < b \<and> bitLength n = b"
  by (cases b) (auto simp: hasBits_def intro: bitLength_eq)

lemma representative_octets: "drop (k - l) (bigintToBytes m k) = I2OSP (m mod 256 ^ l) l" if "l \<le> k"
proof -
  have "leEnc k m = leEnc l m @ leEnc (k - l) (m div 256 ^ l)" using leEnc_add [of l "k - l" m] that by simp
  then show ?thesis by (simp add: bigintToBytes_def I2OSP_beEnc beEnc_def leEnc_mod)
qed

text \<open>The representative 0 is no encoding, so the verifier may refuse the signature 0 at once.\<close>

lemma pssEncode_not_zero:
  assumes "0 < l" and "m \<le> 1"
  shows "I2OSP m l \<noteq> pssEncode N message emBits salt"
proof
  assume e: "I2OSP m l = pssEncode N message emBits salt"
  have "last (pssEncode N message emBits salt) = 0xbc" by (simp add: pssEncode_def Let_def)
  moreover have "last (I2OSP m l) = byteOf m" using assms by (cases l) (auto simp: I2OSP_def last_map)
  moreover have "byteOf m \<noteq> 0xbc" using assms(2) by (cases m) (auto simp: byteOf_def)
  ultimately show False using e by simp
qed

text \<open>
  C30 The verifier accepts exactly the signatures RFC 8017 calls valid, with one exception that is stated. For a
  modulus of \<open>b\<close> bits and a 48-byte hash, a signature is accepted exactly when it has the length of the modulus,
  is a number below it, there is room for hash and salt, and the representative it yields is, in \<open>emLen\<close> octets,
  the EMSA-PSS encoding of the message under some salt of the demanded length; I2OSP, OS2IP, MGF1 and the
  encoding are those of the RFC. The exception: where \<open>b\<close> is one more than a multiple of 8, the RFC refuses a
  representative that is too large for \<open>emLen\<close> octets, and the verifier drops its top octet instead.
\<close>

theorem verifyRsaPss_iff:
  assumes "digest48 N" and "hasBits n b"
  shows "verifyRsaPssSha384 N msg sig n e k = Some True \<longleftrightarrow>
    rfcVerifies N msg sig n b k
      (let m = OS2IP sig ^ e mod n in if b mod 8 = 1 then m mod 256 ^ ceilQuot 8 (b - 1) else m)"
proof (cases "OS2IP sig < n \<and> 48 + k + 2 \<le> ceilQuot 8 (b - 1)")
  case False
  have "bitLength n = b" if "OS2IP sig < n" using hasBits_bitLength [OF assms(2)] that by auto
  then show ?thesis
    using False unfolding verify_masked [OF assms(1)] by (auto simp: rfcVerifies_def Let_def OS2IP_beNat ceilDiv8_quot HASH_LENGTH_def)
next
  case True
  define m where "m = OS2IP sig ^ e mod n"
  define l where "l = ceilQuot 8 (b - 1)"
  have b: "0 < b" "bitLength n = b" using hasBits_bitLength [OF assms(2)] True by auto
  have l: "l \<le> ceilQuot 8 b" "0 < l" using True ceilDiv8_pred [of b] by (simp_all add: l_def ceilDiv8_quot)
  have cut: "(if b mod 8 = 1 then m mod 256 ^ l else m) = m mod 256 ^ l"
  proof (cases "b mod 8 = 1")
    case False
    have "b \<le> 8 * l" using False b(1) unfolding l_def ceilQuot_def by presburger
    then have "(2 :: nat) ^ b \<le> 2 ^ (8 * l)" by (rule power_increasing) simp
    moreover have "m < 2 ^ b" using True assms(2) order.strict_trans [of m n "2 ^ b"] by (simp add: m_def hasBits_def)
    ultimately have "m < 256 ^ l" by (simp add: power_mult)
    then show ?thesis by simp
  qed simp
  have enc: "maskedEncode N msg (b - 1) salt = pssEncode N msg (b - 1) salt" if "length salt = k" for salt
    using maskedEncode_rfc [OF assms(1), of salt "b - 1"] that True by simp
  have zero: "0 < OS2IP sig" if "length salt = k" "I2OSP (m mod 256 ^ l) l = pssEncode N msg (b - 1) salt" for salt
  proof (rule ccontr)
    assume "\<not> 0 < OS2IP sig"
    then have "m \<le> 1" by (cases e) (simp_all add: m_def mod_less_eq_dividend le_trans)
    then have "m mod 256 ^ l \<le> 1" using mod_less_eq_dividend [of m "256 ^ l"] by linarith
    then show False using pssEncode_not_zero [OF l(2)] that(2) by blast
  qed
  show ?thesis
    unfolding verify_masked [OF assms(1)] b(2) ceilDiv8_quot OS2IP_beNat [symmetric] l_def [symmetric] m_def [symmetric] Let_def cut
      representative_octets [OF l(1)] rfcVerifies_def HASH_LENGTH_def
    using enc zero True [folded l_def] by auto
qed

definition sampleEm :: bytes where
  "sampleEm = [0x01] @ replicate 48 0 @ [0xbc]"

lemma sampleEm_number: "beNat sampleEm = 2 ^ 392 + 0xbc"
proof -
  have z: "beNat (replicate n 0) = 0" for n by (induction n) (simp_all add: beNat_Cons)
  have "(256 :: nat) ^ 49 = 2 ^ 392" using power_mult [of "2 :: nat" 8 49] by simp
  then show ?thesis by (simp only: sampleEm_def beNat_append beNat_Cons z) simp
qed

lemma bigintToBytes_beNat: "bigintToBytes (beNat bs) (length bs) = bs"
proof (rule beNat_inject)
  have "leNat (leEnc (length bs) (beNat bs)) = beNat bs" by (rule leNat_leEnc [OF beNat_less])
  then show "beNat (bigintToBytes (beNat bs) (length bs)) = beNat bs"
    by (simp add: bigintToBytes_def leNat_def)
qed (simp add: bigintToBytes_def)

lemma sampleEm_encodes: "emBits = 399 \<or> emBits = 400 \<Longrightarrow> pssEncode quietNoble [] emBits [] = sampleEm"
proof -
  assume "emBits = 399 \<or> emBits = 400"
  then have q: "ceilQuot 8 emBits = 50" "8 * 50 - emBits \<in> {0, 1}" by (auto simp: ceilQuot_def)
  have h: "sha384 quietNoble (replicate 8 0 @ sha384 quietNoble []) = replicate 48 0"
    by (simp add: quietNoble_def flip: replicate_add)
  have "MGF1 quietNoble (replicate 48 0) 1 = [0]" by (simp add: MGF1_def ceilQuot_def quietNoble_def)
  then show ?thesis using q by (auto simp: pssEncode_def Let_def h sampleEm_def take_bit_eq_mask mask_eq_exp_minus_1)
qed

lemma sampleEm_octets: "I2OSP (beNat sampleEm) 50 = sampleEm"
proof -
  have "length sampleEm = 50" by (simp add: sampleEm_def)
  then show ?thesis using beEnc_beNat [of sampleEm] by (simp add: I2OSP_beEnc)
qed

text \<open>
  A modulus of 400 bits, where a signature the RFC calls valid is accepted, and one of 401 bits, where one it
  calls invalid is accepted too: its representative has a top octet of 1 before the encoding.
\<close>

lemma verifyRsaPss_iff_witness:
  "verifyRsaPssSha384 quietNoble [] sampleEm (2 ^ 399 + 1) 1 0 = Some True \<and>
    verifyRsaPssSha384 quietNoble [] (1 # sampleEm) (2 ^ 400 + 2 ^ 399) 1 0 = Some True \<and>
    \<not> rfcVerifies quietNoble [] (1 # sampleEm) (2 ^ 400 + 2 ^ 399) 401 0 (OS2IP (1 # sampleEm) ^ 1 mod (2 ^ 400 + 2 ^ 399))"
proof (intro conjI)
  have q: "ceilQuot 8 400 = 50" "ceilQuot 8 399 = 50" "ceilQuot 8 401 = 51" by (simp_all add: ceilQuot_def)
  have len: "length sampleEm = 50" by (simp add: sampleEm_def)
  have p: "(256 :: nat) ^ 50 = 2 ^ 400" using power_mult [of "2 :: nat" 8 50] by simp
  have s: "OS2IP sampleEm < 2 ^ 399" "OS2IP (1 # sampleEm) = 2 ^ 400 + OS2IP sampleEm"
    by (simp_all add: OS2IP_beNat sampleEm_number beNat_Cons len p)
  have m: "OS2IP sampleEm < 2 ^ 399 + 1" "OS2IP (1 # sampleEm) < 2 ^ 400 + 2 ^ 399" using s by linarith+
  show "verifyRsaPssSha384 quietNoble [] sampleEm (2 ^ 399 + 1) 1 0 = Some True"
  proof (subst verifyRsaPss_iff [OF quiet48, of _ 400])
    show "hasBits (2 ^ 399 + 1) 400" by (simp add: hasBits_def)
    have "OS2IP sampleEm < 2 ^ 400" using s(1) by simp
    then show "rfcVerifies quietNoble [] sampleEm (2 ^ 399 + 1) 400 0 (let m = OS2IP sampleEm ^ 1 mod (2 ^ 399 + 1)
        in if (400 :: nat) mod 8 = 1 then m mod 256 ^ ceilQuot 8 (400 - 1) else m)"
      using m(1) sampleEm_octets sampleEm_encodes [of 399] by (simp add: rfcVerifies_def q len p OS2IP_beNat)
  qed
  show "verifyRsaPssSha384 quietNoble [] (1 # sampleEm) (2 ^ 400 + 2 ^ 399) 1 0 = Some True"
  proof (subst verifyRsaPss_iff [OF quiet48, of _ 401])
    show "hasBits (2 ^ 400 + 2 ^ 399) 401" by (simp add: hasBits_def)
    have "OS2IP (1 # sampleEm) mod 2 ^ 400 = OS2IP sampleEm" using s by simp
    then show "rfcVerifies quietNoble [] (1 # sampleEm) (2 ^ 400 + 2 ^ 399) 401 0 (let m = OS2IP (1 # sampleEm) ^ 1 mod (2 ^ 400 + 2 ^ 399)
        in if (401 :: nat) mod 8 = 1 then m mod 256 ^ ceilQuot 8 (401 - 1) else m)"
      using m(2) s(1) sampleEm_octets sampleEm_encodes [of 400] by (simp add: rfcVerifies_def q len p OS2IP_beNat)
  qed
  have "\<not> OS2IP (1 # sampleEm) mod (2 ^ 400 + 2 ^ 399) < 2 ^ 400" using m(2) s(2) by simp
  then show "\<not> rfcVerifies quietNoble [] (1 # sampleEm) (2 ^ 400 + 2 ^ 399) 401 0 (OS2IP (1 # sampleEm) ^ 1 mod (2 ^ 400 + 2 ^ 399))"
    by (simp add: rfcVerifies_def q p)
qed

end
