(* ===== verification/Der.thy ===== *)
theory Der
  imports RsaPss Json
begin

text \<open>
  packages/attest-core/src/der.ts: DER elements, X.509 certificates, PEM, base64 and the signature
  check of one certificate under another. An offset or a length that the source can make \<open>NaN\<close>
  is \<open>None\<close>: \<open>readTlv\<close> computes one when the length bytes end exactly at the end of the input.
  Object identifiers are their lists of arcs (the empty list where the source has the empty string);
  arcs and integers the source rounds to doubles beyond 53 bits are kept exact.
\<close>

type_synonym num = "nat option"

definition numAdd :: "num \<Rightarrow> num \<Rightarrow> num" where
  "numAdd a b = (case a of None \<Rightarrow> None | Some m \<Rightarrow> (case b of None \<Rightarrow> None | Some n \<Rightarrow> Some (m + n)))"

text \<open>\<open>a < n\<close>, false for NaN; \<open>a !== n\<close>, true for NaN.\<close>

definition numLess :: "num \<Rightarrow> nat \<Rightarrow> bool" where
  "numLess a n = (case a of None \<Rightarrow> False | Some m \<Rightarrow> m < n)"

subsection \<open>Elements\<close>

record tlv =
  tlvTag :: byte
  tlvContent :: bytes
  tlvTotal :: num

definition MALFORMED :: aerr where
  "MALFORMED = MALFORMED_CERTIFICATE"

text \<open>
  The length after a long-form head byte at \<open>pos\<close>: \<open>count\<close> bytes, big-endian. The source's bound
  admits \<open>pos + count = data.length\<close>, where the last byte read is \<open>undefined\<close> and the sum is NaN.
\<close>

definition longLength :: "bytes \<Rightarrow> nat \<Rightarrow> nat \<Rightarrow> num" where
  "longLength data pos count =
    (if pos + count < length data then Some (beNat (slice data (pos + 1) (pos + 1 + count))) else None)"

definition tlvEnd :: "bytes \<Rightarrow> nat \<Rightarrow> byte \<Rightarrow> nat \<Rightarrow> num \<Rightarrow> aerr + tlv" where
  "tlvEnd data offset tag pos len =
    (case len of
       None \<Rightarrow> Inr \<lparr>tlvTag = tag, tlvContent = [], tlvTotal = None\<rparr>
     | Some n \<Rightarrow>
         if pos + n > length data then Inl MALFORMED
         else Inr \<lparr>tlvTag = tag, tlvContent = slice data pos (pos + n), tlvTotal = Some (pos + n - offset)\<rparr>)"

definition readTlv :: "bytes \<Rightarrow> num \<Rightarrow> aerr + tlv" where
  "readTlv data offset =
    (case offset of
       None \<Rightarrow> Inl MALFORMED
     | Some off \<Rightarrow>
         if off \<ge> length data then Inl MALFORMED
         else
           let tag = data ! off in
           if tag AND 0x1f = 0x1f then Inl MALFORMED
           else
             let pos = off + 1 in
             if pos \<ge> length data then Inl MALFORMED
             else
               let first = data ! pos in
               if unat first < 0x80 then tlvEnd data off tag (pos + 1) (Some (unat first))
               else
                 let count = unat (first AND 0x7f) in
                 if count = 0 \<or> count > 4 \<or> pos + count > length data then Inl MALFORMED
                 else tlvEnd data off tag (pos + 1 + count) (longLength data pos count))"

definition expect :: "aerr + tlv \<Rightarrow> byte \<Rightarrow> aerr + tlv" where
  "expect t tag = bindE t (\<lambda>tlv. if tlvTag tlv \<noteq> tag then Inl MALFORMED else Inr tlv)"

subsection \<open>Primitive contents\<close>

text \<open>The arcs, from the sub-identifier read so far; bytes after the last complete one are dropped.\<close>

fun oidArcs :: "nat \<Rightarrow> bytes \<Rightarrow> nat list" where
  "oidArcs value [] = []"
| "oidArcs value (b # bs) =
    (let v = value * 128 + unat (b AND 0x7f) in
     if b AND 0x80 = 0 then v # oidArcs 0 bs else oidArcs v bs)"

definition readOid :: "bytes \<Rightarrow> nat list" where
  "readOid content =
    (let arcs = oidArcs 0 content in
     if length arcs < 2 then []
     else
       let first = arcs ! 0;
           firstArc = (if first < 40 then 0 else if first < 80 then 1 else 2);
           secondArc = (if first < 40 then first else if first < 80 then first - 40 else first - 80)
       in firstArc # secondArc # drop 1 arcs)"

definition readInteger :: "bytes \<Rightarrow> aerr + nat" where
  "readInteger content = (if length content = 0 then Inl MALFORMED else Inr (beNat content))"

text \<open>\<open>Date.UTC\<close>: milliseconds of a civil date, with out-of-range months and days carried over.\<close>

definition leapYear :: "int \<Rightarrow> bool" where
  "leapYear y \<longleftrightarrow> y mod 4 = 0 \<and> (y mod 100 \<noteq> 0 \<or> y mod 400 = 0)"

definition dayFromYear :: "int \<Rightarrow> int" where
  "dayFromYear y = 365 * (y - 1970) + (y - 1969) div 4 - (y - 1901) div 100 + (y - 1601) div 400"

definition monthStart :: "bool \<Rightarrow> nat \<Rightarrow> int" where
  "monthStart leap m =
    [0, 31, 59, 90, 120, 151, 181, 212, 243, 273, 304, 334] ! m + (if leap \<and> m \<ge> 2 then 1 else 0)"

definition dateUTC :: "int \<Rightarrow> int \<Rightarrow> int \<Rightarrow> int \<Rightarrow> int \<Rightarrow> int \<Rightarrow> int" where
  "dateUTC y m d h mi s =
    (let yr = (if 0 \<le> y \<and> y \<le> 99 then 1900 + y else y);
         ym = yr + m div 12;
         mn = nat (m mod 12);
         day = dayFromYear ym + monthStart (leapYear ym) mn + d - 1
     in day * 86400000 + h * 3600000 + mi * 60000 + s * 1000)"

definition digitOf :: "byte \<Rightarrow> nat option" where
  "digitOf b = (if 0x30 \<le> unat b \<and> unat b \<le> 0x39 then Some (unat b - 0x30) else None)"

definition digitsNum :: "bytes \<Rightarrow> int" where
  "digitsNum bs = foldl (\<lambda>n b. n * 10 + (int (unat b) - 0x30)) 0 bs"

text \<open>\<open>Y\<close> year digits, five pairs of digits and a Z, and nothing else.\<close>

definition timeShape :: "nat \<Rightarrow> bytes \<Rightarrow> bool" where
  "timeShape Y bs \<longleftrightarrow>
    length bs = Y + 11 \<and> list_all (\<lambda>b. digitOf b \<noteq> None) (take (Y + 10) bs) \<and> bs ! (Y + 10) = 0x5a"

definition readTime :: "tlv \<Rightarrow> aerr + int" where
  "readTime tlv =
    (let Y = (if tlvTag tlv = 0x17 then 2 else 4); bs = tlvContent tlv in
     if \<not> timeShape Y bs then Inl MALFORMED
     else
       let year = digitsNum (take Y bs);
           year' = (if tlvTag tlv = 0x17 then year + (if year \<ge> 50 then 1900 else 2000) else year);
           part = (\<lambda>i. digitsNum (slice bs (Y + 2 * i) (Y + 2 * i + 2)))
       in Inr (dateUTC year' (part 0 - 1) (part 1) (part 2) (part 3) (part 4)))"

text \<open>
  \<open>new TextDecoder('latin1')\<close> is windows-1252 in the Encoding Standard: its bytes 0x80 to 0x9f
  are mapped by this table, every other byte is the code unit of its number.
\<close>

definition win1252 :: "nat list" where
  "win1252 =
    [0x20AC, 0x81, 0x201A, 0x0192, 0x201E, 0x2026, 0x2020, 0x2021, 0x02C6, 0x2030, 0x0160, 0x2039,
     0x0152, 0x8D, 0x017D, 0x8F, 0x90, 0x2018, 0x2019, 0x201C, 0x201D, 0x2022, 0x2013, 0x2014,
     0x02DC, 0x2122, 0x0161, 0x203A, 0x0153, 0x9D, 0x017E, 0x0178]"

definition latin1 :: "bytes \<Rightarrow> jsstr" where
  "latin1 bs =
    map (\<lambda>b. cuOf (if 0x80 \<le> unat b \<and> unat b \<le> 0x9f then win1252 ! (unat b - 0x80) else unat b)) bs"

subsection \<open>Algorithms and keys\<close>

definition OID_EC_PUBLIC_KEY :: "nat list" where "OID_EC_PUBLIC_KEY = [1, 2, 840, 10045, 2, 1]"
definition OID_P256 :: "nat list" where "OID_P256 = [1, 2, 840, 10045, 3, 1, 7]"
definition OID_P384 :: "nat list" where "OID_P384 = [1, 3, 132, 0, 34]"
definition OID_ECDSA_SHA256 :: "nat list" where "OID_ECDSA_SHA256 = [1, 2, 840, 10045, 4, 3, 2]"
definition OID_ECDSA_SHA384 :: "nat list" where "OID_ECDSA_SHA384 = [1, 2, 840, 10045, 4, 3, 3]"
definition OID_RSA_ENCRYPTION :: "nat list" where "OID_RSA_ENCRYPTION = [1, 2, 840, 113549, 1, 1, 1]"
definition OID_RSASSA_PSS :: "nat list" where "OID_RSASSA_PSS = [1, 2, 840, 113549, 1, 1, 10]"
definition OID_SHA384 :: "nat list" where "OID_SHA384 = [2, 16, 840, 1, 101, 3, 4, 2, 2]"
definition OID_MGF1 :: "nat list" where "OID_MGF1 = [1, 2, 840, 113549, 1, 1, 8]"
definition OID_PRODUCT_NAME :: "nat list" where "OID_PRODUCT_NAME = [1, 3, 6, 1, 4, 1, 3704, 1, 2]"
definition OID_HWID :: "nat list" where "OID_HWID = [1, 3, 6, 1, 4, 1, 3704, 1, 4]"
definition OID_BASIC_CONSTRAINTS :: "nat list" where "OID_BASIC_CONSTRAINTS = [2, 5, 29, 19]"

datatype public_key = EcP384 bytes | EcP256 bytes | RsaKey nat nat

datatype sig_alg =
    RsaPssAlg "nat list" "nat list" "nat list" jsnum jsnum
  | EcdsaSha384
  | EcdsaSha256
  | UnsupportedAlg "nat list"

text \<open>
  \<open>while (offset < data.length) { const t = readTlv(data, offset); offset += t.total; ... }\<close>, the loop
  of the PSS parameters, the extensions, the trailing fields and a DER chain; \<open>step\<close> is its body. It
  ends because an element has a positive length or the offset becomes NaN.
\<close>

lemma readTlv_total: "readTlv data off = Inr t \<Longrightarrow> tlvTotal t = Some n \<Longrightarrow> 2 \<le> n"
  by (auto simp: readTlv_def tlvEnd_def Let_def split: option.splits if_splits)

function tlvLoop :: "(tlv \<Rightarrow> nat \<Rightarrow> 's \<Rightarrow> aerr + 's) \<Rightarrow> bytes \<Rightarrow> num \<Rightarrow> 's \<Rightarrow> aerr + 's" where
  "tlvLoop step data off s =
    (case off of
       None \<Rightarrow> Inr s
     | Some o' \<Rightarrow>
         if o' < length data then
           bindE (readTlv data (Some o')) (\<lambda>t.
           bindE (step t o' s) (\<lambda>s'. tlvLoop step data (numAdd (Some o') (tlvTotal t)) s'))
         else Inr s)"
  by pat_completeness auto
termination
  by (relation "measure (\<lambda>(_, data, off, _). case off of None \<Rightarrow> 0 | Some o' \<Rightarrow> Suc (length data) - o')")
     (auto simp: numAdd_def dest: readTlv_total split: option.splits)

declare tlvLoop.simps [simp del]

record pss_params =
  ppHash :: "nat list"
  ppMgf :: "nat list"
  ppMgfHash :: "nat list"
  ppSalt :: "jsnum option"
  ppTrailer :: jsnum

text \<open>\<open>Number(value)\<close> of a bigint: the nearest double.\<close>

definition numberOf :: "nat \<Rightarrow> jsnum" where
  "numberOf n = nearestDouble False n 1"

definition pssField :: "tlv \<Rightarrow> nat \<Rightarrow> pss_params \<Rightarrow> aerr + pss_params" where
  "pssField f off p =
    (if tlvTag f = 0xa0 then
       bindE (expect (readTlv (tlvContent f) (Some 0)) 0x30) (\<lambda>inner.
       bindE (expect (readTlv (tlvContent inner) (Some 0)) 0x06) (\<lambda>o1.
         Inr (p\<lparr>ppHash := readOid (tlvContent o1)\<rparr>)))
     else if tlvTag f = 0xa1 then
       bindE (expect (readTlv (tlvContent f) (Some 0)) 0x30) (\<lambda>inner.
       bindE (expect (readTlv (tlvContent inner) (Some 0)) 0x06) (\<lambda>o1.
       bindE (expect (readTlv (tlvContent inner) (tlvTotal o1)) 0x30) (\<lambda>mgfHash.
       bindE (expect (readTlv (tlvContent mgfHash) (Some 0)) 0x06) (\<lambda>o2.
         Inr (p\<lparr>ppMgf := readOid (tlvContent o1), ppMgfHash := readOid (tlvContent o2)\<rparr>)))))
     else if tlvTag f = 0xa2 then
       bindE (expect (readTlv (tlvContent f) (Some 0)) 0x02) (\<lambda>salt.
       bindE (readInteger (tlvContent salt)) (\<lambda>n. Inr (p\<lparr>ppSalt := Some (numberOf n)\<rparr>)))
     else if tlvTag f = 0xa3 then
       bindE (expect (readTlv (tlvContent f) (Some 0)) 0x02) (\<lambda>trailer.
       bindE (readInteger (tlvContent trailer)) (\<lambda>n. Inr (p\<lparr>ppTrailer := numberOf n\<rparr>)))
     else Inl MALFORMED)"

definition pssStart :: "bytes \<Rightarrow> num \<Rightarrow> aerr + bytes \<times> num" where
  "pssStart content off =
    (if numLess off (length content) \<and> content ! the off = 0x30 then
       bindE (expect (readTlv content off) 0x30) (\<lambda>wrapper.
         if numAdd off (tlvTotal wrapper) \<noteq> Some (length content) then Inl MALFORMED
         else Inr (tlvContent wrapper, Some 0))
     else Inr (content, off))"

definition parseSignatureAlgorithm :: "bytes \<Rightarrow> aerr + sig_alg" where
  "parseSignatureAlgorithm content =
    bindE (expect (readTlv content (Some 0)) 0x06) (\<lambda>oidTlv.
      let oid = readOid (tlvContent oidTlv); off = tlvTotal oidTlv in
      if oid = OID_ECDSA_SHA384 then
        (if off \<noteq> Some (length content) then Inl UNSUPPORTED_CERT_ALGORITHM else Inr EcdsaSha384)
      else if oid = OID_ECDSA_SHA256 then
        (if off \<noteq> Some (length content) then Inl UNSUPPORTED_CERT_ALGORITHM else Inr EcdsaSha256)
      else if oid = OID_RSASSA_PSS then
        bindE (pssStart content off) (\<lambda>(fs, start).
        bindE (tlvLoop pssField fs start
            \<lparr>ppHash = [], ppMgf = [], ppMgfHash = [], ppSalt = None, ppTrailer = NInt 1\<rparr>) (\<lambda>p.
          case ppSalt p of
            None \<Rightarrow> Inl UNSUPPORTED_CERT_ALGORITHM
          | Some salt \<Rightarrow>
              if ppHash p = [] \<or> ppMgf p = [] then Inl UNSUPPORTED_CERT_ALGORITHM
              else Inr (RsaPssAlg (ppHash p) (ppMgf p) (ppMgfHash p) salt (ppTrailer p))))
      else Inr (UnsupportedAlg oid))"

definition ecPoint :: "bytes \<Rightarrow> nat \<Rightarrow> (bytes \<Rightarrow> public_key) \<Rightarrow> aerr + public_key" where
  "ecPoint point n mk =
    (if length point \<noteq> n \<or> point ! 0 \<noteq> 0x04 then Inl UNSUPPORTED_CERT_ALGORITHM else Inr (mk point))"

definition parseSubjectPublicKeyInfo :: "bytes \<Rightarrow> aerr + public_key" where
  "parseSubjectPublicKeyInfo spki =
    bindE (expect (readTlv spki (Some 0)) 0x30) (\<lambda>alg.
    bindE (expect (readTlv spki (tlvTotal alg)) 0x03) (\<lambda>key.
      if length (tlvContent key) < 2 \<or> tlvContent key ! 0 \<noteq> 0 then Inl MALFORMED
      else
        let point = drop 1 (tlvContent key) in
        bindE (expect (readTlv (tlvContent alg) (Some 0)) 0x06) (\<lambda>oidTlv.
          let algorithmOid = readOid (tlvContent oidTlv) in
          if algorithmOid = OID_EC_PUBLIC_KEY then
            bindE (case tlvTotal oidTlv of
                Some n \<Rightarrow> failIf (length (tlvContent alg) \<le> n) MALFORMED
              | None \<Rightarrow> Inr ()) (\<lambda>_.
            bindE (expect (readTlv (tlvContent alg) (tlvTotal oidTlv)) 0x06) (\<lambda>curve.
              let curveOid = readOid (tlvContent curve) in
              if curveOid = OID_P384 then ecPoint point 97 EcP384
              else if curveOid = OID_P256 then ecPoint point 65 EcP256
              else Inl UNSUPPORTED_CERT_ALGORITHM))
          else if algorithmOid = OID_RSA_ENCRYPTION then
            bindE (expect (readTlv point (Some 0)) 0x30) (\<lambda>rsaKey.
            bindE (expect (readTlv (tlvContent rsaKey) (Some 0)) 0x02) (\<lambda>modulusTlv.
            bindE (readInteger (tlvContent modulusTlv)) (\<lambda>modulus.
            bindE (expect (readTlv (tlvContent rsaKey) (tlvTotal modulusTlv)) 0x02) (\<lambda>exponentTlv.
            bindE (readInteger (tlvContent exponentTlv)) (\<lambda>exponent.
              if bitLength modulus < 2048 \<or> bitLength modulus > 8192 then Inl UNSUPPORTED_CERT_ALGORITHM
              else if exponent < 3 \<or> exponent mod 2 = 0 then Inl UNSUPPORTED_CERT_ALGORITHM
              else Inr (RsaKey modulus exponent))))))
          else Inl UNSUPPORTED_CERT_ALGORITHM)))"

subsection \<open>Certificates\<close>

record certificate =
  crtRaw :: bytes
  crtTbs :: bytes
  crtSerial :: bytes
  crtAlg :: sig_alg
  crtSignature :: bytes
  crtIssuer :: bytes
  crtSubject :: bytes
  crtNotBefore :: int
  crtNotAfter :: int
  crtKey :: public_key
  crtSpki :: bytes
  crtProductName :: "jsstr option"
  crtHwid :: "bytes option"
  crtIsCa :: "bool option"

record cert_exts =
  ceProduct :: "jsstr option"
  ceHwid :: "bytes option"
  ceIsCa :: "bool option"

text \<open>\<open>data.slice(a, b)\<close> with \<open>b\<close> possibly NaN, which slices to the empty array.\<close>

definition sliceNum :: "bytes \<Rightarrow> nat \<Rightarrow> num \<Rightarrow> bytes" where
  "sliceNum data a b = (case b of None \<Rightarrow> [] | Some e \<Rightarrow> slice data a e)"

definition basicConstraints :: "bytes \<Rightarrow> aerr + bool" where
  "basicConstraints value =
    bindE (expect (readTlv value (Some 0)) 0x30) (\<lambda>bc.
      let content = tlvContent bc in
      bindE
        (if content \<noteq> [] \<and> content ! 0 = 0x01 then
           bindE (expect (readTlv content (Some 0)) 0x01) (\<lambda>caBool.
             if length (tlvContent caBool) \<noteq> 1 then Inl MALFORMED
             else Inr (tlvContent caBool ! 0 \<noteq> 0, tlvTotal caBool))
         else Inr (False, Some 0)) (\<lambda>(ca, off).
        if numLess off (length content) then bindE (expect (readTlv content off) 0x02) (\<lambda>_. Inr ca)
        else Inr ca))"

definition extensionValue :: "nat list \<Rightarrow> bytes \<Rightarrow> cert_exts \<Rightarrow> aerr + cert_exts" where
  "extensionValue oid value x =
    (if oid = OID_PRODUCT_NAME then
       bindE (expect (readTlv value (Some 0)) 0x16) (\<lambda>ia5. Inr (x\<lparr>ceProduct := Some (latin1 (tlvContent ia5))\<rparr>))
     else if oid = OID_HWID then
       (if length value \<noteq> 64 then Inl MALFORMED else Inr (x\<lparr>ceHwid := Some value\<rparr>))
     else bindE (basicConstraints value) (\<lambda>ca. Inr (x\<lparr>ceIsCa := Some ca\<rparr>)))"

text \<open>The body of the extension loop: an optional critical flag between the identifier and the value.\<close>

definition extensionStep :: "tlv \<Rightarrow> nat \<Rightarrow> cert_exts \<Rightarrow> aerr + cert_exts" where
  "extensionStep ext off x =
    bindE (expect (Inr ext) 0x30) (\<lambda>ext.
    bindE (expect (readTlv (tlvContent ext) (Some 0)) 0x06) (\<lambda>extOid.
      let oid = readOid (tlvContent extOid) in
      if oid = OID_PRODUCT_NAME \<or> oid = OID_HWID \<or> oid = OID_BASIC_CONSTRAINTS then
        bindE (readTlv (tlvContent ext) (tlvTotal extOid)) (\<lambda>afterOid.
        bindE
          (if tlvTag afterOid = 0x01 then
             readTlv (tlvContent ext) (numAdd (tlvTotal extOid) (tlvTotal afterOid))
           else Inr afterOid) (\<lambda>afterFlag.
        bindE (expect (Inr afterFlag) 0x04) (\<lambda>value. extensionValue oid (tlvContent value) x)))
      else Inr x))"

text \<open>The body of the loop over the fields after the public key: only the [3] field is read.\<close>

definition trailingStep :: "tlv \<Rightarrow> nat \<Rightarrow> cert_exts \<Rightarrow> aerr + cert_exts" where
  "trailingStep f off x =
    (if tlvTag f \<noteq> 0xa3 then Inr x
     else
       bindE (expect (readTlv (tlvContent f) (Some 0)) 0x30) (\<lambda>extensions.
         tlvLoop extensionStep (tlvContent extensions) (Some 0) x))"

definition parseValidity :: "bytes \<Rightarrow> aerr + int \<times> int" where
  "parseValidity content =
    bindE (readTlv content (Some 0)) (\<lambda>t1.
    bindE (readTime t1) (\<lambda>notBefore.
    bindE (readTlv content (tlvTotal t1)) (\<lambda>t2.
    bindE (readTime t2) (\<lambda>notAfter.
      if numAdd (tlvTotal t1) (tlvTotal t2) \<noteq> Some (length content) then Inl MALFORMED
      else Inr (notBefore, notAfter)))))"

text \<open>The fields of a TBSCertificate as the parser leaves them, before the extensions.\<close>

record tbs_fields =
  tfSerial :: bytes
  tfSigAlg :: bytes
  tfIssuer :: bytes
  tfValidity :: bytes
  tfSubject :: bytes
  tfSpkiContent :: bytes
  tfSpki :: bytes
  tfRest :: num

definition parseTbsFields :: "bytes \<Rightarrow> aerr + tbs_fields" where
  "parseTbsFields tbs =
    bindE (readTlv tbs (Some 0)) (\<lambda>versionTlv.
      let o1 = (if tlvTag versionTlv = 0xa0 then tlvTotal versionTlv else Some 0) in
    bindE (expect (readTlv tbs o1) 0x02) (\<lambda>serial.
      let o2 = numAdd o1 (tlvTotal serial) in
    bindE (expect (readTlv tbs o2) 0x30) (\<lambda>sigAlg.
      let o3 = numAdd o2 (tlvTotal sigAlg) in
    bindE (expect (readTlv tbs o3) 0x30) (\<lambda>issuer.
      let o4 = numAdd o3 (tlvTotal issuer) in
    bindE (expect (readTlv tbs o4) 0x30) (\<lambda>validity.
      let o5 = numAdd o4 (tlvTotal validity) in
    bindE (expect (readTlv tbs o5) 0x30) (\<lambda>subject.
      let o6 = numAdd o5 (tlvTotal subject) in
    bindE (expect (readTlv tbs o6) 0x30) (\<lambda>spki.
      let o7 = numAdd o6 (tlvTotal spki) in
      Inr \<lparr>tfSerial = tlvContent serial, tfSigAlg = tlvContent sigAlg, tfIssuer = tlvContent issuer,
        tfValidity = tlvContent validity, tfSubject = tlvContent subject, tfSpkiContent = tlvContent spki,
        tfSpki = sliceNum tbs (case o6 of Some n \<Rightarrow> n | None \<Rightarrow> 0) o7, tfRest = o7\<rparr>)))))))"

text \<open>The three elements of a certificate, which have to fill its content.\<close>

definition parseEnvelope :: "bytes \<Rightarrow> aerr + tlv \<times> tlv \<times> tlv" where
  "parseEnvelope content =
    bindE (expect (readTlv content (Some 0)) 0x30) (\<lambda>tbs.
    bindE (expect (readTlv content (tlvTotal tbs)) 0x30) (\<lambda>sigAlg.
    bindE (expect (readTlv content (numAdd (tlvTotal tbs) (tlvTotal sigAlg))) 0x03) (\<lambda>sigValue.
      if numAdd (numAdd (tlvTotal tbs) (tlvTotal sigAlg)) (tlvTotal sigValue) \<noteq> Some (length content)
      then Inl MALFORMED
      else Inr (tbs, sigAlg, sigValue))))"

definition parseCertificate :: "bytes \<Rightarrow> aerr + certificate" where
  "parseCertificate der =
    bindE (expect (readTlv der (Some 0)) 0x30) (\<lambda>certificate.
      let certContentOffset = length der - length (tlvContent certificate) in
    bindE (parseEnvelope (tlvContent certificate)) (\<lambda>(tbs, sigAlg, sigValue).
      let tbsDer = sliceNum der certContentOffset (numAdd (Some certContentOffset) (tlvTotal tbs)) in
    bindE (parseSignatureAlgorithm (tlvContent sigAlg)) (\<lambda>signatureAlgorithm.
    bindE (parseTbsFields (tlvContent tbs)) (\<lambda>f.
    bindE (parseSubjectPublicKeyInfo (tfSpkiContent f)) (\<lambda>publicKey.
    bindE (parseSignatureAlgorithm (tfSigAlg f)) (\<lambda>tbsSignatureAlgorithm.
      if tbsSignatureAlgorithm \<noteq> signatureAlgorithm then Inl CERT_CHAIN_INVALID
      else
    bindE (parseValidity (tfValidity f)) (\<lambda>(notBefore, notAfter).
    bindE (tlvLoop trailingStep (tlvContent tbs) (tfRest f)
        \<lparr>ceProduct = None, ceHwid = None, ceIsCa = None\<rparr>) (\<lambda>x.
      let signatureContent = tlvContent sigValue in
      if length signatureContent < 2 \<or> signatureContent ! 0 \<noteq> 0 then Inl MALFORMED
      else Inr \<lparr>crtRaw = der, crtTbs = tbsDer, crtSerial = tfSerial f, crtAlg = signatureAlgorithm,
        crtSignature = drop 1 signatureContent, crtIssuer = tfIssuer f, crtSubject = tfSubject f,
        crtNotBefore = notBefore, crtNotAfter = notAfter, crtKey = publicKey, crtSpki = tfSpki f,
        crtProductName = ceProduct x, crtHwid = ceHwid x, crtIsCa = ceIsCa x\<rparr>))))))))"

subsection \<open>Base64, PEM and chains\<close>

definition b64Index :: "cu \<Rightarrow> nat option" where
  "b64Index c =
    (let n = unat c in
     if 0x41 \<le> n \<and> n \<le> 0x5a then Some (n - 0x41)
     else if 0x61 \<le> n \<and> n \<le> 0x7a then Some (n - 0x61 + 26)
     else if 0x30 \<le> n \<and> n \<le> 0x39 then Some (n - 0x30 + 52)
     else if n = 0x2b then Some 62
     else if n = 0x2f then Some 63
     else None)"

definition equalsSign :: cu where
  "equalsSign = cuOf 0x3d"

definition trimPadding :: "jsstr \<Rightarrow> jsstr" where
  "trimPadding value = rev (dropWhile (\<lambda>c. c = equalsSign) (rev value))"

text \<open>The accumulator loop over the characters, with its \<open>buffer\<close> and its number of \<open>bits\<close>.\<close>

fun b64Loop :: "nat \<Rightarrow> nat \<Rightarrow> jsstr \<Rightarrow> bytes" where
  "b64Loop buffer bits [] = []"
| "b64Loop buffer bits (c # cs) =
    (let b = buffer * 64 + the (b64Index c); n = bits + 6 in
     if n \<ge> 8 then byteOf (b div 2 ^ (n - 8) mod 256) # b64Loop (b mod 2 ^ (n - 8)) (n - 8) cs
     else b64Loop b n cs)"

definition decodeBase64 :: "jsstr \<Rightarrow> aerr + bytes" where
  "decodeBase64 value =
    (let body = trimPadding value in
     if length value mod 4 \<noteq> 0 \<or> \<not> list_all (\<lambda>c. b64Index c \<noteq> None) body \<or> length value - length body > 2
     then Inl MALFORMED
     else Inr (b64Loop 0 0 body))"

text \<open>\<open>\s\<close> of a regular expression on text decoded from windows-1252.\<close>

definition whitespace :: "cu \<Rightarrow> bool" where
  "whitespace c \<longleftrightarrow> unat c \<in> {0x09, 0x0a, 0x0b, 0x0c, 0x0d, 0x20, 0xa0}"

definition pemBegin :: jsstr where
  "pemBegin = js ''-----BEGIN CERTIFICATE-----''"

definition pemEnd :: jsstr where
  "pemEnd = js ''-----END CERTIFICATE-----''"

definition pemChar :: "cu \<Rightarrow> bool" where
  "pemChar c \<longleftrightarrow> b64Index c \<noteq> None \<or> c = equalsSign \<or> whitespace c"

text \<open>
  The bodies the global regular expression finds, left to right: a body is a nonempty run of its
  class, which the closing marker's dash is not in, so the lazy quantifier takes the whole run.
\<close>

definition pemMatch :: "jsstr \<Rightarrow> (jsstr \<times> jsstr) option" where
  "pemMatch text =
    (if startsWith pemBegin text then
       let t = drop (length pemBegin) text; body = takeWhile pemChar t; after = dropWhile pemChar t in
       if body \<noteq> [] \<and> startsWith pemEnd after then Some (body, drop (length pemEnd) after) else None
     else None)"

lemma pemMatch_shorter: "pemMatch text = Some (body, tail) \<Longrightarrow> length tail < length text"
proof -
  assume m: "pemMatch text = Some (body, tail)"
  define t where "t = drop (length pemBegin) text"
  have p: "startsWith pemBegin text" "tail = drop (length pemEnd) (dropWhile pemChar t)"
    using m by (auto simp: pemMatch_def Let_def t_def split: if_splits)
  have "length pemBegin = 27" by (simp add: pemBegin_def)
  moreover from p(1) have "length pemBegin \<le> length text"
    unfolding startsWith_def by (metis length_take min.cobounded2 min.commute)
  moreover have "length (dropWhile pemChar t) \<le> length t" by (rule length_dropWhile_le)
  ultimately show ?thesis using p(2) by (simp add: t_def)
qed

function pemBodies :: "jsstr \<Rightarrow> jsstr list" where
  "pemBodies text =
    (if text = [] then []
     else case pemMatch text of
       Some (body, tail) \<Rightarrow> body # pemBodies tail
     | None \<Rightarrow> pemBodies (tl text))"
  by pat_completeness auto
termination by (relation "measure length") (auto dest: pemMatch_shorter)

declare pemBodies.simps [simp del]

fun includesText :: "'a list \<Rightarrow> 'a list \<Rightarrow> bool" where
  "includesText p s = (startsWith p s \<or> (case s of [] \<Rightarrow> False | c # t \<Rightarrow> includesText p t))"

declare includesText.simps [simp del]

definition pemCertificate :: "jsstr \<Rightarrow> aerr + certificate" where
  "pemCertificate body =
    bindE (decodeBase64 (filter (\<lambda>c. \<not> whitespace c) body)) parseCertificate"

text \<open>The body of the DER loop; the byte at the offset is the tag the element was read with.\<close>

definition chainStep :: "bytes \<Rightarrow> tlv \<Rightarrow> nat \<Rightarrow> certificate list \<Rightarrow> aerr + certificate list" where
  "chainStep data t off certs =
    (if tlvTag t \<noteq> 0x30 then Inl MALFORMED
     else bindE (parseCertificate (sliceNum data off (numAdd (Some off) (tlvTotal t)))) (\<lambda>c. Inr (certs @ [c])))"

definition parseCertificateChain :: "bytes \<Rightarrow> aerr + certificate list" where
  "parseCertificateChain data =
    (let text = latin1 data in
     if includesText (js ''-----BEGIN'') text then
       bindE (mapE pemCertificate (pemBodies text)) (\<lambda>certs.
         if certs = [] then Inl MALFORMED else Inr certs)
     else
       bindE (tlvLoop (chainStep data) data (Some 0) []) (\<lambda>certs.
         if certs = [] then Inl MALFORMED else Inr certs))"

subsection \<open>Validity and signatures\<close>

definition checkCertificateValidity :: "certificate \<Rightarrow> int \<Rightarrow> aerr + unit" where
  "checkCertificateValidity cert nowMillis =
    failIf (nowMillis < crtNotBefore cert \<or> nowMillis > crtNotAfter cert) CERT_EXPIRED"

function minBytes :: "nat \<Rightarrow> bytes \<Rightarrow> bytes" where
  "minBytes value bs =
    (let bs' = byteOf (value mod 256) # bs; r = value div 256 in
     if r > 0 then minBytes r bs' else bs')"
  by pat_completeness auto
termination by (relation "measure fst") auto

declare minBytes.simps [simp del]

definition derInteger :: "nat \<Rightarrow> bytes" where
  "derInteger value =
    (let bs = minBytes value []; bs' = (if unat (bs ! 0) \<ge> 0x80 then 0 # bs else bs) in
     [0x02, byteOf (length bs')] @ bs')"

definition derEcdsaSignature :: "nat \<Rightarrow> nat \<Rightarrow> nat \<Rightarrow> aerr + bytes" where
  "derEcdsaSignature r s curveOrder =
    (if r \<le> 0 \<or> r \<ge> curveOrder \<or> s \<le> 0 \<or> s \<ge> curveOrder then Inl BAD_SIGNATURE
     else
       let body = derInteger r @ derInteger s; len = length body in
       if len < 0x80 then Inr ([0x30, byteOf len] @ body)
       else Inr ([0x30, 0x81, byteOf len] @ body))"

definition verifyCertificateSignature :: "noble \<Rightarrow> certificate \<Rightarrow> certificate \<Rightarrow> aerr + unit" where
  "verifyCertificateSignature N issuer cert =
    (case crtAlg cert of
       RsaPssAlg hashOid mgfOid mgfHashOid saltLength trailerField \<Rightarrow>
         if hashOid \<noteq> OID_SHA384 \<or> mgfOid \<noteq> OID_MGF1 \<or> mgfHashOid \<noteq> OID_SHA384 \<or> saltLength \<noteq> NInt 48 \<or>
           trailerField \<noteq> NInt 1 then Inl UNSUPPORTED_CERT_ALGORITHM
         else
           (case crtKey issuer of
              RsaKey modulus exponent \<Rightarrow>
                if verifyRsaPssSha384 N (crtTbs cert) (crtSignature cert) modulus exponent 48 = Some True
                then Inr () else Inl BAD_SIGNATURE
            | _ \<Rightarrow> Inl UNSUPPORTED_CERT_ALGORITHM)
     | UnsupportedAlg _ \<Rightarrow> Inl UNSUPPORTED_CERT_ALGORITHM
     | EcdsaSha384 \<Rightarrow>
         (case crtKey issuer of
            EcP384 point \<Rightarrow>
              if p384verify N (crtSignature cert) (sha384 N (crtTbs cert)) point then Inr () else Inl BAD_SIGNATURE
          | _ \<Rightarrow> Inl UNSUPPORTED_CERT_ALGORITHM)
     | EcdsaSha256 \<Rightarrow>
         (case crtKey issuer of
            EcP256 point \<Rightarrow>
              if p256verify N (crtSignature cert) (sha256 N (crtTbs cert)) point then Inr () else Inl BAD_SIGNATURE
          | _ \<Rightarrow> Inl UNSUPPORTED_CERT_ALGORITHM))"

end
