(* ===== verification/Tdx.thy ===== *)
theory Tdx
  imports Der Events
begin

text \<open>
  packages/attest-core/src/tdx.ts and src/tdx-dcap.ts: the fields of a TD quote, its signature data
  and the Intel DCAP check of a quote against pinned roots.
\<close>

record tdx_quote =
  tqRaw :: bytes
  tqVersion :: nat
  tqKeyType :: nat
  tqTeeType :: nat
  tqMrTd :: bytes
  tqMrConfigId :: bytes
  tqMrOwner :: bytes
  tqMrOwnerConfig :: bytes
  tqRtmr :: "bytes list"
  tqReportData :: bytes

definition MIN_QUOTE_LENGTH :: nat where "MIN_QUOTE_LENGTH = 0x278"

definition quoteSection :: "bytes \<Rightarrow> nat \<Rightarrow> nat \<Rightarrow> bytes" where
  "quoteSection quote off len = slice quote off (off + len)"

text \<open>\<open>DataView.getUint16\<close> and \<open>getUint32\<close>, little-endian.\<close>

definition getLE :: "bytes \<Rightarrow> nat \<Rightarrow> nat \<Rightarrow> nat" where
  "getLE data off n = leNat (slice data off (off + n))"

definition parseTdxQuote :: "bytes \<Rightarrow> aerr + tdx_quote" where
  "parseTdxQuote quote =
    (if length quote < MIN_QUOTE_LENGTH then Inl MALFORMED_QUOTE
     else Inr \<lparr>tqRaw = quote, tqVersion = getLE quote 0x00 2, tqKeyType = getLE quote 0x02 2,
       tqTeeType = getLE quote 0x04 4, tqMrTd = quoteSection quote 0xb8 48, tqMrConfigId = quoteSection quote 0xe8 48,
       tqMrOwner = quoteSection quote 0x118 48, tqMrOwnerConfig = quoteSection quote 0x148 48,
       tqRtmr = [quoteSection quote 0x178 48, quoteSection quote 0x1a8 48, quoteSection quote 0x1d8 48, quoteSection quote 0x208 48],
       tqReportData = quoteSection quote 0x238 64\<rparr>)"

definition isZero :: "bytes \<Rightarrow> bool" where
  "isZero bs = list_all (\<lambda>b. b = 0) bs"

subsection \<open>The signature data block\<close>

definition SIGNED_REGION :: nat where "SIGNED_REGION = 48 + 584"
definition SIGNATURE_DATA_OFFSET :: nat where "SIGNATURE_DATA_OFFSET = SIGNED_REGION + 4"
definition ECDSA_256_BYTES :: nat where "ECDSA_256_BYTES = 64"
definition CERTIFICATION_DATA_HEADER :: nat where
  "CERTIFICATION_DATA_HEADER = 2 * ECDSA_256_BYTES + 2 + 4"
definition AUTH_DATA_LENGTH_OFFSET :: nat where "AUTH_DATA_LENGTH_OFFSET = 384 + 64"

record quote_signature =
  qsSignature :: bytes
  qsAttestationKey :: bytes
  qsCertType :: nat
  qsCertData :: bytes

definition parseTdxQuoteSignature :: "bytes \<Rightarrow> aerr + quote_signature" where
  "parseTdxQuoteSignature quote =
    bindE (failIf (length quote < SIGNATURE_DATA_OFFSET) MALFORMED_QUOTE) (\<lambda>_.
    bindE (failIf (getLE quote 0x00 2 \<noteq> 4) UNSUPPORTED_QUOTE) (\<lambda>_.
    bindE (failIf (getLE quote 0x04 4 \<noteq> 0x81) UNSUPPORTED_QUOTE) (\<lambda>_.
      let signatureDataLength = getLE quote SIGNED_REGION 4 in
    bindE (failIf (SIGNATURE_DATA_OFFSET + signatureDataLength \<noteq> length quote) MALFORMED_QUOTE) (\<lambda>_.
    bindE (failIf (signatureDataLength < CERTIFICATION_DATA_HEADER) MALFORMED_QUOTE) (\<lambda>_.
      let certType = getLE quote (SIGNATURE_DATA_OFFSET + 2 * ECDSA_256_BYTES) 2;
          certLength = getLE quote (SIGNATURE_DATA_OFFSET + 2 * ECDSA_256_BYTES + 2) 4;
          certOffset = SIGNATURE_DATA_OFFSET + CERTIFICATION_DATA_HEADER
      in
    bindE (failIf (certOffset + certLength \<noteq> length quote) MALFORMED_QUOTE) (\<lambda>_.
      Inr \<lparr>qsSignature = slice quote SIGNATURE_DATA_OFFSET (SIGNATURE_DATA_OFFSET + ECDSA_256_BYTES),
        qsAttestationKey =
          slice quote (SIGNATURE_DATA_OFFSET + ECDSA_256_BYTES) (SIGNATURE_DATA_OFFSET + 2 * ECDSA_256_BYTES),
        qsCertType = certType, qsCertData = drop certOffset quote\<rparr>))))))"

record qe_data =
  qeReport :: bytes
  qeReportSignature :: bytes
  qeAuthData :: bytes
  qeInnerType :: nat
  qePckChain :: bytes

definition parseQeReportCertificationData :: "bytes \<Rightarrow> aerr + qe_data" where
  "parseQeReportCertificationData data =
    bindE (failIf (length data < AUTH_DATA_LENGTH_OFFSET + 2) MALFORMED_QUOTE) (\<lambda>_.
      let authDataLength = getLE data AUTH_DATA_LENGTH_OFFSET 2;
          innerOffset = AUTH_DATA_LENGTH_OFFSET + 2 + authDataLength
      in
    bindE (failIf (innerOffset + 6 > length data) MALFORMED_QUOTE) (\<lambda>_.
      let innerType = getLE data innerOffset 2;
          innerLength = getLE data (innerOffset + 2) 4;
          payloadOffset = innerOffset + 6
      in
    bindE (failIf (payloadOffset + innerLength \<noteq> length data) MALFORMED_QUOTE) (\<lambda>_.
      Inr \<lparr>qeReport = take 384 data, qeReportSignature = slice data 384 AUTH_DATA_LENGTH_OFFSET,
        qeAuthData = slice data (AUTH_DATA_LENGTH_OFFSET + 2) innerOffset, qeInnerType = innerType,
        qePckChain = drop payloadOffset data\<rparr>)))"

subsection \<open>The PCK chain\<close>

text \<open>The loop from the last entry down, stopping at the first that satisfies the test.\<close>

fun lastIndex :: "('a \<Rightarrow> bool) \<Rightarrow> 'a list \<Rightarrow> nat \<Rightarrow> nat option" where
  "lastIndex P xs 0 = None"
| "lastIndex P xs (Suc i) = (if P (xs ! i) then Some i else lastIndex P xs i)"

definition anchorIndexOf :: "certificate list \<Rightarrow> certificate list \<Rightarrow> nat option" where
  "anchorIndexOf chain roots =
    lastIndex (\<lambda>cert. crtIsCa cert = Some True \<and> crtIssuer cert = crtSubject cert \<and>
      list_ex (\<lambda>root. crtSubject root = crtSubject cert) roots) chain (length chain)"

text \<open>One link, shared by the Intel and the NVIDIA walk: entry \<open>i\<close> was issued by entry \<open>i + 1\<close>.\<close>

definition chainLink :: "noble \<Rightarrow> certificate list \<Rightarrow> int \<Rightarrow> nat \<Rightarrow> aerr + unit" where
  "chainLink N chain nowMillis i =
    (let cert = chain ! i; issuer = chain ! (i + 1) in
     bindE (failIf (crtIssuer cert \<noteq> crtSubject issuer) CERT_CHAIN_INVALID) (\<lambda>_.
     bindE (checkCertificateValidity cert nowMillis) (\<lambda>_.
       verifyCertificateSignature N issuer cert)))"

definition findRoot :: "certificate list \<Rightarrow> bytes \<Rightarrow> certificate option" where
  "findRoot roots subject = find (\<lambda>root. crtSubject root = subject) roots"

definition verifyPckChain :: "noble \<Rightarrow> certificate list \<Rightarrow> certificate list \<Rightarrow> int \<Rightarrow> aerr + certificate" where
  "verifyPckChain N chain roots nowMillis =
    (case anchorIndexOf chain roots of
       None \<Rightarrow> Inl MISSING_TRUST_ROOT
     | Some anchor \<Rightarrow>
         if length chain < 2 then Inl CERT_CHAIN_INVALID
         else if crtIsCa (chain ! 0) = Some True then Inl CERT_CHAIN_INVALID
         else
           bindE (mapE (chainLink N chain nowMillis) [0..<anchor]) (\<lambda>_.
             let anchorCert = chain ! anchor;
                 pinned = the (findRoot roots (crtSubject anchorCert))
             in bindE (checkCertificateValidity anchorCert nowMillis) (\<lambda>_.
                bindE (verifyCertificateSignature N pinned anchorCert) (\<lambda>_. Inr anchorCert))))"

definition verifyEcdsaP256 :: "noble \<Rightarrow> bytes \<Rightarrow> bytes \<Rightarrow> bytes \<Rightarrow> aerr + unit" where
  "verifyEcdsaP256 N rawSignature message point =
    (if length rawSignature \<noteq> ECDSA_256_BYTES then Inl MALFORMED_QUOTE
     else
       let half = length rawSignature div 2 in
       bindE (derEcdsaSignature (beNat (take half rawSignature)) (beNat (drop half rawSignature)) (p256order N)) (\<lambda>der.
         if p256verify N der (sha256 N message) point then Inr () else Inl BAD_SIGNATURE))"

text \<open>\<open>blobs.flatMap((blob) => parseCertificateChain(blob))\<close>.\<close>

definition parseRoots :: "bytes list \<Rightarrow> aerr + certificate list" where
  "parseRoots blobs = bindE (mapE parseCertificateChain blobs) (\<lambda>cs. Inr (concat cs))"

record tdx_verification =
  tvAttestationKey :: bytes
  tvPckChain :: "certificate list"
  tvTrustedRoot :: certificate

definition verifyTdxQuote :: "noble \<Rightarrow> bytes \<Rightarrow> bytes list \<Rightarrow> int \<Rightarrow> aerr + tdx_verification" where
  "verifyTdxQuote N quote trustedRoots nowMillis =
    bindE (parseTdxQuoteSignature quote) (\<lambda>block.
    bindE (failIf (qsCertType block \<noteq> 6) UNSUPPORTED_QUOTE) (\<lambda>_.
    bindE (parseQeReportCertificationData (qsCertData block)) (\<lambda>qe.
    bindE (failIf (qeInnerType qe \<noteq> 5) UNSUPPORTED_QUOTE) (\<lambda>_.
    bindE (parseCertificateChain (qePckChain qe)) (\<lambda>chain.
    bindE (parseRoots trustedRoots) (\<lambda>roots.
    bindE (verifyPckChain N chain roots nowMillis) (\<lambda>trustedRoot.
    bindE (case crtKey (chain ! 0) of EcP256 p \<Rightarrow> Inr p | _ \<Rightarrow> Inl UNSUPPORTED_CERT_ALGORITHM) (\<lambda>leafPoint.
    bindE (verifyEcdsaP256 N (qeReportSignature qe) (qeReport qe) leafPoint) (\<lambda>_.
    bindE (failIf (sha256 N (qsAttestationKey block @ qeAuthData qe) \<noteq> slice (qeReport qe) 320 (320 + 32))
        QE_REPORT_MISMATCH) (\<lambda>_.
    bindE (verifyEcdsaP256 N (qsSignature block) (take SIGNED_REGION quote) (0x04 # qsAttestationKey block)) (\<lambda>_.
      Inr \<lparr>tvAttestationKey = qsAttestationKey block, tvPckChain = chain, tvTrustedRoot = trustedRoot\<rparr>)))))))))))"

end
