(* ===== verification/Nvidia.thy ===== *)
theory Nvidia
  imports Tdx Json
begin

text \<open>
  packages/attest-core/src/nvidia.ts: the evidence bundle, the SPDM measurements report and the
  device certificate chain of an NVIDIA GPU.
\<close>

record gpu_evidence =
  geReport :: bytes
  geCertChain :: bytes

text \<open>
  \<open>new TextDecoder().decode\<close>, which replaces what is not UTF-8 with U+FFFD: the decoder of the
  Encoding Standard, with the bytes still needed, the code point so far and the range of the next byte.
\<close>

function lossyLoop :: "nat \<Rightarrow> nat \<Rightarrow> nat \<Rightarrow> nat \<Rightarrow> bytes \<Rightarrow> nat list" where
  "lossyLoop need cp lo hi bs =
    (case bs of
       [] \<Rightarrow> if need = 0 then [] else [0xFFFD]
     | b # t \<Rightarrow>
         let n = unat b in
         if need = 0 then
           (if n < 0x80 then n # lossyLoop 0 0 0x80 0xBF t
            else if 0xC2 \<le> n \<and> n \<le> 0xDF then lossyLoop 1 (n mod 32) 0x80 0xBF t
            else if 0xE0 \<le> n \<and> n \<le> 0xEF then
              lossyLoop 2 (n mod 16) (if n = 0xE0 then 0xA0 else 0x80) (if n = 0xED then 0x9F else 0xBF) t
            else if 0xF0 \<le> n \<and> n \<le> 0xF4 then
              lossyLoop 3 (n mod 8) (if n = 0xF0 then 0x90 else 0x80) (if n = 0xF4 then 0x8F else 0xBF) t
            else 0xFFFD # lossyLoop 0 0 0x80 0xBF t)
         else if n < lo \<or> n > hi then 0xFFFD # lossyLoop 0 0 0x80 0xBF bs
         else if need = 1 then (cp * 64 + n mod 64) # lossyLoop 0 0 0x80 0xBF t
         else lossyLoop (need - 1) (cp * 64 + n mod 64) 0x80 0xBF t)"
  by pat_completeness auto
termination
  by (relation "measure (\<lambda>(need, _, _, _, bs). 2 * length bs + (if need = 0 then 0 else 1))") auto

declare lossyLoop.simps [simp del]

definition textDecodeLossy :: "bytes \<Rightarrow> jsstr" where
  "textDecodeLossy bs = utf16_encode (lossyLoop 0 0 0x80 0xBF (stripBom bs))"

definition bundleField :: "jsval option \<Rightarrow> string \<Rightarrow> aerr + bytes" where
  "bundleField obj name =
    (case obj of
       None \<Rightarrow> Inl MALFORMED_GPU_BUNDLE
     | Some v \<Rightarrow>
         (case getProp v (js name) of
            JStr s \<Rightarrow> (case decodeBase64 s of Inl e \<Rightarrow> Inl MALFORMED_GPU_BUNDLE | Inr bs \<Rightarrow> Inr bs)
          | _ \<Rightarrow> Inl MALFORMED_GPU_BUNDLE))"

definition bundleEntry :: "jsval \<Rightarrow> aerr + gpu_evidence" where
  "bundleEntry entry =
    (let obj = (if entry \<noteq> JNull \<and> typeofObject entry then Some entry else None) in
     bindE (bundleField obj ''evidence'') (\<lambda>report.
     bindE (bundleField obj ''certificate'') (\<lambda>certChain.
       Inr \<lparr>geReport = report, geCertChain = certChain\<rparr>)))"

definition parseNvidiaEvidenceBundle :: "bytes \<Rightarrow> aerr + gpu_evidence list" where
  "parseNvidiaEvidenceBundle document =
    (case jsonParse (textDecodeLossy document) of
       Some (JArr entries) \<Rightarrow> mapE bundleEntry entries
     | _ \<Rightarrow> Inl MALFORMED_GPU_BUNDLE)"

subsection \<open>The SPDM report\<close>

definition REQUEST_BYTES :: nat where "REQUEST_BYTES = 37"
definition SIGNATURE_BYTES :: nat where "SIGNATURE_BYTES = 96"
definition NONCE_BYTES :: nat where "NONCE_BYTES = 32"

text \<open>A byte past the end counts as zero, which a shorter little-endian slice does too.\<close>

definition readUintLE :: "bytes \<Rightarrow> nat \<Rightarrow> nat \<Rightarrow> nat" where
  "readUintLE value off n = leNat (slice value off (off + n))"

record spdm_measurements =
  smSigned :: bytes
  smNonce :: bytes
  smSignature :: bytes

definition parseSpdmMeasurements :: "bytes \<Rightarrow> aerr + spdm_measurements" where
  "parseSpdmMeasurements report =
    (let response = drop REQUEST_BYTES report in
     bindE (failIf (length report < REQUEST_BYTES + 10 + SIGNATURE_BYTES) MALFORMED_REPORT) (\<lambda>_.
     bindE (failIf (report ! 0 \<noteq> 0x11) UNSUPPORTED_QUOTE) (\<lambda>_.
     bindE (failIf (response ! 0 \<noteq> 0x11) UNSUPPORTED_QUOTE) (\<lambda>_.
     bindE (failIf (response ! 1 \<noteq> 0x60) MALFORMED_REPORT) (\<lambda>_.
       let recordLength = readUintLE response 5 3; nonceOffset = 8 + recordLength in
     bindE (failIf (length response < nonceOffset + NONCE_BYTES + 2) MALFORMED_REPORT) (\<lambda>_.
       let opaqueLength = readUintLE response (nonceOffset + NONCE_BYTES) 2;
           signatureOffset = nonceOffset + NONCE_BYTES + 2 + opaqueLength
       in
     bindE (failIf (length response \<noteq> signatureOffset + SIGNATURE_BYTES) TRAILING_BYTES) (\<lambda>_.
       Inr \<lparr>smSigned = take (length report - SIGNATURE_BYTES) report,
         smNonce = slice response nonceOffset (nonceOffset + NONCE_BYTES),
         smSignature = drop signatureOffset response\<rparr>)))))))"

definition readNvidiaChallenge :: "bytes \<Rightarrow> aerr + bytes" where
  "readNvidiaChallenge report = bindE (parseSpdmMeasurements report) (\<lambda>m. Inr (smNonce m))"

subsection \<open>The device chain\<close>

definition deviceAnchor :: "certificate list \<Rightarrow> certificate list \<Rightarrow> nat option" where
  "deviceAnchor chain roots =
    lastIndex (\<lambda>cert. list_ex (\<lambda>root. crtSubject root = crtSubject cert) roots) chain (length chain)"

definition verifyDeviceChain :: "noble \<Rightarrow> certificate list \<Rightarrow> certificate list \<Rightarrow> int \<Rightarrow> aerr + certificate" where
  "verifyDeviceChain N chain roots nowMillis =
    (case deviceAnchor chain roots of
       None \<Rightarrow> Inl MISSING_TRUST_ROOT
     | Some anchor \<Rightarrow>
         if anchor = 0 then Inl CERT_CHAIN_INVALID
         else
           bindE (mapE (chainLink N chain nowMillis) [0..<anchor]) (\<lambda>_.
           bindE (checkCertificateValidity (chain ! anchor) nowMillis) (\<lambda>_.
             Inr (chain ! 0))))"

text \<open>The verified nonce; \<open>signatureVerified\<close> is always true and carries nothing.\<close>

definition verifyNvidiaRats :: "noble \<Rightarrow> gpu_evidence \<Rightarrow> bytes list \<Rightarrow> bytes option \<Rightarrow> int \<Rightarrow> aerr + bytes" where
  "verifyNvidiaRats N evidence rawRoots expectedNonce nowMillis =
    bindE (failIf (length rawRoots = 0) MISSING_TRUST_ROOT) (\<lambda>_.
    bindE (parseSpdmMeasurements (geReport evidence)) (\<lambda>m.
    bindE (failIf (expectedNonce \<noteq> None \<and> expectedNonce \<noteq> Some (smNonce m)) CHALLENGE_MISMATCH) (\<lambda>_.
    bindE (parseCertificateChain (geCertChain evidence)) (\<lambda>chain.
    bindE (failIf (length chain = 0) MALFORMED) (\<lambda>_.
    bindE (parseRoots rawRoots) (\<lambda>roots.
    bindE (verifyDeviceChain N chain roots nowMillis) (\<lambda>leaf.
    bindE (case crtKey leaf of EcP384 p \<Rightarrow> Inr p | _ \<Rightarrow> Inl UNSUPPORTED_CERT_ALGORITHM) (\<lambda>point.
    bindE (derEcdsaSignature (beNat (take 48 (smSignature m))) (beNat (slice (smSignature m) 48 SIGNATURE_BYTES))
        (p384order N)) (\<lambda>der.
      if p384verify N der (sha384 N (smSigned m)) point then Inr (smNonce m) else Inl BAD_SIGNATURE)))))))))"

end
