(* ===== verification/Chain.thy ===== *)
theory Chain
  imports Nvidia
begin

text \<open>
  What the two certificate walks of packages/attest-core/src (\<open>verifyPckChain\<close> of tdx-dcap.ts and
  \<open>verifyDeviceChain\<close> of nvidia.ts) establish. Both look for an anchor, check every link below it and
  the anchor's validity; the locale \<open>anchored_walk\<close> states that contract and what follows from it.
\<close>

subsection \<open>Linked chains\<close>

text \<open>Every certificate but the last is issued and signed by the next one, and all are in date.\<close>

fun linked :: "noble \<Rightarrow> int \<Rightarrow> certificate list \<Rightarrow> bool" where
  "linked N now [] = True"
| "linked N now [c] = (crtNotBefore c \<le> now \<and> now \<le> crtNotAfter c)"
| "linked N now (c # d # cs) =
    (crtIssuer c = crtSubject d \<and> crtNotBefore c \<le> now \<and> now \<le> crtNotAfter c \<and>
     verifyCertificateSignature N d c = Inr () \<and> linked N now (d # cs))"

lemma validity_ok: "checkCertificateValidity c now = Inr () \<longleftrightarrow> crtNotBefore c \<le> now \<and> now \<le> crtNotAfter c"
  by (auto simp: checkCertificateValidity_def failIf_def)

lemma chainLink_ok:
  "chainLink N chain now i = Inr () \<longleftrightarrow>
    crtIssuer (chain ! i) = crtSubject (chain ! (i + 1)) \<and>
    crtNotBefore (chain ! i) \<le> now \<and> now \<le> crtNotAfter (chain ! i) \<and>
    verifyCertificateSignature N (chain ! (i + 1)) (chain ! i) = Inr ()"
  by (auto simp: chainLink_def Let_def bindE_Inr failIf_def checkCertificateValidity_def split: if_splits)

lemma linked_take:
  assumes "i < length chain" and "\<forall>j<i. chainLink N chain now j = Inr ()"
    and "checkCertificateValidity (chain ! i) now = Inr ()"
  shows "linked N now (take (Suc i) chain)"
  using assms
proof (induction i arbitrary: chain)
  case 0
  then obtain c cs where "chain = c # cs" by (cases chain) auto
  then show ?case using 0 by (simp add: validity_ok)
next
  case (Suc i)
  then obtain c d cs where ch: "chain = c # d # cs"
    by (cases chain; cases "tl chain") auto
  have "chainLink N (d # cs) now j = Inr ()" if "j < i" for j
    using Suc.prems(2) [rule_format, of "Suc j"] that ch by (simp add: chainLink_def)
  then have "linked N now (take (Suc i) (d # cs))"
    using Suc.prems ch by (intro Suc.IH) auto
  moreover have "chainLink N chain now 0 = Inr ()" using Suc.prems(2) by blast
  ultimately show ?case using ch by (simp add: chainLink_ok)
qed

lemma linked_valid: "linked N now cs \<Longrightarrow> c \<in> set cs \<Longrightarrow> crtNotBefore c \<le> now \<and> now \<le> crtNotAfter c"
  by (induction N now cs rule: linked.induct) auto

subsection \<open>The shared contract\<close>

locale anchored_walk =
  fixes walk :: "noble \<Rightarrow> certificate list \<Rightarrow> certificate list \<Rightarrow> int \<Rightarrow> aerr + certificate"
    and anchor :: "certificate list \<Rightarrow> certificate list \<Rightarrow> nat option"
  assumes anchor_pinned:
      "anchor chain roots = Some i \<Longrightarrow> i < length chain \<and> (\<exists>root\<in>set roots. crtSubject root = crtSubject (chain ! i))"
    and walk_links:
      "walk N chain roots now = Inr c \<Longrightarrow> \<exists>i. anchor chain roots = Some i \<and>
        (\<forall>j<i. chainLink N chain now j = Inr ()) \<and> checkCertificateValidity (chain ! i) now = Inr ()"
    and walk_missing: "anchor chain roots = None \<Longrightarrow> walk N chain roots now = Inl MISSING_TRUST_ROOT"
begin

lemma path:
  assumes "walk N chain roots now = Inr c"
  obtains i root where "anchor chain roots = Some i" "i < length chain" "root \<in> set roots"
    "crtSubject root = crtSubject (chain ! i)" "linked N now (take (Suc i) chain)"
proof -
  from walk_links [OF assms] obtain i where i: "anchor chain roots = Some i"
    "\<forall>j<i. chainLink N chain now j = Inr ()" "checkCertificateValidity (chain ! i) now = Inr ()" by blast
  from anchor_pinned [OF i(1)] obtain root where r: "i < length chain" "root \<in> set roots"
    "crtSubject root = crtSubject (chain ! i)" by blast
  show thesis by (rule that [OF i(1) r linked_take [OF r(1) i(2,3)]])
qed

lemma no_roots: "walk N chain [] now = Inl MISSING_TRUST_ROOT"
proof (cases "anchor chain []")
  case None
  then show ?thesis by (rule walk_missing)
next
  case (Some i)
  then show ?thesis using anchor_pinned by fastforce
qed

lemma expired:
  assumes "walk N chain roots now = Inr c" and "anchor chain roots = Some i" and "j \<le> i"
  shows "crtNotBefore (chain ! j) \<le> now \<and> now \<le> crtNotAfter (chain ! j)"
proof -
  from path [OF assms(1)] obtain k where k: "anchor chain roots = Some k" "k < length chain" "linked N now (take (Suc k) chain)" .
  have "chain ! j = take (Suc i) chain ! j" using assms(3) by simp
  moreover have "j < length (take (Suc i) chain)" using assms(2,3) k by simp
  ultimately have "chain ! j \<in> set (take (Suc i) chain)" by (metis nth_mem)
  then show ?thesis using linked_valid [OF k(3)] k(1) assms(2) by simp
qed

end

subsection \<open>Both walks provide it\<close>

lemma lastIndex_Some: "lastIndex P xs n = Some i \<Longrightarrow> i < n \<and> P (xs ! i) \<and> (\<forall>j. i < j \<and> j < n \<longrightarrow> \<not> P (xs ! j))"
  by (induction n) (auto split: if_splits simp: less_Suc_eq)

lemma lastIndex_None: "lastIndex P xs n = None \<longleftrightarrow> (\<forall>i<n. \<not> P (xs ! i))"
  by (induction n) (auto simp: less_Suc_eq)

lemma mapE_upt: "mapE f [0..<n] = Inr us \<Longrightarrow> j < n \<Longrightarrow> f j = Inr () "
  by (drule mapE_unit) auto

lemma anchorIndexOf_Some:
  assumes "anchorIndexOf chain roots = Some i"
  shows "i < length chain" "crtIsCa (chain ! i) = Some True" "crtIssuer (chain ! i) = crtSubject (chain ! i)"
    "\<exists>root\<in>set roots. crtSubject root = crtSubject (chain ! i)"
  using lastIndex_Some [OF assms [unfolded anchorIndexOf_def]] by (auto simp: list_ex_iff)

lemma deviceAnchor_Some:
  assumes "deviceAnchor chain roots = Some i"
  shows "i < length chain" "\<exists>root\<in>set roots. crtSubject root = crtSubject (chain ! i)"
  using lastIndex_Some [OF assms [unfolded deviceAnchor_def]] by (auto simp: list_ex_iff)

lemma verifyPckChain_Inr:
  assumes "verifyPckChain N chain roots now = Inr c"
  obtains i where "anchorIndexOf chain roots = Some i" "2 \<le> length chain" "crtIsCa (chain ! 0) \<noteq> Some True"
    "\<forall>j<i. chainLink N chain now j = Inr ()" "checkCertificateValidity (chain ! i) now = Inr ()"
    "verifyCertificateSignature N (the (findRoot roots (crtSubject c))) c = Inr ()" "c = chain ! i"
  using assms mapE_upt
  by (fastforce simp: verifyPckChain_def Let_def bindE_Inr split: option.splits if_splits)

lemma verifyDeviceChain_Inr:
  assumes "verifyDeviceChain N chain roots now = Inr c"
  obtains i where "deviceAnchor chain roots = Some i" "0 < i" "c = chain ! 0"
    "\<forall>j<i. chainLink N chain now j = Inr ()" "checkCertificateValidity (chain ! i) now = Inr ()"
  using assms mapE_upt
  by (fastforce simp: verifyDeviceChain_def Let_def bindE_Inr split: option.splits if_splits)

interpretation pck: anchored_walk verifyPckChain anchorIndexOf
proof unfold_locales
  fix N chain roots now c
  assume "verifyPckChain N chain roots now = Inr c"
  then show "\<exists>i. anchorIndexOf chain roots = Some i \<and> (\<forall>j<i. chainLink N chain now j = Inr ()) \<and>
      checkCertificateValidity (chain ! i) now = Inr ()"
    by (rule verifyPckChain_Inr) blast
qed (auto dest: anchorIndexOf_Some simp: verifyPckChain_def)

interpretation device: anchored_walk verifyDeviceChain deviceAnchor
proof unfold_locales
  fix N chain roots now c
  assume "verifyDeviceChain N chain roots now = Inr c"
  then show "\<exists>i. deviceAnchor chain roots = Some i \<and> (\<forall>j<i. chainLink N chain now j = Inr ()) \<and>
      checkCertificateValidity (chain ! i) now = Inr ()"
    by (rule verifyDeviceChain_Inr) blast
qed (auto dest: deviceAnchor_Some simp: verifyDeviceChain_def)

subsection \<open>Properties\<close>

lemma findRoot_the:
  assumes "\<exists>root\<in>set roots. crtSubject root = s"
  shows "the (findRoot roots s) \<in> set roots \<and> crtSubject (the (findRoot roots s)) = s"
  using assms by (induction roots) (auto simp: findRoot_def)

lemma verifyPckChain_anchor:
  assumes "verifyPckChain N chain roots now = Inr c"
  shows "\<exists>i pinned. 0 < i \<and> i < length chain \<and> c = chain ! i \<and> linked N now (take (Suc i) chain) \<and>
    crtIsCa (chain ! 0) \<noteq> Some True \<and> crtIsCa c = Some True \<and> crtIssuer c = crtSubject c \<and>
    pinned \<in> set roots \<and> crtSubject pinned = crtSubject c \<and> verifyCertificateSignature N pinned c = Inr ()"
proof -
  from verifyPckChain_Inr [OF assms] obtain i where i: "anchorIndexOf chain roots = Some i"
    "crtIsCa (chain ! 0) \<noteq> Some True" "\<forall>j<i. chainLink N chain now j = Inr ()"
    "checkCertificateValidity (chain ! i) now = Inr ()"
    "verifyCertificateSignature N (the (findRoot roots (crtSubject c))) c = Inr ()" "c = chain ! i" by blast
  note a = anchorIndexOf_Some [OF i(1)]
  have "0 < i" using a(2) i(2) by (cases i) auto
  moreover have "linked N now (take (Suc i) chain)" by (rule linked_take [OF a(1) i(3,4)])
  moreover have "the (findRoot roots (crtSubject c)) \<in> set roots \<and>
      crtSubject (the (findRoot roots (crtSubject c))) = crtSubject c"
    using a(4) i(6) by (intro findRoot_the) simp
  ultimately show ?thesis using a i by blast
qed

text \<open>
  C3 The PCK chain walk accepts only a chain anchored in a pinned key: some entry above the leaf is a
  self-issued authority in date, every entry up to it is in date, issued and signed by the next, the leaf is
  no authority, and the anchor's signature verifies under the key of a pinned root with its subject, not
  merely under its own.
\<close>

theorem verifyPckChain_sound:
  assumes "verifyPckChain N chain roots now = Inr c"
  shows "\<exists>i pinned. 0 < i \<and> i < length chain \<and> c = chain ! i \<and> linked N now (take (Suc i) chain) \<and>
    crtIsCa (chain ! 0) \<noteq> Some True \<and> crtIsCa c = Some True \<and> crtIssuer c = crtSubject c \<and>
    pinned \<in> set roots \<and> crtSubject pinned = crtSubject c \<and> verifyCertificateSignature N pinned c = Inr ()"
  by (rule verifyPckChain_anchor [OF assms])

definition sampleCert :: "nat \<Rightarrow> bytes \<Rightarrow> bytes \<Rightarrow> public_key \<Rightarrow> bool \<Rightarrow> certificate" where
  "sampleCert serial issuer subject key ca =
    \<lparr>crtRaw = [], crtTbs = [byteOf serial], crtSerial = [], crtAlg = EcdsaSha384, crtSignature = [1], crtIssuer = issuer,
      crtSubject = subject, crtNotBefore = 0, crtNotAfter = 10, crtKey = key, crtSpki = [], crtProductName = None,
      crtHwid = None, crtIsCa = Some ca\<rparr>"

text \<open>A verifier for which the key \<open>[n]\<close> signs everything whose digest starts with \<open>n\<close>.\<close>

definition tallyNoble :: noble where
  "tallyNoble = quietNoble\<lparr>p384verify := \<lambda>s m k. take 1 m = k\<rparr>"

lemma tally_signs:
  "verifyCertificateSignature tallyNoble (sampleCert m a b (EcP384 [byteOf k]) ca) (sampleCert n c d key ca') =
    (if byteOf n = byteOf k then Inr () else Inl BAD_SIGNATURE)"
  by (simp add: verifyCertificateSignature_def sampleCert_def tallyNoble_def quietNoble_def)

definition sampleChain :: "certificate list" where
  "sampleChain = [sampleCert 5 [2] [1] (EcP256 [9]) False, sampleCert 6 [2] [2] (EcP384 [5]) True]"

lemma verifyPckChain_sample:
  "verifyPckChain tallyNoble sampleChain [sampleCert 7 [2] [2] (EcP384 [6]) True] 3 = Inr (sampleChain ! 1)"
  using tally_signs [of 6 "[2]" "[2]" 5 True 5 "[2]" "[1]" "EcP256 [9]" False]
    tally_signs [of 7 "[2]" "[2]" 6 True 6 "[2]" "[2]" "EcP384 [5]" True]
  by (simp add: verifyPckChain_def anchorIndexOf_def findRoot_def chainLink_def checkCertificateValidity_def
      sampleChain_def sampleCert_def byteOf_def numeral_2_eq_2 failIf_def)

lemma verifyPckChain_sound_witness:
  "\<exists>i pinned. 0 < i \<and> i < length sampleChain \<and> sampleChain ! 1 = sampleChain ! i \<and>
    linked tallyNoble 3 (take (Suc i) sampleChain) \<and>
    crtIsCa (sampleChain ! 0) \<noteq> Some True \<and> crtIsCa (sampleChain ! 1) = Some True \<and>
    crtIssuer (sampleChain ! 1) = crtSubject (sampleChain ! 1) \<and>
    pinned \<in> set [sampleCert 7 [2] [2] (EcP384 [6]) True] \<and> crtSubject pinned = crtSubject (sampleChain ! 1) \<and>
    verifyCertificateSignature tallyNoble pinned (sampleChain ! 1) = Inr ()"
  by (rule verifyPckChain_sound [OF verifyPckChain_sample])

text \<open>
  C34 The GPU chain walk never uses the pinned root's key: a leaf signed by any certificate that merely
  carries a pinned root's subject is accepted, whatever key, signature or authority flag that certificate
  has and whatever key the pinned root has. Trust rests on a name the presenter of the chain writes.
\<close>

theorem verifyDeviceChain_forged:
  assumes "root \<in> set roots" and "crtSubject fake = crtSubject root" and "crtIssuer leaf = crtSubject fake"
    and "verifyCertificateSignature N fake leaf = Inr ()"
    and "crtNotBefore leaf \<le> now \<and> now \<le> crtNotAfter leaf" and "crtNotBefore fake \<le> now \<and> now \<le> crtNotAfter fake"
  shows "verifyDeviceChain N [leaf, fake] roots now = Inr leaf"
proof -
  have "list_ex (\<lambda>root. crtSubject root = crtSubject fake) roots" using assms(1,2) by (auto simp: list_ex_iff)
  then have "deviceAnchor [leaf, fake] roots = Some 1" by (simp add: deviceAnchor_def)
  moreover have "chainLink N [leaf, fake] now 0 = Inr ()" using assms by (simp add: chainLink_ok)
  moreover have "checkCertificateValidity fake now = Inr ()" using assms(6) by (simp add: validity_ok)
  ultimately show ?thesis by (simp add: verifyDeviceChain_def)
qed

lemma verifyDeviceChain_forged_witness:
  "verifyDeviceChain tallyNoble [sampleCert 5 [2] [1] (EcP384 [9]) False, sampleCert 8 [2] [2] (EcP384 [byteOf 5]) False]
    [sampleCert 7 [2] [2] (EcP384 [6]) True] 3 = Inr (sampleCert 5 [2] [1] (EcP384 [9]) False)"
  by (rule verifyDeviceChain_forged [where root = "sampleCert 7 [2] [2] (EcP384 [6]) True"])
     (use tally_signs in \<open>simp_all add: sampleCert_def\<close>)

end
