(* ===== verification/DerSpec.thy ===== *)
theory DerSpec
  imports Der
begin

text \<open>
  What the reader of packages/attest-core/src/der.ts makes of DER: a reference encoder of elements,
  integers, object identifiers and certificates, the round trips through the code's own reader, and
  the bytes a parsed certificate's signature is checked over.
\<close>

subsection \<open>Elements\<close>

definition lenEnc :: "nat \<Rightarrow> bytes" where
  "lenEnc n = (if n < 0x80 then [byteOf n] else byteOf (0x80 + length (minBytes n [])) # minBytes n [])"

definition tlvEnc :: "byte \<Rightarrow> bytes \<Rightarrow> bytes" where
  "tlvEnc tag content = tag # lenEnc (length content) @ content"

lemma minBytes_spec:
  "\<exists>ds. minBytes n bs = ds @ bs \<and> beNat ds = n \<and> ds \<noteq> [] \<and> (\<forall>k. 0 < k \<longrightarrow> n < 256 ^ k \<longrightarrow> length ds \<le> k) \<and>
    (0 < n \<longrightarrow> hd ds \<noteq> 0)"
proof (induction n bs rule: minBytes.induct)
  case (1 n bs)
  show ?case
  proof (cases "n div 256 > 0")
    case False
    then have n: "n < 256" by auto
    then have "minBytes n bs = [byteOf n] @ bs" by (subst minBytes.simps) simp
    moreover have "byteOf n \<noteq> 0" if "0 < n" using that n unat_byteOf [of n] by force
    ultimately show ?thesis using n by (intro exI [of _ "[byteOf n]"]) (auto simp: beNat_Cons)
  next
    case True
    from 1 [OF refl refl True] True obtain ds where ds: "minBytes (n div 256) (byteOf (n mod 256) # bs) = ds @ byteOf (n mod 256) # bs"
      "beNat ds = n div 256" "ds \<noteq> []" "hd ds \<noteq> 0"
      "\<forall>k. 0 < k \<longrightarrow> n div 256 < 256 ^ k \<longrightarrow> length ds \<le> k" by blast
    have m: "minBytes n bs = (ds @ [byteOf (n mod 256)]) @ bs"
      by (subst minBytes.simps) (use True ds in \<open>simp add: Let_def\<close>)
    have k: "length (ds @ [byteOf (n mod 256)]) \<le> k" if k: "0 < k" "n < 256 ^ k" for k
    proof (cases k)
      case (Suc j)
      have "n div 256 < 256 ^ j" using k Suc by (simp add: less_mult_imp_div_less mult.commute)
      moreover from this have "0 < j" using True by (cases j) auto
      ultimately show ?thesis using ds(5) Suc by simp
    qed (use k in simp)
    show ?thesis
      by (rule exI [of _ "ds @ [byteOf (n mod 256)]"])
         (use m ds k in \<open>auto simp: beNat_snoc\<close>)
  qed
qed

lemma minBytes_Nil:
  "beNat (minBytes n []) = n" "minBytes n [] \<noteq> []" "0 < k \<Longrightarrow> n < 256 ^ k \<Longrightarrow> length (minBytes n []) \<le> k"
  "0 < n \<Longrightarrow> hd (minBytes n []) \<noteq> 0"
  using minBytes_spec [of n "[]"] by auto

lemma slice_middle: "slice (xs @ ys @ zs) (length xs) (length xs + length ys) = ys"
  by (simp add: slice_def)

lemma byte_and_7f: "unat (byteOf (0x80 + k) AND 0x7f) = k" if "k < 0x80"
  using that unat_and_low [of "byteOf (0x80 + k)" 7] by (simp add: mask_numeral)


text \<open>Reading an encoded element where it stands: everything after it is left alone.\<close>

lemma readTlv_at:
  assumes "tag AND 0x1f \<noteq> 0x1f" and "length content < 256 ^ 4"
  shows "readTlv (pre @ tlvEnc tag content @ post) (Some (length pre)) =
    Inr \<lparr>tlvTag = tag, tlvContent = content, tlvTotal = Some (length (tlvEnc tag content))\<rparr>"
proof (cases "length content < 0x80")
  case True
  have "tlvEnd (pre @ tag # byteOf (length content) # content @ post) (length pre) tag (length pre + 2)
      (Some (length content)) =
    Inr \<lparr>tlvTag = tag, tlvContent = content, tlvTotal = Some (2 + length content)\<rparr>"
    using slice_middle [of "pre @ [tag, byteOf (length content)]" content post] by (simp add: tlvEnd_def)
  then show ?thesis using True assms(1)
    by (simp add: readTlv_def tlvEnc_def lenEnc_def Let_def nth_append)
next
  case False
  define ds where "ds = minBytes (length content) []"
  define h where "h = byteOf (0x80 + length ds)"
  have ds: "beNat ds = length content" "ds \<noteq> []" "length ds \<le> 4"
    using minBytes_Nil(1,2) [of "length content"] minBytes_Nil(3) [of 4 "length content"] assms(2)
    by (simp_all add: ds_def)
  have e: "tlvEnc tag content = tag # h # ds @ content" using False by (simp add: tlvEnc_def lenEnc_def ds_def h_def)
  have h: "unat h = 0x80 + length ds" "unat (h AND 0x7f) = length ds"
    using ds(3) byte_and_7f [of "length ds"] by (simp_all add: h_def)
  have ln: "longLength (pre @ tag # h # ds @ content @ post) (Suc (length pre)) (length ds) = Some (length content)"
    using slice_middle [of "pre @ [tag, h]" ds "content @ post"] ds(1) False by (simp add: longLength_def)
  have "tlvEnd (pre @ tag # h # ds @ content @ post) (length pre) tag (Suc (Suc (length pre + length ds)))
      (Some (length content)) =
    Inr \<lparr>tlvTag = tag, tlvContent = content, tlvTotal = Some (2 + length ds + length content)\<rparr>"
    using slice_middle [of "pre @ [tag, h] @ ds" content post] by (simp add: tlvEnd_def add_ac)
  then show ?thesis using assms(1) ds h ln by (simp add: readTlv_def e Let_def nth_append)
qed

lemma readTlv_enc:
  assumes "tag AND 0x1f \<noteq> 0x1f" and "length content < 256 ^ 4"
  shows "readTlv (tlvEnc tag content @ post) (Some 0) =
    Inr \<lparr>tlvTag = tag, tlvContent = content, tlvTotal = Some (length (tlvEnc tag content))\<rparr>"
  using readTlv_at [OF assms, of "[]" post] by simp

subsection \<open>The span a signature is checked over\<close>

lemma tlvTotal_envelope:
  assumes "parseEnvelope C = Inr (tbs, alg, sv)"
  obtains n where "tlvTotal tbs = Some n" "n \<le> length C" "2 \<le> n"
proof -
  from assms have t: "readTlv C (Some 0) = Inr tbs" "numAdd (numAdd (tlvTotal tbs) (tlvTotal alg)) (tlvTotal sv) = Some (length C)"
    by (auto simp: parseEnvelope_def expect_def bindE_Inr split: if_splits)
  then obtain n where n: "tlvTotal tbs = Some n" "n \<le> length C"
    by (auto simp: numAdd_def split: option.splits)
  show ?thesis by (rule that [OF n readTlv_total [OF t(1) n(1)]])
qed

lemma parseCertificate_outer:
  assumes C: "length C < 256 ^ 4" and c: "parseCertificate (tlvEnc 0x30 C) = Inr c"
  shows "crtTbs c = take (length (crtTbs c)) C"
    and "parseCertificate (tlvEnc 0x30 C @ L) =
      Inr (c\<lparr>crtRaw := tlvEnc 0x30 C @ L, crtTbs := slice (tlvEnc 0x30 C @ L)
        (length (tlvEnc 0x30 C @ L) - length C) (length (tlvEnc 0x30 C @ L) - length C + length (crtTbs c))\<rparr>)"
proof -
  define h where "h = length (tlvEnc 0x30 C) - length C"
  have h: "tlvEnc 0x30 C = (0x30 # lenEnc (length C)) @ C" "h = length (0x30 # lenEnc (length C))"
    by (simp_all add: h_def tlvEnc_def)
  have r: "expect (readTlv (tlvEnc 0x30 C @ post) (Some 0)) 0x30 =
      Inr \<lparr>tlvTag = 0x30, tlvContent = C, tlvTotal = Some (length (tlvEnc 0x30 C))\<rparr>" for post
    using readTlv_enc [of "0x30" C post] C by (simp add: expect_def)
  note r0 = r [of "[]", simplified]
  from c obtain tbs alg sv where e: "parseEnvelope C = Inr (tbs, alg, sv)"
    unfolding parseCertificate_def r0 by (auto simp: bindE_Inr Let_def)
  from tlvTotal_envelope [OF e] obtain n where n: "tlvTotal tbs = Some n" "n \<le> length C" .
  have s: "sliceNum (tlvEnc 0x30 C) h (numAdd (Some h) (Some n)) = take n C"
    by (simp add: sliceNum_def numAdd_def slice_def h)
  show t: "crtTbs c = take (length (crtTbs c)) C"
    using c n s unfolding parseCertificate_def r0
    by (auto simp: bindE_Inr Let_def h_def e split: if_splits)
  show "parseCertificate (tlvEnc 0x30 C @ L) =
      Inr (c\<lparr>crtRaw := tlvEnc 0x30 C @ L, crtTbs := slice (tlvEnc 0x30 C @ L)
        (length (tlvEnc 0x30 C @ L) - length C) (length (tlvEnc 0x30 C @ L) - length C + length (crtTbs c))\<rparr>)"
    using c n s unfolding parseCertificate_def r0 r
    by (auto simp: bindE_Inr Let_def h_def e sliceNum_def numAdd_def split: if_splits)
qed

subsection \<open>Reading from the middle\<close>

lemma slice_shift: "slice (pre @ xs) (length pre + a) (length pre + b) = slice xs a b"
  by (simp add: slice_def)

lemma readTlv_shift: "readTlv (pre @ data) (Some (length pre + off)) = readTlv data (Some off)"
proof -
  have l: "longLength (pre @ data) (Suc (length pre + off)) k = longLength data (Suc off) k" for k
    using slice_shift [of pre data "off + 2" "off + 2 + k"] by (simp add: longLength_def add.assoc)
  have e: "tlvEnd (pre @ data) (length pre + off) tag (length pre + p) n = tlvEnd data off tag p n" for tag p n
    using slice_shift [of pre data p] by (simp add: tlvEnd_def add.assoc split: option.splits)
  have e1: "tlvEnd (pre @ data) (length pre + off) tag (Suc (Suc (length pre + off))) n = tlvEnd data off tag (Suc (Suc off)) n"
    "tlvEnd (pre @ data) (length pre + off) tag (Suc (Suc (length pre + off + k))) n =
      tlvEnd data off tag (Suc (Suc (off + k))) n" for tag n k
    using e [of tag "Suc (Suc off)" n] e [of tag "Suc (Suc (off + k))" n] by (simp_all add: add.assoc)
  show ?thesis by (simp add: readTlv_def Let_def nth_append l e1)
qed

lemma tlvLoop_shift:
  assumes "\<And>t o1 o2 s. step t o1 s = step t o2 s"
  shows "tlvLoop step (pre @ data) (Some (length pre + off)) s = tlvLoop step data (Some off) s"
proof (induction "length data - off" arbitrary: off s rule: less_induct)
  case less
  show ?case
  proof (cases "off < length data")
    case False
    then show ?thesis by (simp add: tlvLoop.simps [of step "pre @ data"] tlvLoop.simps [of step data])
  next
    case True
    have rec: "tlvLoop step (pre @ data) (numAdd (Some (length pre + off)) (tlvTotal t)) s' =
        tlvLoop step data (numAdd (Some off) (tlvTotal t)) s'" if t: "readTlv data (Some off) = Inr t" for t s'
    proof (cases "tlvTotal t")
      case None
      then show ?thesis
        by (simp add: numAdd_def tlvLoop.simps [of step "pre @ data" None] tlvLoop.simps [of step data None])
    next
      case (Some n)
      then have "2 \<le> n" using readTlv_total [OF t] by simp
      then show ?thesis using less [of "off + n" s'] True Some by (simp add: numAdd_def add.assoc)
    qed
    show ?thesis
      unfolding tlvLoop.simps [of step "pre @ data" "Some (length pre + off)"] tlvLoop.simps [of step data "Some off"]
      using True assms [of _ "length pre + off" _ off]
      by (simp add: readTlv_shift) (intro bindE_cong refl ext, simp add: rec)
  qed
qed

subsection \<open>Certificates\<close>

text \<open>
  A certificate in the layout of RFC 5280, from the contents of its elements: version (if present),
  serial number, signature algorithm, issuer, validity, subject, public key, what follows it, signature.
\<close>

record cert_spec =
  csVersion :: "bytes option"
  csSerial :: bytes
  csAlg :: bytes
  csIssuer :: bytes
  csValidity :: bytes
  csSubject :: bytes
  csSpki :: bytes
  csTrailing :: bytes
  csSignature :: bytes

definition versionEnc :: "cert_spec \<Rightarrow> bytes" where
  "versionEnc s = (case csVersion s of None \<Rightarrow> [] | Some v \<Rightarrow> tlvEnc 0xa0 v)"

definition tbsHead :: "cert_spec \<Rightarrow> bytes" where
  "tbsHead s = versionEnc s @ tlvEnc 0x02 (csSerial s) @ tlvEnc 0x30 (csAlg s) @ tlvEnc 0x30 (csIssuer s) @
    tlvEnc 0x30 (csValidity s) @ tlvEnc 0x30 (csSubject s) @ tlvEnc 0x30 (csSpki s)"

definition tbsEnc :: "cert_spec \<Rightarrow> bytes" where
  "tbsEnc s = tbsHead s @ csTrailing s"

definition certContent :: "cert_spec \<Rightarrow> bytes" where
  "certContent s = tlvEnc 0x30 (tbsEnc s) @ tlvEnc 0x30 (csAlg s) @ tlvEnc 0x03 (0 # csSignature s)"

definition certEnc :: "cert_spec \<Rightarrow> bytes" where
  "certEnc s = tlvEnc 0x30 (certContent s)"

lemma length_tlvEnc: "length content \<le> length (tlvEnc tag content)"
  by (simp add: tlvEnc_def)

lemma expect_at:
  assumes "tag AND 0x1f \<noteq> 0x1f" and "length content < 256 ^ 4"
  shows "expect (readTlv (pre @ tlvEnc tag content @ post) (Some (length pre))) tag =
    Inr \<lparr>tlvTag = tag, tlvContent = content, tlvTotal = Some (length (tlvEnc tag content))\<rparr>"
  using readTlv_at [OF assms] by (simp add: expect_def)

lemma length_certEnc: "length (tbsEnc s) < length (certContent s)" "length (certContent s) < length (certEnc s)"
  "length (0 # csSignature s) < length (certContent s)" "length (csAlg s) < length (certContent s)"
  by (simp_all add: certContent_def certEnc_def tlvEnc_def)

lemma parseTbsFields_enc:
  assumes n: "length (tbsEnc s) < 256 ^ 4"
  shows "parseTbsFields (tbsEnc s) =
    Inr \<lparr>tfSerial = csSerial s, tfSigAlg = csAlg s, tfIssuer = csIssuer s, tfValidity = csValidity s,
      tfSubject = csSubject s, tfSpkiContent = csSpki s, tfSpki = tlvEnc 0x30 (csSpki s),
      tfRest = Some (length (tbsHead s))\<rparr>"
proof -
  define v where "v = versionEnc s"
  define e1 where "e1 = v @ tlvEnc 0x02 (csSerial s)"
  define e2 where "e2 = e1 @ tlvEnc 0x30 (csAlg s)"
  define e3 where "e3 = e2 @ tlvEnc 0x30 (csIssuer s)"
  define e4 where "e4 = e3 @ tlvEnc 0x30 (csValidity s)"
  define e5 where "e5 = e4 @ tlvEnc 0x30 (csSubject s)"
  define e6 where "e6 = e5 @ tlvEnc 0x30 (csSpki s)"
  note es = e1_def e2_def e3_def e4_def e5_def e6_def
  let ?t = "tbsEnc s"
  have x: "?t = e6 @ csTrailing s" by (simp add: tbsEnc_def tbsHead_def es v_def)
  have l: "length (csSerial s) < 256 ^ 4" "length (csAlg s) < 256 ^ 4" "length (csIssuer s) < 256 ^ 4"
    "length (csValidity s) < 256 ^ 4" "length (csSubject s) < 256 ^ 4" "length (csSpki s) < 256 ^ 4"
    "\<And>w. csVersion s = Some w \<Longrightarrow> length w < 256 ^ 4"
    using n by (auto simp: x es v_def versionEnc_def tlvEnc_def)
  have r: "expect (readTlv ?t (Some (length v))) 0x02 =
      Inr \<lparr>tlvTag = 0x02, tlvContent = csSerial s, tlvTotal = Some (length (tlvEnc 0x02 (csSerial s)))\<rparr>"
    "expect (readTlv ?t (Some (length e1))) 0x30 =
      Inr \<lparr>tlvTag = 0x30, tlvContent = csAlg s, tlvTotal = Some (length (tlvEnc 0x30 (csAlg s)))\<rparr>"
    "expect (readTlv ?t (Some (length e2))) 0x30 =
      Inr \<lparr>tlvTag = 0x30, tlvContent = csIssuer s, tlvTotal = Some (length (tlvEnc 0x30 (csIssuer s)))\<rparr>"
    "expect (readTlv ?t (Some (length e3))) 0x30 =
      Inr \<lparr>tlvTag = 0x30, tlvContent = csValidity s, tlvTotal = Some (length (tlvEnc 0x30 (csValidity s)))\<rparr>"
    "expect (readTlv ?t (Some (length e4))) 0x30 =
      Inr \<lparr>tlvTag = 0x30, tlvContent = csSubject s, tlvTotal = Some (length (tlvEnc 0x30 (csSubject s)))\<rparr>"
    "expect (readTlv ?t (Some (length e5))) 0x30 =
      Inr \<lparr>tlvTag = 0x30, tlvContent = csSpki s, tlvTotal = Some (length (tlvEnc 0x30 (csSpki s)))\<rparr>"
    using expect_at [OF _ l(1), of "0x02" v] expect_at [OF _ l(2), of "0x30" e1] expect_at [OF _ l(3), of "0x30" e2]
      expect_at [OF _ l(4), of "0x30" e3] expect_at [OF _ l(5), of "0x30" e4] expect_at [OF _ l(6), of "0x30" e5]
    by (simp_all add: x es)
  have v: "\<exists>t. readTlv ?t (Some 0) = Inr t \<and> (if tlvTag t = 0xa0 then tlvTotal t else Some 0) = Some (length v)"
  proof (cases "csVersion s")
    case None
    then show ?thesis using readTlv_at [OF _ l(1), of "0x02" "[]"] by (simp add: x es v_def versionEnc_def)
  next
    case (Some w)
    then show ?thesis using readTlv_at [OF _ l(7) [OF Some], of "0xa0" "[]"] by (simp add: x es v_def versionEnc_def)
  qed
  have a: "numAdd (Some (length v)) (Some (length (tlvEnc 0x02 (csSerial s)))) = Some (length e1)"
    "numAdd (Some (length e1)) (Some (length (tlvEnc 0x30 (csAlg s)))) = Some (length e2)"
    "numAdd (Some (length e2)) (Some (length (tlvEnc 0x30 (csIssuer s)))) = Some (length e3)"
    "numAdd (Some (length e3)) (Some (length (tlvEnc 0x30 (csValidity s)))) = Some (length e4)"
    "numAdd (Some (length e4)) (Some (length (tlvEnc 0x30 (csSubject s)))) = Some (length e5)"
    "numAdd (Some (length e5)) (Some (length (tlvEnc 0x30 (csSpki s)))) = Some (length e6)"
    by (simp_all add: es numAdd_def)
  have sp: "sliceNum ?t (length e5) (Some (length e6)) = tlvEnc 0x30 (csSpki s)"
    using slice_middle [of e5 "tlvEnc 0x30 (csSpki s)" "csTrailing s"] by (simp add: sliceNum_def x e6_def)
  have h: "tbsHead s = e6" by (simp add: tbsHead_def es v_def)
  from v obtain t where t: "readTlv ?t (Some 0) = Inr t" "(if tlvTag t = 0xa0 then tlvTotal t else Some 0) = Some (length v)"
    by blast
  show ?thesis unfolding parseTbsFields_def t(1) bindE.simps(2) Let_def t(2)
    by (simp only: r bindE.simps(2) tlv.select_convs a option.case sp h)
qed

lemma parseEnvelope_enc:
  assumes n: "length (certContent s) < 256 ^ 4"
  shows "parseEnvelope (certContent s) = Inr
    (\<lparr>tlvTag = 0x30, tlvContent = tbsEnc s, tlvTotal = Some (length (tlvEnc 0x30 (tbsEnc s)))\<rparr>,
     \<lparr>tlvTag = 0x30, tlvContent = csAlg s, tlvTotal = Some (length (tlvEnc 0x30 (csAlg s)))\<rparr>,
     \<lparr>tlvTag = 0x03, tlvContent = 0 # csSignature s, tlvTotal = Some (length (tlvEnc 0x03 (0 # csSignature s)))\<rparr>)"
proof -
  define e1 where "e1 = tlvEnc 0x30 (tbsEnc s)"
  define e2 where "e2 = e1 @ tlvEnc 0x30 (csAlg s)"
  have x: "certContent s = e2 @ tlvEnc 0x03 (0 # csSignature s)" by (simp add: certContent_def e1_def e2_def)
  have l: "length (tbsEnc s) < 256 ^ 4" "length (csAlg s) < 256 ^ 4" "length (0 # csSignature s) < 256 ^ 4"
    using n length_certEnc [of s] by linarith+
  have r: "expect (readTlv (certContent s) (Some 0)) 0x30 =
      Inr \<lparr>tlvTag = 0x30, tlvContent = tbsEnc s, tlvTotal = Some (length e1)\<rparr>"
    "expect (readTlv (certContent s) (Some (length e1))) 0x30 =
      Inr \<lparr>tlvTag = 0x30, tlvContent = csAlg s, tlvTotal = Some (length (tlvEnc 0x30 (csAlg s)))\<rparr>"
    "expect (readTlv (certContent s) (Some (length e2))) 0x03 =
      Inr \<lparr>tlvTag = 0x03, tlvContent = 0 # csSignature s, tlvTotal = Some (length (tlvEnc 0x03 (0 # csSignature s)))\<rparr>"
    using expect_at [OF _ l(1), of "0x30" "[]"] expect_at [OF _ l(2), of "0x30" e1]
      expect_at [OF _ l(3), of "0x03" e2 "[]"]
    by (simp_all add: x e1_def e2_def)
  have a: "numAdd (Some (length e1)) (Some (length (tlvEnc 0x30 (csAlg s)))) = Some (length e2)"
    "numAdd (Some (length e2)) (Some (length (tlvEnc 0x03 (0 # csSignature s)))) = Some (length (certContent s))"
    by (simp_all add: numAdd_def e2_def x)
  show ?thesis unfolding parseEnvelope_def
    by (simp add: r a) (simp add: e1_def)
qed

definition noExts :: cert_exts where
  "noExts = \<lparr>ceProduct = None, ceHwid = None, ceIsCa = None\<rparr>"

lemma parseCertificate_enc:
  assumes n: "length (certContent s) < 256 ^ 4" and sig: "csSignature s \<noteq> []"
    and "parseSignatureAlgorithm (csAlg s) = Inr alg" and "parseSubjectPublicKeyInfo (csSpki s) = Inr key"
    and "parseValidity (csValidity s) = Inr (nb, na)" and x: "tlvLoop trailingStep (csTrailing s) (Some 0) noExts = Inr x"
  shows "parseCertificate (certEnc s) = Inr \<lparr>crtRaw = certEnc s, crtTbs = tlvEnc 0x30 (tbsEnc s), crtSerial = csSerial s,
    crtAlg = alg, crtSignature = csSignature s, crtIssuer = csIssuer s, crtSubject = csSubject s, crtNotBefore = nb,
    crtNotAfter = na, crtKey = key, crtSpki = tlvEnc 0x30 (csSpki s), crtProductName = ceProduct x,
    crtHwid = ceHwid x, crtIsCa = ceIsCa x\<rparr>"
proof -
  have r: "expect (readTlv (certEnc s) (Some 0)) 0x30 =
      Inr \<lparr>tlvTag = 0x30, tlvContent = certContent s, tlvTotal = Some (length (certEnc s))\<rparr>"
    using expect_at [OF _ n, of "0x30" "[]" "[]"] by (simp add: certEnc_def)
  have t: "length (tbsEnc s) < 256 ^ 4" using n length_certEnc(1) [of s] by linarith
  define h where "h = 0x30 # lenEnc (length (certContent s))"
  have c: "certEnc s = h @ tlvEnc 0x30 (tbsEnc s) @ tlvEnc 0x30 (csAlg s) @ tlvEnc 0x03 (0 # csSignature s)"
    by (simp add: certEnc_def tlvEnc_def certContent_def h_def)
  have d: "length (certEnc s) - length (certContent s) = length h"
    by (simp add: certEnc_def tlvEnc_def h_def)
  have sp: "sliceNum (certEnc s) (length h) (numAdd (Some (length h)) (Some (length (tlvEnc 0x30 (tbsEnc s))))) =
      tlvEnc 0x30 (tbsEnc s)"
    by (simp add: c sliceNum_def numAdd_def slice_middle)
  have lp: "tlvLoop trailingStep (tbsEnc s) (Some (length (tbsHead s))) noExts = Inr x"
    using tlvLoop_shift [of trailingStep "tbsHead s" "csTrailing s" 0 noExts] x
    by (simp add: tbsEnc_def trailingStep_def)
  show ?thesis
    unfolding parseCertificate_def r bindE.simps(2) Let_def tlv.select_convs parseEnvelope_enc [OF n] d sp
    using assms(2-5) lp by (simp add: parseTbsFields_enc [OF t] noExts_def sp)
qed

subsection \<open>Object identifiers\<close>

text \<open>Base-128 digits, most significant first; all but the last byte of an arc carry the high bit.\<close>

function highArc :: "nat \<Rightarrow> bytes" where
  "highArc n = (if n = 0 then [] else highArc (n div 128) @ [byteOf (0x80 + n mod 128)])"
  by pat_completeness auto
termination by (relation "measure id") auto

declare highArc.simps [simp del]

definition arcEnc :: "nat \<Rightarrow> bytes" where
  "arcEnc n = highArc (n div 128) @ [byteOf (n mod 128)]"

definition oidEnc :: "nat list \<Rightarrow> bytes" where
  "oidEnc arcs = arcEnc (40 * arcs ! 0 + arcs ! 1) @ concat (map arcEnc (drop 2 arcs))"

definition oidOk :: "nat list \<Rightarrow> bool" where
  "oidOk arcs \<longleftrightarrow> 3 \<le> length arcs \<and> arcs ! 0 \<le> 2 \<and> (arcs ! 0 < 2 \<longrightarrow> arcs ! 1 < 40)"

lemma byte_high: "(b :: byte) AND 0x80 = 0 \<longleftrightarrow> unat b < 128"
proof -
  have "unat (b AND 0x80) = unat b AND push_bit 7 (mask 1)"
    by (simp add: unsigned_and_eq push_bit_eq_mult)
  also have "\<dots> = 128 * (unat b div 128 mod 2)"
    unfolding and_high_nat by (simp add: push_bit_eq_mult drop_bit_eq_div take_bit_eq_mod)
  finally have "b AND 0x80 = 0 \<longleftrightarrow> unat b div 128 mod 2 = 0" by (simp add: word_unat_eq_iff)
  moreover have "unat b div 128 < 2" by (simp add: less_mult_imp_div_less)
  ultimately show ?thesis by auto
qed

lemma byte_low7: "unat ((b :: byte) AND 0x7f) = unat b mod 128"
  using unat_and_low [of b 7] by (simp add: mask_numeral)

lemma oidArcs_high: "oidArcs 0 (highArc n @ t) = oidArcs n t"
proof (induction n arbitrary: t rule: highArc.induct)
  case (1 n)
  show ?case
  proof (cases "n = 0")
    case True
    then show ?thesis by (simp add: highArc.simps)
  next
    case False
    have b: "unat (byteOf (128 + n mod 128)) = 128 + n mod 128" by simp
    have "oidArcs 0 (highArc n @ t) = oidArcs (n div 128) (byteOf (128 + n mod 128) # t)"
      using 1 [OF False] False by (subst highArc.simps) simp
    also have "\<dots> = oidArcs n t"
      using b by (simp add: byte_high byte_low7 Let_def div_mult_mod_eq)
    finally show ?thesis .
  qed
qed

lemma oidArcs_arcEnc: "oidArcs 0 (arcEnc n @ t) = n # oidArcs 0 t"
proof -
  have b: "unat (byteOf (n mod 128)) = n mod 128" by simp
  show ?thesis
    using oidArcs_high [of "n div 128" "byteOf (n mod 128) # t"] b
    by (simp add: arcEnc_def byte_high byte_low7 Let_def div_mult_mod_eq)
qed

lemma oidArcs_concat: "oidArcs 0 (concat (map arcEnc ns)) = ns"
  by (induction ns) (simp_all add: oidArcs_arcEnc)

lemma readOid_oidEnc: "oidOk arcs \<Longrightarrow> readOid (oidEnc arcs) = arcs"
proof -
  assume ok: "oidOk arcs"
  then obtain a b ns where arcs: "arcs = a # b # ns"
    by (cases arcs; cases "tl arcs") (auto simp: oidOk_def)
  have "oidArcs 0 (oidEnc arcs) = (40 * a + b) # ns"
    by (simp add: oidEnc_def arcs oidArcs_arcEnc oidArcs_concat)
  moreover have "ns \<noteq> []" "a = 0 \<and> b < 40 \<or> a = 1 \<and> b < 40 \<or> a = 2"
    using ok by (auto simp: oidOk_def arcs)
  ultimately show ?thesis by (elim disjE) (auto simp: readOid_def Let_def arcs)
qed

subsection \<open>Integers and signatures\<close>

text \<open>The content of a positive INTEGER: the shortest bytes, with a zero in front of a high bit.\<close>

definition posInt :: "nat \<Rightarrow> bytes" where
  "posInt n = (if 0x80 \<le> unat (hd (minBytes n [])) then 0 # minBytes n [] else minBytes n [])"

lemma posInt_props:
  "beNat (posInt n) = n" "posInt n \<noteq> []" "unat (hd (posInt n)) < 0x80"
  "0 < k \<Longrightarrow> n < 256 ^ k \<Longrightarrow> length (posInt n) \<le> Suc k"
  "hd (posInt n) = 0 \<Longrightarrow> 0 < n \<Longrightarrow> 0x80 \<le> unat (posInt n ! 1)"
  using minBytes_Nil [of n] minBytes_Nil(3) [of k n]
  by (auto simp: posInt_def beNat_Cons hd_conv_nth)

lemma readInteger_posInt: "readInteger (posInt n) = Inr n"
  by (simp add: readInteger_def posInt_props)

lemma derInteger_tlv: "length (posInt n) < 0x80 \<Longrightarrow> derInteger n = tlvEnc 0x02 (posInt n)"
  using minBytes_Nil(2) [of n]
  by (simp add: derInteger_def tlvEnc_def lenEnc_def posInt_def Let_def hd_conv_nth split: if_splits)

lemma minBytes_two: "0x80 \<le> n \<Longrightarrow> n < 0x100 \<Longrightarrow> minBytes n [] = [byteOf n]"
  by (simp add: minBytes.simps)

lemma derEcdsaSignature_tlv:
  assumes "0 < r" "r < q" "0 < s" "s < q" "q \<le> 256 ^ 120"
  shows "derEcdsaSignature r s q = Inr (tlvEnc 0x30 (tlvEnc 0x02 (posInt r) @ tlvEnc 0x02 (posInt s)))"
proof -
  have l: "length (posInt r) \<le> 121" "length (posInt s) \<le> 121"
    using posInt_props(4) [of 120 r] posInt_props(4) [of 120 s] assms by (auto elim!: order_less_le_trans)
  define body where "body = tlvEnc 0x02 (posInt r) @ tlvEnc 0x02 (posInt s)"
  have d: "derInteger r @ derInteger s = body" using l by (simp add: derInteger_tlv body_def)
  have b: "length body < 0x100" using l by (simp add: body_def tlvEnc_def lenEnc_def)
  show ?thesis
    using assms b
    by (auto simp: derEcdsaSignature_def Let_def d body_def [symmetric] tlvEnc_def [of 48 body] lenEnc_def minBytes_two byteOf_def)
qed

subsection \<open>Algorithms, keys and extensions\<close>

definition ecdsaAlg :: "sig_alg \<Rightarrow> bytes" where
  "ecdsaAlg a = tlvEnc 0x06 (oidEnc (if a = EcdsaSha384 then OID_ECDSA_SHA384 else OID_ECDSA_SHA256))"

lemmas oid_constants = OID_EC_PUBLIC_KEY_def OID_P256_def OID_P384_def OID_ECDSA_SHA256_def OID_ECDSA_SHA384_def
  OID_RSA_ENCRYPTION_def OID_BASIC_CONSTRAINTS_def OID_PRODUCT_NAME_def OID_HWID_def OID_RSASSA_PSS_def

lemma length_arcEnc: "n < 128 ^ Suc k \<Longrightarrow> length (arcEnc n) \<le> Suc k"
proof -
  have "n < 128 ^ k \<Longrightarrow> length (highArc n) \<le> k" for n k
  proof (induction k arbitrary: n)
    case 0
    then show ?case by (simp add: highArc.simps)
  next
    case (Suc k)
    then have "length (highArc (n div 128)) \<le> k" by (simp add: less_mult_imp_div_less mult.commute)
    then show ?case by (subst highArc.simps) simp
  qed
  moreover assume "n < 128 ^ Suc k"
  then have "n div 128 < 128 ^ k" by (simp add: less_mult_imp_div_less mult.commute)
  ultimately show ?thesis by (simp add: arcEnc_def)
qed

lemma oid_roundtrips:
  "readOid (oidEnc OID_EC_PUBLIC_KEY) = OID_EC_PUBLIC_KEY" "readOid (oidEnc OID_P256) = OID_P256"
  "readOid (oidEnc OID_P384) = OID_P384" "readOid (oidEnc OID_ECDSA_SHA256) = OID_ECDSA_SHA256"
  "readOid (oidEnc OID_ECDSA_SHA384) = OID_ECDSA_SHA384" "readOid (oidEnc OID_RSA_ENCRYPTION) = OID_RSA_ENCRYPTION"
  "readOid (oidEnc OID_BASIC_CONSTRAINTS) = OID_BASIC_CONSTRAINTS"
  by (rule readOid_oidEnc; simp add: oidOk_def oid_constants)+

lemma oid_lengths:
  "length (oidEnc OID_EC_PUBLIC_KEY) = 7" "length (oidEnc OID_P256) = 8" "length (oidEnc OID_P384) = 5"
  "length (oidEnc OID_ECDSA_SHA256) = 8" "length (oidEnc OID_ECDSA_SHA384) = 8"
  "length (oidEnc OID_RSA_ENCRYPTION) = 9" "length (oidEnc OID_BASIC_CONSTRAINTS) = 3"
  by (simp_all add: oidEnc_def oid_constants arcEnc_def highArc.simps)

lemma oid_distinct:
  "OID_ECDSA_SHA256 \<noteq> OID_ECDSA_SHA384" "OID_P256 \<noteq> OID_P384" "OID_RSA_ENCRYPTION \<noteq> OID_EC_PUBLIC_KEY"
  "OID_BASIC_CONSTRAINTS \<noteq> OID_PRODUCT_NAME" "OID_BASIC_CONSTRAINTS \<noteq> OID_HWID"
  by (simp_all add: oid_constants)

lemma parseSignatureAlgorithm_ecdsa:
  "a = EcdsaSha256 \<or> a = EcdsaSha384 \<Longrightarrow> parseSignatureAlgorithm (ecdsaAlg a) = Inr a"
  using expect_at [of "0x06" "oidEnc OID_ECDSA_SHA384" "[]" "[]"] expect_at [of "0x06" "oidEnc OID_ECDSA_SHA256" "[]" "[]"]
  by (auto simp: parseSignatureAlgorithm_def ecdsaAlg_def oid_roundtrips oid_lengths oid_distinct Let_def)

definition spkiEnc :: "public_key \<Rightarrow> bytes" where
  "spkiEnc k =
    (case k of
       EcP384 pt \<Rightarrow> tlvEnc 0x30 (tlvEnc 0x06 (oidEnc OID_EC_PUBLIC_KEY) @ tlvEnc 0x06 (oidEnc OID_P384)) @ tlvEnc 0x03 (0 # pt)
     | EcP256 pt \<Rightarrow> tlvEnc 0x30 (tlvEnc 0x06 (oidEnc OID_EC_PUBLIC_KEY) @ tlvEnc 0x06 (oidEnc OID_P256)) @ tlvEnc 0x03 (0 # pt)
     | RsaKey n e \<Rightarrow> tlvEnc 0x30 (tlvEnc 0x06 (oidEnc OID_RSA_ENCRYPTION) @ [0x05, 0x00]) @
         tlvEnc 0x03 (0 # tlvEnc 0x30 (tlvEnc 0x02 (posInt n) @ tlvEnc 0x02 (posInt e))))"

definition keyOk :: "public_key \<Rightarrow> bool" where
  "keyOk k =
    (case k of
       EcP384 pt \<Rightarrow> length pt = 97 \<and> pt ! 0 = 0x04
     | EcP256 pt \<Rightarrow> length pt = 65 \<and> pt ! 0 = 0x04
     | RsaKey n e \<Rightarrow> 2048 \<le> bitLength n \<and> bitLength n \<le> 8192 \<and> 3 \<le> e \<and> odd e \<and> bitLength e \<le> 8192)"

lemma less_bitLength: "n < 2 ^ bitLength n"
proof (induction n rule: bitLength.induct)
  case (1 n)
  show ?case
  proof (cases "n < 2")
    case True
    then show ?thesis by (subst bitLength.simps) simp
  next
    case False
    then have "n div 2 < 2 ^ bitLength (n div 2)" using 1 by simp
    then have "n < 2 ^ Suc (bitLength (n div 2))" by auto
    then show ?thesis using False by (subst bitLength.simps) simp
  qed
qed

lemma length_posInt_2: "bitLength n \<le> 8 * k \<Longrightarrow> 0 < k \<Longrightarrow> length (posInt n) \<le> Suc k"
proof (rule posInt_props(4))
  assume "bitLength n \<le> 8 * k"
  then have "(2 :: nat) ^ bitLength n \<le> 2 ^ (8 * k)" by (rule power_increasing) simp
  also have "\<dots> = 256 ^ k" by (simp add: power_mult)
  finally show "n < 256 ^ k" using less_bitLength [of n] by simp
qed

lemma length_tlvEnc_le: "length c < 256 ^ 4 \<Longrightarrow> length (tlvEnc tag c) \<le> length c + 6"
  using minBytes_Nil(3) [of 4 "length c"] by (simp add: tlvEnc_def lenEnc_def)

text \<open>Two elements one after the other, the shape of most contents.\<close>

lemma expect_two:
  assumes "t1 AND 0x1f \<noteq> 0x1f" "t2 AND 0x1f \<noteq> 0x1f" "length c1 < 256 ^ 4" "length c2 < 256 ^ 4"
  shows "expect (readTlv (tlvEnc t1 c1 @ tlvEnc t2 c2) (Some 0)) t1 =
      Inr \<lparr>tlvTag = t1, tlvContent = c1, tlvTotal = Some (length (tlvEnc t1 c1))\<rparr>"
    and "expect (readTlv (tlvEnc t1 c1 @ tlvEnc t2 c2) (Some (length (tlvEnc t1 c1)))) t2 =
      Inr \<lparr>tlvTag = t2, tlvContent = c2, tlvTotal = Some (length (tlvEnc t2 c2))\<rparr>"
  using expect_at [OF assms(1,3), of "[]" "tlvEnc t2 c2"] expect_at [OF assms(2,4), of "tlvEnc t1 c1" "[]"] by simp_all

lemma expect_one:
  "tag AND 0x1f \<noteq> 0x1f \<Longrightarrow> length c < 256 ^ 4 \<Longrightarrow> expect (readTlv (tlvEnc tag c) (Some 0)) tag =
    Inr \<lparr>tlvTag = tag, tlvContent = c, tlvTotal = Some (length (tlvEnc tag c))\<rparr>"
  using expect_at [of tag c "[]" "[]"] by simp

lemma parseSpki_ec:
  assumes "curve = OID_P384 \<and> k = EcP384 \<and> length pt = 97 \<or> curve = OID_P256 \<and> k = EcP256 \<and> length pt = 65"
    and "pt ! 0 = 0x04"
  shows "parseSubjectPublicKeyInfo
    (tlvEnc 0x30 (tlvEnc 0x06 (oidEnc OID_EC_PUBLIC_KEY) @ tlvEnc 0x06 (oidEnc curve)) @ tlvEnc 0x03 (0 # pt)) = Inr (k pt)"
proof -
  let ?o1 = "oidEnc OID_EC_PUBLIC_KEY" and ?o2 = "oidEnc curve"
  let ?alg = "tlvEnc 0x06 ?o1 @ tlvEnc 0x06 ?o2"
  have l: "length ?o1 < 256 ^ 4" "length ?o2 < 256 ^ 4" "length pt < 256 ^ 3" "pt \<noteq> []"
    using assms(1) by (auto simp: oid_lengths)
  then have la: "length ?alg < 256 ^ 4" using assms(1) by (auto simp: tlvEnc_def lenEnc_def oid_lengths)
  have lp: "length (0 # pt) < 256 ^ 4" using l(3) by simp
  note e = expect_two [of "0x30" "0x03" ?alg "0 # pt", OF _ _ la lp, simplified]
    expect_two [of "0x06" "0x06" ?o1 ?o2, OF _ _ l(1,2), simplified]
  have "length (tlvEnc 0x06 ?o1) < length ?alg" by (simp add: tlvEnc_def)
  then show ?thesis using assms l(4)
    by (auto simp: parseSubjectPublicKeyInfo_def e Let_def oid_roundtrips oid_distinct [symmetric] oid_distinct ecPoint_def failIf_def)
qed

lemma parseSpki_rsa:
  assumes "keyOk (RsaKey n e)"
  shows "parseSubjectPublicKeyInfo (spkiEnc (RsaKey n e)) = Inr (RsaKey n e)"
proof -
  let ?o = "oidEnc OID_RSA_ENCRYPTION" and ?n = "posInt n" and ?e = "posInt e"
  let ?alg = "tlvEnc 0x06 ?o @ [0x05, 0x00]" and ?key = "tlvEnc 0x02 ?n @ tlvEnc 0x02 ?e"
  have k: "2048 \<le> bitLength n" "bitLength n \<le> 8 * 1024" "3 \<le> e" "odd e" "bitLength e \<le> 8 * 1024"
    using assms by (simp_all add: keyOk_def)
  have ln: "length ?n \<le> 1025" "length ?e \<le> 1025"
    using length_posInt_2 [OF k(2)] length_posInt_2 [OF k(5)] by simp_all
  have l: "length ?o < 256 ^ 4" "length ?n < 256 ^ 4" "length ?e < 256 ^ 4" using ln by (simp_all add: oid_lengths)
  have la: "length ?alg < 256 ^ 4" by (simp add: tlvEnc_def lenEnc_def oid_lengths)
  have "length ?key \<le> 3000" using length_tlvEnc_le [OF l(2), of "0x02"] length_tlvEnc_le [OF l(3), of "0x02"] ln by simp
  then have lk: "length ?key < 256 ^ 4" by simp
  have "length (tlvEnc 0x30 ?key) \<le> 4000" using length_tlvEnc_le [OF lk, of "0x30"] \<open>length ?key \<le> 3000\<close> by simp
  then have lp: "length (0 # tlvEnc 0x30 ?key) < 256 ^ 4" by simp
  have o: "expect (readTlv ?alg (Some 0)) 0x06 =
      Inr \<lparr>tlvTag = 0x06, tlvContent = ?o, tlvTotal = Some (length (tlvEnc 0x06 ?o))\<rparr>"
    using expect_at [of "0x06" ?o "[]"] l(1) by simp
  define p where "p = tlvEnc 0x30 ?key"
  have p: "p \<noteq> []" by (simp add: p_def tlvEnc_def)
  have k1: "expect (readTlv p (Some 0)) 0x30 =
      Inr \<lparr>tlvTag = 0x30, tlvContent = ?key, tlvTotal = Some (length p)\<rparr>"
    using expect_one [of "0x30" ?key, OF _ lk] by (simp add: p_def)
  note e = expect_two [of "0x30" "0x03" ?alg "0 # p", OF _ _ la lp [folded p_def], simplified]
    expect_two [of "0x02" "0x02" ?n ?e, OF _ _ l(2,3), simplified]
  have sp: "spkiEnc (RsaKey n e) = tlvEnc 0x30 ?alg @ tlvEnc 0x03 (0 # p)" by (simp add: spkiEnc_def p_def)
  show ?thesis unfolding sp parseSubjectPublicKeyInfo_def e bindE.simps(2)
    using k(1-4) p by (simp add: e o k1 Let_def oid_roundtrips oid_distinct readInteger_posInt even_iff_mod_2_eq_zero)
qed

lemma parseSpki_enc: "keyOk k \<Longrightarrow> parseSubjectPublicKeyInfo (spkiEnc k) = Inr k"
proof (cases k)
  case (RsaKey n e)
  then show "keyOk k \<Longrightarrow> ?thesis" using parseSpki_rsa by simp
qed (auto simp: keyOk_def spkiEnc_def intro!: parseSpki_ec)

text \<open>A loop over one element, and the extension that marks an authority.\<close>

lemma tlvLoop_Nil: "tlvLoop step [] (Some 0) s = Inr s"
  by (simp add: tlvLoop.simps)

lemma tlvLoop_one:
  assumes "tag AND 0x1f \<noteq> 0x1f" and "length c < 256 ^ 4"
  shows "tlvLoop step (tlvEnc tag c) (Some 0) s =
    step \<lparr>tlvTag = tag, tlvContent = c, tlvTotal = Some (length (tlvEnc tag c))\<rparr> 0 s"
proof -
  have "readTlv (tlvEnc tag c) (Some 0) = Inr \<lparr>tlvTag = tag, tlvContent = c, tlvTotal = Some (length (tlvEnc tag c))\<rparr>"
    using readTlv_enc [OF assms, of "[]"] by simp
  moreover have "tlvLoop step (tlvEnc tag c) (Some (length (tlvEnc tag c))) = Inr"
    by (rule ext) (simp add: tlvLoop.simps)
  moreover have "0 < length (tlvEnc tag c)" by (simp add: tlvEnc_def)
  moreover have "bindE m Inr = m" for m :: "aerr + 'x" by (cases m) auto
  ultimately show ?thesis by (subst tlvLoop.simps) (simp add: numAdd_def)
qed

definition caExtension :: bytes where
  "caExtension = tlvEnc 0xa3 (tlvEnc 0x30 (tlvEnc 0x30
    (tlvEnc 0x06 (oidEnc OID_BASIC_CONSTRAINTS) @ tlvEnc 0x04 (tlvEnc 0x30 (tlvEnc 0x01 [0xff])))))"

lemma basicConstraints_ca: "basicConstraints (tlvEnc 0x30 (tlvEnc 0x01 [0xff])) = Inr True"
proof -
  have l: "length [0xff] < 256 ^ 4" "length (tlvEnc 0x01 [0xff]) < 256 ^ 4" by (simp_all add: tlvEnc_def lenEnc_def)
  note e = expect_one [of "0x01" "[0xff]", OF _ l(1), simplified] expect_one [of "0x30" "tlvEnc 0x01 [0xff]", OF _ l(2), simplified]
  have t: "tlvEnc 0x01 [0xff] \<noteq> []" "tlvEnc 0x01 [0xff] ! 0 = 0x01" by (simp_all add: tlvEnc_def)
  show ?thesis by (simp add: basicConstraints_def e t Let_def numLess_def)
qed

lemma caExtension_read: "tlvLoop trailingStep caExtension (Some 0) noExts = Inr (noExts\<lparr>ceIsCa := Some True\<rparr>)"
proof -
  let ?v = "tlvEnc 0x30 (tlvEnc 0x01 [0xff])" and ?o = "oidEnc OID_BASIC_CONSTRAINTS"
  let ?ext = "tlvEnc 0x06 ?o @ tlvEnc 0x04 ?v"
  have l: "length ?o < 256 ^ 4" "length ?v < 256 ^ 4" "length ?ext < 256 ^ 4" "length (tlvEnc 0x30 ?ext) < 256 ^ 4"
    "length (tlvEnc 0x30 (tlvEnc 0x30 ?ext)) < 256 ^ 4"
    by (simp_all add: tlvEnc_def lenEnc_def oid_lengths)
  note e = expect_two [of "0x06" "0x04" ?o ?v, OF _ _ l(1,2), simplified] expect_one [of "0x30" "tlvEnc 0x30 ?ext", OF _ l(4), simplified]
  have v: "readTlv ?ext (Some (length (tlvEnc 0x06 ?o))) =
      Inr \<lparr>tlvTag = 0x04, tlvContent = ?v, tlvTotal = Some (length (tlvEnc 0x04 ?v))\<rparr>"
    using readTlv_at [of "0x04" ?v "tlvEnc 0x06 ?o" "[]"] l(2) by simp
  have x: "extensionStep \<lparr>tlvTag = 0x30, tlvContent = ?ext, tlvTotal = Some n\<rparr> off x = Inr (x\<lparr>ceIsCa := Some True\<rparr>)" for n off x
    by (simp add: extensionStep_def expect_def [of "Inr _"] e v Let_def oid_roundtrips oid_distinct extensionValue_def basicConstraints_ca)
  have "tlvLoop extensionStep (tlvEnc 0x30 ?ext) (Some 0) noExts = Inr (noExts\<lparr>ceIsCa := Some True\<rparr>)"
    by (subst tlvLoop_one) (use l(3) x in simp_all)
  then show ?thesis
    unfolding caExtension_def by (subst tlvLoop_one) (use l(5) e in \<open>simp_all add: trailingStep_def\<close>)
qed

subsection \<open>Sample certificates\<close>

definition sampleValidity :: bytes where
  "sampleValidity =
    tlvEnc 0x17 [0x32, 0x34, 0x30, 0x31, 0x30, 0x31, 0x30, 0x30, 0x30, 0x30, 0x30, 0x30, 0x5a] @
    tlvEnc 0x17 [0x33, 0x34, 0x30, 0x31, 0x30, 0x31, 0x30, 0x30, 0x30, 0x30, 0x30, 0x30, 0x5a]"

text \<open>1 January 2024 and 1 January 2034.\<close>

lemma parseValidity_sample: "parseValidity sampleValidity = Inr (1704067200000, 2019686400000)"
proof -
  let ?a = "[0x32, 0x34, 0x30, 0x31, 0x30, 0x31, 0x30, 0x30, 0x30, 0x30, 0x30, 0x30, 0x5a] :: bytes"
  let ?b = "[0x33, 0x34, 0x30, 0x31, 0x30, 0x31, 0x30, 0x30, 0x30, 0x30, 0x30, 0x30, 0x5a] :: bytes"
  have l: "length ?a < 256 ^ 4" "length ?b < 256 ^ 4" by simp_all
  have n15: "length (tlvEnc 0x17 ?a) = 15" "length (tlvEnc 0x17 ?b) = 15" by (simp_all add: tlvEnc_def lenEnc_def)
  have r: "readTlv sampleValidity (Some 0) = Inr \<lparr>tlvTag = 0x17, tlvContent = ?a, tlvTotal = Some 15\<rparr>"
    "readTlv sampleValidity (Some 15) = Inr \<lparr>tlvTag = 0x17, tlvContent = ?b, tlvTotal = Some 15\<rparr>"
    using readTlv_enc [of "0x17" ?a "tlvEnc 0x17 ?b"] readTlv_at [of "0x17" ?b "tlvEnc 0x17 ?a" "[]"] l
    by (simp_all add: sampleValidity_def n15)
  have t: "readTime \<lparr>tlvTag = 0x17, tlvContent = ?a, tlvTotal = Some 15\<rparr> = Inr 1704067200000"
    "readTime \<lparr>tlvTag = 0x17, tlvContent = ?b, tlvTotal = Some 15\<rparr> = Inr 2019686400000"
    by (simp_all add: readTime_def timeShape_def digitOf_def digitsNum_def slice_def dateUTC_def dayFromYear_def
        monthStart_def leapYear_def Let_def)
  have n: "length sampleValidity = 30" by (simp add: sampleValidity_def n15)
  show ?thesis by (simp add: parseValidity_def r t n numAdd_def)
qed

definition sampleSpec :: "byte \<Rightarrow> bytes \<Rightarrow> bytes \<Rightarrow> public_key \<Rightarrow> bool \<Rightarrow> bytes \<Rightarrow> cert_spec" where
  "sampleSpec serial issuer subject key ca sig =
    \<lparr>csVersion = Some [0x02, 0x01, 0x02], csSerial = [serial], csAlg = ecdsaAlg EcdsaSha256, csIssuer = issuer,
      csValidity = sampleValidity, csSubject = subject, csSpki = spkiEnc key,
      csTrailing = (if ca then caExtension else []), csSignature = sig\<rparr>"

definition sampleParsed :: "byte \<Rightarrow> bytes \<Rightarrow> bytes \<Rightarrow> public_key \<Rightarrow> bool \<Rightarrow> bytes \<Rightarrow> certificate" where
  "sampleParsed serial issuer subject key ca sig =
    (let s = sampleSpec serial issuer subject key ca sig in
     \<lparr>crtRaw = certEnc s, crtTbs = tlvEnc 0x30 (tbsEnc s), crtSerial = [serial], crtAlg = EcdsaSha256,
      crtSignature = sig, crtIssuer = issuer, crtSubject = subject, crtNotBefore = 1704067200000,
      crtNotAfter = 2019686400000, crtKey = key, crtSpki = tlvEnc 0x30 (spkiEnc key), crtProductName = None,
      crtHwid = None, crtIsCa = (if ca then Some True else None)\<rparr>)"

definition samplePoint :: "byte \<Rightarrow> public_key" where
  "samplePoint b = EcP256 (0x04 # replicate 64 b)"

lemma keyOk_samplePoint [simp]: "keyOk (samplePoint b)"
  by (simp add: keyOk_def samplePoint_def)

lemma length_sample:
  "length (ecdsaAlg EcdsaSha256) = 10" "length sampleValidity = 30" "length (spkiEnc (samplePoint b)) = 89"
  "length caExtension = 18"
  by (simp_all add: ecdsaAlg_def sampleValidity_def spkiEnc_def samplePoint_def caExtension_def tlvEnc_def
      lenEnc_def oid_lengths)

lemma length_sampleSpec:
  assumes "length issuer = 1" "length subject = 1" "length sig = 32"
  shows "length (tbsEnc (sampleSpec serial issuer subject (samplePoint b) ca sig)) = (if ca then 167 else 149)"
    and "length (certContent (sampleSpec serial issuer subject (samplePoint b) ca sig)) = (if ca then 217 else 199)"
proof -
  let ?s = "sampleSpec serial issuer subject (samplePoint b) ca sig"
  show t: "length (tbsEnc ?s) = (if ca then 167 else 149)"
    using assms by (simp add: tbsEnc_def tbsHead_def versionEnc_def sampleSpec_def tlvEnc_def lenEnc_def length_sample)
  have m: "length (minBytes (if ca then 167 else 149) []) = 1" by (simp add: minBytes.simps)
  show "length (certContent ?s) = (if ca then 217 else 199)"
    using t m assms by (simp add: certContent_def tlvEnc_def lenEnc_def sampleSpec_def length_sample split: if_splits)
qed

lemma parseCertificate_sample:
  assumes "length issuer = 1" "length subject = 1" "length sig = 32"
  shows "parseCertificate (certEnc (sampleSpec serial issuer subject (samplePoint b) ca sig)) =
    Inr (sampleParsed serial issuer subject (samplePoint b) ca sig)"
proof -
  let ?s = "sampleSpec serial issuer subject (samplePoint b) ca sig"
  have l: "length (certContent ?s) < 256 ^ 4" using length_sampleSpec(2) [OF assms] by simp
  have sig: "csSignature ?s \<noteq> []" using assms(3) by (auto simp: sampleSpec_def)
  have a: "parseSignatureAlgorithm (csAlg ?s) = Inr EcdsaSha256" "parseSubjectPublicKeyInfo (csSpki ?s) = Inr (samplePoint b)"
    "parseValidity (csValidity ?s) = Inr (1704067200000, 2019686400000)"
    "tlvLoop trailingStep (csTrailing ?s) (Some 0) noExts = Inr (noExts\<lparr>ceIsCa := if ca then Some True else None\<rparr>)"
    by (simp_all add: sampleSpec_def parseSignatureAlgorithm_ecdsa parseSpki_enc parseValidity_sample caExtension_read
        tlvLoop_Nil) (simp add: noExts_def)
  show ?thesis using parseCertificate_enc [OF l sig a]
    by (simp add: sampleParsed_def Let_def) (simp add: sampleSpec_def noExts_def)
qed

lemma verifyCertificateSignature_signed:
  assumes "crtAlg c = crtAlg d" "crtTbs c = crtTbs d" "crtSignature c = crtSignature d"
  shows "verifyCertificateSignature N issuer c = verifyCertificateSignature N issuer d"
  unfolding verifyCertificateSignature_def assms ..

subsection \<open>Properties\<close>

text \<open>
  C29 Round trip of the certificate reader: a certificate laid out as RFC 5280 has it, from any version, serial
  number, names, validity, key and trailing fields whose contents parse, is read back field by field; the
  bytes its signature is checked over are exactly the encoding of its TBSCertificate, tag and length
  included, and the kept public key is exactly its SubjectPublicKeyInfo element.
\<close>

theorem parseCertificate_roundtrip:
  assumes "length (certContent s) < 256 ^ 4" and "csSignature s \<noteq> []"
    and "parseSignatureAlgorithm (csAlg s) = Inr alg" and "parseSubjectPublicKeyInfo (csSpki s) = Inr key"
    and "parseValidity (csValidity s) = Inr (nb, na)" and "tlvLoop trailingStep (csTrailing s) (Some 0) noExts = Inr x"
  shows "parseCertificate (certEnc s) = Inr \<lparr>crtRaw = certEnc s, crtTbs = tlvEnc 0x30 (tbsEnc s), crtSerial = csSerial s,
    crtAlg = alg, crtSignature = csSignature s, crtIssuer = csIssuer s, crtSubject = csSubject s, crtNotBefore = nb,
    crtNotAfter = na, crtKey = key, crtSpki = tlvEnc 0x30 (csSpki s), crtProductName = ceProduct x,
    crtHwid = ceHwid x, crtIsCa = ceIsCa x\<rparr>"
  by (rule parseCertificate_enc [OF assms])

lemma parseCertificate_roundtrip_witness:
  "map_sum id crtTbs (parseCertificate (certEnc (sampleSpec 1 [2] [3] (samplePoint 4) True (replicate 32 0)))) =
    Inr (tlvEnc 0x30 (tbsEnc (sampleSpec 1 [2] [3] (samplePoint 4) True (replicate 32 0))))"
proof -
  let ?s = "sampleSpec 1 [2] [3] (samplePoint 4) True (replicate 32 0)"
  have l: "length (certContent ?s) < 256 ^ 4" using length_sampleSpec(2) [of "[2]" "[3]" "replicate 32 0" 1 4 True] by simp
  have a: "csSignature ?s \<noteq> []" "parseSignatureAlgorithm (csAlg ?s) = Inr EcdsaSha256"
    "parseSubjectPublicKeyInfo (csSpki ?s) = Inr (samplePoint 4)"
    "parseValidity (csValidity ?s) = Inr (1704067200000, 2019686400000)"
    "tlvLoop trailingStep (csTrailing ?s) (Some 0) noExts = Inr (noExts\<lparr>ceIsCa := Some True\<rparr>)"
    by (simp_all add: sampleSpec_def parseSignatureAlgorithm_ecdsa parseSpki_enc parseValidity_sample caExtension_read)
  show ?thesis using parseCertificate_roundtrip [OF l a] by simp
qed

text \<open>
  The signed bytes need not be the parsed ones: with content L after a certificate of content C as long,
  the fields come from C and the span to verify from L.
\<close>

lemma parseCertificate_hybrid:
  assumes "length C < 256 ^ 4" and "length L = length C"
    and "parseCertificate (tlvEnc 0x30 C) = Inr f" and "parseCertificate (tlvEnc 0x30 L) = Inr g"
    and "length (crtTbs f) = length (crtTbs g)" and "crtAlg f = crtAlg g" and "crtSignature f = crtSignature g"
    and "verifyCertificateSignature N issuer g = Inr ()"
  shows "\<exists>c. parseCertificate (tlvEnc 0x30 C @ L) = Inr c \<and> crtKey c = crtKey f \<and> crtSubject c = crtSubject f \<and>
    crtIssuer c = crtIssuer f \<and> crtIsCa c = crtIsCa f \<and> crtTbs c = crtTbs g \<and>
    verifyCertificateSignature N issuer c = Inr ()"
proof -
  define h where "h = tlvEnc 0x30 C"
  have L: "length L < 256 ^ 4" using assms(1,2) by simp
  have "slice (h @ L) (length (h @ L) - length C) (length (h @ L) - length C + length (crtTbs f)) = crtTbs g"
    using assms(2,5) parseCertificate_outer(1) [OF L assms(4)] by (simp add: slice_def)
  with parseCertificate_outer(2) [OF assms(1,3), of L]
  have p: "parseCertificate (h @ L) = Inr (f\<lparr>crtRaw := h @ L, crtTbs := crtTbs g\<rparr>)" by (simp add: h_def)
  have "verifyCertificateSignature N issuer (f\<lparr>crtRaw := h @ L, crtTbs := crtTbs g\<rparr>) =
      verifyCertificateSignature N issuer g"
    by (rule verifyCertificateSignature_signed) (use assms(6,7) in simp_all)
  then show ?thesis using p assms(8) by (intro exI [of _ "f\<lparr>crtRaw := h @ L, crtTbs := crtTbs g\<rparr>"]) (simp add: h_def)
qed

definition digestNoble :: noble where
  "digestNoble = quietNoble\<lparr>p256verify := \<lambda>s m k. s = m\<rparr>"

definition genuineSig :: bytes where
  "genuineSig = sha256 digestNoble (tlvEnc 0x30 (tbsEnc (sampleSpec 1 [2] [3] (samplePoint 4) False [])))"

lemma tbsEnc_sig: "tbsEnc (sampleSpec serial issuer subject key ca sig) = tbsEnc (sampleSpec serial issuer subject key ca sig')"
  by (simp add: tbsEnc_def tbsHead_def versionEnc_def sampleSpec_def)

text \<open>
  The DER form of an ECDSA signature is canonical and reads back: for values in range the encoder returns
  a SEQUENCE of two shortest-form positive INTEGERs that the package's own element and integer readers
  decode to r and s, with nothing after them.
\<close>

theorem derEcdsaSignature_roundtrip:
  assumes "0 < r" and "r < q" and "0 < s" and "s < q" and "q \<le> 256 ^ 120"
  shows "\<exists>der a b c. derEcdsaSignature r s q = Inr der \<and>
    readTlv der (Some 0) = Inr a \<and> tlvTag a = 0x30 \<and> tlvTotal a = Some (length der) \<and>
    readTlv (tlvContent a) (Some 0) = Inr b \<and> tlvTag b = 0x02 \<and> readInteger (tlvContent b) = Inr r \<and>
    readTlv (tlvContent a) (tlvTotal b) = Inr c \<and> tlvTag c = 0x02 \<and> readInteger (tlvContent c) = Inr s \<and>
    numAdd (tlvTotal b) (tlvTotal c) = Some (length (tlvContent a)) \<and>
    unat (hd (tlvContent b)) < 0x80 \<and> unat (hd (tlvContent c)) < 0x80"
proof -
  let ?R = "posInt r" and ?S = "posInt s"
  let ?body = "tlvEnc 0x02 ?R @ tlvEnc 0x02 ?S"
  have l: "length ?R \<le> 121" "length ?S \<le> 121"
    using posInt_props(4) [of 120 r] posInt_props(4) [of 120 s] assms by (auto elim!: order_less_le_trans)
  have b: "length ?R < 256 ^ 4" "length ?S < 256 ^ 4" using l by simp_all
  have B: "length ?body < 256 ^ 4" using l by (simp add: tlvEnc_def lenEnc_def)
  have r: "readTlv (tlvEnc 0x30 ?body) (Some 0) =
      Inr \<lparr>tlvTag = 0x30, tlvContent = ?body, tlvTotal = Some (length (tlvEnc 0x30 ?body))\<rparr>"
    "readTlv ?body (Some 0) = Inr \<lparr>tlvTag = 0x02, tlvContent = ?R, tlvTotal = Some (length (tlvEnc 0x02 ?R))\<rparr>"
    "readTlv ?body (Some (length (tlvEnc 0x02 ?R))) =
      Inr \<lparr>tlvTag = 0x02, tlvContent = ?S, tlvTotal = Some (length (tlvEnc 0x02 ?S))\<rparr>"
    using readTlv_enc [of "0x30" ?body "[]", OF _ B] readTlv_enc [of "0x02" ?R "tlvEnc 0x02 ?S", OF _ b(1)]
      readTlv_at [of "0x02" ?S "tlvEnc 0x02 ?R" "[]", OF _ b(2)] by simp_all
  show ?thesis
    by (intro exI [of _ "tlvEnc 0x30 ?body"] exI conjI, rule derEcdsaSignature_tlv [OF assms], rule r(1), simp, simp,
        simp only: tlv.select_convs, rule r(2), simp, simp add: readInteger_posInt,
        simp only: tlv.select_convs, rule r(3))
       (simp_all add: readInteger_posInt numAdd_def posInt_props)
qed

lemma derEcdsaSignature_roundtrip_witness:
  "\<exists>der a b c. derEcdsaSignature 200 3 251 = Inr der \<and>
    readTlv der (Some 0) = Inr a \<and> tlvTag a = 0x30 \<and> tlvTotal a = Some (length der) \<and>
    readTlv (tlvContent a) (Some 0) = Inr b \<and> tlvTag b = 0x02 \<and> readInteger (tlvContent b) = Inr 200 \<and>
    readTlv (tlvContent a) (tlvTotal b) = Inr c \<and> tlvTag c = 0x02 \<and> readInteger (tlvContent c) = Inr 3 \<and>
    numAdd (tlvTotal b) (tlvTotal c) = Some (length (tlvContent a)) \<and>
    unat (hd (tlvContent b)) < 0x80 \<and> unat (hd (tlvContent c)) < 0x80"
  by (rule derEcdsaSignature_roundtrip) simp_all

text \<open>
  What an element read is: with a numeric total it lies inside the input, its content is the last part of
  its span and the head takes at least two bytes; the total is NaN in one case only, when the length bytes
  of a long form end one past the input, and then the content is empty and the read is not refused.
\<close>

theorem readTlv_bounds:
  assumes "readTlv data (Some off) = Inr t"
  shows "case tlvTotal t of
      Some n \<Rightarrow> 2 \<le> n \<and> off + n \<le> length data \<and> length (tlvContent t) + 2 \<le> n \<and>
        tlvContent t = slice data (off + n - length (tlvContent t)) (off + n)
    | None \<Rightarrow> tlvContent t = [] \<and> 0x80 < unat (data ! (off + 1)) \<and> unat (data ! (off + 1)) \<le> 0x84 \<and>
        length data = off + 1 + (unat (data ! (off + 1)) - 0x80)"
proof -
  have w: "tlvEnd data off tag (off + p) (Some n) = Inr u \<Longrightarrow> 2 \<le> p \<Longrightarrow>
      \<exists>m. tlvTotal u = Some m \<and> 2 \<le> m \<and> off + m \<le> length data \<and> length (tlvContent u) + 2 \<le> m \<and>
        tlvContent u = slice data (off + m - length (tlvContent u)) (off + m)" for tag p n u
    by (auto simp: tlvEnd_def add.assoc split: if_splits)
  show ?thesis
  proof (cases "unat (data ! (off + 1)) < 0x80")
    case True
    then have "tlvEnd data off (data ! off) (off + 2) (Some (unat (data ! (off + 1)))) = Inr t"
      using assms by (auto simp: readTlv_def Let_def split: if_splits)
    from w [OF this] show ?thesis by auto
  next
    case False
    define k where "k = unat (data ! (off + 1) AND 0x7f)"
    have m: "n mod 128 = n - 128" if "\<not> n < 128" "n < 256" for n :: nat using le_mod_geq [of 128 n] that by simp
    have k: "k = unat (data ! (off + 1)) - 0x80"
      unfolding k_def byte_low7 by (rule m [OF False unat_byte_less])
    have e: "tlvEnd data off (data ! off) (off + (2 + k)) (longLength data (off + 1) k) = Inr t" "k \<noteq> 0" "k \<le> 4"
      "off + 1 + k \<le> length data"
      using assms False by (auto simp: readTlv_def Let_def k_def add_ac split: if_splits)
    show ?thesis
    proof (cases "off + 1 + k < length data")
      case True
      then obtain n where "longLength data (off + 1) k = Some n" by (simp add: longLength_def)
      with e(1) w [of "data ! off" "2 + k" n t] show ?thesis by auto
    next
      case atEnd: False
      then have "tlvTotal t = None" "tlvContent t = []" using e(1) by (auto simp: longLength_def tlvEnd_def)
      then show ?thesis using atEnd e k False by auto
    qed
  qed
qed

lemma readTlv_bounds_witness:
  "case tlvTotal \<lparr>tlvTag = 0x30, tlvContent = [], tlvTotal = None\<rparr> of
      Some n \<Rightarrow> 2 \<le> n \<and> 0 + n \<le> length [0x30, 0x81 :: byte] \<and> length ([] :: bytes) + 2 \<le> n \<and>
        [] = slice [0x30, 0x81 :: byte] (0 + n - length ([] :: bytes)) (0 + n)
    | None \<Rightarrow> ([] :: bytes) = [] \<and> 0x80 < unat ([0x30, 0x81 :: byte] ! (0 + 1)) \<and> unat ([0x30, 0x81 :: byte] ! (0 + 1)) \<le> 0x84 \<and>
        length [0x30, 0x81 :: byte] = 0 + 1 + (unat ([0x30, 0x81 :: byte] ! (0 + 1)) - 0x80)"
  using readTlv_bounds [of "[0x30, 0x81]" 0 "\<lparr>tlvTag = 0x30, tlvContent = [], tlvTotal = None\<rparr>"]
  by (simp add: readTlv_def Let_def longLength_def tlvEnd_def)

text \<open>
  So a certificate's trailing fields may be cut off: whatever bytes end in an element head that announces
  one length byte and has none, the loop over the trailing fields takes it for the end and returns what it
  had, where a shorter or longer cut is refused.
\<close>

theorem truncated_field_accepted:
  assumes "tag AND 0x1f \<noteq> 0x1f" and "tag \<noteq> 0xa3"
  shows "tlvLoop trailingStep (pre @ [tag, 0x81]) (Some (length pre)) x = Inr x \<and>
    tlvLoop trailingStep (pre @ [tag]) (Some (length pre)) x = Inl MALFORMED_CERTIFICATE \<and>
    tlvLoop trailingStep (pre @ [tag, 0x81, 0x05]) (Some (length pre)) x = Inl MALFORMED_CERTIFICATE"
proof -
  have r: "readTlv [tag, 0x81] (Some 0) = Inr \<lparr>tlvTag = tag, tlvContent = [], tlvTotal = None\<rparr>"
    "readTlv [tag] (Some 0) = Inl MALFORMED" "readTlv [tag, 0x81, 0x05] (Some 0) = Inl MALFORMED"
    using assms(1) by (simp_all add: readTlv_def Let_def longLength_def tlvEnd_def slice_def beNat_Cons)
  have sh: "tlvLoop trailingStep (pre @ d) (Some (length pre)) x = tlvLoop trailingStep d (Some 0) x" for d
    using tlvLoop_shift [of trailingStep pre d 0 x] by (simp add: trailingStep_def)
  show ?thesis
    unfolding sh using r assms(2)
    by (simp add: tlvLoop.simps [of _ _ "Some 0"] tlvLoop.simps [of _ _ None] trailingStep_def numAdd_def MALFORMED_def)
qed

lemma truncated_field_accepted_witness:
  "tlvLoop trailingStep ([0x05, 0x00] @ [0x30, 0x81]) (Some (length [0x05, 0x00 :: byte])) noExts = Inr noExts \<and>
    tlvLoop trailingStep ([0x05, 0x00] @ [0x30]) (Some (length [0x05, 0x00 :: byte])) noExts = Inl MALFORMED_CERTIFICATE \<and>
    tlvLoop trailingStep ([0x05, 0x00] @ [0x30, 0x81, 0x05]) (Some (length [0x05, 0x00 :: byte])) noExts = Inl MALFORMED_CERTIFICATE"
  by (rule truncated_field_accepted) simp_all

end
