(* ===== verification/Pem.thy ===== *)
theory Pem
  imports DerSpec
begin

text \<open>
  Base64 and PEM as packages/attest-core/src/der.ts reads them: reference encoders, the round trips, and the
  input formats under which \<open>parseCertificateChain\<close> reaches \<open>parseCertificate\<close>.
\<close>

subsection \<open>Base64\<close>

definition b64Char :: "nat \<Rightarrow> cu" where
  "b64Char n =
    cuOf (if n < 26 then 0x41 + n else if n < 52 then 0x61 + (n - 26) else if n < 62 then 0x30 + (n - 52)
      else if n = 62 then 0x2b else 0x2f)"

fun b64Enc :: "bytes \<Rightarrow> jsstr" where
  "b64Enc [] = []"
| "b64Enc [a] = [b64Char (unat a div 4), b64Char (unat a mod 4 * 16), equalsSign, equalsSign]"
| "b64Enc [a, b] =
    [b64Char (unat a div 4), b64Char (unat a mod 4 * 16 + unat b div 16), b64Char (unat b mod 16 * 4), equalsSign]"
| "b64Enc (a # b # c # t) =
    b64Char (unat a div 4) # b64Char (unat a mod 4 * 16 + unat b div 16) #
    b64Char (unat b mod 16 * 4 + unat c div 64) # b64Char (unat c mod 64) # b64Enc t"

lemma b64Index_char: "n < 64 \<Longrightarrow> b64Index (b64Char n) = Some n"
  by (auto simp: b64Index_def b64Char_def Let_def)

lemma b64Char_not_equals: "n < 64 \<Longrightarrow> b64Char n \<noteq> equalsSign"
  using b64Index_char [of n] by (auto simp: b64Index_def equalsSign_def)

lemma six_bits:
  "unat (a :: byte) div 4 < 64" "unat a mod 4 * 16 < 64" "unat a mod 4 * 16 + unat (b :: byte) div 16 < 64"
  "unat b mod 16 * 4 < 64" "unat b mod 16 * 4 + unat (c :: byte) div 64 < 64" "unat c mod 64 < 64"
proof -
  have "unat a div 4 < 64" "unat b div 16 < 16" "unat c div 64 < 4" by (simp_all add: less_mult_imp_div_less)
  then show "unat (a :: byte) div 4 < 64" "unat a mod 4 * 16 < 64" "unat a mod 4 * 16 + unat (b :: byte) div 16 < 64"
    "unat b mod 16 * 4 < 64" "unat b mod 16 * 4 + unat (c :: byte) div 64 < 64" "unat c mod 64 < 64"
    using mod_less_divisor [of 4 "unat a"] mod_less_divisor [of 16 "unat b"] by (auto intro: mod_less_divisor; linarith)+
qed

lemma digits_split:
  fixes k m u :: nat
  assumes "u < m"
  shows "(k * m + u) div m = k" "(k * m + u) mod m = u"
  using assms by simp_all

lemma quads:
  fixes q r u :: nat
  shows "u < 16 \<Longrightarrow> (q * 64 + (r * 16 + u)) div 16 = 4 * q + r" "u < 16 \<Longrightarrow> (q * 64 + (r * 16 + u)) mod 16 = u"
    "u < 4 \<Longrightarrow> (q * 64 + (r * 4 + u)) div 4 = 16 * q + r" "u < 4 \<Longrightarrow> (q * 64 + (r * 4 + u)) mod 4 = u"
  using digits_split [of u 16 "4 * q + r"] digits_split [of u 4 "16 * q + r"] by (simp_all add: algebra_simps)

lemma byteOf_regroup:
  "4 * (unat (a :: byte) div 4) + unat a mod 4 = unat a" "16 * (unat (a :: byte) div 16) + unat a mod 16 = unat a"
  "unat (a :: byte) div 64 * 64 + unat a mod 64 = unat a"
  by presburger+

lemma digit_bounds: "unat (b :: byte) div 16 < 16" "unat (b :: byte) div 64 < 4"
  by (simp_all add: less_mult_imp_div_less)

lemma b64Loop_two:
  "b64Loop 0 0 (b64Char (unat a div 4) # b64Char (unat a mod 4 * 16 + unat (b :: byte) div 16) # cs) =
    a # b64Loop (unat b div 16) 4 cs"
  using six_bits(1) [of a] six_bits(3) [of a b] quads(1,2) [OF digit_bounds(1) [of b], of "unat a div 4" "unat a mod 4"]
  by (simp add: b64Index_char Let_def byteOf_regroup)

lemma b64Loop_third:
  "b64Loop (unat b div 16) 4 (b64Char (unat b mod 16 * 4 + unat (c :: byte) div 64) # cs) = b # b64Loop (unat c div 64) 2 cs"
  using six_bits(5) [of b c] quads(3,4) [OF digit_bounds(2) [of c], of "unat b div 16" "unat b mod 16"]
  by (simp add: b64Index_char Let_def byteOf_regroup)

lemma b64Loop_fourth: "b64Loop (unat c div 64) 2 (b64Char (unat c mod 64) # cs) = c # b64Loop 0 0 cs"
  using six_bits(6) [of c] by (simp add: b64Index_char Let_def byteOf_regroup)

text \<open>The text without its padding.\<close>

fun b64Body :: "bytes \<Rightarrow> jsstr" where
  "b64Body [] = []"
| "b64Body [a] = [b64Char (unat a div 4), b64Char (unat a mod 4 * 16)]"
| "b64Body [a, b] =
    [b64Char (unat a div 4), b64Char (unat a mod 4 * 16 + unat b div 16), b64Char (unat b mod 16 * 4)]"
| "b64Body (a # b # c # t) =
    b64Char (unat a div 4) # b64Char (unat a mod 4 * 16 + unat b div 16) #
    b64Char (unat b mod 16 * 4 + unat c div 64) # b64Char (unat c mod 64) # b64Body t"

lemma b64Loop_body: "b64Loop 0 0 (b64Body bs) = bs"
proof (induction bs rule: b64Body.induct)
  case (2 a)
  then show ?case using b64Loop_two [of a 0 "[]"] by (simp del: b64Loop.simps(2))
next
  case (3 a b)
  then show ?case using b64Loop_two [of a b] b64Loop_third [of b 0 "[]"] by (simp del: b64Loop.simps(2))
next
  case (4 a b c t)
  then show ?case by (simp only: b64Body.simps b64Loop_two b64Loop_third b64Loop_fourth)
qed simp

lemma b64Enc_body: "\<exists>k\<le>2. b64Enc bs = b64Body bs @ replicate k equalsSign \<and> 4 dvd length (b64Enc bs)"
proof (induction bs rule: b64Enc.induct)
  case 1
  then show ?case by (intro exI [of _ 0]) simp
next
  case (2 a)
  have "length (b64Enc [a]) = 4" by simp
  moreover have "b64Enc [a] = b64Body [a] @ replicate 2 equalsSign" by (simp add: numeral_2_eq_2)
  ultimately show ?case by (metis dvd_refl order_refl)
next
  case (3 a b)
  have "length (b64Enc [a, b]) = 4" by simp
  moreover have "b64Enc [a, b] = b64Body [a, b] @ replicate 1 equalsSign" by simp
  ultimately show ?case by (metis dvd_refl one_le_numeral)
next
  case (4 a b c t)
  then obtain k where k: "k \<le> 2" "b64Enc t = b64Body t @ replicate k equalsSign" "4 dvd length (b64Enc t)" by blast
  have "length (b64Enc (a # b # c # t)) = 4 + length (b64Enc t)" by simp
  then have "4 dvd length (b64Enc (a # b # c # t))" using k(3) by (metis dvd_add dvd_refl)
  moreover have "b64Enc (a # b # c # t) = b64Body (a # b # c # t) @ replicate k equalsSign" by (simp add: k(2))
  ultimately show ?case using k(1) by blast
qed

lemma b64Char_ok: "n < 64 \<Longrightarrow> b64Index (b64Char n) \<noteq> None \<and> b64Char n \<noteq> equalsSign"
  using b64Index_char b64Char_not_equals by simp

lemma b64Body_chars: "list_all (\<lambda>c. b64Index c \<noteq> None \<and> c \<noteq> equalsSign) (b64Body bs)"
proof (induction bs rule: b64Body.induct)
  case (2 a)
  then show ?case using b64Char_ok [OF six_bits(1)] b64Char_ok [OF six_bits(2)] by simp
next
  case (3 a b)
  then show ?case using b64Char_ok [OF six_bits(1)] b64Char_ok [OF six_bits(3)] b64Char_ok [OF six_bits(4)] by simp
next
  case (4 a b c t)
  then show ?case
    using b64Char_ok [OF six_bits(1)] b64Char_ok [OF six_bits(3)] b64Char_ok [OF six_bits(5)] b64Char_ok [OF six_bits(6)]
    by simp
qed simp

lemma trimPadding_body:
  assumes "equalsSign \<notin> set body"
  shows "trimPadding (body @ replicate k equalsSign) = body"
proof -
  have d: "dropWhile (\<lambda>c. c = equalsSign) (replicate k equalsSign @ xs) = dropWhile (\<lambda>c. c = equalsSign) xs" for xs
    by (induction k) simp_all
  have "dropWhile (\<lambda>c. c = equalsSign) xs = xs" if "equalsSign \<notin> set xs" for xs
    using that by (cases xs) auto
  then have "dropWhile (\<lambda>c. c = equalsSign) (rev body) = rev body" using assms by simp
  then show ?thesis by (simp add: trimPadding_def d)
qed

lemma decodeBase64_enc: "decodeBase64 (b64Enc bs) = Inr bs"
proof -
  from b64Enc_body [of bs] obtain k where k: "k \<le> 2" "b64Enc bs = b64Body bs @ replicate k equalsSign"
    "4 dvd length (b64Enc bs)" by blast
  have "trimPadding (b64Enc bs) = b64Body bs"
    unfolding k(2) by (rule trimPadding_body) (use b64Body_chars [of bs] in \<open>auto simp: list_all_iff\<close>)
  moreover have "list_all (\<lambda>c. b64Index c \<noteq> None) (b64Body bs)" using b64Body_chars [of bs] by (auto simp: list_all_iff)
  moreover have "length (b64Enc bs) - length (b64Body bs) \<le> 2" using k by simp
  ultimately show ?thesis using k(3) by (simp add: dvd_eq_mod_eq_0 decodeBase64_def Let_def b64Loop_body)
qed

subsection \<open>PEM\<close>

text \<open>One certificate in PEM on a single line, as text and as the bytes of a file.\<close>

definition pemText :: "bytes \<Rightarrow> jsstr" where
  "pemText der = pemBegin @ b64Enc der @ pemEnd"

definition asciiBytes :: "jsstr \<Rightarrow> bytes" where
  "asciiBytes s = map (\<lambda>c. byteOf (unat c)) s"

lemma latin1_asciiBytes: "ascii s \<Longrightarrow> latin1 (asciiBytes s) = s"
  by (induction s) (auto simp: latin1_def asciiBytes_def ascii_def)

lemma ascii_append: "ascii (s @ t) \<longleftrightarrow> ascii s \<and> ascii t"
  by (simp add: ascii_def)

lemma ascii_b64Char: "n < 64 \<Longrightarrow> unat (b64Char n) < 0x80"
  by (auto simp: b64Char_def)

lemma ascii_b64Body: "ascii (b64Body bs)"
proof (induction bs rule: b64Body.induct)
  case (2 a)
  then show ?case using ascii_b64Char [OF six_bits(1)] ascii_b64Char [OF six_bits(2)] by (simp add: ascii_def)
next
  case (3 a b)
  then show ?case using ascii_b64Char [OF six_bits(1)] ascii_b64Char [OF six_bits(3)] ascii_b64Char [OF six_bits(4)]
    by (simp add: ascii_def)
next
  case (4 a b c t)
  then show ?case
    using ascii_b64Char [OF six_bits(1)] ascii_b64Char [OF six_bits(3)] ascii_b64Char [OF six_bits(5)]
      ascii_b64Char [OF six_bits(6)] by (simp add: ascii_def)
qed (simp add: ascii_def)

lemma ascii_pemText: "ascii (pemText der)"
proof -
  have "ascii (replicate k equalsSign)" for k by (simp add: ascii_def equalsSign_def list_all_iff)
  moreover obtain k where "b64Enc der = b64Body der @ replicate k equalsSign" using b64Enc_body by blast
  moreover have "ascii pemBegin" "ascii pemEnd"
    unfolding pemBegin_def pemEnd_def by (rule ascii_js; simp add: asciiStr_def)+
  ultimately show ?thesis using ascii_b64Body by (simp add: pemText_def ascii_append)
qed

lemma pemChar_b64Enc: "list_all pemChar (b64Enc der)" "list_all (\<lambda>c. \<not> whitespace c) (b64Enc der)"
proof -
  obtain k where k: "b64Enc der = b64Body der @ replicate k equalsSign" using b64Enc_body by blast
  have w: "\<not> whitespace c" if "b64Index c \<noteq> None" for c
    using that by (auto simp: whitespace_def b64Index_def Let_def)
  have "\<not> whitespace equalsSign" by (simp add: whitespace_def equalsSign_def)
  then show "list_all pemChar (b64Enc der)" "list_all (\<lambda>c. \<not> whitespace c) (b64Enc der)"
    using b64Body_chars [of der] w by (auto simp: k pemChar_def list_all_iff)
qed

lemma b64Enc_Nil: "b64Enc der = [] \<longleftrightarrow> der = []"
  by (cases der rule: b64Enc.cases) auto

lemma pemEnd_dash: "pemEnd = cuOf 0x2d # tl pemEnd" "\<not> pemChar (cuOf 0x2d)"
  by (simp_all add: pemEnd_def js_def cuOf_def pemChar_def whitespace_def b64Index_def equalsSign_def)

lemma startsWith_append: "startsWith p (p @ s)"
  by (simp add: startsWith_def)

lemma pemMatch_text:
  assumes "der \<noteq> []"
  shows "pemMatch (pemText der @ t) = Some (b64Enc der, t)"
proof -
  have all: "\<forall>c\<in>set (b64Enc der). pemChar c" using pemChar_b64Enc by (auto simp: list_all_iff)
  obtain e where e: "pemEnd = cuOf 0x2d # e" using pemEnd_dash(1) by blast
  have "takeWhile pemChar (b64Enc der @ pemEnd @ t) = b64Enc der"
    "dropWhile pemChar (b64Enc der @ pemEnd @ t) = pemEnd @ t"
    using all pemEnd_dash(2) by (simp_all add: e takeWhile_append2 dropWhile_append2)
  then show ?thesis using assms
    by (simp add: pemMatch_def Let_def pemText_def startsWith_append b64Enc_Nil)
qed

lemma pemBodies_texts: "list_all (\<lambda>d. d \<noteq> []) ders \<Longrightarrow> pemBodies (concat (map pemText ders)) = map b64Enc ders"
proof (induction ders)
  case Nil
  then show ?case by (simp add: pemBodies.simps)
next
  case (Cons d ders)
  have "length pemBegin = 27" by (simp add: pemBegin_def)
  then have "pemText d @ concat (map pemText ders) \<noteq> []" by (auto simp: pemText_def)
  then show ?case using Cons pemMatch_text [of d "concat (map pemText ders)"] by (subst pemBodies.simps) simp
qed

lemma pemCertificate_enc: "pemCertificate (b64Enc der) = parseCertificate der"
proof -
  have "filter (\<lambda>c. \<not> whitespace c) (b64Enc der) = b64Enc der"
    using pemChar_b64Enc(2) [of der] by (simp add: list_all_iff)
  then show ?thesis by (simp add: pemCertificate_def decodeBase64_enc)
qed

lemma mapE_map_comp: "mapE f (map g xs) = mapE (\<lambda>x. f (g x)) xs"
  by (induction xs) (auto intro: bindE_cong)

lemma parseCertificateChain_pem:
  assumes "ders \<noteq> []" and "list_all (\<lambda>d. d \<noteq> []) ders"
  shows "parseCertificateChain (asciiBytes (concat (map pemText ders))) = mapE parseCertificate ders"
proof -
  let ?t = "concat (map pemText ders)"
  have "ascii ?t" using ascii_pemText by (induction ders) (simp_all add: ascii_append, simp add: ascii_def)
  then have l: "latin1 (asciiBytes ?t) = ?t" by (rule latin1_asciiBytes)
  obtain u where "?t = pemBegin @ u" using assms(1) by (cases ders) (auto simp: pemText_def)
  moreover have "startsWith (js ''-----BEGIN'') (pemBegin @ u)" by (simp add: pemBegin_def startsWith_def js_def)
  ultimately have i: "includesText (js ''-----BEGIN'') ?t" by (subst includesText.simps) simp
  have "length cs = length ders" if "mapE parseCertificate ders = Inr cs" for cs
    using that by (rule mapE_Inr_length)
  then have "bindE (mapE parseCertificate ders) (\<lambda>certs. if certs = [] then Inl MALFORMED else Inr certs) =
      mapE parseCertificate ders"
    using assms(1) by (cases "mapE parseCertificate ders") auto
  then show ?thesis
    using assms(2) i
    by (simp add: parseCertificateChain_def l Let_def pemBodies_texts mapE_map_comp pemCertificate_enc)
qed

subsection \<open>Properties\<close>

text \<open>
  PEM and base64 round trip: a file of PEM blocks is read as the certificates whose DER it encodes, in
  order, failing with the first certificate that fails.
\<close>

theorem parseCertificateChain_roundtrip:
  assumes "ders \<noteq> []" and "list_all (\<lambda>d. d \<noteq> []) ders"
  shows "parseCertificateChain (asciiBytes (concat (map pemText ders))) = mapE parseCertificate ders"
  by (rule parseCertificateChain_pem [OF assms])

lemma parseCertificateChain_roundtrip_witness:
  "parseCertificateChain (asciiBytes (concat (map pemText [[1, 2], [3]]))) = mapE parseCertificate [[1, 2], [3]]"
  by (rule parseCertificateChain_roundtrip) simp_all

text \<open>
  C33 The signed bytes need not be the parsed ones. The reader never asks that the outer element fills its
  input, and takes the signed span from the end of the input. So for any genuine certificate with content L
  and any attacker's certificate with content C of the same length, whose TBS is as long, that copies the
  genuine algorithm and signature, the bytes of C's certificate followed by L parse to the attacker's key,
  subject and authority flag with the genuine TBS as the span to verify, and the genuine issuer's signature
  check passes. A PEM block carries such bytes to it, as a TD quote does for its PCK chain.
\<close>

theorem pemCertificate_forged:
  assumes "length C < 256 ^ 4" and "length L = length C"
    and "parseCertificate (tlvEnc 0x30 C) = Inr f" and "parseCertificate (tlvEnc 0x30 L) = Inr g"
    and "length (crtTbs f) = length (crtTbs g)" and "crtAlg f = crtAlg g" and "crtSignature f = crtSignature g"
    and "verifyCertificateSignature N issuer g = Inr ()"
  shows "\<exists>c. parseCertificateChain (asciiBytes (pemText (tlvEnc 0x30 C @ L))) = Inr [c] \<and> crtKey c = crtKey f \<and> crtSubject c = crtSubject f \<and>
    crtIssuer c = crtIssuer f \<and> crtIsCa c = crtIsCa f \<and> crtTbs c = crtTbs g \<and>
    verifyCertificateSignature N issuer c = Inr ()"
proof -
  have "tlvEnc 0x30 C @ L \<noteq> []" by (simp add: tlvEnc_def)
  then have "parseCertificateChain (asciiBytes (pemText (tlvEnc 0x30 C @ L))) =
      bindE (parseCertificate (tlvEnc 0x30 C @ L)) (\<lambda>c. Inr [c])"
    using parseCertificateChain_pem [of "[tlvEnc 0x30 C @ L]"] by simp
  then show ?thesis using parseCertificate_hybrid [OF assms] by auto
qed

text \<open>
  The instance: keys 4 (genuine) and 9 (forged), and a verifier that accepts a signature equal to the digest,
  which only the genuine certificate's is.
\<close>

lemma pemCertificate_forged_witness:
  "\<exists>c. parseCertificateChain (asciiBytes (pemText
      (tlvEnc 0x30 (certContent (sampleSpec 7 [2] [3] (samplePoint 9) False genuineSig)) @
       certContent (sampleSpec 1 [2] [3] (samplePoint 4) False genuineSig)))) = Inr [c] \<and>
    crtKey c = crtKey (sampleParsed 7 [2] [3] (samplePoint 9) False genuineSig) \<and>
    crtSubject c = crtSubject (sampleParsed 7 [2] [3] (samplePoint 9) False genuineSig) \<and>
    crtIssuer c = crtIssuer (sampleParsed 7 [2] [3] (samplePoint 9) False genuineSig) \<and>
    crtIsCa c = crtIsCa (sampleParsed 7 [2] [3] (samplePoint 9) False genuineSig) \<and>
    crtTbs c = crtTbs (sampleParsed 1 [2] [3] (samplePoint 4) False genuineSig) \<and>
    verifyCertificateSignature digestNoble (sampleParsed 0 [2] [2] (EcP256 []) True []) c = Inr ()"
proof (rule pemCertificate_forged)
  have sig: "length genuineSig = 32" by (auto simp: genuineSig_def digestNoble_def quietNoble_def min_def)
  note l = length_sampleSpec [of "[2]" "[3]" genuineSig _ _ False, OF _ _ sig, simplified]
  note p = parseCertificate_sample [of "[2]" "[3]" genuineSig _ _ False, OF _ _ sig, simplified]
  show "length (certContent (sampleSpec 7 [2] [3] (samplePoint 9) False genuineSig)) < 256 ^ 4"
    "length (certContent (sampleSpec 1 [2] [3] (samplePoint 4) False genuineSig)) =
      length (certContent (sampleSpec 7 [2] [3] (samplePoint 9) False genuineSig))"
    by (simp_all add: l)
  show "parseCertificate (tlvEnc 0x30 (certContent (sampleSpec 7 [2] [3] (samplePoint 9) False genuineSig))) =
      Inr (sampleParsed 7 [2] [3] (samplePoint 9) False genuineSig)"
    "parseCertificate (tlvEnc 0x30 (certContent (sampleSpec 1 [2] [3] (samplePoint 4) False genuineSig))) =
      Inr (sampleParsed 1 [2] [3] (samplePoint 4) False genuineSig)"
    using p by (simp_all add: certEnc_def)
  show "length (crtTbs (sampleParsed 7 [2] [3] (samplePoint 9) False genuineSig)) =
      length (crtTbs (sampleParsed 1 [2] [3] (samplePoint 4) False genuineSig))"
    by (simp add: sampleParsed_def Let_def tlvEnc_def l)
  have t: "crtTbs (sampleParsed 1 [2] [3] (samplePoint 4) False genuineSig) =
      tlvEnc 0x30 (tbsEnc (sampleSpec 1 [2] [3] (samplePoint 4) False []))"
    using tbsEnc_sig [of 1 "[2]" "[3]" "samplePoint 4" False genuineSig "[]"] by (simp add: sampleParsed_def Let_def)
  have "sha256 digestNoble (crtTbs (sampleParsed 1 [2] [3] (samplePoint 4) False genuineSig)) = genuineSig"
    using arg_cong [OF t, of "sha256 digestNoble"] by (simp only: genuineSig_def)
  then show "verifyCertificateSignature digestNoble (sampleParsed 0 [2] [2] (EcP256 []) True [])
      (sampleParsed 1 [2] [3] (samplePoint 4) False genuineSig) = Inr ()"
    by (simp add: verifyCertificateSignature_def sampleParsed_def Let_def) (simp add: digestNoble_def)
qed (simp_all add: sampleParsed_def Let_def)

end
