(* ===== verification/SevSnp.thy ===== *)
theory SevSnp
  imports Der Events Json
begin

text \<open>
  packages/attest-core/src/sev-snp.ts and the SEV-SNP types of src/types.ts: the attestation report,
  its signature, the AMD certificate chain, the kernel certificate table and the guest policy.
\<close>

record tcb_version =
  tcbBl :: nat
  tcbTee :: nat
  tcbSpl4 :: nat
  tcbSpl5 :: nat
  tcbSpl6 :: nat
  tcbSpl7 :: nat
  tcbSnp :: nat
  tcbUcode :: nat

definition tcbFromU64 :: "nat \<Rightarrow> tcb_version" where
  "tcbFromU64 v =
    (let b = (\<lambda>i. v div 2 ^ (8 * i) mod 256) in
     \<lparr>tcbBl = b 0, tcbTee = b 1, tcbSpl4 = b 2, tcbSpl5 = b 3, tcbSpl6 = b 4, tcbSpl7 = b 5,
       tcbSnp = b 6, tcbUcode = b 7\<rparr>)"

record snp_policy =
  polRaw :: nat
  polSmt :: bool
  polMigrateMA :: bool
  polDebug :: bool
  polSingleSocket :: bool

record snp_report =
  srRaw :: bytes
  srVersion :: nat
  srGuestSvn :: nat
  srPolicy :: snp_policy
  srFamilyId :: bytes
  srImageId :: bytes
  srVmpl :: nat
  srSignatureAlgo :: nat
  srCurrentTcb :: tcb_version
  srPlatformInfo :: nat
  srSigningKey :: nat
  srMaskChipKey :: bool
  srAuthorKeyEn :: bool
  srReportData :: bytes
  srMeasurement :: bytes
  srHostData :: bytes
  srIdKeyDigest :: bytes
  srAuthorKeyDigest :: bytes
  srReportId :: bytes
  srReportIdMa :: bytes
  srReportedTcb :: tcb_version
  srChipId :: bytes
  srCommittedTcb :: tcb_version
  srLaunchTcb :: jsnum
  srCpuidFamily :: nat
  srCpuidModel :: nat
  srCpuidStepping :: "nat option"
  srProductLine :: "jsstr option"
  srSigR :: bytes
  srSigS :: bytes

definition SNP_REPORT_SIZE :: nat where "SNP_REPORT_SIZE = 0x4a0"
definition SNP_SIGNED_SIZE :: nat where "SNP_SIGNED_SIZE = 0x2a0"
definition SNP_R_LENGTH :: nat where "SNP_R_LENGTH = 0x48"

definition readU32le :: "bytes \<Rightarrow> nat \<Rightarrow> nat" where
  "readU32le data off = unat (u32or (data ! off) (data ! (off + 1)) (data ! (off + 2)) (data ! (off + 3)))"

definition readU64le :: "bytes \<Rightarrow> nat \<Rightarrow> nat" where
  "readU64le data off = leNat (slice data off (off + 8))"

definition isZeroRange :: "bytes \<Rightarrow> nat \<Rightarrow> nat \<Rightarrow> aerr + unit" where
  "isZeroRange data start stop =
    (if list_all (\<lambda>b. b = 0) (slice data start stop) then Inr () else Inl MALFORMED_REPORT)"

definition parseSnpPolicy :: "nat \<Rightarrow> snp_policy" where
  "parseSnpPolicy raw =
    \<lparr>polRaw = raw, polSmt = bit raw 16, polMigrateMA = bit raw 18, polDebug = bit raw 19,
      polSingleSocket = bit raw 20\<rparr>"

definition productLineFromCpuid :: "nat \<Rightarrow> nat \<Rightarrow> jsstr option" where
  "productLineFromCpuid family model =
    (let extendedFamily = (if family \<ge> 0xf then family - 0xf else 0);
         familyId = (if family \<ge> 0xf then 0xf else family);
         extendedModel = model div 16;
         modelId = model mod 16;
         maskedEax = push_bit 20 extendedFamily OR push_bit 16 extendedModel OR push_bit 8 familyId OR
           push_bit 4 modelId
     in if maskedEax = 0x00a00f10 then Some (js ''Milan'')
        else if maskedEax = 0x00a10f10 then Some (js ''Genoa'')
        else if maskedEax = 0x00b00f20 then Some (js ''Turin'')
        else None)"

definition snpReportOf :: "bytes \<Rightarrow> nat \<Rightarrow> snp_report" where
  "snpReportOf report version =
    (let signerInfoRaw = readU32le report 0x48;
         v3 = version \<ge> 3;
         fam = (if v3 then unat (report ! 0x188) else 0);
         model = (if v3 then unat (report ! 0x189) else 0)
     in \<lparr>srRaw = report, srVersion = version, srGuestSvn = readU32le report 0x04,
       srPolicy = parseSnpPolicy (readU64le report 0x08), srFamilyId = slice report 0x10 0x20,
       srImageId = slice report 0x20 0x30, srVmpl = readU32le report 0x30,
       srSignatureAlgo = readU32le report 0x34, srCurrentTcb = tcbFromU64 (readU64le report 0x38),
       srPlatformInfo = readU64le report 0x40, srSigningKey = signerInfoRaw div 4 mod 8,
       srMaskChipKey = bit signerInfoRaw 1, srAuthorKeyEn = bit signerInfoRaw 0,
       srReportData = slice report 0x50 0x90, srMeasurement = slice report 0x90 0xc0,
       srHostData = slice report 0xc0 0xe0, srIdKeyDigest = slice report 0xe0 0x110,
       srAuthorKeyDigest = slice report 0x110 0x140, srReportId = slice report 0x140 0x160,
       srReportIdMa = slice report 0x160 0x180, srReportedTcb = tcbFromU64 (readU64le report 0x180),
       srChipId = slice report 0x1a0 0x1e0, srCommittedTcb = tcbFromU64 (readU64le report 0x1e0),
       srLaunchTcb = nearestDouble False (readU64le report 0x1f0) 1, srCpuidFamily = fam,
       srCpuidModel = model, srCpuidStepping = (if v3 then Some (unat (report ! 0x18a)) else None),
       srProductLine = (if v3 then productLineFromCpuid fam model else None),
       srSigR = slice report SNP_SIGNED_SIZE (SNP_SIGNED_SIZE + SNP_R_LENGTH),
       srSigS = slice report (SNP_SIGNED_SIZE + SNP_R_LENGTH) (SNP_SIGNED_SIZE + 2 * SNP_R_LENGTH)\<rparr>)"

definition parseSnpReport :: "bytes \<Rightarrow> aerr + snp_report" where
  "parseSnpReport report =
    (if length report \<noteq> SNP_REPORT_SIZE then Inl MALFORMED_REPORT
     else
       let version = readU32le report 0 in
       if version \<noteq> 2 \<and> version \<noteq> 3 then Inl MALFORMED_REPORT
       else if readU32le report 0x34 \<noteq> 1 then Inl UNSUPPORTED_SIGNATURE_ALGO
       else
         bindE (isZeroRange report 0x4c 0x50) (\<lambda>_.
         bindE (isZeroRange report (if version \<ge> 3 then 0x18b else 0x188) 0x1a0) (\<lambda>_.
         bindE (isZeroRange report 0x1eb 0x1ec) (\<lambda>_.
         bindE (isZeroRange report 0x1ef 0x1f0) (\<lambda>_.
         bindE (isZeroRange report 0x208 SNP_SIGNED_SIZE) (\<lambda>_.
         bindE (isZeroRange report (SNP_SIGNED_SIZE + 2 * SNP_R_LENGTH) SNP_REPORT_SIZE) (\<lambda>_.
           Inr (snpReportOf report version))))))))"

definition snpReportSignatureDer :: "noble \<Rightarrow> snp_report \<Rightarrow> aerr + bytes" where
  "snpReportSignatureDer N report =
    derEcdsaSignature (leNat (srSigR report)) (leNat (srSigS report)) (p384order N)"

definition verifySnpReportSignature :: "noble \<Rightarrow> snp_report \<Rightarrow> certificate \<Rightarrow> aerr + unit" where
  "verifySnpReportSignature N report vcek =
    (case crtKey vcek of
       EcP384 point \<Rightarrow>
         bindE (snpReportSignatureDer N report) (\<lambda>der.
           if p384verify N der (sha384 N (take SNP_SIGNED_SIZE (srRaw report))) point then Inr ()
           else Inl BAD_SIGNATURE)
     | _ \<Rightarrow> Inl UNSUPPORTED_CERT_ALGORITHM)"

subsection \<open>Certificates carried by the attestation\<close>

definition ASK_CERT_GUID :: bytes where
  "ASK_CERT_GUID = [0x4a, 0xb7, 0xb3, 0x79, 0xbb, 0xac, 0x4f, 0xe4, 0xa0, 0x2f, 0x05, 0xae, 0xf3, 0x27, 0xc7, 0x82]"

definition VCEK_CERT_GUID :: bytes where
  "VCEK_CERT_GUID = [0x63, 0xda, 0x75, 0x8d, 0xe6, 0x64, 0x45, 0x64, 0xad, 0xc5, 0xf4, 0xb9, 0x3b, 0xe8, 0xac, 0xcd]"

function kernelTable :: "bytes \<Rightarrow> nat \<Rightarrow> bytes option \<Rightarrow> bytes option \<Rightarrow> aerr + bytes option \<times> bytes option" where
  "kernelTable blob pos ask vcek =
    (if pos + 24 > length blob then Inl MALFORMED
     else
       let entry = slice blob pos (pos + 24);
           off = readU32le entry 16; len = readU32le entry 20; guid = take 16 entry
       in if guid = replicate 16 0 \<and> off = 0 \<and> len = 0 then Inr (ask, vcek)
          else if off < 24 \<or> len = 0 \<or> off + len > length blob then Inl MALFORMED
          else if guid = ASK_CERT_GUID then kernelTable blob (pos + 24) (Some (slice blob off (off + len))) vcek
          else if guid = VCEK_CERT_GUID then kernelTable blob (pos + 24) ask (Some (slice blob off (off + len)))
          else kernelTable blob (pos + 24) ask vcek)"
  by pat_completeness auto
termination by (relation "measure (\<lambda>(blob, pos, _, _). length blob - pos)") auto

declare kernelTable.simps [simp del]

definition normalizeKernelCertTable :: "bytes \<Rightarrow> aerr + bytes \<times> bytes" where
  "normalizeKernelCertTable blob =
    bindE (kernelTable blob 0 None None) (\<lambda>(ask, vcek).
      case (ask, vcek) of (Some a, Some v) \<Rightarrow> Inr (a, v) | _ \<Rightarrow> Inl MALFORMED)"

definition normalizeSnpCertificates :: "bytes list \<Rightarrow> aerr + bytes \<times> bytes" where
  "normalizeSnpCertificates certChain =
    (case certChain of
       [ask, vcek] \<Rightarrow> Inr (ask, vcek)
     | [blob] \<Rightarrow> normalizeKernelCertTable blob
     | _ \<Rightarrow> Inl MALFORMED)"

subsection \<open>The chain and the report\<close>

definition verifyAmdCertificateChain ::
    "noble \<Rightarrow> certificate \<Rightarrow> certificate \<Rightarrow> certificate \<Rightarrow> int \<Rightarrow> aerr + unit" where
  "verifyAmdCertificateChain N ark ask vcek nowMillis =
    bindE (failIf (crtIsCa ark \<noteq> Some True \<or> crtIsCa ask \<noteq> Some True) CERT_CHAIN_INVALID) (\<lambda>_.
    bindE (failIf (crtIssuer ark \<noteq> crtSubject ark) CERT_CHAIN_INVALID) (\<lambda>_.
    bindE (failIf (crtIssuer ask \<noteq> crtSubject ark) CERT_CHAIN_INVALID) (\<lambda>_.
    bindE (failIf (crtIssuer vcek \<noteq> crtSubject ask) CERT_CHAIN_INVALID) (\<lambda>_.
    bindE (checkCertificateValidity ark nowMillis) (\<lambda>_.
    bindE (checkCertificateValidity ask nowMillis) (\<lambda>_.
    bindE (checkCertificateValidity vcek nowMillis) (\<lambda>_.
    bindE (verifyCertificateSignature N ark ark) (\<lambda>_.
    bindE (verifyCertificateSignature N ark ask) (\<lambda>_.
      verifyCertificateSignature N ask vcek)))))))))"

fun findMatchingArk :: "certificate list \<Rightarrow> certificate \<Rightarrow> aerr + certificate" where
  "findMatchingArk [] ask = Inl MISSING_TRUST_ROOT"
| "findMatchingArk (ark # arks) ask =
    (if crtSubject ark = crtIssuer ask then Inr ark else findMatchingArk arks ask)"

text \<open>\<open>productName.split('-')[0]\<close>.\<close>

definition productLine :: "jsstr \<Rightarrow> jsstr" where
  "productLine s = takeWhile (\<lambda>c. c \<noteq> cuOf 0x2d) s"

definition verifyVcekMatchesReport :: "certificate \<Rightarrow> snp_report \<Rightarrow> aerr + unit" where
  "verifyVcekMatchesReport vcek report =
    (case crtProductName vcek of
       None \<Rightarrow> Inl PRODUCT_MISMATCH
     | Some name \<Rightarrow>
         if srProductLine report \<noteq> None \<and> srProductLine report \<noteq> Some (productLine name) then Inl PRODUCT_MISMATCH
         else
           (case crtHwid vcek of
              None \<Rightarrow> Inl CERT_CHAIN_INVALID
            | Some hwid \<Rightarrow> failIf (hwid \<noteq> srChipId report) CERT_CHAIN_INVALID))"

definition validateSnpPolicy :: "snp_report \<Rightarrow> bool \<Rightarrow> aerr + unit" where
  "validateSnpPolicy report allowDebug =
    bindE (failIf (srVmpl report \<noteq> 0) POLICY_NOT_ALLOWED) (\<lambda>_.
    bindE (failIf (polDebug (srPolicy report) \<and> \<not> allowDebug) DEBUG_NOT_ALLOWED) (\<lambda>_.
    bindE (failIf (polMigrateMA (srPolicy report)) POLICY_NOT_ALLOWED) (\<lambda>_.
    bindE (failIf (srSigningKey report \<noteq> 0) POLICY_NOT_ALLOWED) (\<lambda>_.
    bindE (failIf (srMaskChipKey report) POLICY_NOT_ALLOWED) (\<lambda>_.
      failIf (\<not> polSmt (srPolicy report) \<and> bit (srPlatformInfo report) 0) POLICY_NOT_ALLOWED)))))"

definition parseSingleCertificate :: "bytes \<Rightarrow> aerr + certificate" where
  "parseSingleCertificate bs =
    bindE (parseCertificateChain bs) (\<lambda>certs.
      if length certs \<noteq> 1 then Inl MALFORMED else Inr (certs ! 0))"

definition parseTrustCandidates :: "bytes \<Rightarrow> aerr + certificate list" where
  "parseTrustCandidates bs = parseCertificateChain bs"

end
