(* ===== verification/Hardware.thy ===== *)
theory Hardware
  imports Chain Pem SevSnp
begin

text \<open>
  What the hardware checks of packages/attest-core/src establish about the bytes they accept: the TD quote
  (tdx.ts, tdx-dcap.ts), the AMD SEV-SNP report (sev-snp.ts) and the SPDM report (nvidia.ts).
\<close>

subsection \<open>The TD quote\<close>

lemma leEnc_leNat: "leEnc (length bs) (leNat bs) = bs"
proof -
  have "leNat bs < 256 ^ length bs" using beNat_less [of "rev bs"] by (simp add: leNat_def)
  then have "leNat (leEnc (length bs) (leNat bs)) = leNat bs" by (rule leNat_leEnc)
  then have "rev (leEnc (length bs) (leNat bs)) = rev bs"
    by (intro beNat_inject) (simp_all add: leNat_def)
  then show ?thesis by simp
qed

lemma leEnc_getLE: "off + n \<le> length q \<Longrightarrow> leEnc n (getLE q off n) = slice q off (off + n)"
  using leEnc_leNat [of "slice q off (off + n)"] by (simp add: getLE_def)

lemma getLE_less: "getLE q off n < 256 ^ n"
proof -
  have "leNat (slice q off (off + n)) < 256 ^ length (slice q off (off + n))"
    using beNat_less [of "rev (slice q off (off + n))"] by (simp add: leNat_def)
  also have "\<dots> \<le> 256 ^ n" by (rule power_increasing) auto
  finally show ?thesis by (simp add: getLE_def)
qed

lemmas quote_offsets = SIGNATURE_DATA_OFFSET_def SIGNED_REGION_def CERTIFICATION_DATA_HEADER_def
  ECDSA_256_BYTES_def AUTH_DATA_LENGTH_OFFSET_def

text \<open>The Intel layout, written from its parts.\<close>

definition quoteEnc :: "bytes \<Rightarrow> quote_signature \<Rightarrow> bytes" where
  "quoteEnc body b = body @ leEnc 4 (134 + length (qsCertData b)) @ qsSignature b @ qsAttestationKey b @
    leEnc 2 (qsCertType b) @ leEnc 4 (length (qsCertData b)) @ qsCertData b"

definition qeEnc :: "qe_data \<Rightarrow> bytes" where
  "qeEnc q = qeReport q @ qeReportSignature q @ leEnc 2 (length (qeAuthData q)) @ qeAuthData q @
    leEnc 2 (qeInnerType q) @ leEnc 4 (length (qePckChain q)) @ qePckChain q"

lemma getLE_at: "length pre = off \<Longrightarrow> v < 256 ^ n \<Longrightarrow> getLE (pre @ leEnc n v @ post) off n = v"
  using slice_middle [of pre "leEnc n v" post] by (simp add: getLE_def leNat_leEnc)

lemma slice_at: "length pre = a \<Longrightarrow> length xs = n \<Longrightarrow> slice (pre @ xs @ post) a (a + n) = xs"
  using slice_middle [of pre xs post] by simp

lemma parseTdxQuoteSignature_enc:
  assumes body: "length body = 632" "getLE body 0 2 = 4" "getLE body 4 4 = 0x81"
    and b: "length (qsSignature b) = 64" "length (qsAttestationKey b) = 64" "qsCertType b < 256 ^ 2"
      "134 + length (qsCertData b) < 256 ^ 4"
  shows "parseTdxQuoteSignature (quoteEnc body b) = Inr b"
proof -
  let ?n = "length (qsCertData b)"
  define q where "q = quoteEnc body b"
  define e1 where "e1 = body @ leEnc 4 (134 + ?n)"
  define e2 where "e2 = e1 @ qsSignature b"
  define e3 where "e3 = e2 @ qsAttestationKey b"
  define e4 where "e4 = e3 @ leEnc 2 (qsCertType b)"
  have e: "length e1 = 636" "length e2 = 700" "length e3 = 764" "length e4 = 766"
    by (simp_all add: e1_def e2_def e3_def e4_def body b del: leEnc.simps)
  have q: "q = body @ leEnc 4 (134 + ?n) @ qsSignature b @ qsAttestationKey b @ leEnc 2 (qsCertType b) @ leEnc 4 ?n @ qsCertData b"
    "q = e1 @ qsSignature b @ qsAttestationKey b @ leEnc 2 (qsCertType b) @ leEnc 4 ?n @ qsCertData b"
    "q = e2 @ qsAttestationKey b @ leEnc 2 (qsCertType b) @ leEnc 4 ?n @ qsCertData b"
    "q = e3 @ leEnc 2 (qsCertType b) @ leEnc 4 ?n @ qsCertData b" "q = e4 @ leEnc 4 ?n @ qsCertData b"
    by (simp_all add: q_def quoteEnc_def e1_def e2_def e3_def e4_def del: leEnc.simps)
  have h: "getLE q 0 2 = 4" "getLE q 4 4 = 0x81"
    using body by (simp_all add: q(1) getLE_def slice_def del: leEnc.simps)
  have l: "getLE q 632 4 = 134 + ?n" "getLE q 764 2 = qsCertType b" "getLE q 766 4 = ?n" "length q = 770 + ?n"
    using getLE_at [OF body(1) b(4), of "qsSignature b @ qsAttestationKey b @ leEnc 2 (qsCertType b) @ leEnc 4 ?n @ qsCertData b"]
      getLE_at [OF e(3) b(3), of "leEnc 4 ?n @ qsCertData b"] getLE_at [OF e(4), of ?n 4 "qsCertData b"] b(4)
    by (simp_all add: q(1) [symmetric] q(4) [symmetric] q(5) [symmetric] del: leEnc.simps)
       (simp add: q(5) e del: leEnc.simps)
  have s: "slice q 636 700 = qsSignature b" "slice q 700 764 = qsAttestationKey b"
    subgoal unfolding q(2) using slice_at [OF e(1) b(1)] by simp
    subgoal unfolding q(3) using slice_at [OF e(2) b(2)] by simp
    done
  have t: "drop 770 q = qsCertData b" unfolding q(5) by (simp add: e del: leEnc.simps)
  show ?thesis unfolding q_def [symmetric]
    by (simp add: parseTdxQuoteSignature_def quote_offsets failIf_def Let_def h l s t)
qed

lemma parseQeReport_enc:
  assumes "length (qeReport q) = 384" "length (qeReportSignature q) = 64" "length (qeAuthData q) < 256 ^ 2"
    "qeInnerType q < 256 ^ 2" "length (qePckChain q) < 256 ^ 4"
  shows "parseQeReportCertificationData (qeEnc q) = Inr q"
proof -
  let ?a = "length (qeAuthData q)" and ?n = "length (qePckChain q)"
  define d where "d = qeEnc q"
  define e1 where "e1 = qeReport q @ qeReportSignature q"
  define e2 where "e2 = e1 @ leEnc 2 ?a"
  define e3 where "e3 = e2 @ qeAuthData q"
  define e4 where "e4 = e3 @ leEnc 2 (qeInnerType q)"
  have e: "length e1 = 448" "length e2 = 450" "length e3 = 450 + ?a" "length e4 = 452 + ?a"
    by (simp_all add: e1_def e2_def e3_def e4_def assms del: leEnc.simps)
  have d: "d = qeReport q @ qeReportSignature q @ leEnc 2 ?a @ qeAuthData q @ leEnc 2 (qeInnerType q) @ leEnc 4 ?n @ qePckChain q"
    "d = e1 @ leEnc 2 ?a @ qeAuthData q @ leEnc 2 (qeInnerType q) @ leEnc 4 ?n @ qePckChain q"
    "d = e2 @ qeAuthData q @ leEnc 2 (qeInnerType q) @ leEnc 4 ?n @ qePckChain q"
    "d = e3 @ leEnc 2 (qeInnerType q) @ leEnc 4 ?n @ qePckChain q" "d = e4 @ leEnc 4 ?n @ qePckChain q"
    by (simp_all add: d_def qeEnc_def e1_def e2_def e3_def e4_def del: leEnc.simps)
  have l: "getLE d 448 2 = ?a" "getLE d (450 + ?a) 2 = qeInnerType q" "getLE d (452 + ?a) 4 = ?n" "length d = 456 + ?a + ?n"
    using getLE_at [OF e(1) assms(3), of "qeAuthData q @ leEnc 2 (qeInnerType q) @ leEnc 4 ?n @ qePckChain q"]
      getLE_at [OF e(3) assms(4), of "leEnc 4 ?n @ qePckChain q"] getLE_at [OF e(4) assms(5), of "qePckChain q"]
    by (simp_all add: d(2) [symmetric] d(4) [symmetric] d(5) [symmetric] del: leEnc.simps)
       (simp add: d(5) e del: leEnc.simps)
  have s: "slice d 384 448 = qeReportSignature q" unfolding d(1) using slice_at [OF assms(1,2)] by simp
  have s2: "slice d 450 (450 + ?a) = qeAuthData q" unfolding d(3) using slice_at [OF e(2) refl] by simp
  have s3: "take 384 d = qeReport q" unfolding d(1) using assms(1) by simp
  have s4: "drop (456 + ?a) d = qePckChain q" unfolding d(5) by (simp add: e del: leEnc.simps)
  show ?thesis unfolding d_def [symmetric]
    by (simp add: parseQeReportCertificationData_def quote_offsets failIf_def Let_def l s s2 s3 s4 add_ac
        l [unfolded add.commute [of _ ?a]] s2 [unfolded add.commute [of _ ?a]] s4 [unfolded add.commute [of _ ?a]])
qed

lemma p256_case: "(case k of EcP384 _ \<Rightarrow> Inl e | EcP256 p \<Rightarrow> Inr p | RsaKey _ _ \<Rightarrow> Inl e) = Inr x \<longleftrightarrow> k = EcP256 x"
  by (cases k) auto

lemma p384_case: "(case k of EcP384 p \<Rightarrow> Inr p | EcP256 _ \<Rightarrow> Inl e | RsaKey _ _ \<Rightarrow> Inl e) = Inr x \<longleftrightarrow> k = EcP384 x"
  by (cases k) auto

subsection \<open>An accepted quote\<close>

definition acceptNoble :: noble where
  "acceptNoble = quietNoble\<lparr>p256verify := \<lambda>s m k. True, p384verify := \<lambda>s m k. True\<rparr>"

definition sampleLeaf :: certificate where
  "sampleLeaf = sampleParsed 1 [2] [3] (samplePoint 4) False (replicate 32 0)"

definition sampleRoot :: certificate where
  "sampleRoot = sampleParsed 5 [2] [2] (samplePoint 6) True (replicate 32 0)"

definition rootFile :: bytes where
  "rootFile = asciiBytes (pemText (crtRaw sampleRoot))"

definition chainFile :: bytes where
  "chainFile = asciiBytes (concat (map pemText [crtRaw sampleLeaf, crtRaw sampleRoot]))"

lemma sample_files:
  "parseCertificateChain chainFile = Inr [sampleLeaf, sampleRoot]" "parseRoots [rootFile] = Inr [sampleRoot]"
proof -
  have c: "parseCertificate (crtRaw sampleLeaf) = Inr sampleLeaf" "parseCertificate (crtRaw sampleRoot) = Inr sampleRoot"
    using parseCertificate_sample [of "[2]" "[3]" "replicate 32 0" 1 4 False]
      parseCertificate_sample [of "[2]" "[2]" "replicate 32 0" 5 6 True]
    by (simp_all add: sampleLeaf_def sampleRoot_def sampleParsed_def Let_def)
  have n: "crtRaw sampleLeaf \<noteq> []" "crtRaw sampleRoot \<noteq> []"
    by (simp_all add: sampleLeaf_def sampleRoot_def sampleParsed_def Let_def certEnc_def tlvEnc_def)
  show "parseCertificateChain chainFile = Inr [sampleLeaf, sampleRoot]"
    using parseCertificateChain_pem [of "[crtRaw sampleLeaf, crtRaw sampleRoot]"] c n by (simp add: chainFile_def)
  show "parseRoots [rootFile] = Inr [sampleRoot]"
    using parseCertificateChain_pem [of "[crtRaw sampleRoot]"] c n by (simp add: parseRoots_def rootFile_def)
qed

lemma sample_fields [simp]:
  "crtSubject sampleLeaf = [3]" "crtIssuer sampleLeaf = [2]" "crtSubject sampleRoot = [2]" "crtIssuer sampleRoot = [2]"
  "crtKey sampleLeaf = samplePoint 4" "crtKey sampleRoot = samplePoint 6" "crtAlg sampleLeaf = EcdsaSha256"
  "crtAlg sampleRoot = EcdsaSha256" "crtIsCa sampleLeaf = None" "crtIsCa sampleRoot = Some True"
  "crtNotBefore sampleLeaf = 1704067200000" "crtNotAfter sampleLeaf = 2019686400000"
  "crtNotBefore sampleRoot = 1704067200000" "crtNotAfter sampleRoot = 2019686400000"
  by (simp_all add: sampleLeaf_def sampleRoot_def sampleParsed_def Let_def)

lemma accept_signed [simp]:
  "verifyCertificateSignature acceptNoble sampleRoot sampleLeaf = Inr ()"
  "verifyCertificateSignature acceptNoble sampleRoot sampleRoot = Inr ()"
  by (simp_all add: verifyCertificateSignature_def samplePoint_def) (simp_all add: acceptNoble_def)

lemma sample_walk: "verifyPckChain acceptNoble [sampleLeaf, sampleRoot] [sampleRoot] 1800000000000 = Inr sampleRoot"
  by (simp add: verifyPckChain_def anchorIndexOf_def findRoot_def chainLink_def checkCertificateValidity_def failIf_def
      numeral_2_eq_2)

definition oneSig :: bytes where
  "oneSig = replicate 31 0 @ [1] @ replicate 31 0 @ [1]"

definition sampleQe :: qe_data where
  "sampleQe = \<lparr>qeReport = replicate 320 0 @ sha256 acceptNoble (replicate 64 8 @ [1, 2]) @ replicate 32 0,
    qeReportSignature = oneSig, qeAuthData = [1, 2], qeInnerType = 5, qePckChain = chainFile\<rparr>"

definition sampleBlock :: quote_signature where
  "sampleBlock = \<lparr>qsSignature = oneSig, qsAttestationKey = replicate 64 8, qsCertType = 6, qsCertData = qeEnc sampleQe\<rparr>"

definition sampleBody :: bytes where
  "sampleBody = [4, 0, 2, 0, 0x81, 0, 0, 0] @ replicate 624 0"

definition sampleQuote :: bytes where
  "sampleQuote = quoteEnc sampleBody sampleBlock"

lemma oneSig_ok: "length oneSig = 64" "verifyEcdsaP256 acceptNoble oneSig m k = Inr ()"
proof -
  show l: "length oneSig = 64" by (simp add: oneSig_def)
  have z: "beNat (replicate n 0 @ [1]) = 1" for n by (induction n) (simp_all add: beNat_Cons)
  have "take 32 oneSig = replicate 31 0 @ [1]" "drop 32 oneSig = replicate 31 0 @ [1]"
    by (simp_all add: oneSig_def)
  then have "beNat (take 32 oneSig) = 1" "beNat (drop 32 oneSig) = 1" using z by simp_all
  then show "verifyEcdsaP256 acceptNoble oneSig m k = Inr ()"
    using l derEcdsaSignature_tlv [of 1 7 1]
    by (simp add: verifyEcdsaP256_def ECDSA_256_BYTES_def Let_def) (simp add: acceptNoble_def quietNoble_def)
qed

lemma length_b64Enc: "length (b64Enc bs) \<le> 2 * length bs + 2"
  by (induction bs rule: b64Enc.induct) simp_all

lemma length_raw: "length (crtRaw sampleLeaf) \<le> 300" "length (crtRaw sampleRoot) \<le> 300"
proof -
  have "length (certContent (sampleSpec 1 [2] [3] (samplePoint 4) False (replicate 32 0))) = 199"
    "length (certContent (sampleSpec 5 [2] [2] (samplePoint 6) True (replicate 32 0))) = 217"
    using length_sampleSpec(2) [of "[2]" "[3]" "replicate 32 0"] length_sampleSpec(2) [of "[2]" "[2]" "replicate 32 0"]
    by simp_all
  moreover have "length (tlvEnc 0x30 c) \<le> 300" if "length c \<le> 217" for c
    using length_tlvEnc_le [of c "0x30"] that by simp
  ultimately show "length (crtRaw sampleLeaf) \<le> 300" "length (crtRaw sampleRoot) \<le> 300"
    by (simp_all add: sampleLeaf_def sampleRoot_def sampleParsed_def Let_def certEnc_def)
qed

lemma length_chainFile: "length chainFile \<le> 2000"
proof -
  have "length pemBegin = 27" "length pemEnd = 25" by (simp_all add: pemBegin_def pemEnd_def)
  then show ?thesis
    using length_b64Enc [of "crtRaw sampleLeaf"] length_b64Enc [of "crtRaw sampleRoot"] length_raw
    by (simp add: chainFile_def asciiBytes_def pemText_def)
qed

lemma sampleQuote_parse:
  "parseTdxQuoteSignature sampleQuote = Inr sampleBlock" "parseQeReportCertificationData (qeEnc sampleQe) = Inr sampleQe"
proof -
  have h: "length (sha256 acceptNoble m) = 32" for m by (auto simp: acceptNoble_def quietNoble_def min_def)
  have l: "length (qeEnc sampleQe) \<le> 3000"
    using length_chainFile h by (simp add: qeEnc_def sampleQe_def oneSig_ok del: leEnc.simps)
  show "parseQeReportCertificationData (qeEnc sampleQe) = Inr sampleQe"
    by (rule parseQeReport_enc) (use length_chainFile h in \<open>simp_all add: sampleQe_def oneSig_ok\<close>)
  have "getLE sampleBody 0 2 = 4" "getLE sampleBody 4 4 = 0x81" "length sampleBody = 632"
    by (simp_all add: sampleBody_def getLE_def slice_def leNat_def beNat_Cons)
  then show "parseTdxQuoteSignature sampleQuote = Inr sampleBlock"
    unfolding sampleQuote_def
    by (intro parseTdxQuoteSignature_enc) (use l in \<open>simp_all add: sampleBlock_def oneSig_ok\<close>)
qed

lemma sampleQuote_accepted:
  "verifyTdxQuote acceptNoble sampleQuote [rootFile] 1800000000000 =
    Inr \<lparr>tvAttestationKey = replicate 64 8, tvPckChain = [sampleLeaf, sampleRoot], tvTrustedRoot = sampleRoot\<rparr>"
proof -
  have h: "length (sha256 acceptNoble m) = 32" for m by (auto simp: acceptNoble_def quietNoble_def min_def)
  have q: "slice (qeReport sampleQe) 320 352 = sha256 acceptNoble (replicate 64 8 @ [1, 2])"
    using h by (simp add: sampleQe_def slice_def)
  show ?thesis
    by (simp add: verifyTdxQuote_def sampleQuote_parse sampleBlock_def q failIf_def)
       (simp add: sampleQe_def sample_files sample_walk samplePoint_def oneSig_ok failIf_def)
qed

subsection \<open>Properties of the TD quote\<close>

text \<open>
  The split of a TD quote accounts for every byte: the signed region, the two length fields, signature,
  attestation key, type and certification data, written back in the Intel layout, are the quote; the
  header says version 4 and TEE type 0x81. So two quotes that are split alike and have the same signed
  region are the same quote, and nothing rides along unparsed.
\<close>

theorem parseTdxQuoteSignature_layout:
  assumes "parseTdxQuoteSignature quote = Inr b"
  shows "quote = take 632 quote @ leEnc 4 (134 + length (qsCertData b)) @ qsSignature b @ qsAttestationKey b @
      leEnc 2 (qsCertType b) @ leEnc 4 (length (qsCertData b)) @ qsCertData b \<and>
    length (qsSignature b) = 64 \<and> length (qsAttestationKey b) = 64 \<and>
    getLE quote 0 2 = 4 \<and> getLE quote 4 4 = 0x81"
proof -
  from assms have l: "636 + getLE quote 632 4 = length quote" "134 \<le> getLE quote 632 4"
    "770 + getLE quote 766 4 = length quote" and v: "getLE quote 0 2 = 4" "getLE quote 4 4 = 0x81"
    and b: "b = \<lparr>qsSignature = slice quote 636 700, qsAttestationKey = slice quote 700 764,
      qsCertType = getLE quote 764 2, qsCertData = drop 770 quote\<rparr>"
    by (auto simp: parseTdxQuoteSignature_def bindE_Inr Let_def quote_offsets)
  have e: "134 + getLE quote 766 4 = getLE quote 632 4" "length (drop 770 quote) = getLE quote 766 4"
    using l by simp_all
  have n: "leEnc 4 (134 + length (drop 770 quote)) = slice quote 632 636"
    "leEnc 2 (getLE quote 764 2) = slice quote 764 766" "leEnc 4 (length (drop 770 quote)) = slice quote 766 770"
    using leEnc_getLE [of 632 4 quote] leEnc_getLE [of 764 2 quote] leEnc_getLE [of 766 4 quote] l
    unfolding e(2,1) by (simp_all add: e(1) del: leEnc.simps)
  have "quote = take 632 quote @ slice quote 632 636 @ slice quote 636 700 @ slice quote 700 764 @
      slice quote 764 766 @ slice quote 766 770 @ drop 770 quote"
    by (simp add: slice_append_drop)
  with l v n show ?thesis by (simp add: b del: leEnc.simps)
qed

lemma parseTdxQuoteSignature_layout_witness:
  "sampleQuote = take 632 sampleQuote @ leEnc 4 (134 + length (qsCertData sampleBlock)) @ qsSignature sampleBlock @
      qsAttestationKey sampleBlock @ leEnc 2 (qsCertType sampleBlock) @ leEnc 4 (length (qsCertData sampleBlock)) @
      qsCertData sampleBlock \<and>
    length (qsSignature sampleBlock) = 64 \<and> length (qsAttestationKey sampleBlock) = 64 \<and>
    getLE sampleQuote 0 2 = 4 \<and> getLE sampleQuote 4 4 = 0x81"
  by (rule parseTdxQuoteSignature_layout [OF sampleQuote_parse(1)])

text \<open>
  The same for the type 6 certification data: the QE report, its signature, the authentication data and
  the PCK chain with their length fields are the whole of it.
\<close>

theorem parseQeReport_layout:
  assumes "parseQeReportCertificationData data = Inr q"
  shows "data = qeReport q @ qeReportSignature q @ leEnc 2 (length (qeAuthData q)) @ qeAuthData q @
      leEnc 2 (qeInnerType q) @ leEnc 4 (length (qePckChain q)) @ qePckChain q \<and>
    length (qeReport q) = 384 \<and> length (qeReportSignature q) = 64"
proof -
  define a where "a = getLE data 448 2"
  from assms have l: "450 + a + 6 \<le> length data" "456 + a + getLE data (452 + a) 4 = length data"
    and q: "q = \<lparr>qeReport = take 384 data, qeReportSignature = slice data 384 448,
      qeAuthData = slice data 450 (450 + a), qeInnerType = getLE data (450 + a) 2, qePckChain = drop (456 + a) data\<rparr>"
    by (auto simp: parseQeReportCertificationData_def bindE_Inr Let_def quote_offsets a_def add_ac)
  have e: "length (drop (456 + a) data) = getLE data (452 + a) 4" using l by simp
  have n: "leEnc 2 a = slice data 448 450" "leEnc 2 (getLE data (450 + a) 2) = slice data (450 + a) (452 + a)"
    "leEnc 4 (length (drop (456 + a) data)) = slice data (452 + a) (456 + a)"
    using leEnc_getLE [of 448 2 data] leEnc_getLE [of "450 + a" 2 data] leEnc_getLE [of "452 + a" 4 data] l
    unfolding e by (simp_all add: a_def [symmetric] add_ac del: leEnc.simps)
  have "data = take 384 data @ slice data 384 448 @ slice data 448 450 @ slice data 450 (450 + a) @
      slice data (450 + a) (452 + a) @ slice data (452 + a) (456 + a) @ drop (456 + a) data"
    by (simp add: slice_append_drop)
  with l n show ?thesis by (simp add: q del: leEnc.simps)
qed

lemma parseQeReport_layout_witness:
  "qeEnc sampleQe = qeReport sampleQe @ qeReportSignature sampleQe @ leEnc 2 (length (qeAuthData sampleQe)) @
      qeAuthData sampleQe @ leEnc 2 (qeInnerType sampleQe) @ leEnc 4 (length (qePckChain sampleQe)) @ qePckChain sampleQe \<and>
    length (qeReport sampleQe) = 384 \<and> length (qeReportSignature sampleQe) = 64"
  by (rule parseQeReport_layout [OF sampleQuote_parse(2)])

text \<open>
  C2 DCAP soundness, the three signatures that carry the trust: an accepted quote's leading 632 bytes are
  signed by the attestation key it presents; the SHA-256 of that key and the authentication data opens the
  QE report's REPORT_DATA; the QE report is signed by the P-256 key of the chain's leaf; and the leaf is
  linked to the returned root, whose signature a pinned root with its name verifies.
\<close>

theorem verifyTdxQuote_sound:
  assumes "verifyTdxQuote N quote blobs now = Inr v"
  shows "\<exists>b qe p roots i pinned.
    parseTdxQuoteSignature quote = Inr b \<and> parseQeReportCertificationData (qsCertData b) = Inr qe \<and>
    verifyEcdsaP256 N (qsSignature b) (take 632 quote) (0x04 # qsAttestationKey b) = Inr () \<and>
    sha256 N (qsAttestationKey b @ qeAuthData qe) = slice (qeReport qe) 320 352 \<and>
    crtKey (tvPckChain v ! 0) = EcP256 p \<and> verifyEcdsaP256 N (qeReportSignature qe) (qeReport qe) p = Inr () \<and>
    tvAttestationKey v = qsAttestationKey b \<and> parseRoots blobs = Inr roots \<and>
    0 < i \<and> i < length (tvPckChain v) \<and> tvTrustedRoot v = tvPckChain v ! i \<and>
    linked N now (take (Suc i) (tvPckChain v)) \<and> pinned \<in> set roots \<and>
    crtSubject pinned = crtSubject (tvTrustedRoot v) \<and> verifyCertificateSignature N pinned (tvTrustedRoot v) = Inr ()"
proof -
  from assms obtain b qe chain roots root p where
    b: "parseTdxQuoteSignature quote = Inr b" and qe: "parseQeReportCertificationData (qsCertData b) = Inr qe" and
    r: "parseRoots blobs = Inr roots" and c: "verifyPckChain N chain roots now = Inr root" and
    p: "crtKey (chain ! 0) = EcP256 p" "verifyEcdsaP256 N (qeReportSignature qe) (qeReport qe) p = Inr ()" and
    h: "sha256 N (qsAttestationKey b @ qeAuthData qe) = slice (qeReport qe) 320 352" and
    s: "verifyEcdsaP256 N (qsSignature b) (take 632 quote) (0x04 # qsAttestationKey b) = Inr ()" and
    v: "v = \<lparr>tvAttestationKey = qsAttestationKey b, tvPckChain = chain, tvTrustedRoot = root\<rparr>"
    by (auto simp: verifyTdxQuote_def bindE_Inr SIGNED_REGION_def p256_case)
  from verifyPckChain_anchor [OF c] obtain i pinned where i: "0 < i" "i < length chain" "root = chain ! i"
    "linked N now (take (Suc i) chain)" "pinned \<in> set roots" "crtSubject pinned = crtSubject root"
    "verifyCertificateSignature N pinned root = Inr ()" by blast
  show ?thesis
    by (intro exI [of _ b] exI [of _ qe] exI [of _ p] exI [of _ roots] exI [of _ i] exI [of _ pinned])
       (use b qe r p h s v i in simp)
qed

lemma verifyTdxQuote_sound_witness:
  "\<exists>b qe p roots i pinned.
    parseTdxQuoteSignature sampleQuote = Inr b \<and> parseQeReportCertificationData (qsCertData b) = Inr qe \<and>
    verifyEcdsaP256 acceptNoble (qsSignature b) (take 632 sampleQuote) (0x04 # qsAttestationKey b) = Inr () \<and>
    sha256 acceptNoble (qsAttestationKey b @ qeAuthData qe) = slice (qeReport qe) 320 352 \<and>
    crtKey ([sampleLeaf, sampleRoot] ! 0) = EcP256 p \<and> verifyEcdsaP256 acceptNoble (qeReportSignature qe) (qeReport qe) p = Inr () \<and>
    replicate 64 8 = qsAttestationKey b \<and> parseRoots [rootFile] = Inr roots \<and>
    0 < i \<and> i < length [sampleLeaf, sampleRoot] \<and> sampleRoot = [sampleLeaf, sampleRoot] ! i \<and>
    linked acceptNoble 1800000000000 (take (Suc i) [sampleLeaf, sampleRoot]) \<and> pinned \<in> set roots \<and>
    crtSubject pinned = crtSubject sampleRoot \<and> verifyCertificateSignature acceptNoble pinned sampleRoot = Inr ()"
  using verifyTdxQuote_sound [OF sampleQuote_accepted] by (simp only: tdx_verification.select_convs)

end
