(* ===== verification/Verify.thy ===== *)
theory Verify
  imports Receipt RecordChain Decode Events Hardware
begin

text \<open>
  packages/attest-core/src/verify.ts: the entry point that decodes an attestation and checks it against
  the caller's roots, and the bindings a caller reads off the result. The clock's \<open>Date.now()\<close> default
  is the caller's \<open>now\<close>; the SHA-256 identifier \<open>keyId\<close> of a session key is \<open>sha256\<close>.
\<close>

definition MR_CONFIG_DOMAIN :: jsstr where "MR_CONFIG_DOMAIN = js ''dstack-mr-config-v3:''"
definition MR_CONFIG_ID_TAG :: byte where "MR_CONFIG_ID_TAG = 3"
definition MR_CONFIG_ID_SIZE :: nat where "MR_CONFIG_ID_SIZE = 48"
definition MR_CONFIG_DIGEST_SIZE :: nat where "MR_CONFIG_DIGEST_SIZE = 32"
definition MAX_INIT_SCRIPTS :: nat where "MAX_INIT_SCRIPTS = 5"

definition mrConfigDocumentDigest :: "noble \<Rightarrow> jsstr \<Rightarrow> bytes" where
  "mrConfigDocumentDigest N document = sha256 N (textEncode MR_CONFIG_DOMAIN @ [0] @ textEncode document)"

subsection \<open>Options and results\<close>

record verify_options =
  voNowMillis :: int
  voTrustedArks :: "bytes list"
  voAskCert :: "bytes option"
  voVcekCert :: "bytes option"
  voIntelRoots :: "bytes list"
  voGpuEvidence :: "gpu_evidence list"
  voNvidiaRoots :: "bytes list"
  voGpuNonce :: "bytes option"
  voAllowDebug :: bool

record mr_config =
  mcRaw :: jsstr
  mcVersion :: "nat option"
  mcAppId :: "bytes option"
  mcComposeHash :: bytes
  mcGpuPolicyHash :: "bytes option"
  mcKeyProvider :: "jsstr option"
  mcKeyProviderId :: "bytes option"
  mcInstanceId :: "bytes option"
  mcInitScriptHashes :: "bytes list option"

record tdx_mr_config =
  tmTag :: byte
  tmDigest :: bytes

datatype platform_verification =
    SnpVerification snp_report mr_config
  | TdxVerification tdx_quote "tdx_mr_config option"

record verification_result =
  vrVersion :: att_version
  vrQuoteSignatureVerified :: bool
  vrReportData :: bytes
  vrRuntimeEvents :: "runtime_event list"
  vrConfig :: jsstr
  vrPlatform :: platform_verification
  vrGpus :: "bytes list"

subsection \<open>The mr_config document\<close>

definition hexField :: "jsval \<Rightarrow> nat option \<Rightarrow> aerr + bytes option" where
  "hexField value byteLength =
    (case value of
       JStr s \<Rightarrow>
         (case fromHex s of
            None \<Rightarrow> Inl MR_CONFIG_MISMATCH
          | Some bs \<Rightarrow>
              if byteLength \<noteq> None \<and> byteLength \<noteq> Some (length bs) then Inl MR_CONFIG_MISMATCH
              else Inr (Some bs))
     | _ \<Rightarrow> Inr None)"

definition requiredHex :: "jsval \<Rightarrow> nat option \<Rightarrow> aerr + bytes" where
  "requiredHex value byteLength =
    bindE (hexField value byteLength) (\<lambda>r. case r of None \<Rightarrow> Inl MR_CONFIG_MISMATCH | Some bs \<Rightarrow> Inr bs)"

definition parseInitScriptHashes :: "jsval \<Rightarrow> aerr + bytes list option" where
  "parseInitScriptHashes value =
    (case value of
       JUndef \<Rightarrow> Inr None
     | JNull \<Rightarrow> Inr None
     | JArr xs \<Rightarrow>
         if length xs > MAX_INIT_SCRIPTS then Inl MR_CONFIG_MISMATCH
         else bindE (mapE (\<lambda>x. requiredHex x (Some MR_CONFIG_DIGEST_SIZE)) xs) (\<lambda>hs. Inr (Some hs))
     | _ \<Rightarrow> Inl MR_CONFIG_MISMATCH)"

definition parseMrConfig :: "jsstr \<Rightarrow> aerr + mr_config" where
  "parseMrConfig raw =
    (case jsonParse raw of
       Some (JObj fs p) \<Rightarrow>
         (let field = (\<lambda>k. getProp (JObj fs p) (js k)) in
          bindE (hexField (field ''app_id'') (Some 20)) (\<lambda>appId.
          bindE (requiredHex (field ''compose_hash'') (Some MR_CONFIG_DIGEST_SIZE)) (\<lambda>composeHash.
          bindE (hexField (field ''gpu_policy_hash'') None) (\<lambda>gpuPolicyHash.
          bindE (hexField (field ''key_provider_id'') None) (\<lambda>keyProviderId.
          bindE (hexField (field ''instance_id'') None) (\<lambda>instanceId.
          bindE (parseInitScriptHashes (field ''init_script_hashes'')) (\<lambda>initScriptHashes.
            Inr \<lparr>mcRaw = raw, mcVersion = asUint (field ''version''), mcAppId = appId,
              mcComposeHash = composeHash, mcGpuPolicyHash = gpuPolicyHash,
              mcKeyProvider = (case field ''key_provider'' of JStr s \<Rightarrow> Some s | _ \<Rightarrow> None),
              mcKeyProviderId = keyProviderId, mcInstanceId = instanceId,
              mcInitScriptHashes = initScriptHashes\<rparr>)))))))
     | _ \<Rightarrow> Inl MR_CONFIG_MISMATCH)"

definition verifyMrConfigHostData :: "noble \<Rightarrow> jsstr \<Rightarrow> snp_report \<Rightarrow> aerr + mr_config" where
  "verifyMrConfigHostData N mrConfig report =
    bindE (failIf (\<not> equalBytes (mrConfigDocumentDigest N mrConfig) (srHostData report)) MR_CONFIG_MISMATCH) (\<lambda>_.
      parseMrConfig mrConfig)"

definition readTdxMrConfig :: "bytes \<Rightarrow> aerr + tdx_mr_config option" where
  "readTdxMrConfig mrConfigId =
    (if length mrConfigId \<noteq> MR_CONFIG_ID_SIZE then Inl MALFORMED_QUOTE
     else if isZero mrConfigId then Inr None
     else
       let tag = mrConfigId ! 0 in
       if tag \<noteq> MR_CONFIG_ID_TAG then Inl BAD_MR_CONFIG_ID
       else if \<not> isZero (drop (1 + MR_CONFIG_DIGEST_SIZE) mrConfigId) then Inl BAD_MR_CONFIG_ID
       else Inr (Some \<lparr>tmTag = tag, tmDigest = slice mrConfigId 1 (1 + MR_CONFIG_DIGEST_SIZE)\<rparr>))"

subsection \<open>The two platforms\<close>

text \<open>The ASK and VCEK blobs: the attestation's own where it carries a chain, else the caller's.\<close>

definition snpCertBytes :: "bytes list \<Rightarrow> verify_options \<Rightarrow> aerr + bytes \<times> bytes" where
  "snpCertBytes certChain opts =
    (if length certChain > 0 then normalizeSnpCertificates certChain
     else case (voAskCert opts, voVcekCert opts) of
       (Some ask, Some vcek) \<Rightarrow> Inr (ask, vcek)
     | _ \<Rightarrow> Inl MISSING_TRUST_ROOT)"

definition verifySevSnp :: "noble \<Rightarrow> attestation \<Rightarrow> verify_options \<Rightarrow> aerr + verification_result" where
  "verifySevSnp N a opts =
    (case attPlatform a of
       SevSnp reportBytes certChain mrConfigText \<Rightarrow>
         bindE (parseSnpReport reportBytes) (\<lambda>report.
         bindE (snpCertBytes certChain opts) (\<lambda>(askBytes, vcekBytes).
         bindE (parseSingleCertificate askBytes) (\<lambda>ask.
         bindE (parseSingleCertificate vcekBytes) (\<lambda>vcek.
         bindE (parseRoots (voTrustedArks opts)) (\<lambda>candidates.
         bindE (findMatchingArk candidates ask) (\<lambda>ark.
         bindE (verifyAmdCertificateChain N ark ask vcek (voNowMillis opts)) (\<lambda>_.
         bindE (verifyVcekMatchesReport vcek report) (\<lambda>_.
         bindE (verifySnpReportSignature N report vcek) (\<lambda>_.
         bindE (validateSnpPolicy report (voAllowDebug opts)) (\<lambda>_.
         bindE (failIf (\<not> equalBytes (seReportData (attStack a)) (srReportData report)) REPORT_DATA_MISMATCH) (\<lambda>_.
         bindE (verifyMrConfigHostData N mrConfigText report) (\<lambda>mrConfig.
           Inr \<lparr>vrVersion = attVersion a, vrQuoteSignatureVerified = True, vrReportData = seReportData (attStack a),
             vrRuntimeEvents = seRuntimeEvents (attStack a), vrConfig = seConfig (attStack a),
             vrPlatform = SnpVerification report mrConfig, vrGpus = []\<rparr>))))))))))))
     | _ \<Rightarrow> Inl UNSUPPORTED_PLATFORM)"

definition verifyTdx :: "noble \<Rightarrow> attestation \<Rightarrow> verify_options \<Rightarrow> aerr + verification_result" where
  "verifyTdx N a opts =
    (case attPlatform a of
       Tdx quoteBytes eventLog \<Rightarrow>
         bindE (parseTdxQuote quoteBytes) (\<lambda>quote.
           let pinned = length (voIntelRoots opts) > 0 in
         bindE (if pinned then bindE (verifyTdxQuote N quoteBytes (voIntelRoots opts) (voNowMillis opts)) (\<lambda>_. Inr ())
                else Inr ()) (\<lambda>_.
         bindE (validateEventLog N eventLog (seRuntimeEvents (attStack a))) (\<lambda>_.
         bindE (failIf (\<not> equalBytes (replayRtmr3 N (seRuntimeEvents (attStack a))) (tqRtmr quote ! 3)) RTMR_MISMATCH) (\<lambda>_.
         bindE (failIf (\<not> equalBytes (seReportData (attStack a)) (tqReportData quote)) REPORT_DATA_MISMATCH) (\<lambda>_.
         bindE (readTdxMrConfig (tqMrConfigId quote)) (\<lambda>mrConfig.
           Inr \<lparr>vrVersion = attVersion a, vrQuoteSignatureVerified = pinned, vrReportData = seReportData (attStack a),
             vrRuntimeEvents = seRuntimeEvents (attStack a), vrConfig = seConfig (attStack a),
             vrPlatform = TdxVerification quote mrConfig, vrGpus = []\<rparr>))))))
     | _ \<Rightarrow> Inl UNSUPPORTED_PLATFORM)"

text \<open>A GPU's verification is the nonce it signed; \<open>signatureVerified\<close> is the constant true.\<close>

definition verifyGpuEvidence :: "noble \<Rightarrow> verify_options \<Rightarrow> aerr + bytes list" where
  "verifyGpuEvidence N opts =
    mapE (\<lambda>e. verifyNvidiaRats N e (voNvidiaRoots opts) (voGpuNonce opts) (voNowMillis opts)) (voGpuEvidence opts)"

definition verifyAttestation :: "noble \<Rightarrow> bytes \<Rightarrow> verify_options \<Rightarrow> aerr + verification_result" where
  "verifyAttestation N bs opts =
    bindE (decodeAttestation bs) (\<lambda>a.
    bindE (verifyGpuEvidence N opts) (\<lambda>gpus.
      case attPlatform a of
        SevSnp _ _ _ \<Rightarrow> bindE (verifySevSnp N a opts) (\<lambda>r. Inr (r\<lparr>vrGpus := gpus\<rparr>))
      | Tdx _ _ \<Rightarrow> bindE (verifyTdx N a opts) (\<lambda>r. Inr (r\<lparr>vrGpus := gpus\<rparr>))
      | _ \<Rightarrow> Inl UNSUPPORTED_PLATFORM))"

subsection \<open>What a caller reads off the result\<close>

definition platformMeasurement :: "verification_result \<Rightarrow> bytes" where
  "platformMeasurement r =
    (case vrPlatform r of SnpVerification report _ \<Rightarrow> srMeasurement report | TdxVerification quote _ \<Rightarrow> tqMrTd quote)"

text \<open>
  The arm comes out of the payload's \<open>enc\<close>: \<open>None\<close> is a document without one, \<open>EncPlaintext\<close> the scheme
  \<open>none\<close>, and only \<open>EncSession\<close> carries a key. \<open>keyId\<close> of the key is its SHA-256.
\<close>

definition evidenceReportData :: "noble \<Rightarrow> bytes \<Rightarrow> bytes \<Rightarrow> encryption option \<Rightarrow> bytes" where
  "evidenceReportData N nonce requestHash encryption =
    (let sessionKey = (case encryption of None \<Rightarrow> None | Some EncPlaintext \<Rightarrow> None | Some (EncSession pk) \<Rightarrow> Some pk);
         parts = (case sessionKey of
           None \<Rightarrow> [nonce, requestHash]
         | Some pk \<Rightarrow> [nonce, pk, sha256 N pk, requestHash])
     in sha256 N (concat parts))"

definition reportDataBinds :: "bytes \<Rightarrow> bytes \<Rightarrow> bool" where
  "reportDataBinds quoted requested =
    (if length requested = 0 \<or> length requested > length quoted then False
     else
       let pad = length quoted - length requested in
       equalBytes (take (length requested) quoted) requested \<and> isZero (drop (length requested) quoted) \<or>
       equalBytes (drop pad quoted) requested \<and> isZero (take pad quoted))"

definition pinnedComposeHash :: "verification_result \<Rightarrow> bytes option" where
  "pinnedComposeHash r =
    (case vrPlatform r of
       SnpVerification _ mrConfig \<Rightarrow> Some (mcComposeHash mrConfig)
     | TdxVerification _ _ \<Rightarrow>
         map_option rePayload (find (\<lambda>e. reEvent e = js ''compose-hash'') (vrRuntimeEvents r)))"

subsection \<open>What acceptance establishes\<close>

lemma verifyGpuEvidence_Inr:
  assumes "verifyGpuEvidence N opts = Inr gpus"
  shows "list_all2 (\<lambda>e nonce. verifyNvidiaRats N e (voNvidiaRoots opts) (voGpuNonce opts) (voNowMillis opts) = Inr nonce)
    (voGpuEvidence opts) gpus"
  using assms by (simp add: verifyGpuEvidence_def mapE_Inr_iff)

lemma verifyTdx_Inr:
  assumes "verifyTdx N a opts = Inr r"
  obtains quote log q m where "attPlatform a = Tdx quote log" "parseTdxQuote quote = Inr q"
    "voIntelRoots opts \<noteq> [] \<longrightarrow> (\<exists>v. verifyTdxQuote N quote (voIntelRoots opts) (voNowMillis opts) = Inr v)"
    "validateEventLog N log (seRuntimeEvents (attStack a)) = Inr ()"
    "replayRtmr3 N (seRuntimeEvents (attStack a)) = tqRtmr q ! 3" "seReportData (attStack a) = tqReportData q"
    "readTdxMrConfig (tqMrConfigId q) = Inr m"
    "r = \<lparr>vrVersion = attVersion a, vrQuoteSignatureVerified = (voIntelRoots opts \<noteq> []),
      vrReportData = seReportData (attStack a), vrRuntimeEvents = seRuntimeEvents (attStack a),
      vrConfig = seConfig (attStack a), vrPlatform = TdxVerification q m, vrGpus = []\<rparr>"
  using assms
  by (auto simp: verifyTdx_def bindE_Inr Let_def split: platform_evidence.splits if_splits)

lemma verifySevSnp_platform:
  "verifySevSnp N a opts = Inr r \<Longrightarrow> \<exists>report m. vrPlatform r = SnpVerification report m"
  by (auto simp: verifySevSnp_def bindE_Inr split_beta split: platform_evidence.splits)

text \<open>
  C1 What a caller may rely on when a TDX attestation verifies: the bytes decode to a quote and a stack; the
  report data and the events returned are the stack's; the report data is the one inside the quote; the
  events replay to the quote's RTMR3 and match the event log; the result says the quote's signature was
  verified exactly when the caller pinned Intel roots, and then the DCAP check of that quote succeeded; and
  every GPU report supplied verified under the pinned NVIDIA roots, in order.
\<close>

theorem verifyAttestation_tdx:
  assumes "verifyAttestation N bs opts = Inr r" and "vrPlatform r = TdxVerification q m"
  shows "\<exists>a quote log. decodeAttestation bs = Inr a \<and> attPlatform a = Tdx quote log \<and> parseTdxQuote quote = Inr q \<and>
    vrReportData r = seReportData (attStack a) \<and> vrReportData r = tqReportData q \<and>
    vrRuntimeEvents r = seRuntimeEvents (attStack a) \<and> validateEventLog N log (vrRuntimeEvents r) = Inr () \<and>
    replayRtmr3 N (vrRuntimeEvents r) = tqRtmr q ! 3 \<and> readTdxMrConfig (tqMrConfigId q) = Inr m \<and>
    vrQuoteSignatureVerified r = (voIntelRoots opts \<noteq> []) \<and>
    (voIntelRoots opts = [] \<or> (\<exists>v. verifyTdxQuote N quote (voIntelRoots opts) (voNowMillis opts) = Inr v)) \<and>
    list_all2 (\<lambda>e nonce. verifyNvidiaRats N e (voNvidiaRoots opts) (voGpuNonce opts) (voNowMillis opts) = Inr nonce)
      (voGpuEvidence opts) (vrGpus r)"
proof -
  from assms(1) obtain a gpus where a: "decodeAttestation bs = Inr a" and g: "verifyGpuEvidence N opts = Inr gpus"
    unfolding verifyAttestation_def bindE_Inr by blast
  have "\<exists>r'. (verifySevSnp N a opts = Inr r' \<or> verifyTdx N a opts = Inr r') \<and> r = r'\<lparr>vrGpus := gpus\<rparr>"
    using assms(1) a g by (cases "attPlatform a") (auto simp: verifyAttestation_def bindE_Inr)
  then obtain r' where r': "verifySevSnp N a opts = Inr r' \<or> verifyTdx N a opts = Inr r'" "r = r'\<lparr>vrGpus := gpus\<rparr>"
    by blast
  have "verifyTdx N a opts = Inr r'" using r' verifySevSnp_platform [of N a opts r'] assms(2) by auto
  then obtain quote log q' m' where t: "attPlatform a = Tdx quote log" "parseTdxQuote quote = Inr q'"
    "voIntelRoots opts \<noteq> [] \<longrightarrow> (\<exists>v. verifyTdxQuote N quote (voIntelRoots opts) (voNowMillis opts) = Inr v)"
    "validateEventLog N log (seRuntimeEvents (attStack a)) = Inr ()"
    "replayRtmr3 N (seRuntimeEvents (attStack a)) = tqRtmr q' ! 3" "seReportData (attStack a) = tqReportData q'"
    "readTdxMrConfig (tqMrConfigId q') = Inr m'"
    "r' = \<lparr>vrVersion = attVersion a, vrQuoteSignatureVerified = (voIntelRoots opts \<noteq> []),
      vrReportData = seReportData (attStack a), vrRuntimeEvents = seRuntimeEvents (attStack a),
      vrConfig = seConfig (attStack a), vrPlatform = TdxVerification q' m', vrGpus = []\<rparr>"
    by (rule verifyTdx_Inr) (rule that; assumption)
  have "q' = q" "m' = m" using t(8) r'(2) assms(2) by simp_all
  then show ?thesis
    using a t r'(2) verifyGpuEvidence_Inr [OF g]
    by (intro exI [of _ a] exI [of _ quote] exI [of _ log]) auto
qed

text \<open>A V0 attestation around the sample quote: no events, zero report data, no init configuration.\<close>

definition sampleTdx :: attestation where
  "sampleTdx = \<lparr>attVersion = V0, attPlatform = Tdx sampleQuote [],
    attStack = \<lparr>seReportData = replicate 64 0, seRuntimeEvents = [], seConfig = js ''{}'',
      seReportDataPayload = None, seStackKind = Dstack\<rparr>\<rparr>"

definition sampleOptions :: verify_options where
  "sampleOptions = \<lparr>voNowMillis = 1800000000000, voTrustedArks = [], voAskCert = None, voVcekCert = None,
    voIntelRoots = [rootFile], voGpuEvidence = [], voNvidiaRoots = [], voGpuNonce = None, voAllowDebug = False\<rparr>"

lemma sampleQuote_length: "632 \<le> length sampleQuote" "length sampleQuote \<le> 4000"
proof -
  have h: "length (sha256 acceptNoble m) = 32" for m by (auto simp: acceptNoble_def quietNoble_def min_def)
  show "632 \<le> length sampleQuote" "length sampleQuote \<le> 4000"
    using length_chainFile
    by (simp_all add: sampleQuote_def quoteEnc_def sampleBlock_def sampleBody_def qeEnc_def sampleQe_def oneSig_ok h
        del: leEnc.simps)
qed

lemma sampleQuote_zero: "8 \<le> i \<Longrightarrow> i + n \<le> 632 \<Longrightarrow> quoteSection sampleQuote i n = replicate n 0"
proof -
  assume i: "8 \<le> i" "i + n \<le> 632"
  define rest where "rest = drop 632 sampleQuote"
  have "sampleQuote = [4, 0, 2, 0, 0x81, 0, 0, 0] @ replicate 624 0 @ rest"
    unfolding rest_def by (simp add: sampleQuote_def quoteEnc_def sampleBody_def drop_Cons')
  then have "drop 8 sampleQuote = replicate 624 0 @ rest" by (rule ssubst) simp
  moreover have "drop i sampleQuote = drop (i - 8) (drop 8 sampleQuote)" using i by (simp add: drop_drop)
  ultimately have "drop i sampleQuote = drop (i - 8) (replicate 624 0) @ rest" using i by simp
  then show ?thesis using i by (simp add: quoteSection_def slice_def)
qed

lemma decode_sampleTdx: "decodeAttestation (v0Enc sampleTdx) = Inr sampleTdx"
proof -
  have t: "textOk (js ''{}'')" by (rule textOk_literal) (simp_all add: asciiStr_def MAX_ATTESTATION_BYTES_def)
  have ok: "v0Ok sampleTdx"
    using t sampleQuote_length by (simp add: v0Ok_def sampleTdx_def binOk_def MAX_ATTESTATION_BYTES_def)
  have "length (strEnc (js ''{}'')) \<le> 10"
    by (simp add: strEnc_def vecEnc_def compact_def textEncode_ascii ascii_js asciiStr_def length_textEncode_ascii)
  then have "length (v0Enc sampleTdx) \<le> MAX_ATTESTATION_BYTES"
    using sampleQuote_length
    by (simp add: v0Enc_def sampleTdx_def itemsEnc_def vecEnc_def compact_def MAX_ATTESTATION_BYTES_def)
  then show ?thesis by (rule decode_v0_ok [OF ok])
qed

lemma sampleTdx_accepted:
  "verifyAttestation acceptNoble (v0Enc sampleTdx) sampleOptions = Inr \<lparr>vrVersion = V0,
    vrQuoteSignatureVerified = True, vrReportData = replicate 64 0, vrRuntimeEvents = [], vrConfig = js ''{}'',
    vrPlatform = TdxVerification (case parseTdxQuote sampleQuote of Inr q \<Rightarrow> q) None, vrGpus = []\<rparr>"
proof -
  have q: "parseTdxQuote sampleQuote = Inr \<lparr>tqRaw = sampleQuote, tqVersion = getLE sampleQuote 0x00 2,
      tqKeyType = getLE sampleQuote 0x02 2, tqTeeType = getLE sampleQuote 0x04 4, tqMrTd = replicate 48 0,
      tqMrConfigId = replicate 48 0, tqMrOwner = replicate 48 0, tqMrOwnerConfig = replicate 48 0,
      tqRtmr = [replicate 48 0, replicate 48 0, replicate 48 0, replicate 48 0], tqReportData = replicate 64 0\<rparr>"
    using sampleQuote_length by (simp add: parseTdxQuote_def MIN_QUOTE_LENGTH_def sampleQuote_zero)
  have z: "readTdxMrConfig (replicate 48 0) = Inr None"
    by (simp add: readTdxMrConfig_def MR_CONFIG_ID_SIZE_def isZero_def list_all_length)
  show ?thesis
    by (simp add: verifyAttestation_def decode_sampleTdx verifyGpuEvidence_def sampleOptions_def)
       (simp add: sampleTdx_def verifyTdx_def q sampleQuote_accepted validateEventLog_def imr3Events_def replayRtmr3_def
          z failIf_def)
qed

lemma verifyAttestation_tdx_witness:
  "\<exists>q a. decodeAttestation (v0Enc sampleTdx) = Inr a \<and> attPlatform a = Tdx sampleQuote [] \<and>
    parseTdxQuote sampleQuote = Inr q \<and> tqReportData q = replicate 64 0 \<and>
    replayRtmr3 acceptNoble [] = tqRtmr q ! 3"
proof -
  obtain q r where q: "verifyAttestation acceptNoble (v0Enc sampleTdx) sampleOptions = Inr r"
    "vrPlatform r = TdxVerification q None" "vrReportData r = replicate 64 0" "vrRuntimeEvents r = []"
    using sampleTdx_accepted by simp
  have s: "attPlatform sampleTdx = Tdx sampleQuote []" by (simp add: sampleTdx_def)
  from verifyAttestation_tdx [OF q(1,2)] show ?thesis
    unfolding q(3,4) decode_sampleTdx by (auto simp: s)
qed

subsection \<open>Properties of the bindings\<close>

lemma isZero_iff: "isZero bs \<longleftrightarrow> bs = replicate (length bs) 0"
  by (auto simp: isZero_def list_all_iff intro: replicate_eqI) (metis in_set_replicate)

text \<open>
  MR_CONFIG_ID is read exactly when it is one of two shapes: forty-eight zero bytes, which pin no
  configuration, or the tag 3, a digest of 32 bytes and fifteen zero bytes; and what is read writes it back.
\<close>

theorem readTdxMrConfig_iff:
  "readTdxMrConfig bs = Inr m \<longleftrightarrow>
    (case m of
       None \<Rightarrow> bs = replicate 48 0
     | Some t \<Rightarrow> tmTag t = 3 \<and> length (tmDigest t) = 32 \<and> bs = tmTag t # tmDigest t @ replicate 15 0)"
proof (cases "length bs = 48 \<and> \<not> isZero bs")
  case False
  have "isZero (replicate 48 0)" "\<not> isZero (3 # ds)" for ds by (simp_all add: isZero_def list_all_iff)
  then have "replicate 48 0 \<noteq> (3 :: byte) # ds" for ds by metis
  then show ?thesis
    using False by (auto simp: readTdxMrConfig_def MR_CONFIG_ID_SIZE_def isZero_iff split: option.splits)
next
  case True
  obtain t rest where b: "bs = t # rest" using True by (cases bs) auto
  have r: "length rest = 47" using True b by simp
  have "rest = take 32 rest @ drop 32 rest" by simp
  moreover have "isZero (drop 32 rest) \<longleftrightarrow> drop 32 rest = replicate 15 0" using r by (simp add: isZero_iff)
  ultimately have z: "isZero (drop 32 rest) \<longleftrightarrow> rest = take 32 rest @ replicate 15 0"
    by (metis append_same_eq same_append_eq)
  have n: "bs \<noteq> replicate 48 0" using True by (auto simp: isZero_def list_all_iff)
  show ?thesis
    using True n r
    by (cases m; cases "the m")
       (auto simp: readTdxMrConfig_def MR_CONFIG_ID_SIZE_def MR_CONFIG_DIGEST_SIZE_def MR_CONFIG_ID_TAG_def b z
          slice_def append_eq_conv_conj)
qed

lemma reportDataBinds_iff:
  "reportDataBinds q r \<longleftrightarrow> r \<noteq> [] \<and> (\<exists>n. q = r @ replicate n 0 \<or> q = replicate n 0 @ r)"
proof
  assume "reportDataBinds q r"
  then have "r \<noteq> []" and "q = r @ drop (length r) q \<and> isZero (drop (length r) q) \<or>
      q = take (length q - length r) q @ r \<and> isZero (take (length q - length r) q)"
    by (auto simp: reportDataBinds_def Let_def isZero_def split: if_splits) (metis append_take_drop_id)+
  then show "r \<noteq> [] \<and> (\<exists>n. q = r @ replicate n 0 \<or> q = replicate n 0 @ r)"
    by (metis isZero_iff)
qed (auto simp: reportDataBinds_def Let_def isZero_def list_all_iff)

lemma pad_clash:
  assumes "r @ replicate n 0 = replicate m 0 @ r'" "length r = length r'" "length r \<le> m"
  shows "(r :: bytes) = r'"
proof -
  have "n = m" using arg_cong [OF assms(1), of length] assms(2) by simp
  have "r = take (length r) (replicate m 0 @ r')" using assms(1) by (metis append_eq_conv_conj)
  then have r: "r = replicate (length r) 0" using assms(3) by (simp add: min_def)
  have "r' = drop m (r @ replicate n 0)" using assms(1) by simp
  also have "\<dots> = replicate (length r) 0"
    by (subst r) (simp add: \<open>n = m\<close> flip: replicate_add)
  finally show ?thesis using r by simp
qed

text \<open>
  Quoted report data binds one value of a length: where the requested value is at most half the field, as
  a SHA-256 value is in the 64 bytes of a quote, two values of that length which the same quoted field binds,
  at either end, are the same value. So accepting either padding gives no second reading of a quote.
\<close>

theorem reportDataBinds_unique:
  assumes "reportDataBinds q r" and "reportDataBinds q r'" and "length r = length r'" and "2 * length r \<le> length q"
  shows "r = r'"
proof -
  obtain n where n: "q = r @ replicate n 0 \<or> q = replicate n 0 @ r" using assms(1) reportDataBinds_iff by blast
  obtain m where m: "q = r' @ replicate m 0 \<or> q = replicate m 0 @ r'" using assms(2) reportDataBinds_iff by blast
  have "length q = length r + n" using n by (elim disjE) (simp_all only: length_append length_replicate add.commute)
  moreover have "length q = length r' + m" using m by (elim disjE) (simp_all only: length_append length_replicate add.commute)
  moreover note assms(3,4)
  ultimately have e: "m = n" "length r \<le> n" "length r' \<le> n" by linarith+
  show ?thesis
    using n [unfolded e] m [unfolded e] pad_clash [of r n n r', OF _ assms(3) e(2)] pad_clash [of r' n n r, OF _ assms(3) [symmetric] e(3)]
    by (metis append_same_eq same_append_eq)
qed

lemma reportDataBinds_unique_witness:
  "reportDataBinds [7, 0, 0] [7] \<and> \<not> reportDataBinds [7, 0, 0] [0] \<and> \<not> reportDataBinds [0, 7, 0] [7]"
proof -
  have b: "reportDataBinds [7, 0, 0] [7]" by (simp add: reportDataBinds_def isZero_def)
  have "\<not> reportDataBinds [7, 0, 0] [0]" using reportDataBinds_unique [OF b, of "[0]"] by auto
  with b show ?thesis by (simp add: reportDataBinds_def isZero_def)
qed

text \<open>The string the report data is the digest of, by the arm the document names.\<close>

fun reportPreimage :: "noble \<Rightarrow> bytes \<Rightarrow> bytes \<Rightarrow> encryption option \<Rightarrow> bytes" where
  "reportPreimage N nonce req (Some (EncSession pk)) = nonce @ pk @ sha256 N pk @ req"
| "reportPreimage N nonce req (Some EncPlaintext) = nonce @ req"
| "reportPreimage N nonce req None = nonce @ req"

lemma evidenceReportData_pre: "evidenceReportData N nonce req enc = sha256 N (reportPreimage N nonce req enc)"
  by (simp add: evidenceReportData_def split: option.split encryption.split)

lemma reportPreimage_inject:
  assumes "reportPreimage N nonce req enc = reportPreimage N nonce' req' enc'"
    and "length nonce = length nonce'" and "length req = length req'" and "\<forall>m. length (sha256 N m) = 32"
  shows "nonce = nonce' \<and> req = req' \<and> (\<forall>pk. enc = Some (EncSession pk) \<longleftrightarrow> enc' = Some (EncSession pk))"
proof -
  define folded where "folded e = (case e of Some (EncSession pk) \<Rightarrow> pk @ sha256 N pk | _ \<Rightarrow> [])" for e
  have pre: "reportPreimage N n r e = n @ folded e @ r" for n r e
    by (simp add: folded_def split: option.split encryption.split)
  have e: "nonce = nonce'" "folded enc = folded enc'" "req = req'"
    using assms(1-3) append_eq_append_conv [of nonce nonce' "folded enc @ req" "folded enc' @ req'"]
      append_eq_append_conv [of "folded enc" "folded enc'" req req'] unfolding pre by blast+
  have key: "e = Some (EncSession pk)" if "folded e = folded (Some (EncSession pk))" for e pk
  proof -
    have l: "length (folded e) = length pk + 32" unfolding that using assms(4) by (simp add: folded_def)
    then obtain pk' where e: "e = Some (EncSession pk')" by (auto simp: folded_def split: option.splits encryption.splits)
    have "length pk' = length pk" using l assms(4) by (simp add: e folded_def)
    moreover have "pk' @ sha256 N pk' = pk @ sha256 N pk" using that by (simp only: e folded_def option.case encryption.case)
    ultimately have "pk' = pk" using append_eq_append_conv [of pk' pk] by blast
    then show ?thesis by (simp add: e)
  qed
  have "\<forall>pk. enc = Some (EncSession pk) \<longleftrightarrow> enc' = Some (EncSession pk)" using e(2) key by metis
  with e show ?thesis by simp
qed

text \<open>
  C28 The report data of a request commits to everything folded into it: for nonces of one width and request
  digests of one width, two payloads with one report data have the same nonce and the same request, and either
  both name the session arm with the same key or neither names it, unless the strings the documentation spells
  for them, nonce and request around the key and its identifier in the session arm and next to each other
  otherwise, are two strings with one SHA-256 digest.
\<close>

theorem evidenceReportData_inj:
  assumes "evidenceReportData N nonce req enc = evidenceReportData N nonce' req' enc'"
    and "length nonce = length nonce'" and "length req = length req'" and "\<forall>m. length (sha256 N m) = 32"
  shows "nonce = nonce' \<and> req = req' \<and> (\<forall>pk. enc = Some (EncSession pk) \<longleftrightarrow> enc' = Some (EncSession pk)) \<or>
    collision (sha256 N) (reportPreimage N nonce req enc) (reportPreimage N nonce' req' enc')"
  using assms reportPreimage_inject [OF _ assms(2-4)] unfolding evidenceReportData_pre collision_def by blast

text \<open>
  The two plain arms agree; and under a digest that is the first 32 bytes, two session keys after a nonce of 32
  bytes have one report data, so the strings of the two are the collision.
\<close>

lemma evidenceReportData_inj_witness:
  "evidenceReportData quietNoble [1] [2] None = evidenceReportData quietNoble [1] [2] (Some EncPlaintext) \<and>
    evidenceReportData quietNoble [1] [2] None \<noteq> evidenceReportData quietNoble [1] [2] (Some (EncSession [3])) \<and>
    collision (sha256 quietNoble) (reportPreimage quietNoble (replicate 32 1) [2] (Some (EncSession [3])))
      (reportPreimage quietNoble (replicate 32 1) [2] (Some (EncSession [4])))"
proof (intro conjI)
  have h: "\<forall>m. length (sha256 quietNoble m) = 32" by (auto simp: quietNoble_def min_def)
  show "evidenceReportData quietNoble [1] [2] None = evidenceReportData quietNoble [1] [2] (Some EncPlaintext)"
    by (simp add: evidenceReportData_def)
  have "\<not> collision (sha256 quietNoble) (reportPreimage quietNoble [1] [2] None) (reportPreimage quietNoble [1] [2] (Some (EncSession [3])))"
    by (simp add: collision_def quietNoble_def)
  then show "evidenceReportData quietNoble [1] [2] None \<noteq> evidenceReportData quietNoble [1] [2] (Some (EncSession [3]))"
    using evidenceReportData_inj [OF _ _ _ h, of "[1]" "[2]" None "[1]" "[2]" "Some (EncSession [3])"] by auto
  have "evidenceReportData quietNoble (replicate 32 1) [2] (Some (EncSession [3])) =
      evidenceReportData quietNoble (replicate 32 1) [2] (Some (EncSession [4]))"
    by (simp add: evidenceReportData_def quietNoble_def)
  note settled = evidenceReportData_inj [OF this refl refl h]
  have "\<not> (\<forall>pk. Some (EncSession [3]) = Some (EncSession pk) \<longleftrightarrow> Some (EncSession [4]) = Some (EncSession pk))"
    by (rule notI, drule spec [of _ "[3]"]) simp
  then show "collision (sha256 quietNoble) (reportPreimage quietNoble (replicate 32 1) [2] (Some (EncSession [3])))
      (reportPreimage quietNoble (replicate 32 1) [2] (Some (EncSession [4])))"
    using settled by blast
qed

end
