(* ===== verification/StrictEd25519.thy ===== *)
theory StrictEd25519
  imports JsText
begin

text \<open>
  packages/receipt/src/strict-ed25519.ts: the refusals stated over bytes that come before the group
  equation, and the choice between the runtime's Ed25519 and the library's. The library's \<open>verify\<close>
  with \<open>zip215: false\<close> and the runtime's two functions are arguments; \<open>None\<close> is a throw. The lemmas
  read the byte comparisons as comparisons of the little-endian numbers.
\<close>

type_synonym verifier = "bytes \<Rightarrow> bytes \<Rightarrow> bytes \<Rightarrow> bool"

definition SIGNATURE_BYTES :: nat where "SIGNATURE_BYTES = 64"
definition POINT_BYTES :: nat where "POINT_BYTES = 32"
definition SCALAR_BYTES :: nat where "SCALAR_BYTES = 32"
definition KEY_BYTES :: nat where "KEY_BYTES = 32"
definition SIGN_BIT :: byte where "SIGN_BIT = 0x80"
definition Y_MASK :: byte where "Y_MASK = 0x7f"
definition FIELD_PRIME :: nat where "FIELD_PRIME = 2 ^ 255 - 19"

definition FIELD_PRIME_MINUS_ONE :: bytes where
  "FIELD_PRIME_MINUS_ONE =
    [0xec, 0xff, 0xff, 0xff, 0xff, 0xff, 0xff, 0xff, 0xff, 0xff, 0xff, 0xff, 0xff, 0xff, 0xff, 0xff, 0xff, 0xff,
     0xff, 0xff, 0xff, 0xff, 0xff, 0xff, 0xff, 0xff, 0xff, 0xff, 0xff, 0xff, 0xff, 0x7f]"

definition GROUP_ORDER_MINUS_ONE :: bytes where
  "GROUP_ORDER_MINUS_ONE =
    [0xec, 0xd3, 0xf5, 0x5c, 0x1a, 0x63, 0x12, 0x58, 0xd6, 0x9c, 0xf7, 0xa2, 0xde, 0xf9, 0xde, 0x14, 0x00, 0x00,
     0x00, 0x00, 0x00, 0x00, 0x00, 0x00, 0x00, 0x00, 0x00, 0x00, 0x00, 0x00, 0x00, 0x10]"

definition SMALL_ORDER_ENCODINGS :: "bytes list" where
  "SMALL_ORDER_ENCODINGS = map (\<lambda>s. the (fromHex (js s)))
    [''0000000000000000000000000000000000000000000000000000000000000000'',
     ''0000000000000000000000000000000000000000000000000000000000000080'',
     ''0100000000000000000000000000000000000000000000000000000000000000'',
     ''26e8958fc2b227b045c3f489f2ef98f0d5dfac05d3c63339b13802886d53fc05'',
     ''26e8958fc2b227b045c3f489f2ef98f0d5dfac05d3c63339b13802886d53fc85'',
     ''c7176a703d4dd84fba3c0b760d10670f2a2053fa2c39ccc64ec7fd7792ac037a'',
     ''c7176a703d4dd84fba3c0b760d10670f2a2053fa2c39ccc64ec7fd7792ac03fa'',
     ''ecffffffffffffffffffffffffffffffffffffffffffffffffffffffffffff7f'']"

text \<open>The loop from the last index down, over the reversed lists; a missing byte reads as 0.\<close>

fun atMostRev :: "bytes \<Rightarrow> bytes \<Rightarrow> bool" where
  "atMostRev (v # vs) (b # bs) = (if v > b then False else if v < b then True else atMostRev vs bs)"
| "atMostRev _ _ = True"

definition atMost :: "bytes \<Rightarrow> bytes \<Rightarrow> bool" where
  "atMost bs limit = atMostRev (rev bs) (rev limit)"

definition yValue :: "bytes \<Rightarrow> nat" where
  "yValue bs = beAcc 0 (rev (take 31 bs)) + unat (bs ! 31 AND Y_MASK) * 2 ^ 248"

definition isCanonicalPointEncoding :: "bytes \<Rightarrow> bool" where
  "isCanonicalPointEncoding bs =
    (if length bs \<noteq> POINT_BYTES then False
     else if bs ! (POINT_BYTES - 1) AND SIGN_BIT \<noteq> 0 \<and> (yValue bs = 1 \<or> yValue bs = FIELD_PRIME - 1) then False
     else atMost (bs[POINT_BYTES - 1 := bs ! (POINT_BYTES - 1) AND Y_MASK]) FIELD_PRIME_MINUS_ONE)"

definition isSmallOrderPublicKey :: "bytes \<Rightarrow> bool" where
  "isSmallOrderPublicKey bs = (if length bs \<noteq> KEY_BYTES then False else bs \<in> set SMALL_ORDER_ENCODINGS)"

definition isScalarInGroupOrder :: "bytes \<Rightarrow> bool" where
  "isScalarInGroupOrder bs = (if length bs \<noteq> SCALAR_BYTES then False else atMost bs GROUP_ORDER_MINUS_ONE)"

datatype refusal = SigWidth | KeyWidth | ScalarRange | KeyEncoding | PointEncoding | SmallOrder

definition refusalBeforeTheEquation :: "bytes \<Rightarrow> bytes \<Rightarrow> refusal option" where
  "refusalBeforeTheEquation signature publicKey =
    (if length signature \<noteq> SIGNATURE_BYTES then Some SigWidth
     else if length publicKey \<noteq> KEY_BYTES then Some KeyWidth
     else if \<not> isScalarInGroupOrder (drop POINT_BYTES signature) then Some ScalarRange
     else if \<not> isCanonicalPointEncoding publicKey then Some KeyEncoding
     else if \<not> isCanonicalPointEncoding (take POINT_BYTES signature) then Some PointEncoding
     else if isSmallOrderPublicKey publicKey then Some SmallOrder
     else None)"

definition nobleStrictVerify :: "(bytes \<Rightarrow> bytes \<Rightarrow> bytes \<Rightarrow> bool option) \<Rightarrow> verifier" where
  "nobleStrictVerify verify signature message publicKey =
    (case verify signature message publicKey of None \<Rightarrow> False | Some b \<Rightarrow> b)"

definition SPKI_ED25519_PREFIX :: bytes where
  "SPKI_ED25519_PREFIX = [0x30, 0x2a, 0x30, 0x05, 0x06, 0x03, 0x2b, 0x65, 0x70, 0x03, 0x21, 0x00]"

text \<open>The runtime's \<open>createPublicKey\<close> and \<open>verify\<close>, either of which may throw.\<close>

record 'k runtime_crypto =
  rcCreatePublicKey :: "bytes \<Rightarrow> 'k option"
  rcVerify :: "bytes \<Rightarrow> 'k \<Rightarrow> bytes \<Rightarrow> bool option"

definition runtimeStrictVerify :: "'k runtime_crypto option \<Rightarrow> verifier option" where
  "runtimeStrictVerify crypto =
    (case crypto of
       None \<Rightarrow> None
     | Some c \<Rightarrow> Some (\<lambda>signature message publicKey.
         if refusalBeforeTheEquation signature publicKey \<noteq> None then False
         else case rcCreatePublicKey c (SPKI_ED25519_PREFIX @ publicKey) of
           None \<Rightarrow> False
         | Some k \<Rightarrow> (case rcVerify c message k signature of None \<Rightarrow> False | Some b \<Rightarrow> b)))"

definition preferredStrictVerify ::
  "'k runtime_crypto option \<Rightarrow> (bytes \<Rightarrow> bytes \<Rightarrow> bytes \<Rightarrow> bool option) \<Rightarrow> verifier" where
  "preferredStrictVerify crypto verify =
    (case runtimeStrictVerify crypto of None \<Rightarrow> nobleStrictVerify verify | Some v \<Rightarrow> v)"

subsection \<open>The comparisons as numbers\<close>

lemma atMostRev_le:
  "length vs = length bs \<Longrightarrow> atMostRev vs bs \<longleftrightarrow> beNat vs \<le> beNat bs"
proof (induction vs bs rule: list_induct2)
  case (Cons v vs b bs)
  have m: "beNat vs < 256 ^ length bs" "beNat bs < 256 ^ length bs"
    using beNat_less [of vs] beNat_less [of bs] Cons.hyps by simp_all
  consider "v = b" | "v < b" | "v > b" by (rule linorder_cases)
  then show ?case
  proof cases
    case 2
    then have "unat v + 1 \<le> unat b" by (simp add: word_less_nat_alt)
    then have "(unat v + 1) * 256 ^ length bs \<le> unat b * 256 ^ length bs" by (rule mult_le_mono1)
    then show ?thesis using 2 m Cons.hyps by (simp add: beNat_Cons)
  next
    case 3
    then have "unat b + 1 \<le> unat v" by (simp add: word_less_nat_alt)
    then have "(unat b + 1) * 256 ^ length bs \<le> unat v * 256 ^ length bs" by (rule mult_le_mono1)
    then show ?thesis using 3 m Cons.hyps by (simp add: beNat_Cons)
  qed (use Cons in \<open>simp add: beNat_Cons\<close>)
qed simp

lemma atMost_le: "length bs = length limit \<Longrightarrow> atMost bs limit \<longleftrightarrow> leNat bs \<le> leNat limit"
  by (simp add: atMost_def leNat_def atMostRev_le)

lemma limits:
  "leNat FIELD_PRIME_MINUS_ONE = FIELD_PRIME - 1"
  "leNat GROUP_ORDER_MINUS_ONE = 2 ^ 252 + 27742317777372353535851937790883648493 - 1"
  by (simp_all add: FIELD_PRIME_MINUS_ONE_def GROUP_ORDER_MINUS_ONE_def FIELD_PRIME_def leNat_def beNat_def)

lemma leNat_append: "leNat (xs @ ys) = leNat ys * 256 ^ length xs + leNat xs"
  by (simp add: leNat_def beNat_append)

lemma leNat_one: "leNat [b] = unat b"
  by (simp add: leNat_def beNat_def)

lemma unat_and_mask: "unat (b AND Y_MASK) = unat b mod 128"
proof -
  have "Y_MASK = mask 7" by (simp add: Y_MASK_def mask_eq_exp_minus_1)
  then show ?thesis using unat_and_low [of b 7] by simp
qed

lemma sign_bit_iff: "b AND SIGN_BIT \<noteq> 0 \<longleftrightarrow> 128 \<le> unat b"
proof -
  have "unat (b AND SIGN_BIT) = unat b AND unat SIGN_BIT" by (rule unsigned_and_eq)
  also have "\<dots> = unat b AND push_bit 7 (mask 1)" by (simp add: SIGN_BIT_def push_bit_eq_mult)
  also have "\<dots> = push_bit 7 (take_bit 1 (drop_bit 7 (unat b)))" by (rule and_high_nat)
  also have "\<dots> = unat b div 128 mod 2 * 128"
    by (simp add: push_bit_eq_mult take_bit_eq_mod drop_bit_eq_div)
  finally have e: "unat (b AND SIGN_BIT) = unat b div 128 mod 2 * 128" .
  have "unat b div 128 < 2" by (rule less_mult_imp_div_less) simp
  then have "unat (b AND SIGN_BIT) = unat b div 128 * 128" using e by simp
  moreover have "b AND SIGN_BIT \<noteq> 0 \<longleftrightarrow> unat (b AND SIGN_BIT) \<noteq> 0" by (simp add: unat_eq_0)
  ultimately show ?thesis by (simp add: div_eq_0_iff not_less)
qed

lemma yValue_leNat:
  assumes "length bs = 32"
  shows "yValue bs = leNat (bs[31 := bs ! 31 AND Y_MASK])" and "leNat bs = yValue bs + (if bs ! 31 AND SIGN_BIT \<noteq> 0 then 1 else 0) * 2 ^ 255"
proof -
  let ?b = "bs ! 31"
  have u: "bs[31 := x] = take 31 bs @ [x]" for x
    using assms by (simp add: upd_conv_take_nth_drop)
  have s: "bs = take 31 bs @ [?b]" using u [of ?b] by simp
  have p: "(256 :: nat) ^ 31 = 2 ^ 248" using power_mult [of "2 :: nat" 8 31] by simp
  have l: "length (take 31 bs) = 31" using assms by simp
  show y: "yValue bs = leNat (bs[31 := ?b AND Y_MASK])"
    unfolding u leNat_append l p by (simp add: yValue_def leNat_def beNat_def)
  have m: "unat (?b AND Y_MASK) = unat ?b mod 128" by (rule unat_and_mask)
  have h: "?b AND SIGN_BIT \<noteq> 0 \<longleftrightarrow> 128 \<le> unat ?b"
    by (rule sign_bit_iff)
  have q: "unat ?b div 128 < 2" by (rule less_mult_imp_div_less) simp
  have "unat ?b div 128 = (if 128 \<le> unat ?b then 1 else 0)"
    using q by (cases "unat ?b div 128 = 0") (simp_all add: div_eq_0_iff)
  then have "unat ?b = unat (?b AND Y_MASK) + (if ?b AND SIGN_BIT \<noteq> 0 then 1 else 0) * 128"
    using div_mult_mod_eq [of "unat ?b" 128] by (simp only: m h add.commute)
  then have "leNat [?b] = leNat [?b AND Y_MASK] + (if ?b AND SIGN_BIT \<noteq> 0 then 1 else 0) * 128"
    by (simp only: leNat_one)
  then have "leNat bs = yValue bs + (if ?b AND SIGN_BIT \<noteq> 0 then 1 else 0) * 128 * 2 ^ 248"
    unfolding y u by (subst s) (simp only: leNat_append l p distrib_left distrib_right ac_simps)
  moreover have "(128 :: nat) * 2 ^ 248 = 2 ^ 255" using power_add [of "2 :: nat" 7 248] by simp
  ultimately show "leNat bs = yValue bs + (if ?b AND SIGN_BIT \<noteq> 0 then 1 else 0) * 2 ^ 255"
    by (simp only: mult.assoc)
qed

lemma canonical_iff:
  assumes l: "length enc = 32"
  defines "sg \<equiv> (if enc ! 31 AND SIGN_BIT \<noteq> 0 then 1 else 0 :: nat)"
  shows "isCanonicalPointEncoding enc \<longleftrightarrow>
    yValue enc < FIELD_PRIME \<and> (sg = 0 \<or> yValue enc \<noteq> 1 \<and> yValue enc \<noteq> FIELD_PRIME - 1)"
proof -
  have "0 < FIELD_PRIME" by (simp add: FIELD_PRIME_def)
  then have at: "atMost (enc[31 := enc ! 31 AND Y_MASK]) FIELD_PRIME_MINUS_ONE \<longleftrightarrow> yValue enc < FIELD_PRIME"
    using atMost_le [of "enc[31 := enc ! 31 AND Y_MASK]" FIELD_PRIME_MINUS_ONE] l
    unfolding limits(1) yValue_leNat(1) [OF l, symmetric] by (auto simp: FIELD_PRIME_MINUS_ONE_def)
  show ?thesis
    using l at by (auto simp: isCanonicalPointEncoding_def POINT_BYTES_def sg_def)
qed

lemma split_unique: "y + s * m = y' + s' * m \<Longrightarrow> y < m \<Longrightarrow> y' < m \<Longrightarrow> y = y' \<and> s = (s' :: nat)"
  by (metis add.commute div_mult_self3 div_less mod_mult_self1 mod_less add_0 less_zeroE neq0_conv)

lemma top_byte_less: "u < 128 \<Longrightarrow> x < n \<Longrightarrow> x + u * n < 128 * (n :: nat)"
proof -
  assume "u < 128" "x < n"
  then have "Suc u * n \<le> 128 * n" by (intro mult_le_mono1) simp
  then show ?thesis using \<open>x < n\<close> by (simp only: mult_Suc)
qed

lemma canonical_spec:
  assumes l: "length enc = 32"
  shows "isCanonicalPointEncoding enc \<longleftrightarrow>
    (\<exists>y sign. leNat enc = y + sign * 2 ^ 255 \<and> y < FIELD_PRIME \<and> (sign = 0 \<or> sign = 1 \<and> y \<noteq> 1 \<and> y \<noteq> FIELD_PRIME - 1))"
proof -
  define m :: nat where "m = 2 ^ 255"
  define sg :: nat where "sg = (if enc ! 31 AND SIGN_BIT \<noteq> 0 then 1 else 0)"
  have n: "leNat enc = yValue enc + sg * m" using yValue_leNat(2) [OF l] by (simp only: sg_def m_def)
  have "unat (enc ! 31 AND Y_MASK) < 128" by (simp add: unat_and_mask)
  moreover have "beAcc 0 (rev (take 31 enc)) < 2 ^ 248"
  proof -
    have "beNat (rev (take 31 enc)) < 256 ^ 31" using beNat_less [of "rev (take 31 enc)"] l by simp
    also have "(256 :: nat) ^ 31 = 2 ^ 248" using power_mult [of "2 :: nat" 8 31] by simp
    finally show ?thesis by (simp only: beNat_def)
  qed
  ultimately have "yValue enc < 128 * 2 ^ 248"
    unfolding yValue_def by (rule top_byte_less)
  also have "(128 :: nat) * 2 ^ 248 = m" using power_add [of "2 :: nat" 7 248] by (simp add: m_def)
  finally have yl: "yValue enc < m" .
  have pm: "FIELD_PRIME < m" by (simp add: FIELD_PRIME_def m_def)
  have "sg = 0 \<or> sg = 1" by (simp add: sg_def)
  moreover have "y = yValue enc \<and> sign = sg" if "leNat enc = y + sign * m" "y < FIELD_PRIME" for y sign
    using split_unique [of y sign m "yValue enc" sg] that n yl pm by simp
  ultimately show ?thesis
    unfolding canonical_iff [OF l] m_def [symmetric] sg_def [symmetric] using n by metis
qed

text \<open>
  C36 The byte tests decide RFC 8032's conditions exactly. With the widths right, nothing is refused before
  the equation if and only if the scalar is below the group order, the point and the key are each a
  y-coordinate below \<open>2 ^ 255 - 19\<close> with a sign bit only where x is not zero, and the key is none of the
  eight small-order encodings.
\<close>

theorem refusal_iff_rfc8032:
  "refusalBeforeTheEquation signature key = None \<longleftrightarrow>
    length signature = 64 \<and> length key = 32 \<and> key \<notin> set SMALL_ORDER_ENCODINGS \<and>
    leNat (drop 32 signature) < 2 ^ 252 + 27742317777372353535851937790883648493 \<and>
    list_all (\<lambda>enc. \<exists>y sign. leNat enc = y + sign * 2 ^ 255 \<and> y < FIELD_PRIME \<and>
        (sign = 0 \<or> sign = 1 \<and> y \<noteq> 1 \<and> y \<noteq> FIELD_PRIME - 1)) [key, take 32 signature]"
proof -
  have sc: "isScalarInGroupOrder s \<longleftrightarrow> leNat s < 2 ^ 252 + 27742317777372353535851937790883648493" if "length s = 32" for s
  proof -
    have "atMost s GROUP_ORDER_MINUS_ONE \<longleftrightarrow> leNat s \<le> leNat GROUP_ORDER_MINUS_ONE"
      by (rule atMost_le) (simp add: that GROUP_ORDER_MINUS_ONE_def)
    then show ?thesis using that unfolding limits(2) isScalarInGroupOrder_def SCALAR_BYTES_def by auto
  qed
  show ?thesis
  proof (cases "length signature = 64 \<and> length key = 32")
    case False
    then show ?thesis by (auto simp: refusalBeforeTheEquation_def SIGNATURE_BYTES_def KEY_BYTES_def)
  next
    case True
    then have l: "length key = 32" "length (take 32 signature) = 32" "length (drop 32 signature) = 32" by simp_all
    show ?thesis
      unfolding list.pred_inject canonical_spec [OF l(1), symmetric]
        canonical_spec [OF l(2), symmetric] sc [OF l(3), symmetric]
      using True
      by (auto simp: refusalBeforeTheEquation_def SIGNATURE_BYTES_def KEY_BYTES_def POINT_BYTES_def isSmallOrderPublicKey_def)
  qed
qed

end
