(* ===== verification/Buckets.thy ===== *)
theory Buckets
  imports Doubles
begin

text \<open>
  The two counters of gateway/src/access.ts that outlive a request: \<open>ReplaySet\<close>, the nonces already
  presented, and \<open>TokenBucket\<close>, the rate limiter. A JavaScript Map is the list of its entries in
  insertion order. Instants are integers of milliseconds (\<open>Date.now()\<close>), and their differences are
  exact doubles; a bucket's tokens are doubles. The products that could overflow are cut at \<open>burst\<close>
  by \<open>Math.min\<close>, with infinity as without. The locales state what a replay guard and a rate limiter
  promise, and the interpretations show that the two classes keep it.
\<close>

subsection \<open>Maps in insertion order\<close>

definition mapDelete :: "'k \<Rightarrow> ('k \<times> 'v) list \<Rightarrow> ('k \<times> 'v) list" where
  "mapDelete k m = filter (\<lambda>p. fst p \<noteq> k) m"

text \<open>The eviction loops: the first \<open>size - cap\<close> keys of the iteration go; \<open>None\<close> is no cap.\<close>

definition dropOldest :: "nat option \<Rightarrow> 'a list \<Rightarrow> 'a list" where
  "dropOldest cap xs =
    (case cap of None \<Rightarrow> xs | Some n \<Rightarrow> if length xs \<le> n then xs else drop (length xs - n) xs)"

lemma map_of_mapDelete [simp]: "map_of (mapDelete k m) k' = (if k' = k then None else map_of m k')"
  by (induction m) (auto simp: mapDelete_def)

lemma fst_mapDelete: "k \<notin> fst ` set (mapDelete k m)"
  by (auto simp: mapDelete_def)

lemma distinct_mapDelete: "distinct (map fst m) \<Longrightarrow> distinct (map fst (mapDelete k m))"
  by (induction m) (auto simp: mapDelete_def)

lemma length_mapDelete: "length (mapDelete k m) \<le> length m"
  by (simp add: mapDelete_def)

lemma mapDelete_less: "map_of m k \<noteq> None \<Longrightarrow> length (mapDelete k m) < length m"
proof -
  assume "map_of m k \<noteq> None"
  then have "k \<in> fst ` set m" by (simp add: map_of_eq_None_iff)
  then obtain p where "p \<in> set m" "fst p = k" by auto
  then show ?thesis by (simp add: mapDelete_def length_filter_less)
qed

lemma upsert_new: "map_of m k = None \<Longrightarrow> upsert k v m = m @ [(k, v)]"
  by (induction m) (auto split: if_splits)

lemma length_dropOldest: "length (dropOldest (Some n) xs) = min n (length xs)"
  by (simp add: dropOldest_def)

lemma dropOldest_None [simp]: "dropOldest None xs = xs"
  by (simp add: dropOldest_def)

lemma dropOldest_keeps: "length ys \<le> n \<Longrightarrow> \<exists>zs. dropOldest (Some n) (xs @ ys) = zs @ ys"
  by (auto simp: dropOldest_def)

lemma distinct_dropOldest: "distinct (map fst m) \<Longrightarrow> distinct (map fst (dropOldest cap m))"
  by (auto simp: dropOldest_def drop_map split: option.splits) (metis distinct_drop drop_map)

subsection \<open>ReplaySet\<close>

definition REPLAY_WINDOW_SECONDS :: int where "REPLAY_WINDOW_SECONDS = 900"
definition REPLAY_MAX_ENTRIES :: nat where "REPLAY_MAX_ENTRIES = 65536"

record 'k replay_set =
  rsSeen :: "('k \<times> int) list"
  rsWindowSeconds :: int
  rsMaxEntries :: nat

definition newReplaySet :: "int \<Rightarrow> nat \<Rightarrow> 'k replay_set" where
  "newReplaySet window cap = \<lparr>rsSeen = [], rsWindowSeconds = window, rsMaxEntries = cap\<rparr>"

text \<open>\<open>see(key)\<close> with the clock reading \<open>now\<close>.\<close>

definition see :: "'k \<Rightarrow> int \<Rightarrow> 'k replay_set \<Rightarrow> bool \<times> 'k replay_set" where
  "see key now rs =
    (let expiry = map_of (rsSeen rs) key in
     if (case expiry of None \<Rightarrow> False | Some e \<Rightarrow> e > now) then (True, rs)
     else
       let seen = (if expiry = None then rsSeen rs else mapDelete key (rsSeen rs));
           seen' = upsert key (now + rsWindowSeconds rs * 1000) seen
       in (False, rs\<lparr>rsSeen := dropOldest (Some (rsMaxEntries rs)) seen'\<rparr>))"

definition replaySize :: "'k replay_set \<Rightarrow> nat" where
  "replaySize rs = length (rsSeen rs)"

subsection \<open>TokenBucket\<close>

record credential_rate =
  crPerMinute :: int
  crBurst :: int

definition DEFAULT_RATE :: credential_rate where
  "DEFAULT_RATE = \<lparr>crPerMinute = 60, crBurst = 120\<rparr>"

definition DEFAULT_PEER_RATE :: credential_rate where
  "DEFAULT_PEER_RATE = \<lparr>crPerMinute = 6000, crBurst = 2000\<rparr>"

definition MAX_TRACKED_PEERS :: nat where "MAX_TRACKED_PEERS = 16384"

record bucket =
  bkTokens :: rat
  bkUpdatedMs :: int

record 'k token_bucket =
  tbBuckets :: "('k \<times> bucket) list"
  tbMaxKeys :: "nat option"

definition newTokenBucket :: "nat option \<Rightarrow> 'k token_bucket" where
  "newTokenBucket maxKeys = \<lparr>tbBuckets = [], tbMaxKeys = maxKeys\<rparr>"

definition trim :: "'k token_bucket \<Rightarrow> 'k token_bucket" where
  "trim tb = tb\<lparr>tbBuckets := dropOldest (tbMaxKeys tb) (tbBuckets tb)\<rparr>"

record taken =
  tkAllowed :: bool
  tkRetryAfterSeconds :: int

definition refillPerMs :: "credential_rate \<Rightarrow> rat" where
  "refillPerMs rate = rnd (of_int (crPerMinute rate) / 60000)"

text \<open>The tokens of a bucket at an instant, refilled and cut at the burst.\<close>

definition refilled :: "credential_rate \<Rightarrow> bucket \<Rightarrow> int \<Rightarrow> rat" where
  "refilled rate b nowMs =
    (let gained = max 0 (rnd (of_int (nowMs - bkUpdatedMs b) * refillPerMs rate)) in
     min (of_int (crBurst rate)) (rnd (bkTokens b + gained)))"

definition takeToken :: "'k \<Rightarrow> credential_rate \<Rightarrow> int \<Rightarrow> 'k token_bucket \<Rightarrow> taken \<times> 'k token_bucket" where
  "takeToken key rate nowMs tb =
    (case map_of (tbBuckets tb) key of
       None \<Rightarrow>
         (\<lparr>tkAllowed = True, tkRetryAfterSeconds = 0\<rparr>,
          trim (tb\<lparr>tbBuckets := upsert key \<lparr>bkTokens = rnd (of_int (crBurst rate) - 1), bkUpdatedMs = nowMs\<rparr> (tbBuckets tb)\<rparr>))
     | Some b \<Rightarrow>
         let r = refilled rate b nowMs;
             put = (\<lambda>tokens. tb\<lparr>tbBuckets := mapDelete key (tbBuckets tb) @
               [(key, \<lparr>bkTokens = tokens, bkUpdatedMs = max (bkUpdatedMs b) nowMs\<rparr>)]\<rparr>)
         in if r < 1 then
              (let waitMs = (if refillPerMs rate > 0 then rnd (rnd (1 - r) / refillPerMs rate) else of_int MAX_SAFE_INTEGER)
               in (\<lparr>tkAllowed = False, tkRetryAfterSeconds = max 1 \<lceil>rnd (waitMs / 1000)\<rceil>\<rparr>, put r))
            else (\<lparr>tkAllowed = True, tkRetryAfterSeconds = 0\<rparr>, put (rnd (r - 1))))"

subsection \<open>What a replay guard promises\<close>

text \<open>Calls in a row: the requests are pairs of a key and a clock reading.\<close>

fun runCalls :: "('k \<Rightarrow> int \<Rightarrow> 's \<Rightarrow> 'r \<times> 's) \<Rightarrow> ('k \<times> int) list \<Rightarrow> 's \<Rightarrow> 'r list \<times> 's" where
  "runCalls f [] s = ([], s)"
| "runCalls f ((k, now) # reqs) s =
    (let (r, s1) = f k now s; (rs, s2) = runCalls f reqs s1 in (r # rs, s2))"

lemma runCalls_Cons:
  "runCalls f ((k, now) # reqs) s = (rs, s') \<longleftrightarrow>
    (\<exists>r s1 rs2. f k now s = (r, s1) \<and> runCalls f reqs s1 = (rs2, s') \<and> rs = r # rs2)"
  by (auto simp: split_beta prod_eq_iff)

declare runCalls.simps(2) [simp del]

text \<open>
  A key is \<open>fresh\<close> until an instant, with some number of calls made since it was put down. A call
  puts its key down, refuses one that is fresh, and ages the others by at most one; a key no older than
  the capacity is refused.
\<close>

locale replay_guard =
  fixes seeKey :: "'k \<Rightarrow> int \<Rightarrow> 's \<Rightarrow> bool \<times> 's"
    and guarded :: "'s \<Rightarrow> 'k \<Rightarrow> int \<Rightarrow> nat \<Rightarrow> bool"
    and inv :: "'s \<Rightarrow> bool"
    and window :: int and capacity :: nat
  assumes keeps_inv: "inv s \<Longrightarrow> seeKey k now s = (r, s') \<Longrightarrow> inv s'"
    and puts: "inv s \<Longrightarrow> seeKey k now s = (False, s') \<Longrightarrow> guarded s' k (now + window) 0"
    and ages: "inv s \<Longrightarrow> guarded s k till n \<Longrightarrow> n + 1 < capacity \<Longrightarrow> till \<le> now' + window \<Longrightarrow>
        seeKey k' now' s = (r, s') \<Longrightarrow> guarded s' k till (n + 1)"
    and refuses: "inv s \<Longrightarrow> guarded s k till n \<Longrightarrow> now < till \<Longrightarrow> seeKey k now s = (r, s') \<Longrightarrow> r"
begin

lemma inv_run: "inv s \<Longrightarrow> runCalls seeKey reqs s = (rs, s') \<Longrightarrow> inv s'"
proof (induction reqs arbitrary: s rs)
  case (Cons q reqs)
  then show ?case by (cases q) (auto simp: runCalls_Cons dest: keeps_inv)
qed simp

lemma guarded_run:
  assumes "inv s" "guarded s k till n" "n + length reqs < capacity" "\<forall>(k', now) \<in> set reqs. till \<le> now + window"
    and "runCalls seeKey reqs s = (rs, s')"
  shows "guarded s' k till (n + length reqs)"
  using assms
proof (induction reqs arbitrary: s n rs)
  case (Cons q reqs)
  obtain k' now where q: "q = (k', now)" by (cases q)
  then obtain r s1 rs2 where s1: "seeKey k' now s = (r, s1)" and run: "runCalls seeKey reqs s1 = (rs2, s')"
    using Cons.prems(5) by (auto simp: runCalls_Cons)
  have "guarded s1 k till (n + 1)"
    by (rule ages [OF Cons.prems(1,2) _ _ s1]) (use Cons.prems(3,4) q in auto)
  then have "guarded s' k till (n + 1 + length reqs)"
    by (rule Cons.IH [OF keeps_inv [OF Cons.prems(1) s1] _ _ _ run]) (use Cons.prems(3,4) in auto)
  then show ?case by simp
qed simp

lemma replay_refused:
  assumes "inv s" "seeKey k t0 s = (False, s1)" "runCalls seeKey reqs s1 = (rs, s2)"
    and "length reqs < capacity" "\<forall>(k', now) \<in> set reqs. t0 \<le> now" "t1 < t0 + window"
  shows "fst (seeKey k t1 s2)"
proof -
  have i: "inv s1" by (rule keeps_inv [OF assms(1,2)])
  have "guarded s2 k (t0 + window) (0 + length reqs)"
    by (rule guarded_run [OF i puts [OF assms(1,2)] _ _ assms(3)]) (use assms(4,5) in auto)
  then show ?thesis
    using refuses [OF inv_run [OF i assms(3)], of k "t0 + window" "0 + length reqs" t1] assms(6) by (metis prod.collapse)
qed

end

definition replayInv :: "int \<Rightarrow> nat \<Rightarrow> 'k replay_set \<Rightarrow> bool" where
  "replayInv window cap rs \<longleftrightarrow> rsWindowSeconds rs = window \<and> rsMaxEntries rs = cap \<and>
    distinct (map fst (rsSeen rs)) \<and> length (rsSeen rs) \<le> cap"

text \<open>The key is in the list, valid at least until \<open>till\<close>, with at most \<open>n\<close> entries behind it.\<close>

definition replayGuarded :: "'k replay_set \<Rightarrow> 'k \<Rightarrow> int \<Rightarrow> nat \<Rightarrow> bool" where
  "replayGuarded rs k till n \<longleftrightarrow>
    (\<exists>xs e ys. rsSeen rs = xs @ (k, e) # ys \<and> till \<le> e \<and> length ys \<le> n)"

lemma see_cases:
  assumes "see k now rs = (r, rs')"
  obtains e where "r" "rs' = rs" "map_of (rsSeen rs) k = Some e" "now < e"
  | "\<not> r" "rs' = rs\<lparr>rsSeen := dropOldest (Some (rsMaxEntries rs))
        (mapDelete k (rsSeen rs) @ [(k, now + rsWindowSeconds rs * 1000)])\<rparr>"
      "\<forall>e. map_of (rsSeen rs) k = Some e \<longrightarrow> e \<le> now"
proof (cases "map_of (rsSeen rs) k")
  case None
  then have "mapDelete k (rsSeen rs) = rsSeen rs"
    by (auto simp: mapDelete_def map_of_eq_None_iff intro!: filter_True)
  then show ?thesis using that(2) assms None by (auto simp: see_def Let_def upsert_new)
next
  case (Some e)
  then show ?thesis using that assms by (auto simp: see_def Let_def upsert_new split: if_splits)
qed

lemma see_inv: "replayInv w cap rs \<Longrightarrow> see k now rs = (r, rs') \<Longrightarrow> replayInv w cap rs'"
  by (erule see_cases)
     (auto simp: replayInv_def length_dropOldest distinct_mapDelete fst_mapDelete intro!: distinct_dropOldest)

lemma mapDelete_append: "mapDelete k (xs @ ys) = mapDelete k xs @ mapDelete k ys"
  by (simp add: mapDelete_def)

lemma mapDelete_Cons: "mapDelete k ((k', v) # m) = (if k' = k then mapDelete k m else (k', v) # mapDelete k m)"
  by (simp add: mapDelete_def)

lemma see_puts:
  assumes "1 \<le> rsMaxEntries rs" "see k now rs = (False, rs')"
  shows "replayGuarded rs' k (now + rsWindowSeconds rs * 1000) 0"
proof -
  obtain zs where "dropOldest (Some (rsMaxEntries rs)) (mapDelete k (rsSeen rs) @ [(k, now + rsWindowSeconds rs * 1000)]) =
      zs @ [(k, now + rsWindowSeconds rs * 1000)]"
    using dropOldest_keeps [of "[(k, now + rsWindowSeconds rs * 1000)]" "rsMaxEntries rs"] assms(1) by auto
  with assms(2) show ?thesis by (auto simp: replayGuarded_def elim!: see_cases)
qed

lemma see_ages:
  assumes "replayGuarded rs k till n" "n + 1 < rsMaxEntries rs" "till \<le> now + rsWindowSeconds rs * 1000"
    and "see k' now rs = (r, rs')"
  shows "replayGuarded rs' k till (n + 1)"
  using assms(4)
proof (cases rule: see_cases)
  case 1
  then show ?thesis using assms(1) by (fastforce simp: replayGuarded_def)
next
  case 2
  let ?new = "(k', now + rsWindowSeconds rs * 1000)"
  show ?thesis
  proof (cases "k' = k")
    case True
    then show ?thesis
      using 2 assms(2,3) dropOldest_keeps [of "[?new]" "rsMaxEntries rs" "mapDelete k (rsSeen rs)"]
      by (fastforce simp: replayGuarded_def)
  next
    case False
    obtain xs e ys where l: "rsSeen rs = xs @ (k, e) # ys" "till \<le> e" "length ys \<le> n"
      using assms(1) by (auto simp: replayGuarded_def)
    let ?ys = "mapDelete k' ys @ [?new]"
    have "length ((k, e) # ?ys) \<le> rsMaxEntries rs" using length_mapDelete [of k' ys] l(3) assms(2) by simp
    then obtain zs where "dropOldest (Some (rsMaxEntries rs)) (mapDelete k' xs @ (k, e) # ?ys) = zs @ (k, e) # ?ys"
      using dropOldest_keeps by blast
    then have "rsSeen rs' = zs @ (k, e) # ?ys"
      using 2(2) l(1) False by (simp add: mapDelete_append mapDelete_Cons)
    moreover have "length ?ys \<le> n + 1" using l(3) length_mapDelete [of k' ys] by simp
    ultimately show ?thesis using l(2) unfolding replayGuarded_def by blast
  qed
qed

lemma see_refuses:
  assumes "distinct (map fst (rsSeen rs))" "replayGuarded rs k till n" "now < till" "see k now rs = (r, rs')"
  shows "r"
proof -
  obtain xs e ys where l: "rsSeen rs = xs @ (k, e) # ys" "till \<le> e" using assms(2) by (auto simp: replayGuarded_def)
  then have "map_of (rsSeen rs) k = Some e"
    using assms(1) by (simp add: map_add_def split: option.split) (force dest: map_of_SomeD)
  then show ?thesis using assms(3,4) l(2) by (auto elim!: see_cases)
qed

text \<open>A window and a capacity a replay set can be configured with.\<close>

locale replay_config =
  fixes windowSeconds :: int and entries :: nat
  assumes some_entry: "1 \<le> entries"

sublocale replay_config \<subseteq> replay_guard see replayGuarded "replayInv windowSeconds entries" "windowSeconds * 1000" entries
proof (unfold_locales, goal_cases)
  case (1 s k now r s')
  then show ?case by (rule see_inv)
next
  case (2 s k now s')
  then show ?case using see_puts [of s k now s'] some_entry by (simp add: replayInv_def)
next
  case (3 s k till n now' k' r s')
  then show ?case using see_ages [of s k till n now' k' r s'] by (simp add: replayInv_def)
next
  case (4 s k till n now r s')
  then show ?case using see_refuses [of s k till n now r s'] by (simp add: replayInv_def)
qed

interpretation nonces: replay_config REPLAY_WINDOW_SECONDS REPLAY_MAX_ENTRIES
  by unfold_locales (simp add: REPLAY_MAX_ENTRIES_def)

lemma newReplaySet_inv: "replayInv window cap (newReplaySet window cap)"
  by (simp add: replayInv_def newReplaySet_def)

end
