(* ===== verification/RateLimit.thy ===== *)
theory RateLimit
  imports Buckets
begin

text \<open>
  What a rate limiter promises: over any run of calls on any keys, the calls allowed to one key are at
  most the burst, plus what the refill earned over the time the clock moved forward, plus the rounding of
  its arithmetic. The locale states the laws of one call and proves the bound; the interpretation is
  \<open>TokenBucket\<close> without a cap on its keys, which is the bucket of the credentials.
\<close>

lemma runCalls_append:
  "runCalls f (xs @ ys) s = (rs, s') \<longleftrightarrow>
    (\<exists>rs1 s1 rs2. runCalls f xs s = (rs1, s1) \<and> runCalls f ys s1 = (rs2, s') \<and> rs = rs1 @ rs2)"
proof (induction xs arbitrary: s rs)
  case (Cons q xs)
  then show ?case by (cases q) (fastforce simp: runCalls_Cons)
qed (simp add: runCalls.simps)

lemma runCalls_length: "runCalls f xs s = (rs, s') \<Longrightarrow> length rs = length xs"
proof (induction xs arbitrary: s rs)
  case (Cons q xs)
  then show ?case by (cases q) (auto simp: runCalls_Cons)
qed (simp add: runCalls.simps)

text \<open>The calls of one key in a run, the allowed ones among them, and the latest instant it reached.\<close>

definition callsOf :: "'k \<Rightarrow> ('k \<times> int) list \<Rightarrow> nat" where
  "callsOf k reqs = length (filter (\<lambda>q. fst q = k) reqs)"

definition grantsOf :: "'k \<Rightarrow> ('k \<times> int) list \<Rightarrow> taken list \<Rightarrow> nat" where
  "grantsOf k reqs rs = length (filter (\<lambda>(q, r). fst q = k \<and> tkAllowed r) (zip reqs rs))"

definition latest :: "'k \<Rightarrow> int \<Rightarrow> ('k \<times> int) list \<Rightarrow> int" where
  "latest k t reqs = fold (\<lambda>(k', now) m. if k' = k then max m now else m) reqs t"

lemma latest_ge: "t \<le> latest k t reqs"
proof (induction reqs arbitrary: t)
  case (Cons q reqs)
  show ?case
    using Cons.IH [of t] Cons.IH [of "max t (snd q)"] by (auto simp: latest_def split: prod.split)
qed (simp add: latest_def)

locale rate_limiter =
  fixes call :: "'k \<Rightarrow> int \<Rightarrow> 's \<Rightarrow> taken \<times> 's"
    and level :: "'s \<Rightarrow> 'k \<Rightarrow> rat" and stamp :: "'s \<Rightarrow> 'k \<Rightarrow> int option"
    and inv :: "'s \<Rightarrow> bool"
    and burst :: rat and refill :: rat and slack :: rat
  assumes keeps_inv: "inv s \<Longrightarrow> call k now s = (r, s') \<Longrightarrow> inv s'"
    and other: "inv s \<Longrightarrow> call k now s = (r, s') \<Longrightarrow> k' \<noteq> k \<Longrightarrow> level s' k' = level s k' \<and> stamp s' k' = stamp s k'"
    and first: "inv s \<Longrightarrow> stamp s k = None \<Longrightarrow> call k now s = (r, s') \<Longrightarrow>
        stamp s' k = Some now \<and> level s' k + 1 \<le> burst + slack"
    and again: "inv s \<Longrightarrow> stamp s k = Some t \<Longrightarrow> call k now s = (r, s') \<Longrightarrow>
        stamp s' k = Some (max t now) \<and>
        level s' k + (if tkAllowed r then 1 else 0) \<le> level s k + of_int (max t now - t) * refill + slack"
    and level_nonneg: "inv s \<Longrightarrow> stamp s k \<noteq> None \<Longrightarrow> 0 \<le> level s k"
    and slack_nonneg: "0 \<le> slack"
begin

lemma run_other:
  assumes "inv s" "k \<notin> fst ` set reqs" "runCalls call reqs s = (rs, s')"
  shows "inv s' \<and> stamp s' k = stamp s k"
  using assms
proof (induction reqs arbitrary: s rs)
  case (Cons q reqs)
  then obtain k1 now r s1 rs2 where q: "q = (k1, now)" and c: "call k1 now s = (r, s1)" "runCalls call reqs s1 = (rs2, s')"
    by (cases q) (auto simp: runCalls_Cons)
  have "k \<noteq> k1" using Cons.prems(2) q by auto
  then have "stamp s1 k = stamp s k" using other [OF Cons.prems(1) c(1), of k] by simp
  then show ?case using Cons.IH [OF keeps_inv [OF Cons.prems(1) c(1)] _ c(2)] Cons.prems(2) by simp
qed (simp add: runCalls.simps)

lemma run_again:
  assumes "inv s" "stamp s k = Some t" "runCalls call reqs s = (rs, s')"
  shows "inv s' \<and> stamp s' k = Some (latest k t reqs) \<and>
    level s' k + of_nat (grantsOf k reqs rs) \<le>
      level s k + of_int (latest k t reqs - t) * refill + of_nat (callsOf k reqs) * slack"
  using assms
proof (induction reqs arbitrary: s t rs)
  case (Cons q reqs)
  obtain k1 now where q: "q = (k1, now)" by (cases q)
  obtain r s1 rs2 where c: "call k1 now s = (r, s1)" and run: "runCalls call reqs s1 = (rs2, s')" and rs: "rs = r # rs2"
    using Cons.prems(3) by (auto simp: q runCalls_Cons)
  have i: "inv s1" by (rule keeps_inv [OF Cons.prems(1) c])
  show ?case
  proof (cases "k1 = k")
    case False
    then have "level s1 k = level s k" "stamp s1 k = stamp s k" using other [OF Cons.prems(1) c, of k] by auto
    then show ?thesis
      using Cons.IH [OF i _ run, of t] Cons.prems(2) False
      by (simp add: q rs grantsOf_def callsOf_def latest_def)
  next
    case True
    note a = again [OF Cons.prems(1) Cons.prems(2) c [unfolded True]]
    note ih = Cons.IH [OF i conjunct1 [OF a] run]
    have l: "latest k t (q # reqs) = latest k (max t now) reqs" by (simp add: latest_def q True)
    have g: "grantsOf k (q # reqs) rs = (if tkAllowed r then 1 else 0) + grantsOf k reqs rs2"
      by (simp add: grantsOf_def q rs True)
    have n: "callsOf k (q # reqs) = Suc (callsOf k reqs)" by (simp add: callsOf_def q True)
    show ?thesis using ih a unfolding l g n by (simp add: algebra_simps split: if_splits)
  qed
qed (simp add: runCalls.simps grantsOf_def callsOf_def latest_def)

lemma grants_bound:
  assumes "inv s" "stamp s k = None" "call k t0 s = (r, s1)" "runCalls call reqs s1 = (rs, s')"
  shows "1 + of_nat (grantsOf k reqs rs) \<le>
    burst + of_int (latest k t0 reqs - t0) * refill + of_nat (callsOf k reqs + 1) * slack"
proof -
  have i: "inv s1" by (rule keeps_inv [OF assms(1,3)])
  have f: "stamp s1 k = Some t0" "level s1 k + 1 \<le> burst + slack" using first [OF assms(1-3)] by simp_all
  note a = run_again [OF i f(1) assms(4)]
  have "0 \<le> level s' k" using level_nonneg [of s' k] a by simp
  then show ?thesis using a f(2) by (simp add: algebra_simps)
qed

end

subsection \<open>The arithmetic of one call\<close>

definition ulp53 :: rat where "ulp53 = 1 / 2 ^ 53"

text \<open>The least normal double; everything above it is rounded within one part in \<open>2 ^ 53\<close>.\<close>

definition tiny :: rat where "tiny = 2 powi - 1022"

lemma tiny_less: "0 < tiny" "2 * tiny \<le> ulp53" "tiny \<le> 1 / 2 ^ 17"
proof -
  show "0 < tiny" by (simp only: tiny_def) (rule zero_less_power_int, simp)
  have "tiny \<le> 2 powi - 54" unfolding tiny_def by (rule powi_mono) simp
  then show "2 * tiny \<le> ulp53" by (simp add: ulp53_def power_int_minus)
  have "tiny \<le> 2 powi - 17" unfolding tiny_def by (rule powi_mono) simp
  then show "tiny \<le> 1 / 2 ^ 17" by (simp add: power_int_minus)
qed

lemma rnd_close:
  assumes "tiny \<le> x"
  shows "rnd x \<le> x + x * ulp53" "x - x * ulp53 \<le> rnd x"
proof -
  have "\<bar>rnd x - x\<bar> \<le> x * ulp53" using rnd_error [OF assms [unfolded tiny_def]] by (simp add: ulp53_def)
  then show "rnd x \<le> x + x * ulp53" "x - x * ulp53 \<le> rnd x" by linarith+
qed

lemma rnd_up:
  assumes "0 \<le> x" "x \<le> b" "1 \<le> b"
  shows "rnd x \<le> x + b * ulp53"
proof (cases "tiny \<le> x")
  case True
  have "rnd x \<le> x + x * ulp53" by (rule rnd_close(1) [OF True])
  also have "\<dots> \<le> x + b * ulp53" using assms by (simp add: ulp53_def)
  finally show ?thesis .
next
  case False
  have u: "0 \<le> ulp53" "ulp53 \<le> 1" by (simp_all add: ulp53_def)
  have "rnd x \<le> rnd tiny" using False by (intro rnd_mono) simp
  also have "\<dots> \<le> tiny + tiny * ulp53" by (rule rnd_close(1)) simp
  also have "\<dots> \<le> tiny + tiny * 1" using tiny_less(1) u by (intro add_left_mono mult_left_mono) simp_all
  also have "\<dots> \<le> 1 * ulp53" using tiny_less(2) by simp
  also have "\<dots> \<le> b * ulp53" using assms u by (intro mult_right_mono) simp_all
  finally show ?thesis using assms by simp
qed

definition refillBound :: "credential_rate \<Rightarrow> rat" where
  "refillBound rate = refillPerMs rate * (1 + ulp53)"

lemma refillPerMs_bounds:
  assumes "1 \<le> crPerMinute rate"
  shows "1 / 70000 \<le> refillPerMs rate" "refillPerMs rate \<le> of_int (crPerMinute rate) / 60000 * (1 + ulp53)"
proof -
  let ?x = "of_int (crPerMinute rate) / 60000 :: rat"
  have x: "1 / 60000 \<le> ?x" using assms by (simp add: divide_right_mono)
  have "tiny \<le> ?x" using x tiny_less(3) by simp
  note e = rnd_close [OF this]
  show "refillPerMs rate \<le> ?x * (1 + ulp53)" using e by (simp add: refillPerMs_def distrib_left)
  have "1 / 60000 * (1 - ulp53) \<le> ?x * (1 - ulp53)" using x by (intro mult_right_mono) (simp_all add: ulp53_def)
  then show "1 / 70000 \<le> refillPerMs rate" using e(2) by (simp add: refillPerMs_def algebra_simps ulp53_def)
qed

lemma gained_bound:
  assumes "1 \<le> crPerMinute rate"
  shows "max 0 (rnd (of_int d * refillPerMs rate)) \<le> of_int (max 0 d) * refillBound rate"
proof (cases "0 < d")
  case True
  note r = refillPerMs_bounds(1) [OF assms]
  let ?x = "of_int d * refillPerMs rate"
  have "1 * (1 / 70000) \<le> ?x" using True r by (intro mult_mono) simp_all
  then have "tiny \<le> ?x" using tiny_less(3) by simp
  then have "rnd ?x \<le> ?x + ?x * ulp53" by (rule rnd_close(1))
  moreover have "0 \<le> ?x" using True r by simp
  ultimately show ?thesis using True by (simp add: refillBound_def algebra_simps ulp53_def)
next
  case False
  then have "of_int d * refillPerMs rate \<le> 0"
    using refillPerMs_bounds(1) [OF assms] by (simp add: mult_nonpos_nonneg)
  then have "rnd (of_int d * refillPerMs rate) \<le> 0" using rnd_mono [of _ 0] by simp
  then show ?thesis using False by simp
qed

lemma refilled_bounds:
  assumes "1 \<le> crPerMinute rate" "1 \<le> crBurst rate" "0 \<le> bkTokens b"
  shows "0 \<le> refilled rate b now" "refilled rate b now \<le> of_int (crBurst rate)"
    "refilled rate b now \<le> bkTokens b + of_int (max 0 (now - bkUpdatedMs b)) * refillBound rate + of_int (crBurst rate) * ulp53"
proof -
  define g where "g = max 0 (rnd (of_int (now - bkUpdatedMs b) * refillPerMs rate))"
  let ?b = "of_int (crBurst rate) :: rat"
  have g: "0 \<le> g" "g \<le> of_int (max 0 (now - bkUpdatedMs b)) * refillBound rate"
    unfolding g_def using gained_bound [OF assms(1), of "now - bkUpdatedMs b"] by simp_all
  have r: "refilled rate b now = min ?b (rnd (bkTokens b + g))" by (simp add: refilled_def g_def Let_def)
  have b1: "1 \<le> ?b" using assms(2) by simp
  show "0 \<le> refilled rate b now" "refilled rate b now \<le> ?b"
    unfolding r using rnd_nonneg [of "bkTokens b + g"] assms(3) g b1 by simp_all
  have "min ?b (rnd (bkTokens b + g)) \<le> bkTokens b + g + ?b * ulp53"
  proof (cases "bkTokens b + g \<le> ?b")
    case True
    then show ?thesis using rnd_up [OF _ True b1] assms(3) g by simp
  next
    case False
    then have "?b \<le> bkTokens b + g + ?b * ulp53" using b1 by (simp add: ulp53_def)
    then show ?thesis by simp
  qed
  then show "refilled rate b now \<le> bkTokens b + of_int (max 0 (now - bkUpdatedMs b)) * refillBound rate + ?b * ulp53"
    unfolding r using g by linarith
qed

subsection \<open>TokenBucket is a rate limiter\<close>

definition bucketLevel :: "'k token_bucket \<Rightarrow> 'k \<Rightarrow> rat" where
  "bucketLevel tb k = (case map_of (tbBuckets tb) k of None \<Rightarrow> 0 | Some b \<Rightarrow> bkTokens b)"

definition bucketStamp :: "'k token_bucket \<Rightarrow> 'k \<Rightarrow> int option" where
  "bucketStamp tb k = map_option bkUpdatedMs (map_of (tbBuckets tb) k)"

definition bucketInv :: "'k token_bucket \<Rightarrow> bool" where
  "bucketInv tb \<longleftrightarrow> tbMaxKeys tb = None \<and> (\<forall>(k, b) \<in> set (tbBuckets tb). 0 \<le> bkTokens b)"

lemma takeToken_cases:
  assumes "takeToken k rate now tb = (r, tb')"
  obtains "map_of (tbBuckets tb) k = None" "tkAllowed r"
      "tb' = trim (tb\<lparr>tbBuckets := tbBuckets tb @ [(k, \<lparr>bkTokens = rnd (of_int (crBurst rate) - 1), bkUpdatedMs = now\<rparr>)]\<rparr>)"
  | b tokens where "map_of (tbBuckets tb) k = Some b" "tkAllowed r \<longleftrightarrow> 1 \<le> refilled rate b now"
      "tokens = (if tkAllowed r then rnd (refilled rate b now - 1) else refilled rate b now)"
      "tb' = tb\<lparr>tbBuckets := mapDelete k (tbBuckets tb) @
        [(k, \<lparr>bkTokens = tokens, bkUpdatedMs = max (bkUpdatedMs b) now\<rparr>)]\<rparr>"
proof (cases "map_of (tbBuckets tb) k")
  case None
  then show ?thesis using that(1) assms by (auto simp: takeToken_def upsert_new)
next
  case (Some b)
  then show ?thesis using that(2) assms by (auto simp: takeToken_def Let_def split: if_splits)
qed

lemma map_of_snoc: "map_of (mapDelete k m @ [(k, v)]) k' = (if k' = k then Some v else map_of m k')"
  by (simp add: map_add_def split: option.split)

lemma map_of_snoc_new: "map_of m k = None \<Longrightarrow> map_of (m @ [(k, v)]) k' = (if k' = k then Some v else map_of m k')"
  by (simp add: map_add_def split: option.split)

locale credential_limit =
  fixes rate :: credential_rate
  assumes rate_positive: "1 \<le> crPerMinute rate" "1 \<le> crBurst rate"

sublocale credential_limit \<subseteq> rate_limiter "\<lambda>k now. takeToken k rate now" bucketLevel bucketStamp bucketInv
  "of_int (crBurst rate)" "refillBound rate" "2 * of_int (crBurst rate) * ulp53"
proof (unfold_locales, goal_cases)
  case (1 s k now r s')
  have u: "0 \<le> rnd (of_int (crBurst rate) - 1)" using rate_positive(2) by (intro rnd_nonneg) simp
  from 1(2) show ?case
  proof (cases rule: takeToken_cases)
    case 1
    then show ?thesis using \<open>bucketInv s\<close> u by (auto simp: bucketInv_def trim_def)
  next
    case (2 b tokens)
    then have "0 \<le> bkTokens b" using \<open>bucketInv s\<close> by (auto simp: bucketInv_def dest: map_of_SomeD)
    then have "0 \<le> refilled rate b now" by (rule refilled_bounds(1) [OF rate_positive])
    then have "0 \<le> tokens" using 2(2,3) rnd_nonneg [of "refilled rate b now - 1"] by auto
    then show ?thesis using 2(4) \<open>bucketInv s\<close> by (auto simp: bucketInv_def mapDelete_def)
  qed
next
  case (2 s k now r s' k')
  from 2(2) show ?case
    by (cases rule: takeToken_cases)
       (use 2 in \<open>auto simp: bucketInv_def bucketLevel_def bucketStamp_def trim_def map_of_snoc map_of_snoc_new
        simp del: map_of_append\<close>)
next
  case (3 s k now r s')
  have "rnd (of_int (crBurst rate) - 1) \<le> of_int (crBurst rate) - 1 + of_int (crBurst rate) * ulp53"
    by (rule rnd_up) (use rate_positive in simp_all)
  moreover have "0 \<le> of_int (crBurst rate) * ulp53" using rate_positive by (simp add: ulp53_def)
  ultimately have "rnd (of_int (crBurst rate) - 1) + 1 \<le> of_int (crBurst rate) + 2 * of_int (crBurst rate) * ulp53"
    by linarith
  with 3(3) show ?case
    by (cases rule: takeToken_cases)
       (use 3 in \<open>auto simp: bucketInv_def bucketLevel_def bucketStamp_def trim_def map_of_snoc_new
        simp del: map_of_append\<close>)
next
  case (4 s k t now r s')
  then obtain b where b: "map_of (tbBuckets s) k = Some b" "bkUpdatedMs b = t"
    by (auto simp: bucketStamp_def)
  then have T: "0 \<le> bkTokens b" using 4(1) by (auto simp: bucketInv_def dest: map_of_SomeD)
  note r = refilled_bounds [OF rate_positive T, of now]
  let ?e = "of_int (crBurst rate) * ulp53 :: rat"
  have e: "0 \<le> ?e" using rate_positive by (simp add: ulp53_def)
  have d: "max 0 (now - t) = max t now - t" by simp
  from 4(3) show ?case
  proof (cases rule: takeToken_cases)
    case 1
    then show ?thesis using b by simp
  next
    case (2 b' tokens)
    have "tokens + (if tkAllowed r then 1 else 0) \<le> refilled rate b now + ?e"
    proof (cases "tkAllowed r")
      case True
      then have "rnd (refilled rate b now - 1) \<le> refilled rate b now - 1 + ?e"
        using 2(1,2) b r rate_positive by (intro rnd_up) simp_all
      then show ?thesis using 2(1,3) b True by simp
    qed (use 2(1,3) b e in simp)
    then have "tokens + (if tkAllowed r then 1 else 0) \<le>
        bkTokens b + of_int (max t now - t) * refillBound rate + 2 * of_int (crBurst rate) * ulp53"
      using r(3) unfolding b(2) d by (simp add: mult.assoc)
    then show ?thesis
      using 2(1,4) b by (simp add: bucketLevel_def bucketStamp_def map_of_snoc del: map_of_append)
  qed
next
  case (5 s k)
  then show ?case by (auto simp: bucketInv_def bucketStamp_def bucketLevel_def dest: map_of_SomeD split: option.split)
next
  case 6
  show ?case using rate_positive by (simp add: ulp53_def)
qed

interpretation defaults: credential_limit DEFAULT_RATE
  by unfold_locales (simp_all add: DEFAULT_RATE_def)

context credential_limit
begin

lemma take_bound:
  assumes "runCalls (\<lambda>k now. takeToken k rate now) (before @ (k, t0) # reqs) (newTokenBucket None) = (rs, tb)"
    and "k \<notin> fst ` set before"
  shows "(of_nat (grantsOf k (before @ (k, t0) # reqs) rs) :: rat) \<le>
    of_int (crBurst rate) +
    of_int (latest k t0 reqs - t0) * (of_int (crPerMinute rate) / 60000) * (1 + 1 / 2 ^ 53) ^ 2 +
    of_nat (callsOf k reqs + 1) * of_int (crBurst rate) / 2 ^ 52"
proof -
  let ?f = "\<lambda>k now. takeToken k rate now" and ?b = "of_int (crBurst rate) :: rat"
  obtain rs1 s1 rs2 where run1: "runCalls ?f before (newTokenBucket None) = (rs1, s1)"
    and run2: "runCalls ?f ((k, t0) # reqs) s1 = (rs2, tb)" and rs: "rs = rs1 @ rs2"
    using assms(1) by (auto simp: runCalls_append)
  obtain r s2 rs3 where call: "takeToken k rate t0 s1 = (r, s2)" and run3: "runCalls ?f reqs s2 = (rs3, tb)" and rs2: "rs2 = r # rs3"
    using run2 by (auto simp: runCalls_Cons)
  have start: "bucketInv (newTokenBucket None)" "bucketStamp (newTokenBucket None) k = None"
    by (simp_all add: bucketInv_def newTokenBucket_def bucketStamp_def)
  note s1 = run_other [OF start(1) assms(2) run1, unfolded start(2)]
  have g: "1 + of_nat (grantsOf k reqs rs3) \<le>
      ?b + of_int (latest k t0 reqs - t0) * refillBound rate + of_nat (callsOf k reqs + 1) * (2 * ?b * ulp53)"
    by (rule grants_bound [OF conjunct1 [OF s1] conjunct2 [OF s1] call run3])
  have z: "filter (\<lambda>(q, r). fst q = k \<and> tkAllowed r) (zip before rs1) = []"
    using assms(2) by (auto simp: filter_empty_conv dest!: set_zip_leftD)
  have "grantsOf k (before @ (k, t0) # reqs) rs \<le> 1 + grantsOf k reqs rs3"
    using runCalls_length [OF run1] z by (simp add: grantsOf_def rs rs2)
  then have "of_nat (grantsOf k (before @ (k, t0) # reqs) rs) \<le> (1 + of_nat (grantsOf k reqs rs3) :: rat)"
    by (metis of_nat_1 of_nat_add of_nat_le_iff)
  also note g
  also have "of_int (latest k t0 reqs - t0) * refillBound rate \<le>
      of_int (latest k t0 reqs - t0) * (of_int (crPerMinute rate) / 60000) * (1 + 1 / 2 ^ 53) ^ 2"
  proof -
    have "refillBound rate \<le> of_int (crPerMinute rate) / 60000 * (1 + ulp53) * (1 + ulp53)"
      unfolding refillBound_def by (intro mult_right_mono refillPerMs_bounds(2) rate_positive) (simp add: ulp53_def)
    moreover have "0 \<le> (of_int (latest k t0 reqs - t0) :: rat)" using latest_ge [of t0 k reqs] by simp
    ultimately show ?thesis
      unfolding power2_eq_square ulp53_def by (simp only: mult.assoc) (rule mult_left_mono)
  qed
  finally show ?thesis by (simp add: ulp53_def mult.assoc)
qed

end

text \<open>
  C35 The rate bound. From an empty bucket, over any interleaving of calls on any credentials under a clock
  that may stop or step back, a credential whose first call comes at \<open>t0\<close> is allowed at most its burst, plus
  \<open>perMinute\<close> for each minute between \<open>t0\<close> and the latest instant it called at, up to the rounding of the
  doubles: one part in \<open>2 ^ 52\<close> of the refill and of the burst for each of its calls. A clock that steps
  back and returns buys nothing.
\<close>

theorem takeToken_bound:
  assumes "1 \<le> crPerMinute rate" and "1 \<le> crBurst rate"
    and "runCalls (\<lambda>k now. takeToken k rate now) (before @ (k, t0) # reqs) (newTokenBucket None) = (rs, tb)"
    and "k \<notin> fst ` set before"
  shows "(of_nat (grantsOf k (before @ (k, t0) # reqs) rs) :: rat) \<le>
    of_int (crBurst rate) +
    of_int (latest k t0 reqs - t0) * (of_int (crPerMinute rate) / 60000) * (1 + 1 / 2 ^ 53) ^ 2 +
    of_nat (callsOf k reqs + 1) * of_int (crBurst rate) / 2 ^ 52"
  by (rule credential_limit.take_bound [OF credential_limit.intro [OF assms(1,2)] assms(3,4)])

definition sampleLimit :: credential_rate where
  "sampleLimit = \<lparr>crPerMinute = 60, crBurst = 1\<rparr>"

lemma takeToken_bound_witness:
  "of_nat (grantsOf (7 :: nat) [(7, 0), (7, 0)]
      (fst (runCalls (\<lambda>k now. takeToken k sampleLimit now) [(7 :: nat, 0), (7, 0)] (newTokenBucket None)))) \<le> (1 + 2 / 2 ^ 52 :: rat) \<and>
    tkAllowed (fst (takeToken (7 :: nat) sampleLimit 0 (newTokenBucket None)))"
proof -
  let ?run = "runCalls (\<lambda>k now. takeToken k sampleLimit now) [(7 :: nat, 0), (7, 0)] (newTokenBucket None)"
  have "of_nat (grantsOf 7 ([] @ (7, 0) # [(7 :: nat, 0)]) (fst ?run)) \<le>
      of_int (crBurst sampleLimit) +
      of_int (latest 7 0 [(7 :: nat, 0)] - 0) * (of_int (crPerMinute sampleLimit) / 60000) * (1 + 1 / 2 ^ 53) ^ 2 +
      (of_nat (callsOf 7 [(7 :: nat, 0 :: int)] + 1) * of_int (crBurst sampleLimit) / 2 ^ 52 :: rat)"
    by (rule takeToken_bound [where tb = "snd ?run"]) (simp_all add: sampleLimit_def)
  then show ?thesis
    by (simp add: latest_def callsOf_def sampleLimit_def) (simp add: takeToken_def newTokenBucket_def)
qed

end
