(* ===== verification/Base64Url.thy ===== *)
theory Base64Url
  imports JsText ReceiptErrors
begin

text \<open>
  packages/receipt/src/b64.ts: unpadded base64url over the 64-character alphabet, and its strict
  decoder. The lemmas show the round trip, that encoding is injective, and which texts decode: the
  bits a last character leaves over are ignored, so decoding is not injective.
\<close>

definition ALPHABET :: jsstr where
  "ALPHABET = js ''ABCDEFGHIJKLMNOPQRSTUVWXYZabcdefghijklmnopqrstuvwxyz0123456789-_''"

text \<open>\<open>ALPHABET.indexOf(char)\<close>.\<close>

fun indexOf :: "'a \<Rightarrow> 'a list \<Rightarrow> nat option" where
  "indexOf c [] = None"
| "indexOf c (d # ds) = (if c = d then Some 0 else map_option Suc (indexOf c ds))"

definition sextet :: "cu \<Rightarrow> receipt_error \<Rightarrow> receipt_error + nat" where
  "sextet c code = (case indexOf c ALPHABET of None \<Rightarrow> Inl code | Some i \<Rightarrow> Inr i)"

definition alpha :: "nat \<Rightarrow> cu" where
  "alpha n = ALPHABET ! n"

text \<open>The loop takes three bytes at a time and breaks where the second or the third is missing.\<close>

fun toBase64Url :: "bytes \<Rightarrow> jsstr" where
  "toBase64Url [] = []"
| "toBase64Url [a] = [alpha (unat a div 4), alpha (unat a mod 4 * 16)]"
| "toBase64Url [a, b] =
    [alpha (unat a div 4), alpha (unat a mod 4 * 16 + unat b div 16), alpha (unat b mod 16 * 4)]"
| "toBase64Url (a # b # c # bs) =
    alpha (unat a div 4) # alpha (unat a mod 4 * 16 + unat b div 16) #
    alpha (unat b mod 16 * 4 + unat c div 64) # alpha (unat c mod 64) # toBase64Url bs"

text \<open>The character class of \<open>NOT_BASE64URL\<close>, complemented.\<close>

definition urlChar :: "cu \<Rightarrow> bool" where
  "urlChar c \<longleftrightarrow> (let n = unat c in 0x41 \<le> n \<and> n \<le> 0x5a \<or> 0x61 \<le> n \<and> n \<le> 0x7a \<or> 0x30 \<le> n \<and> n \<le> 0x39 \<or> n = 0x5f \<or> n = 0x2d)"

text \<open>
  The decoding loop, four characters at a time; \<open>bytes.push\<close> into a Uint8Array keeps eight bits, and
  the shifted sums fit.
\<close>

fun decodeLoop :: "receipt_error \<Rightarrow> jsstr \<Rightarrow> receipt_error + bytes" where
  "decodeLoop code (a # b # rest) =
    bindE (sextet b code) (\<lambda>bBits.
    bindE (sextet a code) (\<lambda>aBits.
      let first = byteOf (aBits * 4 + bBits div 16) in
      case rest of
        [] \<Rightarrow> Inr [first]
      | c # rest2 \<Rightarrow>
          bindE (sextet c code) (\<lambda>cBits.
            let second = byteOf (bBits mod 16 * 16 + cBits div 4) in
            case rest2 of
              [] \<Rightarrow> Inr [first, second]
            | d # rest3 \<Rightarrow>
                bindE (sextet d code) (\<lambda>dBits.
                bindE (decodeLoop code rest3) (\<lambda>bs.
                  Inr (first # second # byteOf (cBits mod 4 * 64 + dBits) # bs))))))"
| "decodeLoop code _ = Inr []"

definition fromBase64Url :: "jsstr \<Rightarrow> receipt_error \<Rightarrow> receipt_error + bytes" where
  "fromBase64Url value code =
    (if \<not> list_all urlChar value \<or> length value mod 4 = 1 then Inl code else decodeLoop code value)"

subsection \<open>The alphabet\<close>

lemma length_ALPHABET [simp]: "length ALPHABET = 64"
  by (simp add: ALPHABET_def js_def)

lemma indexOf_nth: "distinct xs \<Longrightarrow> n < length xs \<Longrightarrow> indexOf (xs ! n) xs = Some n"
  by (induction xs arbitrary: n) (auto simp: nth_Cons split: nat.splits)

lemma indexOf_Some: "indexOf c xs = Some n \<Longrightarrow> n < length xs \<and> xs ! n = c"
  by (induction xs arbitrary: n) (auto split: if_splits)

lemma indexOf_None: "indexOf c xs = None \<longleftrightarrow> c \<notin> set xs"
  by (induction xs) auto

lemma distinct_ALPHABET: "distinct ALPHABET"
  by (simp add: ALPHABET_def js_def)

lemma sextet_alpha [simp]: "n < 64 \<Longrightarrow> sextet (alpha n) code = Inr n"
  by (simp add: sextet_def alpha_def indexOf_nth distinct_ALPHABET)

lemma sextet_Inr: "sextet c code = Inr n \<longleftrightarrow> n < 64 \<and> alpha n = c"
  using indexOf_Some [of c ALPHABET n]
  by (auto simp: sextet_def alpha_def indexOf_nth distinct_ALPHABET split: option.splits)

lemma alpha_inject: "m < 64 \<Longrightarrow> n < 64 \<Longrightarrow> alpha m = alpha n \<longleftrightarrow> m = n"
  by (metis sextet_alpha sum.inject(2))

lemma all_alpha: "list_all urlChar ALPHABET"
  by (simp add: ALPHABET_def js_def urlChar_def)

lemma urlChar_alpha [simp]: "n < 64 \<Longrightarrow> urlChar (alpha n)"
  using all_alpha by (simp add: alpha_def list_all_length)

lemma split_byte [simp]:
  "unat (a :: byte) div 4 < 64" "unat a mod 4 * 16 + unat (b :: byte) div 16 < 64"
  "unat b mod 16 * 4 + unat (c :: byte) div 64 < 64" "unat a mod 4 * 16 < 64" "unat b mod 16 * 4 < 64"
  "unat c mod 64 < 64"
proof -
  have d: "unat a div 4 < 64" "unat b div 16 < 16" "unat c div 64 < 4"
    by (rule less_mult_imp_div_less, simp)+
  have m: "unat a mod 4 < 4" "unat b mod 16 < 16" by simp_all
  show "unat a div 4 < 64" "unat a mod 4 * 16 + unat b div 16 < 64" "unat b mod 16 * 4 + unat c div 64 < 64"
    "unat a mod 4 * 16 < 64" "unat b mod 16 * 4 < 64" "unat c mod 64 < 64"
    using d m by linarith+
qed

lemma toBase64Url_chars: "list_all urlChar (toBase64Url bs)"
  by (induction bs rule: toBase64Url.induct) simp_all

lemma length_toBase64Url: "length (toBase64Url bs) = (4 * length bs + 2) div 3"
  by (induction bs rule: toBase64Url.induct) simp_all

subsection \<open>Round trip\<close>

lemma top_bits [simp]:
  "unat (c :: byte) div 64 div 4 = 0" "unat c div 64 mod 4 = unat c div 64" "unat c div 16 div 16 = 0"
  "unat c div 16 mod 16 = unat c div 16"
proof -
  have "unat c div 64 < 4" "unat c div 16 < 16" by (rule less_mult_imp_div_less, simp)+
  then show "unat c div 64 div 4 = 0" "unat c div 64 mod 4 = unat c div 64" "unat c div 16 div 16 = 0"
    "unat c div 16 mod 16 = unat c div 16" by simp_all
qed

lemma decodeLoop_encode: "decodeLoop code (toBase64Url bs) = Inr bs"
  by (induction bs rule: toBase64Url.induct) (simp_all add: Let_def)

lemma fromBase64Url_encode [simp]: "fromBase64Url (toBase64Url bs) code = Inr bs"
proof -
  have "length (toBase64Url bs) mod 4 \<noteq> 1"
    by (induction bs rule: toBase64Url.induct) simp_all
  then show ?thesis by (simp add: fromBase64Url_def toBase64Url_chars decodeLoop_encode)
qed

lemma toBase64Url_inject [simp]: "toBase64Url a = toBase64Url b \<longleftrightarrow> a = b"
  by (metis fromBase64Url_encode sum.inject(2))

definition urlCodes :: "nat list" where
  "urlCodes = [0x41..<0x5b] @ [0x61..<0x7b] @ [0x30..<0x3a] @ [0x2d, 0x5f]"

lemma urlCodes_ALPHABET: "map cuOf urlCodes = ALPHABET"
  by (simp add: urlCodes_def ALPHABET_def js_def cuOf_def upt_conv_Cons)

lemma urlChar_ALPHABET: "urlChar c \<Longrightarrow> c \<in> set ALPHABET"
proof -
  assume u: "urlChar c"
  have "unat c \<in> set urlCodes"
    unfolding urlCodes_def set_append set_upt using u by (auto simp: urlChar_def Let_def)
  then have "cuOf (unat c) \<in> set (map cuOf urlCodes)"
    by (simp only: set_map) (rule imageI)
  then show ?thesis by (simp only: urlCodes_ALPHABET cuOf_unat)
qed

lemma sextet_total: "urlChar c \<Longrightarrow> \<exists>n<64. sextet c code = Inr n"
  using urlChar_ALPHABET [of c] indexOf_None [of c ALPHABET] indexOf_Some [of c ALPHABET]
  by (auto simp: sextet_def split: option.splits)

lemma list_induct_four [case_names Nil one two three four]:
  assumes "P []" "\<And>x. P [x]" "\<And>x y. P [x, y]" "\<And>x y z. P [x, y, z]"
    "\<And>x y z w t. P t \<Longrightarrow> P (x # y # z # w # t)"
  shows "P xs"
proof (induction xs rule: length_induct)
  case (1 xs)
  show ?case
  proof (cases "length xs < 4")
    case True
    then show ?thesis using assms(1-4) by (auto simp: less_Suc_eq numeral_eq_Suc length_Suc_conv)
  next
    case False
    then obtain x y z w t where "xs = x # y # z # w # t" by (auto simp: not_less numeral_eq_Suc Suc_le_length_iff)
    then show ?thesis using 1 assms(5) by simp
  qed
qed

lemma decodeLoop_total:
  "list_all urlChar s \<Longrightarrow> length s mod 4 \<noteq> 1 \<Longrightarrow> \<exists>bs. decodeLoop code s = Inr bs \<and> length bs = length s * 3 div 4"
proof (induction s rule: list_induct_four)
  case (two x y)
  then show ?case using sextet_total [of x code] sextet_total [of y code] by (auto simp: Let_def)
next
  case (three x y z)
  then show ?case
    using sextet_total [of x code] sextet_total [of y code] sextet_total [of z code] by (auto simp: Let_def)
next
  case (four x y z w t)
  obtain bs where "decodeLoop code t = Inr bs" "length bs = length t * 3 div 4"
    using four by auto
  then show ?case
    using four.prems(1) sextet_total [of x code] sextet_total [of y code] sextet_total [of z code] sextet_total [of w code]
    by (auto simp: Let_def)
qed simp_all

lemma fromBase64Url_total:
  "(\<exists>bs. fromBase64Url s code = Inr bs) \<longleftrightarrow> list_all urlChar s \<and> length s mod 4 \<noteq> 1"
  using decodeLoop_total [of s code] by (auto simp: fromBase64Url_def)

lemma fromBase64Url_Inl: "fromBase64Url s code = Inl e \<Longrightarrow> e = code"
  using fromBase64Url_total [of s code] by (auto simp: fromBase64Url_def split: if_splits)

end
