(* ===== verification/Pop.thy ===== *)
theory Pop
  imports JsOps Base64Url
begin

text \<open>
  packages/receipt/src/pop.ts: proof of possession. The string a request signs, the header that
  carries the signature, and its parser. The signer and the Ed25519 verifier are arguments; SHA-256
  is the one of the body digest. A timestamp in \<open>PopFields\<close> is a natural number: the encoder refuses
  every other one after it has signed.
\<close>

definition POP_SCHEME :: jsstr where "POP_SCHEME = js ''ashaveri-pop-v1''"
definition POP_AUTH_PREFIX :: jsstr where "POP_AUTH_PREFIX = js ''Ashaveri-PoP''"
definition POP_NONCE_BYTES :: nat where "POP_NONCE_BYTES = 16"
definition POP_TIMESTAMP_TOLERANCE_SECONDS :: nat where "POP_TIMESTAMP_TOLERANCE_SECONDS = 120"

text \<open>\<open>/^[0-9]{1,20}$/u\<close>.\<close>

definition timestampText :: "jsstr \<Rightarrow> bool" where
  "timestampText s \<longleftrightarrow> list_all jsonDigit s \<and> 1 \<le> length s \<and> length s \<le> 20"

record pop_fields =
  pfTs :: nat
  pfNonce :: bytes
  pfMethod :: jsstr
  pfTarget :: jsstr
  pfBodyDigestHex :: jsstr

record pop_authorization =
  paCredential :: jsstr
  paTs :: nat
  paSignature :: bytes

text \<open>\<open>hex\<close> is \<open>toHex\<close>; SHA-256 is an argument.\<close>

definition sha256Hex :: "(bytes \<Rightarrow> bytes) \<Rightarrow> bytes \<Rightarrow> jsstr" where
  "sha256Hex digest bs = toHex (digest bs)"

definition popSigningString :: "pop_fields \<Rightarrow> jsstr" where
  "popSigningString f = joinWith (js [CHR 0x0A])
    [POP_SCHEME, decimalOf (pfTs f), toBase64Url (pfNonce f), toUpper (pfMethod f), pfTarget f, pfBodyDigestHex f]"

text \<open>\<open>input.ts\<close> is any number here.\<close>

definition encodePopAuthorization :: "jsstr \<Rightarrow> jsnum \<Rightarrow> bytes \<Rightarrow> receipt_error + jsstr" where
  "encodePopAuthorization credential ts signature =
    bindE (failIf (\<not> idText credential) BAD_POP_HEADER) (\<lambda>_.
      case ts of
        NInt i \<Rightarrow>
          bindE (failIf (\<not> isSafeInteger ts \<or> i < 0) BAD_POP_HEADER) (\<lambda>_.
          bindE (failIf (length signature \<noteq> 64) BAD_POP_HEADER) (\<lambda>_.
            Inr (POP_AUTH_PREFIX @ js '' credential='' @ credential @ js '', ts='' @ decimalOf (nat i) @
              js '', sig='' @ toBase64Url signature)))
      | _ \<Rightarrow> Inl BAD_POP_HEADER)"

definition signPopAuthorization ::
  "(bytes \<Rightarrow> bytes \<Rightarrow> bytes) \<Rightarrow> pop_fields \<Rightarrow> jsstr \<Rightarrow> bytes \<Rightarrow> receipt_error + jsstr" where
  "signPopAuthorization sign f credential privateKey =
    bindE (failIf (length (pfNonce f) \<noteq> POP_NONCE_BYTES) BAD_POP_NONCE) (\<lambda>_.
      encodePopAuthorization credential (NInt (int (pfTs f))) (sign (textEncode (popSigningString f)) privateKey))"

subsection \<open>The parser\<close>

text \<open>\<open>pair.slice(0, equals)\<close> and \<open>pair.slice(equals + 1).trim()\<close>, where \<open>equals\<close> is positive.\<close>

definition parameter :: "jsstr \<Rightarrow> (jsstr \<times> jsstr) option" where
  "parameter pair =
    (case indexOf (jc CHR ''='') pair of
       None \<Rightarrow> None
     | Some equals \<Rightarrow> if equals < 1 then None else Some (take equals pair, jsTrim (drop (equals + 1) pair)))"

fun parameters :: "jsstr list \<Rightarrow> (jsstr \<times> jsstr) list \<Rightarrow> receipt_error + (jsstr \<times> jsstr) list" where
  "parameters [] seen = Inr seen"
| "parameters (part # parts) seen =
    (let pair = jsTrim part in
     if pair = [] then parameters parts seen
     else case parameter pair of
       None \<Rightarrow> Inl BAD_POP_HEADER
     | Some (name, value) \<Rightarrow>
         if map_of seen name \<noteq> None then Inl BAD_POP_HEADER
         else parameters parts (seen @ [(name, value)]))"

definition required :: "(jsstr \<times> jsstr) list \<Rightarrow> jsstr \<Rightarrow> receipt_error + jsstr" where
  "required seen name =
    (case map_of seen name of
       None \<Rightarrow> Inl BAD_POP_HEADER
     | Some value \<Rightarrow> if value = [] then Inl BAD_POP_HEADER else Inr value)"

text \<open>\<open>Number(ts)\<close> of a text of digits, refused past the safe integers.\<close>

definition safeTimestamp :: "jsstr \<Rightarrow> receipt_error + nat" where
  "safeTimestamp ts =
    (case decimal False ts [] 0 of
       NInt i \<Rightarrow> if isSafeInteger (NInt i) then Inr (nat i) else Inl BAD_POP_HEADER
     | _ \<Rightarrow> Inl BAD_POP_HEADER)"

definition parsePopAuthorization :: "jsstr \<Rightarrow> receipt_error + pop_authorization" where
  "parsePopAuthorization header =
    (let trimmed = jsTrim header in
     bindE (failIf (takeWhile (\<lambda>c. \<not> jsSpace c) trimmed \<noteq> POP_AUTH_PREFIX) AUTH_SCHEME_MISMATCH) (\<lambda>_.
     bindE (parameters (splitOn (jc CHR '','') (drop (length POP_AUTH_PREFIX) trimmed)) []) (\<lambda>seen.
     bindE (required seen (js ''credential'')) (\<lambda>credential.
     bindE (required seen (js ''ts'')) (\<lambda>ts.
     bindE (required seen (js ''sig'')) (\<lambda>signature.
     bindE (failIf (\<not> list_all (\<lambda>(name, _). name \<in> {js ''credential'', js ''ts'', js ''sig''}) seen) BAD_POP_HEADER) (\<lambda>_.
     bindE (failIf (\<not> idText credential) BAD_POP_HEADER) (\<lambda>_.
     bindE (failIf (\<not> timestampText ts) BAD_POP_HEADER) (\<lambda>_.
     bindE (safeTimestamp ts) (\<lambda>asNumber.
     bindE (fromBase64Url signature BAD_POP_HEADER) (\<lambda>bytes.
     bindE (failIf (length bytes \<noteq> 64) BAD_POP_HEADER) (\<lambda>_.
       Inr \<lparr>paCredential = credential, paTs = asNumber, paSignature = bytes\<rparr>))))))))))))"

text \<open>The verifier answers \<open>verifier signature message key\<close>.\<close>

definition verifyPopSignature :: "(bytes \<Rightarrow> bytes \<Rightarrow> bytes \<Rightarrow> bool) \<Rightarrow> pop_fields \<Rightarrow> bytes \<Rightarrow> bytes \<Rightarrow> bool" where
  "verifyPopSignature verifier f signature publicKey =
    (if length signature \<noteq> 64 \<or> length publicKey \<noteq> 32 then False
     else verifier signature (textEncode (popSigningString f)) publicKey)"

subsection \<open>What the parser returns\<close>

lemma safeTimestamp_Inr: "safeTimestamp ts = Inr n \<Longrightarrow> int n \<le> MAX_SAFE_INTEGER"
  by (auto simp: safeTimestamp_def MAX_SAFE_INTEGER_def split: jsnum.splits if_splits)

lemma safeTimestamp_Inl: "safeTimestamp ts = Inl e \<Longrightarrow> e = BAD_POP_HEADER"
  by (auto simp: safeTimestamp_def split: jsnum.splits if_splits)

lemma parsePopAuthorization_Inr:
  assumes "parsePopAuthorization h = Inr p"
  shows "idText (paCredential p)" "length (paSignature p) = 64" "int (paTs p) \<le> MAX_SAFE_INTEGER"
  using assms
  by (auto simp: parsePopAuthorization_def Let_def bindE_Inr dest: safeTimestamp_Inr)

lemma parsePopAuthorization_Inl:
  "parsePopAuthorization h = Inl e \<Longrightarrow> e = AUTH_SCHEME_MISMATCH \<or> e = BAD_POP_HEADER"
proof -
  have r: "required seen n = Inl e \<Longrightarrow> e = BAD_POP_HEADER" for seen n e
    by (auto simp: required_def split: option.splits if_splits)
  have p: "parameters parts seen = Inl e \<Longrightarrow> e = BAD_POP_HEADER" for parts seen e
    by (induction parts seen rule: parameters.induct) (auto simp: Let_def split: option.splits if_splits)
  assume "parsePopAuthorization h = Inl e"
  then show ?thesis
    by (auto simp: parsePopAuthorization_def Let_def bindE_Inl dest: r p fromBase64Url_Inl safeTimestamp_Inl)
qed

subsection \<open>The signing string\<close>

lemma js_Nil [simp]: "js [] = []"
  by (simp add: js_def)

lemma js_Cons [simp]: "js (c # s) = jc c # js s"
  by (simp add: js_def jc_def)

lemma digit_not_newline: "jsonDigit c \<Longrightarrow> unat c \<noteq> 0x0a" "urlChar c \<Longrightarrow> unat c \<noteq> 0x0a"
  by (auto simp: jsonDigit_def urlChar_def Let_def)

lemma line_inject:
  assumes "a @ c # x = b @ c # y" and "c \<notin> set a" and "c \<notin> set b"
  shows "a = b \<and> x = y"
proof -
  have "splitOn c (a @ c # x) = splitOn c (b @ c # y)" using assms(1) by simp
  then have "a = b" using assms(2,3) by (simp add: splitOn_append)
  then show ?thesis using assms(1) by simp
qed

lemma line_inject_rev:
  assumes "x @ c # a = y @ c # b" and "c \<notin> set a" and "c \<notin> set b"
  shows "x = y \<and> a = b"
proof -
  have "rev (x @ c # a) = rev (y @ c # b)" using assms(1) by (rule arg_cong)
  then have "rev a @ c # rev x = rev b @ c # rev y" by simp
  then have "rev a = rev b \<and> rev x = rev y" by (rule line_inject) (use assms in simp_all)
  then show ?thesis by simp
qed

text \<open>
  C37 The signing string commits to every field: where method and body digest hold no newline, which a token
  and hexadecimal digits cannot, two requests with one signing string have the same timestamp, nonce, method
  up to case, target and body digest, whatever the target holds.
\<close>

theorem popSigningString_inj:
  assumes "popSigningString f = popSigningString g"
    and "jc CHR 0x0A \<notin> set (toUpper (pfMethod f))" "jc CHR 0x0A \<notin> set (toUpper (pfMethod g))"
    and "jc CHR 0x0A \<notin> set (pfBodyDigestHex f)" "jc CHR 0x0A \<notin> set (pfBodyDigestHex g)"
  shows "pfTs f = pfTs g \<and> pfNonce f = pfNonce g \<and> toUpper (pfMethod f) = toUpper (pfMethod g) \<and>
    pfTarget f = pfTarget g \<and> pfBodyDigestHex f = pfBodyDigestHex g"
proof -
  let ?n = "jc CHR 0x0A"
  have n: "unat ?n = 0x0a" by (simp add: jc_def)
  have t: "?n \<notin> set (decimalOf m)" for m
    using decimalOf_digits [of m] digit_not_newline(1) n by (auto simp: list_all_iff)
  have b: "?n \<notin> set (toBase64Url bs)" for bs
    using toBase64Url_chars [of bs] digit_not_newline(2) n by (auto simp: list_all_iff)
  have "decimalOf (pfTs f) @ ?n # toBase64Url (pfNonce f) @ ?n # toUpper (pfMethod f) @ ?n # pfTarget f @ ?n # pfBodyDigestHex f =
      decimalOf (pfTs g) @ ?n # toBase64Url (pfNonce g) @ ?n # toUpper (pfMethod g) @ ?n # pfTarget g @ ?n # pfBodyDigestHex g"
    using assms(1) by (simp add: popSigningString_def)
  note 1 = line_inject [OF this t t]
  note 2 = line_inject [OF conjunct2 [OF 1] b b]
  note 3 = line_inject [OF conjunct2 [OF 2] assms(2,3)]
  note 4 = line_inject_rev [OF conjunct2 [OF 3] assms(4,5)]
  show ?thesis using 1 2 3 4 by simp
qed

definition sampleFields :: pop_fields where
  "sampleFields = \<lparr>pfTs = 7, pfNonce = replicate 16 1, pfMethod = js ''get'', pfTarget = js ''/v1'', pfBodyDigestHex = js ''00''\<rparr>"

lemma popSigningString_inj_witness:
  "popSigningString sampleFields = popSigningString (sampleFields\<lparr>pfMethod := js ''GET''\<rparr>) \<and>
    toUpper (js ''get'') = toUpper (js ''GET'') \<and> pfTs sampleFields = 7"
proof -
  have u: "toUpper (js ''get'') = js ''GET''" "toUpper (js ''GET'') = js ''GET''"
    by (simp_all add: toUpper_def upperCu_def js_def)
  have s: "popSigningString sampleFields = popSigningString (sampleFields\<lparr>pfMethod := js ''GET''\<rparr>)"
    by (simp add: popSigningString_def sampleFields_def u del: js_Cons)
  have n: "jc CHR 0x0A \<notin> set (js ''GET'')" "jc CHR 0x0A \<notin> set (js ''00'')" by (simp_all add: jc_def)
  from popSigningString_inj [OF s] show ?thesis
    using s u n by (simp add: sampleFields_def del: js_Cons)
qed

subsection \<open>Round trip of the header\<close>

lemma parameter_of:
  assumes "name \<noteq> []" "jc CHR ''='' \<notin> set name" "value \<noteq> []" "list_all (\<lambda>c. \<not> jsSpace c) value"
  shows "parameter (name @ jc CHR ''='' # value) = Some (name, value)"
proof -
  have "indexOf (jc CHR ''='') (name @ jc CHR ''='' # value) = Some (length name)"
    using assms(2) by (induction name) auto
  then show ?thesis using assms by (simp add: parameter_def jsTrim_ids)
qed

lemma plain_chars:
  "list_all idChar s \<Longrightarrow> list_all (\<lambda>c. \<not> jsSpace c) s" "list_all urlChar s \<Longrightarrow> list_all (\<lambda>c. \<not> jsSpace c) s"
  "list_all jsonDigit s \<Longrightarrow> list_all (\<lambda>c. \<not> jsSpace c) s"
  "list_all idChar s \<Longrightarrow> jc CHR '','' \<notin> set s" "list_all urlChar s \<Longrightarrow> jc CHR '','' \<notin> set s"
  "list_all jsonDigit s \<Longrightarrow> jc CHR '','' \<notin> set s"
proof -
  have "urlChar = idChar" by (simp add: fun_eq_iff urlChar_def idChar_def)
  moreover have "jsonDigit c \<Longrightarrow> idChar c" for c by (auto simp: jsonDigit_def idChar_def Let_def)
  moreover have "\<not> idChar (jc CHR '','')" by (simp add: jc_def idChar_def)
  ultimately show
    "list_all idChar s \<Longrightarrow> list_all (\<lambda>c. \<not> jsSpace c) s" "list_all urlChar s \<Longrightarrow> list_all (\<lambda>c. \<not> jsSpace c) s"
    "list_all jsonDigit s \<Longrightarrow> list_all (\<lambda>c. \<not> jsSpace c) s"
    "list_all idChar s \<Longrightarrow> jc CHR '','' \<notin> set s" "list_all urlChar s \<Longrightarrow> jc CHR '','' \<notin> set s"
    "list_all jsonDigit s \<Longrightarrow> jc CHR '','' \<notin> set s"
    using idChar_not_space by (auto simp: list_all_iff)
qed

lemma space_value: "s \<noteq> [] \<Longrightarrow> list_all (\<lambda>c. \<not> jsSpace c) s \<Longrightarrow>
    list_all (\<lambda>c. \<not> jsSpace c) name \<Longrightarrow> name \<noteq> [] \<Longrightarrow>
    jsTrim (jc CHR '' '' # name @ jc CHR ''='' # s) = name @ jc CHR ''='' # s"
proof -
  assume a: "s \<noteq> []" "list_all (\<lambda>c. \<not> jsSpace c) s" "list_all (\<lambda>c. \<not> jsSpace c) name" "name \<noteq> []"
  have "jsSpace (jc CHR '' '')" "\<not> jsSpace (jc CHR ''='')" by (simp_all add: jc_def jsSpace_def)
  then show ?thesis using a by (subst jsTrim_Cons) (auto intro!: jsTrim_ids)
qed

lemma header_read_back:
  assumes "encodePopAuthorization credential (NInt i) signature = Inr h"
  shows "parsePopAuthorization h = Inr \<lparr>paCredential = credential, paTs = nat i, paSignature = signature\<rparr>"
proof -
  have e: "idText credential" "0 \<le> i" "i \<le> MAX_SAFE_INTEGER" "length signature = 64"
    and h: "h = POP_AUTH_PREFIX @ js '' credential='' @ credential @ js '', ts='' @ decimalOf (nat i) @
        js '', sig='' @ toBase64Url signature"
    using assms by (auto simp: encodePopAuthorization_def bindE_Inr)
  let ?s = "toBase64Url signature" and ?d = "decimalOf (nat i)" and ?c = "jc CHR '',''" and ?b = "jc CHR '' ''"
  have lt: "nat i < 2 ^ 53" using e(2,3) by (simp add: MAX_SAFE_INTEGER_def)
  have ne: "credential \<noteq> []" "?s \<noteq> []" using e(1,4) length_toBase64Url [of signature] by (auto simp: idText_def)
  have id: "list_all idChar credential" using e(1) by (simp add: idText_def)
  note sp = plain_chars(1) [OF id] plain_chars(2) [OF toBase64Url_chars [of signature]]
    plain_chars(3) [OF decimalOf_digits [of "nat i"]]
  note cm = plain_chars(4) [OF id] plain_chars(5) [OF toBase64Url_chars [of signature]]
    plain_chars(6) [OF decimalOf_digits [of "nat i"]]
  have ns: "list_all (\<lambda>c. \<not> jsSpace c) (js ''credential'')" "list_all (\<lambda>c. \<not> jsSpace c) (js ''ts'')"
    "list_all (\<lambda>c. \<not> jsSpace c) (js ''sig'')" "list_all (\<lambda>c. \<not> jsSpace c) POP_AUTH_PREFIX"
    "jsSpace ?b" "\<not> jsSpace (hd POP_AUTH_PREFIX)" "POP_AUTH_PREFIX \<noteq> []"
    by (simp_all add: jc_def jsSpace_def POP_AUTH_PREFIX_def)
  have nn: "js ''credential'' \<noteq> []" "js ''ts'' \<noteq> []" "js ''sig'' \<noteq> []" by simp_all
  have eq: "jc CHR ''='' \<notin> set (js ''credential'')" "jc CHR ''='' \<notin> set (js ''ts'')" "jc CHR ''='' \<notin> set (js ''sig'')"
    by (simp_all add: jc_def)
  define r1 where "r1 = ?b # js ''credential'' @ jc CHR ''='' # credential"
  define r2 where "r2 = ?b # js ''ts'' @ jc CHR ''='' # ?d"
  define r3 where "r3 = ?b # js ''sig'' @ jc CHR ''='' # ?s"
  have hr: "h = POP_AUTH_PREFIX @ r1 @ ?c # r2 @ ?c # r3" by (simp add: h r1_def r2_def r3_def)
  have "last h = last ?s" using ne by (simp add: hr r3_def)
  moreover have "last ?s \<in> set ?s" using ne by simp
  ultimately have l: "\<not> jsSpace (last h)" using sp(2) by (auto simp: list_all_iff)
  have t: "jsTrim h = h"
    by (rule jsTrim_id) (use l ns(6,7) in \<open>simp_all add: hr\<close>)
  have w: "takeWhile (\<lambda>c. \<not> jsSpace c) h = POP_AUTH_PREFIX"
    using ns(4,5) by (simp add: hr r1_def takeWhile_append list_all_iff)
  have nc: "?c \<notin> set r1" "?c \<notin> set r2" "?c \<notin> set r3"
    using cm by (auto simp: r1_def r2_def r3_def jc_def)
  have parts: "splitOn ?c (drop (length POP_AUTH_PREFIX) h) = [r1, r2, r3]"
    using nc by (simp add: hr splitOn_append splitOn_last)
  have tr: "jsTrim r1 = js ''credential'' @ jc CHR ''='' # credential" "jsTrim r2 = js ''ts'' @ jc CHR ''='' # ?d"
    "jsTrim r3 = js ''sig'' @ jc CHR ''='' # ?s"
    unfolding r1_def r2_def r3_def using space_value [OF ne(1) sp(1) ns(1) nn(1)] space_value [OF ne(2) sp(2) ns(3) nn(3)]
      space_value [OF decimalOf_not_Nil sp(3) ns(2) nn(2)] by (simp_all del: js_Cons)
  have pr: "parameter (js ''credential'' @ jc CHR ''='' # credential) = Some (js ''credential'', credential)"
    "parameter (js ''ts'' @ jc CHR ''='' # ?d) = Some (js ''ts'', ?d)"
    "parameter (js ''sig'' @ jc CHR ''='' # ?s) = Some (js ''sig'', ?s)"
    using parameter_of [OF nn(1) eq(1) ne(1) sp(1)] parameter_of [OF nn(2) eq(2) decimalOf_not_Nil sp(3)]
      parameter_of [OF nn(3) eq(3) ne(2) sp(2)] by (simp_all del: js_Cons)
  have ds: "js ''credential'' \<noteq> js ''ts''" "js ''credential'' \<noteq> js ''sig''" "js ''ts'' \<noteq> js ''sig''" by simp_all
  have ps: "parameters [r1, r2, r3] [] = Inr [(js ''credential'', credential), (js ''ts'', ?d), (js ''sig'', ?s)]"
    using ds by (simp add: tr pr del: js_Cons)
  have tt: "timestampText ?d"
    using decimalOf_digits [of "nat i"] length_decimalOf [of "nat i" 20] lt decimalOf_not_Nil [of "nat i"]
    by (cases ?d) (simp_all add: timestampText_def)
  have num: "safeTimestamp ?d = Inr (nat i)"
    using nearestDouble_int [OF lt, of False] e(2,3) by (simp add: safeTimestamp_def decimal_def)
  show ?thesis
    using ds e ne tt num
    by (simp add: parsePopAuthorization_def t w parts ps required_def failIf_def del: js_Cons parameters.simps)
qed

text \<open>
  The header round trip: whatever the encoder accepts, credential, timestamp and signature, the parser
  reads back from the header it wrote, with no change.
\<close>

theorem pop_header_roundtrip:
  assumes "encodePopAuthorization credential (NInt i) signature = Inr h"
  shows "parsePopAuthorization h = Inr \<lparr>paCredential = credential, paTs = nat i, paSignature = signature\<rparr>"
  using assms by (rule header_read_back)

lemma pop_header_roundtrip_witness:
  "\<exists>h. encodePopAuthorization (js ''a'') (NInt 5) (replicate 64 0) = Inr h \<and>
    parsePopAuthorization h = Inr \<lparr>paCredential = js ''a'', paTs = 5, paSignature = replicate 64 0\<rparr>"
proof -
  have "\<exists>h. encodePopAuthorization (js ''a'') (NInt 5) (replicate 64 0) = Inr h"
    by (simp add: encodePopAuthorization_def failIf_def idText_def idChar_def jc_def MAX_SAFE_INTEGER_def)
  then show ?thesis using pop_header_roundtrip [of "js ''a''" 5 "replicate 64 0"] by auto
qed

end
