(* ===== verification/Credentials.thy ===== *)
theory Credentials
  imports Pop Buckets
begin

text \<open>
  gateway/src/access.ts, the credential file: the error codes and their statuses, the records, the parser
  of the file, what ingest does to a record, and the makers of new ones. An AccessError is a record of its
  fields without the prose. Random bytes, the UUID and SHA-256 are arguments; the text of the file is what
  \<open>readFile\<close> returned, \<open>None\<close> when it threw.
\<close>

subsection \<open>Errors\<close>

datatype access_code =
    BAD_CREDENTIAL_FILE | BAD_CREDENTIAL_RECORD | DUPLICATE_CREDENTIAL_ID | AUTH_MALFORMED | AUTH_SCHEME
  | AUTH_UNKNOWN | AUTH_REVOKED | AUTH_STALE | AUTH_SIGNATURE | AUTH_NONCE_MISSING | NONCE_SEEN
  | SCOPE_DENIED | RATE_LIMITED | RECEIPT_WINDOW_UNHOLDABLE | DEPLOYMENT_RATE_LIMITED

datatype deny_code = Caller access_code | PEER_RATE_LIMITED

fun accessStatus :: "access_code \<Rightarrow> nat" where
  "accessStatus BAD_CREDENTIAL_FILE = 500"
| "accessStatus BAD_CREDENTIAL_RECORD = 500"
| "accessStatus DUPLICATE_CREDENTIAL_ID = 500"
| "accessStatus AUTH_MALFORMED = 401"
| "accessStatus AUTH_SCHEME = 401"
| "accessStatus AUTH_UNKNOWN = 401"
| "accessStatus AUTH_REVOKED = 401"
| "accessStatus AUTH_STALE = 401"
| "accessStatus AUTH_SIGNATURE = 401"
| "accessStatus AUTH_NONCE_MISSING = 401"
| "accessStatus NONCE_SEEN = 409"
| "accessStatus SCOPE_DENIED = 403"
| "accessStatus RATE_LIMITED = 429"
| "accessStatus RECEIPT_WINDOW_UNHOLDABLE = 429"
| "accessStatus DEPLOYMENT_RATE_LIMITED = 429"

record access_error =
  aeCode :: access_code
  aeLogCode :: deny_code
  aeStatus :: nat
  aeRetryAfterSeconds :: "int option"
  aeCredentialId :: "jsstr option"

definition newAccessError :: "access_code \<Rightarrow> int option \<Rightarrow> jsstr option \<Rightarrow> deny_code option \<Rightarrow> access_error" where
  "newAccessError code retryAfterSeconds credentialId logCode =
    \<lparr>aeCode = code, aeLogCode = (case logCode of None \<Rightarrow> Caller code | Some c \<Rightarrow> c), aeStatus = accessStatus code,
     aeRetryAfterSeconds = retryAfterSeconds, aeCredentialId = credentialId\<rparr>"

definition refuse :: "access_code \<Rightarrow> access_error + 'a" where
  "refuse code = Inl (newAccessError code None None None)"

subsection \<open>Records\<close>

datatype scope = ReadScope | CompleteScope

datatype credential_kind = PopKind | BearerKind

record credential_record =
  cdId :: jsstr
  cdKind :: credential_kind
  cdPublicKey :: "bytes option"
  cdSecretHash :: "bytes option"
  cdScopes :: "scope list"
  cdLabel :: "jsstr option"
  cdRate :: "credential_rate option"
  cdCreatedAt :: jsnum
  cdRevokedAt :: "jsnum option"

text \<open>The version is the literal 1.\<close>

record credential_file =
  cfCredentials :: "credential_record list"

definition CREDENTIALS_FILE_VERSION :: int where "CREDENTIALS_FILE_VERSION = 1"
definition MAX_CREDENTIALS :: nat where "MAX_CREDENTIALS = 10000"
definition ED25519_PUBLIC_KEY_BYTES :: nat where "ED25519_PUBLIC_KEY_BYTES = 32"

definition EMPTY_BODY_SHA256_HEX :: jsstr where
  "EMPTY_BODY_SHA256_HEX = js ''e3b0c44298fc1c149afbf4c8996fb92427ae41e4649b934ca495991b7852b855''"

definition hex32 :: "jsstr \<Rightarrow> bool" where
  "hex32 s \<longleftrightarrow> length s = 64 \<and>
    list_all (\<lambda>c. let n = unat c in 0x30 \<le> n \<and> n \<le> 0x39 \<or> 0x61 \<le> n \<and> n \<le> 0x66) s"

subsection \<open>The parser\<close>

definition asRecord :: "jsval \<Rightarrow> access_code \<Rightarrow> access_error + jsval" where
  "asRecord v code = (case v of JObj fs p \<Rightarrow> Inr v | _ \<Rightarrow> refuse code)"

definition asString :: "jsval \<Rightarrow> access_error + jsstr" where
  "asString v = (case v of JStr s \<Rightarrow> Inr s | _ \<Rightarrow> refuse BAD_CREDENTIAL_RECORD)"

definition asNumber :: "jsval \<Rightarrow> access_error + jsnum" where
  "asNumber v =
    (case v of
       JNum (NInt i) \<Rightarrow> Inr (NInt i)
     | JNum (NFrac m k) \<Rightarrow> Inr (NFrac m k)
     | _ \<Rightarrow> refuse BAD_CREDENTIAL_RECORD)"

definition parseScope :: "jsval \<Rightarrow> access_error + scope" where
  "parseScope v =
    bindE (asString v) (\<lambda>text.
      if text = js ''read'' then Inr ReadScope
      else if text = js ''complete'' then Inr CompleteScope
      else refuse BAD_CREDENTIAL_RECORD)"

definition parseScopes :: "jsval \<Rightarrow> access_error + scope list" where
  "parseScopes v = (case v of JArr xs \<Rightarrow> mapE parseScope xs | _ \<Rightarrow> refuse BAD_CREDENTIAL_RECORD)"

definition parseKeyField :: "jsval \<Rightarrow> nat \<Rightarrow> access_error + bytes" where
  "parseKeyField v width =
    bindE (asString v) (\<lambda>text.
      case fromBase64Url text BAD_POP_HEADER of
        Inl _ \<Rightarrow> refuse BAD_CREDENTIAL_RECORD
      | Inr bs \<Rightarrow> if length bs \<noteq> width then refuse BAD_CREDENTIAL_RECORD else Inr bs)"

text \<open>\<open>Number.isInteger(n) && n >= 1\<close>.\<close>

definition positiveInteger :: "jsnum \<Rightarrow> access_error + int" where
  "positiveInteger n = (case n of NInt i \<Rightarrow> if 1 \<le> i then Inr i else refuse BAD_CREDENTIAL_RECORD | _ \<Rightarrow> refuse BAD_CREDENTIAL_RECORD)"

definition parseRate :: "jsval \<Rightarrow> access_error + credential_rate" where
  "parseRate v =
    bindE (asRecord v BAD_CREDENTIAL_RECORD) (\<lambda>raw.
    bindE (asNumber (getProp raw (js ''perMinute''))) (\<lambda>perMinute.
    bindE (asNumber (getProp raw (js ''burst''))) (\<lambda>burst.
    bindE (positiveInteger perMinute) (\<lambda>p.
    bindE (positiveInteger burst) (\<lambda>b.
      Inr \<lparr>crPerMinute = p, crBurst = b\<rparr>)))))"

definition optionalField :: "(jsval \<Rightarrow> access_error + 'a) \<Rightarrow> jsval \<Rightarrow> access_error + 'a option" where
  "optionalField f v = (if v = JUndef then Inr None else bindE (f v) (\<lambda>x. Inr (Some x)))"

definition parseKind :: "jsval \<Rightarrow> access_error + credential_kind" where
  "parseKind v =
    bindE (asString v) (\<lambda>kind.
      if kind = js ''pop'' then Inr PopKind
      else if kind = js ''bearer'' then Inr BearerKind
      else refuse BAD_CREDENTIAL_RECORD)"

text \<open>The digest a bearer record carries: 64 lower-case digits that are not the digest of no bytes.\<close>

definition parseSecretHash :: "jsval \<Rightarrow> access_error + bytes" where
  "parseSecretHash v =
    bindE (asString v) (\<lambda>hash.
      if \<not> hex32 hash then refuse BAD_CREDENTIAL_RECORD
      else if hash = EMPTY_BODY_SHA256_HEX then refuse BAD_CREDENTIAL_RECORD
      else case fromHex hash of None \<Rightarrow> refuse BAD_CREDENTIAL_RECORD | Some bs \<Rightarrow> Inr bs)"

definition parseRecord :: "jsval \<Rightarrow> access_error + credential_record" where
  "parseRecord v =
    bindE (asRecord v BAD_CREDENTIAL_RECORD) (\<lambda>raw.
      let field = (\<lambda>name. getProp raw (js name)) in
    bindE (asString (field ''id'')) (\<lambda>id.
      if \<not> idText id then refuse BAD_CREDENTIAL_RECORD else
    bindE (parseKind (field ''kind'')) (\<lambda>kind.
    bindE (parseScopes (field ''scopes'')) (\<lambda>scopes.
      if CompleteScope \<in> set scopes \<and> ReadScope \<notin> set scopes then refuse BAD_CREDENTIAL_RECORD else
    bindE (asNumber (field ''createdAt'')) (\<lambda>createdAt.
    bindE (case kind of
        PopKind \<Rightarrow> bindE (parseKeyField (field ''publicKey'') ED25519_PUBLIC_KEY_BYTES) (\<lambda>k. Inr (Some k, None))
      | BearerKind \<Rightarrow> bindE (parseSecretHash (field ''secretHash'')) (\<lambda>h. Inr (None, Some h))) (\<lambda>(publicKey, secretHash).
    bindE (optionalField asString (field ''label'')) (\<lambda>label.
    bindE (optionalField asNumber (field ''revokedAt'')) (\<lambda>revokedAt.
    bindE (optionalField parseRate (field ''rate'')) (\<lambda>rate.
      Inr \<lparr>cdId = id, cdKind = kind, cdPublicKey = publicKey, cdSecretHash = secretHash, cdScopes = scopes,
        cdLabel = label, cdRate = rate, cdCreatedAt = createdAt, cdRevokedAt = revokedAt\<rparr>)))))))))"

fun parseRecords :: "jsval list \<Rightarrow> jsstr list \<Rightarrow> access_error + credential_record list" where
  "parseRecords [] seen = Inr []"
| "parseRecords (entry # entries) seen =
    bindE (parseRecord entry) (\<lambda>record.
      if cdId record \<in> set seen then refuse DUPLICATE_CREDENTIAL_ID
      else bindE (parseRecords entries (cdId record # seen)) (\<lambda>records. Inr (record # records)))"

text \<open>The file after \<open>JSON.parse\<close>.\<close>

definition parseCredentialDocument :: "jsval \<Rightarrow> access_error + credential_file" where
  "parseCredentialDocument value =
    bindE (asRecord value BAD_CREDENTIAL_FILE) (\<lambda>raw.
      if getProp raw (js ''version'') \<noteq> JNum (NInt CREDENTIALS_FILE_VERSION) then refuse BAD_CREDENTIAL_FILE
      else case getProp raw (js ''credentials'') of
        JArr entries \<Rightarrow>
          if length entries > MAX_CREDENTIALS then refuse BAD_CREDENTIAL_FILE
          else bindE (parseRecords entries []) (\<lambda>records. Inr \<lparr>cfCredentials = records\<rparr>)
      | _ \<Rightarrow> refuse BAD_CREDENTIAL_FILE)"

definition parseCredentialFile :: "jsstr \<Rightarrow> access_error + credential_file" where
  "parseCredentialFile text =
    (case jsonParse text of None \<Rightarrow> refuse BAD_CREDENTIAL_FILE | Some value \<Rightarrow> parseCredentialDocument value)"

definition loadCredentialFile :: "jsstr option \<Rightarrow> access_error + credential_file" where
  "loadCredentialFile content =
    (case content of
       None \<Rightarrow> refuse BAD_CREDENTIAL_FILE
     | Some text \<Rightarrow>
         (case parseCredentialFile text of
            Inl e \<Rightarrow> refuse (aeCode e)
          | Inr file \<Rightarrow> Inr file))"

subsection \<open>New credentials\<close>

definition credentialId :: "string \<Rightarrow> jsstr option \<Rightarrow> jsstr \<Rightarrow> jsstr" where
  "credentialId prefix given uuid = (case given of None \<Rightarrow> js prefix @ js ''-'' @ take 8 uuid | Some i \<Rightarrow> i)"

text \<open>The key pair of the drawn seed; \<open>now\<close> is the caller's instant or the floor of the time source.\<close>

definition newPopCredential ::
  "jsstr option \<Rightarrow> jsstr option \<Rightarrow> scope list option \<Rightarrow> int \<Rightarrow> jsstr \<Rightarrow> bytes \<times> bytes \<Rightarrow> credential_record \<times> bytes" where
  "newPopCredential given label scopes now uuid keys =
    (\<lparr>cdId = credentialId ''pop'' given uuid, cdKind = PopKind, cdPublicKey = Some (fst keys), cdSecretHash = None,
      cdScopes = (case scopes of None \<Rightarrow> [ReadScope, CompleteScope] | Some s \<Rightarrow> s), cdLabel = label, cdRate = None,
      cdCreatedAt = NInt now, cdRevokedAt = None\<rparr>, snd keys)"

definition hashSecret :: "(bytes \<Rightarrow> bytes) \<Rightarrow> bytes \<Rightarrow> bytes" where
  "hashSecret digest secret = digest secret"

definition newBearerCredential ::
  "(bytes \<Rightarrow> bytes) \<Rightarrow> jsstr option \<Rightarrow> jsstr option \<Rightarrow> scope list option \<Rightarrow> int \<Rightarrow> jsstr \<Rightarrow> bytes \<Rightarrow> credential_record \<times> bytes" where
  "newBearerCredential digest given label scopes now uuid secret =
    (\<lparr>cdId = credentialId ''bearer'' given uuid, cdKind = BearerKind, cdPublicKey = None,
      cdSecretHash = Some (hashSecret digest secret),
      cdScopes = (case scopes of None \<Rightarrow> [ReadScope, CompleteScope] | Some s \<Rightarrow> s), cdLabel = label, cdRate = None,
      cdCreatedAt = NInt now, cdRevokedAt = None\<rparr>, secret)"

subsection \<open>Ingest\<close>

record ingested =
  igRecord :: credential_record
  igPopKey :: "bytes option"

definition ingestCredential :: "credential_record \<Rightarrow> access_error + ingested" where
  "ingestCredential record =
    (case cdKind record of
       BearerKind \<Rightarrow> Inr \<lparr>igRecord = record, igPopKey = None\<rparr>
     | PopKind \<Rightarrow>
         (case cdPublicKey record of
            None \<Rightarrow> refuse BAD_CREDENTIAL_RECORD
          | Some key \<Rightarrow>
              if length key \<noteq> ED25519_PUBLIC_KEY_BYTES then refuse BAD_CREDENTIAL_RECORD
              else Inr \<lparr>igRecord = record\<lparr>cdSecretHash := None\<rparr>, igPopKey = Some key\<rparr>))"

definition bearerSecretHashOf :: "credential_record \<Rightarrow> bytes option" where
  "bearerSecretHashOf record =
    (if cdKind record \<noteq> BearerKind \<or> cdPublicKey record \<noteq> None then None
     else case cdSecretHash record of None \<Rightarrow> None | Some hash \<Rightarrow> if length hash \<noteq> 32 then None else Some hash)"

subsection \<open>What a parsed file satisfies\<close>

lemma refuse_not_Inr [simp]: "refuse c \<noteq> Inr x" "Inr x \<noteq> refuse c"
  by (simp_all add: refuse_def)

lemma bindE_refuse [simp]: "bindE (refuse c) f = refuse c"
  by (simp add: refuse_def)

definition rateOk :: "credential_rate \<Rightarrow> bool" where
  "rateOk r \<longleftrightarrow> 1 \<le> crPerMinute r \<and> 1 \<le> crBurst r"

text \<open>A record as the parser makes it.\<close>

definition recordOk :: "credential_record \<Rightarrow> bool" where
  "recordOk r \<longleftrightarrow> idText (cdId r) \<and> (CompleteScope \<in> set (cdScopes r) \<longrightarrow> ReadScope \<in> set (cdScopes r)) \<and>
    (case cdKind r of
       PopKind \<Rightarrow> (\<exists>k. cdPublicKey r = Some k \<and> length k = 32) \<and> cdSecretHash r = None
     | BearerKind \<Rightarrow> cdPublicKey r = None \<and>
         (\<exists>h. cdSecretHash r = Some h \<and> length h = 32 \<and> toHex h \<noteq> EMPTY_BODY_SHA256_HEX)) \<and>
    (case cdRate r of None \<Rightarrow> True | Some rate \<Rightarrow> rateOk rate)"

lemma positiveInteger_Inr: "positiveInteger n = Inr i \<Longrightarrow> 1 \<le> i"
  by (cases n) (auto simp: positiveInteger_def split: if_splits)

lemma parseRate_Inr: "parseRate v = Inr r \<Longrightarrow> rateOk r"
  by (auto simp: parseRate_def bindE_Inr rateOk_def dest: positiveInteger_Inr)

lemma optionalField_Inr: "optionalField f v = Inr x \<Longrightarrow> x = None \<or> (\<exists>y. x = Some y \<and> f v = Inr y)"
  by (auto simp: optionalField_def bindE_Inr split: if_splits)

lemma parseKeyField_Inr: "parseKeyField v w = Inr k \<Longrightarrow> length k = w"
  by (cases v) (auto simp: parseKeyField_def asString_def split: sum.splits if_splits)

definition lowerHex :: "cu \<Rightarrow> bool" where
  "lowerHex c \<longleftrightarrow> (let n = unat c in 0x30 \<le> n \<and> n \<le> 0x39 \<or> 0x61 \<le> n \<and> n \<le> 0x66)"

lemma lowerHex_digit: "lowerHex c \<Longrightarrow> \<exists>n<16. hexVal c = Some n \<and> hexDigit n = c"
proof -
  assume l: "lowerHex c"
  have "cuOf (48 + (unat c - 48)) = c" if "48 \<le> unat c" using that by simp
  moreover have "cuOf (87 + (unat c - 87)) = c" if "87 \<le> unat c" using that by simp
  ultimately show ?thesis
    using l by (cases "unat c \<le> 57") (auto simp: lowerHex_def Let_def hexVal_def hexDigit_def)
qed

lemma toHex_hexPairs: "list_all lowerHex s \<Longrightarrow> even (length s) \<Longrightarrow> toHex (hexPairs s) = s"
proof (induction s rule: hexPairs.induct)
  case (1 a b rest)
  then obtain x y where "x < 16" "hexVal a = Some x" "hexDigit x = a" "y < 16" "hexVal b = Some y" "hexDigit y = b"
    using lowerHex_digit [of a] lowerHex_digit [of b] by auto
  moreover from this have "x * 16 + y < 256" "(x * 16 + y) div 16 = x" "(x * 16 + y) mod 16 = y" by simp_all
  ultimately show ?case using 1 by simp
qed simp_all

lemma hex32_lower: "hex32 s \<Longrightarrow> fromHex s = Some bs \<Longrightarrow> length bs = 32 \<and> toHex bs = s"
  using toHex_hexPairs [of s] length_fromHex [of s bs]
  by (auto simp: hex32_def lowerHex_def [abs_def] fromHex_def split: if_splits)

lemma parseSecretHash_Inr: "parseSecretHash v = Inr h \<Longrightarrow> length h = 32 \<and> toHex h \<noteq> EMPTY_BODY_SHA256_HEX"
  by (cases v) (auto simp: parseSecretHash_def asString_def split: option.splits if_splits dest: hex32_lower)

lemma parseRecord_Inr: "parseRecord v = Inr r \<Longrightarrow> recordOk r"
  by (auto simp: parseRecord_def bindE_Inr Let_def recordOk_def ED25519_PUBLIC_KEY_BYTES_def
      split: if_splits credential_kind.splits dest!: optionalField_Inr dest: parseRate_Inr parseKeyField_Inr parseSecretHash_Inr)

lemma parseRecords_Inr:
  "parseRecords entries seen = Inr records \<Longrightarrow>
    length records = length entries \<and> list_all recordOk records \<and> distinct (map cdId records) \<and>
    set (map cdId records) \<inter> set seen = {}"
  by (induction entries arbitrary: seen records)
     (auto simp: bindE_Inr split: if_splits dest: parseRecord_Inr, fastforce+)

lemma ingest_recordOk:
  "recordOk r \<Longrightarrow> ingestCredential r = Inr \<lparr>igRecord = r, igPopKey = cdPublicKey r\<rparr>"
  by (cases r) (auto simp: recordOk_def ingestCredential_def ED25519_PUBLIC_KEY_BYTES_def split: credential_kind.splits)

text \<open>
  C39 What a credential file read from disk guarantees the store: at most 10,000 records with distinct ids in
  the wire alphabet, no record that may complete without reading, a 32-byte key and no secret hash in every
  proof-of-possession record, a 32-byte hash that is not the digest of no bytes and no key in every bearer
  one, positive rates; and ingest takes every record of it unchanged, so a reload of a file that parsed is
  never refused for a record.
\<close>

theorem parsed_file_ingests:
  assumes "parseCredentialDocument value = Inr file"
  shows "length (cfCredentials file) \<le> MAX_CREDENTIALS \<and> distinct (map cdId (cfCredentials file)) \<and>
    list_all recordOk (cfCredentials file) \<and>
    mapE ingestCredential (cfCredentials file) =
      Inr (map (\<lambda>r. \<lparr>igRecord = r, igPopKey = cdPublicKey r\<rparr>) (cfCredentials file))"
proof -
  obtain entries where "length entries \<le> MAX_CREDENTIALS" "parseRecords entries [] = Inr (cfCredentials file)"
    using assms
    by (cases "getProp value (js ''credentials'')"; cases "value")
       (auto simp: parseCredentialDocument_def asRecord_def bindE_Inr not_less simp del: getProp.simps js_Cons split: if_splits)
  then have p: "length (cfCredentials file) \<le> MAX_CREDENTIALS" "list_all recordOk (cfCredentials file)"
    "distinct (map cdId (cfCredentials file))"
    using parseRecords_Inr by fastforce+
  have "mapE ingestCredential rs = Inr (map (\<lambda>r. \<lparr>igRecord = r, igPopKey = cdPublicKey r\<rparr>) rs)" if "list_all recordOk rs" for rs
    using that by (induction rs) (simp_all add: ingest_recordOk)
  then show ?thesis using p by simp
qed

definition sampleDocument :: jsval where
  "sampleDocument = JObj [(js ''version'', JNum (NInt 1)), (js ''credentials'', JArr [JObj [
    (js ''id'', JStr (js ''a'')), (js ''kind'', JStr (js ''bearer'')), (js ''scopes'', JArr [JStr (js ''read'')]),
    (js ''createdAt'', JNum (NInt 5)), (js ''secretHash'', JStr (toHex (replicate 32 7)))] None])] None"

definition sampleRecord :: credential_record where
  "sampleRecord = \<lparr>cdId = js ''a'', cdKind = BearerKind, cdPublicKey = None, cdSecretHash = Some (replicate 32 7),
    cdScopes = [ReadScope], cdLabel = None, cdRate = None, cdCreatedAt = NInt 5, cdRevokedAt = None\<rparr>"

lemma sampleDocument_parses: "parseCredentialDocument sampleDocument = Inr \<lparr>cfCredentials = [sampleRecord]\<rparr>"
proof -
  let ?h = "toHex (replicate 32 (7 :: byte))"
  have d: "hexDigit 0 = 0x30" "hexDigit 7 = 0x37" by (simp_all add: hexDigit_def cuOf_def)
  have h: "?h = concat (replicate 32 [0x30, 0x37])" by (simp add: toHex_def d)
  have "list_all lowerHex ?h" by (auto simp: h list_all_iff lowerHex_def Let_def)
  then have "hex32 ?h" by (simp add: hex32_def lowerHex_def [abs_def])
  moreover have "replicate 32 (7 :: byte) = 7 # replicate 31 7" by (simp flip: replicate_Suc)
  then have "hd ?h = 0x30" by (simp add: d)
  then have "?h \<noteq> EMPTY_BODY_SHA256_HEX" by (auto simp: EMPTY_BODY_SHA256_HEX_def jc_def)
  ultimately have s: "parseSecretHash (JStr ?h) = Inr (replicate 32 7)"
    by (simp add: parseSecretHash_def asString_def)
  show ?thesis
    by (simp add: sampleDocument_def parseCredentialDocument_def asRecord_def CREDENTIALS_FILE_VERSION_def
        MAX_CREDENTIALS_def parseRecord_def Let_def asString_def parseKind_def parseScopes_def parseScope_def
        asNumber_def s optionalField_def sampleRecord_def idText_def idChar_def jc_def)
qed

lemma parsed_file_ingests_witness:
  "recordOk sampleRecord \<and> mapE ingestCredential [sampleRecord] = Inr [\<lparr>igRecord = sampleRecord, igPopKey = None\<rparr>]"
  using parsed_file_ingests [OF sampleDocument_parses] by (simp add: sampleRecord_def)

end
