(* ===== verification/Routes.thy ===== *)
theory Routes
  imports Credentials
begin

text \<open>
  gateway/src/access.ts, the route table and the receipt namespace: which scope a request line needs, and
  the ids under which a credential's receipts are filed. A Map is the list of its entries. HKDF, HMAC and
  the random bytes are arguments.
\<close>

subsection \<open>The route table\<close>

datatype route_scope = RPublic | RAny | RRead | RComplete

definition ROUTE_SCOPES :: "(jsstr \<times> route_scope) list" where
  "ROUTE_SCOPES =
    [(js ''GET /v1/deployment-manifest'', RAny),
     (js ''GET /v1/weights/:digest'', RPublic),
     (js ''GET /v1/attestation'', RRead),
     (js ''GET /v1/attestation/gpu'', RRead),
     (js ''GET /v1/receipts/:id'', RRead),
     (js ''POST /v1/chat/completions'', RComplete)]"

abbreviation slash :: cu where "slash \<equiv> jc CHR ''/''"
abbreviation colon :: cu where "colon \<equiv> jc CHR '':''"
abbreviation question :: cu where "question \<equiv> jc CHR ''?''"

definition matchesSegment :: "jsstr \<Rightarrow> jsstr \<Rightarrow> bool" where
  "matchesSegment segment have =
    (if take 1 segment \<noteq> [colon] then segment = have
     else if segment = js '':id'' then idText have
     else length have > 0)"

definition matchesPath :: "jsstr \<Rightarrow> jsstr \<Rightarrow> bool" where
  "matchesPath pattern path =
    (let want = splitOn slash pattern; have = splitOn slash path in
     if length want \<noteq> length have then False
     else list_all (\<lambda>(segment, h). matchesSegment segment h) (zip want have))"

text \<open>\<open>url.split('?', 1)[0]\<close>.\<close>

definition pathOf :: "jsstr \<Rightarrow> jsstr" where
  "pathOf url = takeWhile (\<lambda>c. c \<noteq> question) url"

definition normalizedMethod :: "jsstr \<Rightarrow> jsstr" where
  "normalizedMethod m = (if m = js ''HEAD'' then js ''GET'' else toUpper m)"

fun scanRoutes :: "(jsstr \<times> route_scope) list \<Rightarrow> jsstr \<Rightarrow> jsstr \<Rightarrow> route_scope option" where
  "scanRoutes [] normalized path = None"
| "scanRoutes ((route, sc) # rest) normalized path =
    (case splitOn (jc CHR '' '') route of
       routeMethod # pattern # _ \<Rightarrow>
         if routeMethod = normalized \<and> matchesPath pattern path then Some sc else scanRoutes rest normalized path
     | _ \<Rightarrow> scanRoutes rest normalized path)"

definition routeScope :: "jsstr \<Rightarrow> jsstr \<Rightarrow> route_scope option" where
  "routeScope m url = scanRoutes ROUTE_SCOPES (normalizedMethod m) (pathOf url)"

definition scopeSatisfied :: "scope list \<Rightarrow> route_scope \<Rightarrow> bool" where
  "scopeSatisfied granted req =
    (case req of
       RPublic \<Rightarrow> True
     | RAny \<Rightarrow> True
     | RComplete \<Rightarrow> CompleteScope \<in> set granted
     | RRead \<Rightarrow> ReadScope \<in> set granted \<or> CompleteScope \<in> set granted)"

text \<open>\<open>None\<close> is the UndeclaredRouteError thrown at registration.\<close>

definition requireRouteScope :: "jsstr \<Rightarrow> jsstr \<Rightarrow> route_scope option" where
  "requireRouteScope m url =
    (case map_of ROUTE_SCOPES (normalizedMethod m @ js '' '' @ url) of
       Some sc \<Rightarrow> Some sc
     | None \<Rightarrow> routeScope m url)"

subsection \<open>Which requests the table classifies\<close>

lemma row_split:
  "map (\<lambda>(r, sc). (splitOn (jc CHR '' '') r, sc)) ROUTE_SCOPES =
    [([js ''GET'', js ''/v1/deployment-manifest''], RAny), ([js ''GET'', js ''/v1/weights/:digest''], RPublic),
     ([js ''GET'', js ''/v1/attestation''], RRead), ([js ''GET'', js ''/v1/attestation/gpu''], RRead),
     ([js ''GET'', js ''/v1/receipts/:id''], RRead), ([js ''POST'', js ''/v1/chat/completions''], RComplete)]"
  by (simp add: ROUTE_SCOPES_def jc_def)

lemma pattern_split:
  "splitOn slash (js ''/v1/deployment-manifest'') = [[], js ''v1'', js ''deployment-manifest'']"
  "splitOn slash (js ''/v1/weights/:digest'') = [[], js ''v1'', js ''weights'', js '':digest'']"
  "splitOn slash (js ''/v1/attestation'') = [[], js ''v1'', js ''attestation'']"
  "splitOn slash (js ''/v1/attestation/gpu'') = [[], js ''v1'', js ''attestation'', js ''gpu'']"
  "splitOn slash (js ''/v1/receipts/:id'') = [[], js ''v1'', js ''receipts'', js '':id'']"
  "splitOn slash (js ''/v1/chat/completions'') = [[], js ''v1'', js ''chat'', js ''completions'']"
  by (simp_all add: jc_def)

definition segments :: "jsstr \<Rightarrow> jsstr list" where
  "segments url = splitOn slash (pathOf url)"

text \<open>The table as one case distinction over the segments of the path.\<close>

definition tableScope :: "jsstr \<Rightarrow> jsstr list \<Rightarrow> route_scope option" where
  "tableScope m segs =
    (if m = js ''GET'' \<and> segs = [[], js ''v1'', js ''deployment-manifest''] then Some RAny
     else if m = js ''GET'' \<and> (\<exists>d. segs = [[], js ''v1'', js ''weights'', d] \<and> d \<noteq> []) then Some RPublic
     else if m = js ''GET'' \<and> segs \<in> {[[], js ''v1'', js ''attestation''], [[], js ''v1'', js ''attestation'', js ''gpu'']} then Some RRead
     else if m = js ''GET'' \<and> (\<exists>d. segs = [[], js ''v1'', js ''receipts'', d] \<and> idText d) then Some RRead
     else if m = js ''POST'' \<and> segs = [[], js ''v1'', js ''chat'', js ''completions''] then Some RComplete
     else None)"

lemma literal_segment:
  "matchesSegment [] h \<longleftrightarrow> h = []" "matchesSegment (js ''v1'') h \<longleftrightarrow> h = js ''v1''"
  "matchesSegment (js ''deployment-manifest'') h \<longleftrightarrow> h = js ''deployment-manifest''"
  "matchesSegment (js ''weights'') h \<longleftrightarrow> h = js ''weights''" "matchesSegment (js ''attestation'') h \<longleftrightarrow> h = js ''attestation''"
  "matchesSegment (js ''gpu'') h \<longleftrightarrow> h = js ''gpu''" "matchesSegment (js ''receipts'') h \<longleftrightarrow> h = js ''receipts''"
  "matchesSegment (js ''chat'') h \<longleftrightarrow> h = js ''chat''" "matchesSegment (js ''completions'') h \<longleftrightarrow> h = js ''completions''"
  "matchesSegment (js '':digest'') h \<longleftrightarrow> h \<noteq> []" "matchesSegment (js '':id'') h \<longleftrightarrow> idText h"
  by (auto simp: matchesSegment_def jc_def)

lemma matchesPath_segments: "matchesPath pattern path \<longleftrightarrow> list_all2 matchesSegment (splitOn slash pattern) (splitOn slash path)"
  by (auto simp: matchesPath_def Let_def list_all2_iff list_all_iff)

lemma route_rows:
  "splitOn (jc CHR '' '') (js ''GET /v1/deployment-manifest'') = [js ''GET'', js ''/v1/deployment-manifest'']"
  "splitOn (jc CHR '' '') (js ''GET /v1/weights/:digest'') = [js ''GET'', js ''/v1/weights/:digest'']"
  "splitOn (jc CHR '' '') (js ''GET /v1/attestation'') = [js ''GET'', js ''/v1/attestation'']"
  "splitOn (jc CHR '' '') (js ''GET /v1/attestation/gpu'') = [js ''GET'', js ''/v1/attestation/gpu'']"
  "splitOn (jc CHR '' '') (js ''GET /v1/receipts/:id'') = [js ''GET'', js ''/v1/receipts/:id'']"
  "splitOn (jc CHR '' '') (js ''POST /v1/chat/completions'') = [js ''POST'', js ''/v1/chat/completions'']"
  by (simp_all add: jc_def)

lemma get_not_post: "js ''GET'' \<noteq> js ''POST''" "js ''POST'' \<noteq> js ''GET''"
  by (simp_all add: jc_def)

lemma different_segments:
  "js ''deployment-manifest'' \<noteq> js ''attestation''" "js ''weights'' \<noteq> js ''attestation''" "js ''weights'' \<noteq> js ''receipts''"
  "js ''attestation'' \<noteq> js ''receipts''" "js ''chat'' \<noteq> js ''receipts''"
  by (simp_all add: jc_def)

lemma path_rows:
  "list_all2 matchesSegment [[], js ''v1'', js ''deployment-manifest''] s \<longleftrightarrow> s = [[], js ''v1'', js ''deployment-manifest'']"
  "list_all2 matchesSegment [[], js ''v1'', js ''weights'', js '':digest''] s \<longleftrightarrow> (\<exists>d. s = [[], js ''v1'', js ''weights'', d] \<and> d \<noteq> [])"
  "list_all2 matchesSegment [[], js ''v1'', js ''attestation''] s \<longleftrightarrow> s = [[], js ''v1'', js ''attestation'']"
  "list_all2 matchesSegment [[], js ''v1'', js ''attestation'', js ''gpu''] s \<longleftrightarrow> s = [[], js ''v1'', js ''attestation'', js ''gpu'']"
  "list_all2 matchesSegment [[], js ''v1'', js ''receipts'', js '':id''] s \<longleftrightarrow> (\<exists>d. s = [[], js ''v1'', js ''receipts'', d] \<and> idText d)"
  "list_all2 matchesSegment [[], js ''v1'', js ''chat'', js ''completions''] s \<longleftrightarrow> s = [[], js ''v1'', js ''chat'', js ''completions'']"
  by (auto simp: list_all2_Cons1 literal_segment simp del: js_Cons)

lemma route_path: "matchesPath pattern (pathOf url) \<longleftrightarrow> list_all2 matchesSegment (splitOn slash pattern) (segments url)"
  by (simp add: matchesPath_segments segments_def)

lemma routeScope_is_table: "routeScope m url = tableScope (normalizedMethod m) (segments url)"
proof -
  have eq: "(js ''GET'' = x) = (x = js ''GET'')" "(js ''POST'' = x) = (x = js ''POST'')" for x by auto
  show ?thesis
    unfolding routeScope_def ROUTE_SCOPES_def scanRoutes.simps route_rows list.case route_path pattern_split path_rows
      tableScope_def eq
    by (auto simp del: js_Cons)
qed

text \<open>
  The scan of the route table, which splits every row, the request line and both paths and stops at the
  first match, is one case distinction: a request is classified by its method, with HEAD read as GET, and the
  segments of its path without the query. The order of the rows does not matter, because no two match.
\<close>

theorem routeScope_table: "routeScope m url = tableScope (normalizedMethod m) (segments url)"
  by (rule routeScope_is_table)

text \<open>
  The reach of the one public row: a request needs no credential exactly when its method is GET or HEAD
  and its path is \<open>/v1/weights/\<close> followed by one nonempty segment. No other path, no deeper path and no other
  method is served without a credential.
\<close>

theorem public_reach:
  "routeScope m url = Some RPublic \<longleftrightarrow>
    normalizedMethod m = js ''GET'' \<and> (\<exists>d. d \<noteq> [] \<and> slash \<notin> set d \<and> pathOf url = js ''/v1/weights/'' @ d)"
  (is "?l \<longleftrightarrow> ?m \<and> ?r")
proof -
  have "?l \<longleftrightarrow> ?m \<and> (\<exists>d. segments url = [[], js ''v1'', js ''weights'', d] \<and> d \<noteq> [])"
    using different_segments by (auto simp: routeScope_is_table tableScope_def simp del: js_Cons split: if_splits)
  moreover have "segments url = [[], js ''v1'', js ''weights'', d] \<longleftrightarrow> slash \<notin> set d \<and> pathOf url = js ''/v1/weights/'' @ d" for d
  proof
    assume s: "segments url = [[], js ''v1'', js ''weights'', d]"
    then have "pathOf url = joinWith [slash] [[], js ''v1'', js ''weights'', d]"
      using join_splitOn [of slash "pathOf url"] by (simp add: segments_def)
    moreover have "slash \<notin> set d" using splitOn_parts [of d slash "pathOf url"] s by (simp add: segments_def)
    ultimately show "slash \<notin> set d \<and> pathOf url = js ''/v1/weights/'' @ d" by simp
  next
    assume "slash \<notin> set d \<and> pathOf url = js ''/v1/weights/'' @ d"
    then show "segments url = [[], js ''v1'', js ''weights'', d]"
      by (simp add: segments_def splitOn_last) (simp add: jc_def)
  qed
  ultimately show ?thesis by blast
qed

subsection \<open>Receipt ids\<close>

definition RECEIPT_ID_TAG_BYTES :: nat where "RECEIPT_ID_TAG_BYTES = 8"
definition RECEIPT_ID_TAG_HEX_CHARS :: nat where "RECEIPT_ID_TAG_HEX_CHARS = RECEIPT_ID_TAG_BYTES * 2"
definition RECEIPT_ID_RANDOM_BYTES :: nat where "RECEIPT_ID_RANDOM_BYTES = 16"
definition RECEIPT_ID_CHARS :: nat where
  "RECEIPT_ID_CHARS = (RECEIPT_ID_TAG_BYTES + RECEIPT_ID_RANDOM_BYTES) * 2"
definition HKDF_KEY_BYTES :: nat where "HKDF_KEY_BYTES = 32"
definition ED25519_SEED_BYTES :: nat where "ED25519_SEED_BYTES = 32"
definition RECEIPT_NAMESPACE_SALT :: jsstr where "RECEIPT_NAMESPACE_SALT = js ''ashaveri-receipt-namespace-v1''"
definition RECEIPT_NAMESPACE_INFO :: jsstr where "RECEIPT_NAMESPACE_INFO = js ''ashaveri-receipt-id-tag-v1''"

text \<open>\<open>hkdfSync(sha256, seed, salt, info, length)\<close> is an argument.\<close>

definition deriveReceiptNamespaceKey :: "(bytes \<Rightarrow> bytes \<Rightarrow> bytes \<Rightarrow> nat \<Rightarrow> bytes) \<Rightarrow> bytes \<Rightarrow> bytes" where
  "deriveReceiptNamespaceKey hkdf seed =
    hkdf seed (textEncode RECEIPT_NAMESPACE_SALT) (textEncode RECEIPT_NAMESPACE_INFO) HKDF_KEY_BYTES"

record receipt_namespace =
  rnKey :: bytes
  rnTags :: "(jsstr \<times> jsstr) list"

definition newReceiptNamespace ::
  "(bytes \<Rightarrow> bytes \<Rightarrow> bytes \<Rightarrow> nat \<Rightarrow> bytes) \<Rightarrow> bytes \<Rightarrow> receipt_error + receipt_namespace" where
  "newReceiptNamespace hkdf privateKey =
    (if length privateKey \<noteq> ED25519_SEED_BYTES then Inl BAD_SIGNING_KEY
     else Inr \<lparr>rnKey = deriveReceiptNamespaceKey hkdf privateKey, rnTags = []\<rparr>)"

text \<open>\<open>hmac key message\<close> is HMAC-SHA256.\<close>

definition tagFor :: "(bytes \<Rightarrow> bytes \<Rightarrow> bytes) \<Rightarrow> jsstr \<Rightarrow> receipt_namespace \<Rightarrow> jsstr \<times> receipt_namespace" where
  "tagFor hmac cred ns =
    (case map_of (rnTags ns) cred of
       Some known \<Rightarrow> (known, ns)
     | None \<Rightarrow>
         let tag = toHex (take RECEIPT_ID_TAG_BYTES (hmac (rnKey ns) (textEncode cred)))
         in (tag, ns\<lparr>rnTags := upsert cred tag (rnTags ns)\<rparr>))"

definition mint :: "jsstr \<Rightarrow> bytes \<Rightarrow> jsstr" where
  "mint tag random = tag @ toHex random"

text \<open>The loop of \<open>constantTimeEquals\<close>, which looks at every byte whatever it has seen.\<close>

definition constantTimeEquals :: "bytes \<Rightarrow> bytes \<Rightarrow> bool" where
  "constantTimeEquals left right =
    (if length left \<noteq> length right then False
     else fold (\<lambda>(l, r) diff. or diff (xor l r)) (zip left right) 0 = (0 :: byte))"

definition carries :: "jsstr \<Rightarrow> jsstr \<Rightarrow> bool" where
  "carries i tag = constantTimeEquals (textEncode (take RECEIPT_ID_TAG_HEX_CHARS i)) (textEncode tag)"

subsection \<open>Which ids a credential owns\<close>

lemma or_byte_zero: "or a b = 0 \<longleftrightarrow> a = 0 \<and> b = (0 :: byte)"
  by (rule or_eq_0_iff)

lemma xor_byte_zero: "xor a b = 0 \<longleftrightarrow> a = (b :: byte)"
proof
  assume "xor a b = 0"
  then have "xor a (xor a b) = a" by simp
  then show "a = b" by (simp flip: xor.assoc)
qed simp

lemma fold_diff: "fold (\<lambda>(l, r) diff. or diff (xor l r)) ps d = (0 :: byte) \<longleftrightarrow> d = 0 \<and> (\<forall>(l, r) \<in> set ps. l = r)"
  by (induction ps arbitrary: d) (auto simp: or_byte_zero xor_byte_zero)

lemma constantTimeEquals_eq: "constantTimeEquals a b \<longleftrightarrow> a = b"
  by (auto simp: constantTimeEquals_def fold_diff set_zip list_eq_iff_nth_eq)

definition tagOf :: "(bytes \<Rightarrow> bytes \<Rightarrow> bytes) \<Rightarrow> bytes \<Rightarrow> jsstr \<Rightarrow> jsstr" where
  "tagOf hmac key c = toHex (take RECEIPT_ID_TAG_BYTES (hmac key (textEncode c)))"

definition tagsOk :: "(bytes \<Rightarrow> bytes \<Rightarrow> bytes) \<Rightarrow> bytes \<Rightarrow> receipt_namespace \<Rightarrow> bool" where
  "tagsOk hmac key ns \<longleftrightarrow> rnKey ns = key \<and> (\<forall>c tag. map_of (rnTags ns) c = Some tag \<longrightarrow> tag = tagOf hmac key c)"

lemma tagFor_ok:
  "tagsOk hmac key ns \<Longrightarrow> fst (tagFor hmac c ns) = tagOf hmac key c \<and> tagsOk hmac key (snd (tagFor hmac c ns))"
  by (auto simp: tagFor_def tagsOk_def tagOf_def Let_def split: option.split)

lemma run_tags: "tagsOk hmac key ns \<Longrightarrow> tagsOk hmac key (fold (\<lambda>c n. snd (tagFor hmac c n)) cs ns)"
  by (induction cs arbitrary: ns) (auto simp: tagFor_ok)

text \<open>The tag of a credential in the state the lookups before it left.\<close>

definition tagAfter :: "(bytes \<Rightarrow> bytes \<Rightarrow> bytes) \<Rightarrow> receipt_namespace \<Rightarrow> jsstr list \<Rightarrow> jsstr \<Rightarrow> jsstr" where
  "tagAfter hmac ns cs c = fst (tagFor hmac c (fold (\<lambda>c n. snd (tagFor hmac c n)) cs ns))"

lemma newReceiptNamespace_tag:
  assumes "newReceiptNamespace hkdf seed = Inr ns"
  shows "tagAfter hmac ns cs c = tagOf hmac (deriveReceiptNamespaceKey hkdf seed) c"
proof -
  have "tagsOk hmac (deriveReceiptNamespaceKey hkdf seed) ns"
    using assms by (auto simp: newReceiptNamespace_def tagsOk_def split: if_splits)
  from tagFor_ok [OF run_tags [OF this]] show ?thesis by (simp add: tagAfter_def)
qed

lemma toHex_ascii: "ascii (toHex bs)"
  by (simp add: ascii_toHex)

lemma toHex_idText: "list_all idChar (toHex bs)"
proof -
  have d: "n < 16 \<Longrightarrow> idChar (hexDigit n)" for n
    by (auto simp: hexDigit_def idChar_def Let_def)
  show ?thesis by (induction bs) (auto simp: d)
qed

text \<open>
  C38 A minted receipt id and its owner. Whatever lookups the process made before, in whatever order, an id
  minted under a credential's tag is 48 characters of the id alphabet, so the route accepts it; and it is
  carried by another credential's tag exactly when the two HMACs agree on their first eight bytes, which
  the same credential's always do. The constant-time loop is equality of the bytes.
\<close>

theorem minted_id_owner:
  assumes "newReceiptNamespace hkdf seed = Inr ns"
    and "\<And>m. length (hmac (deriveReceiptNamespaceKey hkdf seed) m) = 32"
    and "length random = RECEIPT_ID_RANDOM_BYTES"
  shows "length (mint (tagAfter hmac ns cs c) random) = RECEIPT_ID_CHARS \<and>
    idText (mint (tagAfter hmac ns cs c) random) \<and>
    (carries (mint (tagAfter hmac ns cs c) random) (tagAfter hmac ns cs' c') \<longleftrightarrow>
      take 8 (hmac (deriveReceiptNamespaceKey hkdf seed) (textEncode c)) =
      take 8 (hmac (deriveReceiptNamespaceKey hkdf seed) (textEncode c')))"
proof -
  let ?k = "deriveReceiptNamespaceKey hkdf seed"
  note tag = newReceiptNamespace_tag [OF assms(1)]
  have l: "length (tagOf hmac ?k d) = 16" for d
    using assms(2) by (simp add: tagOf_def length_toHex RECEIPT_ID_TAG_BYTES_def)
  have n: "length (mint (tagAfter hmac ns cs c) random) = RECEIPT_ID_CHARS"
    using assms(3) l [of c]
    by (simp add: tag mint_def length_toHex RECEIPT_ID_CHARS_def RECEIPT_ID_RANDOM_BYTES_def RECEIPT_ID_TAG_BYTES_def)
  have "list_all idChar (mint (tagAfter hmac ns cs c) random)"
    by (simp add: tag mint_def tagOf_def toHex_idText)
  then have i: "idText (mint (tagAfter hmac ns cs c) random)"
    using n by (simp add: idText_def RECEIPT_ID_CHARS_def RECEIPT_ID_RANDOM_BYTES_def RECEIPT_ID_TAG_BYTES_def)
  have "take RECEIPT_ID_TAG_HEX_CHARS (mint (tagOf hmac ?k c) random) = tagOf hmac ?k c"
    using l [of c] by (simp add: mint_def RECEIPT_ID_TAG_HEX_CHARS_def RECEIPT_ID_TAG_BYTES_def)
  then have "carries (mint (tagAfter hmac ns cs c) random) (tagAfter hmac ns cs' c') \<longleftrightarrow>
      take 8 (hmac ?k (textEncode c)) = take 8 (hmac ?k (textEncode c'))"
    by (auto simp: tag carries_def constantTimeEquals_eq tagOf_def RECEIPT_ID_TAG_BYTES_def
        toHex_inject dest: textEncode_ascii_inject [OF toHex_ascii toHex_ascii])
  with n i show ?thesis by blast
qed

definition sampleHmac :: "bytes \<Rightarrow> bytes \<Rightarrow> bytes" where
  "sampleHmac key m = take 32 (m @ replicate 32 0)"

lemma minted_id_owner_witness:
  "\<not> carries (mint (tagAfter sampleHmac \<lparr>rnKey = [], rnTags = []\<rparr> [] (js ''a'')) (replicate 16 9))
     (tagAfter sampleHmac \<lparr>rnKey = [], rnTags = []\<rparr> [js ''a''] (js ''b''))"
proof -
  have n: "newReceiptNamespace (\<lambda>_ _ _ _. []) (replicate 32 0) = Inr \<lparr>rnKey = [], rnTags = []\<rparr>"
    by (simp add: newReceiptNamespace_def ED25519_SEED_BYTES_def deriveReceiptNamespaceKey_def)
  have e: "textEncode (js ''a'') \<noteq> textEncode (js ''b'')" "length (textEncode (js ''a'')) = 1" "length (textEncode (js ''b'')) = 1"
    by (simp_all add: textEncode_ascii ascii_def jc_def byteOf_def)
  show ?thesis
    using minted_id_owner [OF n, of sampleHmac "replicate 16 9" "[]" "js ''a''" "[js ''a'']" "js ''b''"] e
    by (auto simp: sampleHmac_def RECEIPT_ID_RANDOM_BYTES_def)
qed

end
