(* ===== verification/ClientAuth.thy ===== *)
theory ClientAuth
  imports Pem Routes Doubles
begin

text \<open>
  packages/sdk/src/b64.ts and auth.ts: how the client signs a request. The SDK has a base64url codec of its
  own, over the language's \<open>btoa\<close> and \<open>atob\<close>. A header list is an association list of lower-case names; the
  two parts of a URL the SDK reads off \<open>new URL\<close>, the drawn nonce, SHA-256 and the signer are arguments. An
  SdkError is its code, and only \<open>AUTH_CONFIG\<close> is raised here.
\<close>

subsection \<open>base64url and hexadecimal of the SDK\<close>

text \<open>\<open>btoa\<close>, on the characters of \<open>binary\<close> as bytes, and \<open>atob\<close>: \<open>None\<close> is its InvalidCharacterError.\<close>

definition btoa :: "bytes \<Rightarrow> jsstr" where
  "btoa bs = b64Enc bs"

definition atob :: "jsstr \<Rightarrow> bytes option" where
  "atob s =
    (let data = filter (\<lambda>c. unat c \<notin> {0x09, 0x0a, 0x0c, 0x0d, 0x20}) s;
         data' = (if length data mod 4 = 0 then
             (if length data \<ge> 2 \<and> drop (length data - 2) data = [equalsSign, equalsSign] then take (length data - 2) data
              else if data \<noteq> [] \<and> last data = equalsSign then butlast data else data)
           else data)
     in if length data' mod 4 = 1 \<or> \<not> list_all (\<lambda>c. b64Index c \<noteq> None) data' then None
        else Some (b64Loop 0 0 data'))"

definition plus :: cu where "plus = jc CHR ''+''"
definition minus :: cu where "minus = jc CHR ''-''"
definition under :: cu where "under = jc CHR ''_''"

text \<open>\<open>s.replaceAll(from, to)\<close> for single characters.\<close>

definition replaceAll :: "cu \<Rightarrow> cu \<Rightarrow> jsstr \<Rightarrow> jsstr" where
  "replaceAll a b s = map (\<lambda>c. if c = a then b else c) s"

definition padEnd :: "nat \<Rightarrow> cu \<Rightarrow> jsstr \<Rightarrow> jsstr" where
  "padEnd n c s = s @ replicate (n - length s) c"

definition sdkToBase64Url :: "bytes \<Rightarrow> jsstr" where
  "sdkToBase64Url bs =
    rev (dropWhile (\<lambda>c. c = equalsSign) (rev (replaceAll (jc CHR ''/'') under (replaceAll plus minus (btoa bs)))))"

text \<open>\<open>None\<close> is any of its two errors.\<close>

definition sdkFromBase64Url :: "jsstr \<Rightarrow> bytes option" where
  "sdkFromBase64Url value =
    (if \<not> list_all urlChar value then None
     else let padded = replaceAll under (jc CHR ''/'') (replaceAll minus plus value)
          in atob (padEnd ((length padded + 3) div 4 * 4) equalsSign padded))"

definition sdkFromHex :: "jsstr \<Rightarrow> bytes option" where
  "sdkFromHex value = (if even (length value) \<and> list_all (\<lambda>c. hexVal c \<noteq> None) value then Some (hexPairs value) else None)"

subsection \<open>Signing a request\<close>

text \<open>What a call can throw: an SdkError, a ReceiptError of the signer, the TypeError of \<open>new URL\<close>.\<close>

datatype sdk_error = AUTH_CONFIG | SdkReceipt receipt_error | BadUrl

datatype sdk_credential = SdkPop jsstr bytes | SdkBearer bytes

datatype request_body = NoBody | TextBody jsstr | BytesBody bytes | OtherBody

definition bodyBytes :: "request_body \<Rightarrow> sdk_error + bytes option" where
  "bodyBytes body =
    (case body of
       NoBody \<Rightarrow> Inr None
     | TextBody s \<Rightarrow> Inr (Some (textEncode s))
     | BytesBody bs \<Rightarrow> Inr (Some bs)
     | OtherBody \<Rightarrow> Inl AUTH_CONFIG)"

text \<open>\<open>new URL(url)\<close>, which may throw a TypeError; \<open>None\<close> is that throw.\<close>

definition requestTarget :: "(jsstr \<Rightarrow> (jsstr \<times> jsstr) option) \<Rightarrow> jsstr \<Rightarrow> jsstr option" where
  "requestTarget parseUrl url = map_option (\<lambda>(pathname, search). pathname @ search) (parseUrl url)"

datatype text_format = HexFormat | Base64UrlFormat

definition decodeText :: "jsstr \<Rightarrow> text_format \<Rightarrow> sdk_error + bytes" where
  "decodeText value format =
    (case (if format = HexFormat then sdkFromHex value else sdkFromBase64Url value) of
       None \<Rightarrow> Inl AUTH_CONFIG | Some bs \<Rightarrow> Inr bs)"

type_synonym headers = "(jsstr \<times> jsstr) list"

definition readNonceHeader :: "headers \<Rightarrow> sdk_error + bytes option" where
  "readNonceHeader hs =
    (case map_of hs (js ''x-ashaveri-nonce'') of
       None \<Rightarrow> Inr None
     | Some raw \<Rightarrow>
         bindE (decodeText raw Base64UrlFormat) (\<lambda>bs.
           if length bs \<noteq> POP_NONCE_BYTES then Inl AUTH_CONFIG else Inr (Some bs)))"

record outgoing =
  ogUrl :: jsstr
  ogMethod :: "jsstr option"
  ogHeaders :: headers
  ogBody :: request_body

text \<open>A \<open>Request\<close>: its own url, method, headers and body, the last refused when it is a stream.\<close>

record fetch_request =
  frUrl :: jsstr
  frMethod :: jsstr
  frHeaders :: headers
  frBody :: request_body

record request_init =
  riMethod :: "jsstr option"
  riHeaders :: "headers option"
  riBody :: "request_body option"

datatype fetch_input = UrlInput jsstr | RequestInput fetch_request

definition outgoing :: "fetch_input \<Rightarrow> request_init \<Rightarrow> outgoing" where
  "outgoing i init =
    (case i of
       UrlInput url \<Rightarrow>
         \<lparr>ogUrl = url, ogMethod = riMethod init, ogHeaders = (case riHeaders init of None \<Rightarrow> [] | Some hs \<Rightarrow> hs),
          ogBody = (case riBody init of None \<Rightarrow> NoBody | Some b \<Rightarrow> b)\<rparr>
     | RequestInput r \<Rightarrow>
         \<lparr>ogUrl = frUrl r, ogMethod = Some (case riMethod init of None \<Rightarrow> frMethod r | Some m \<Rightarrow> m),
          ogHeaders = (case riHeaders init of None \<Rightarrow> frHeaders r | Some hs \<Rightarrow> hs),
          ogBody = (case riBody init of None \<Rightarrow> frBody r | Some b \<Rightarrow> if b = NoBody then frBody r else b)\<rparr>)"

record client_env =
  ceSha256 :: "bytes \<Rightarrow> bytes"
  ceSign :: "bytes \<Rightarrow> bytes \<Rightarrow> bytes"
  ceParseUrl :: "jsstr \<Rightarrow> (jsstr \<times> jsstr) option"

text \<open>\<open>Math.floor(millis / 1000)\<close>.\<close>

definition secondsOf :: "int \<Rightarrow> int" where
  "secondsOf ms = \<lfloor>rnd (of_int ms / 1000)\<rfloor>"

definition bodyDigestOf :: "(bytes \<Rightarrow> bytes) \<Rightarrow> bytes option \<Rightarrow> jsstr" where
  "bodyDigestOf digest body = (case body of None \<Rightarrow> EMPTY_BODY_SHA256_HEX | Some bs \<Rightarrow> sha256Hex digest bs)"

text \<open>\<open>signPopAuthorization\<close> of a stamp that may be negative, which it refuses after the nonce.\<close>

definition signFields ::
  "client_env \<Rightarrow> int \<Rightarrow> bytes \<Rightarrow> jsstr \<Rightarrow> jsstr \<Rightarrow> jsstr \<Rightarrow> jsstr \<Rightarrow> bytes \<Rightarrow> sdk_error + jsstr" where
  "signFields ce ts nonce m target digestHex cred priv =
    (case (if ts < 0 then bindE (failIf (length nonce \<noteq> POP_NONCE_BYTES) BAD_POP_NONCE) (\<lambda>_. Inl BAD_POP_HEADER)
           else signPopAuthorization (ceSign ce)
             \<lparr>pfTs = nat ts, pfNonce = nonce, pfMethod = m, pfTarget = target, pfBodyDigestHex = digestHex\<rparr> cred priv) of
       Inl e \<Rightarrow> Inl (SdkReceipt e) | Inr h \<Rightarrow> Inr h)"

text \<open>The header list the transport is handed; \<open>drawn\<close> is the nonce of the option or of \<open>randomNonce\<close>.\<close>

definition applyCredential :: "client_env \<Rightarrow> int \<Rightarrow> bytes \<Rightarrow> sdk_credential \<Rightarrow> outgoing \<Rightarrow> sdk_error + headers" where
  "applyCredential ce nowMs drawn cred request =
    (let hs = ogHeaders request in
     if map_of hs (js ''authorization'') \<noteq> None then Inr hs
     else case cred of
       SdkBearer secret \<Rightarrow> Inr (upsert (js ''authorization'') (js ''Bearer '' @ sdkToBase64Url secret) hs)
     | SdkPop i priv \<Rightarrow>
         bindE (readNonceHeader hs) (\<lambda>given.
         let nonce = (case given of None \<Rightarrow> drawn | Some n \<Rightarrow> n);
             hs1 = upsert (js ''x-ashaveri-nonce'') (sdkToBase64Url nonce) hs in
         bindE (bodyBytes (ogBody request)) (\<lambda>body.
         case requestTarget (ceParseUrl ce) (ogUrl request) of
           None \<Rightarrow> Inl BadUrl
         | Some target \<Rightarrow>
             bindE (signFields ce (secondsOf nowMs) nonce
               (toUpper (case ogMethod request of None \<Rightarrow> js ''GET'' | Some m \<Rightarrow> m)) target
               (bodyDigestOf (ceSha256 ce) body) i priv) (\<lambda>h.
             Inr (upsert (js ''authorization'') h hs1)))))"

definition authorizedFetch ::
  "client_env \<Rightarrow> int \<Rightarrow> bytes \<Rightarrow> sdk_credential option \<Rightarrow> fetch_input \<Rightarrow> request_init \<Rightarrow> sdk_error + headers" where
  "authorizedFetch ce nowMs drawn cred i init =
    (case cred of
       None \<Rightarrow> Inr (ogHeaders (outgoing i init))
     | Some c \<Rightarrow> applyCredential ce nowMs drawn c (outgoing i init))"

definition decodeSecret :: "jsstr \<Rightarrow> bool \<Rightarrow> sdk_error + bytes" where
  "decodeSecret value isPop =
    bindE (decodeText value (if isPop then HexFormat else Base64UrlFormat)) (\<lambda>bs.
      if isPop \<and> length bs \<noteq> 32 then Inl AUTH_CONFIG else Inr bs)"

definition CREDENTIAL_ENV :: "jsstr \<times> jsstr \<times> jsstr" where
  "CREDENTIAL_ENV = (js ''ASHAVERI_CREDENTIAL_ID'', js ''ASHAVERI_CREDENTIAL_SECRET'', js ''ASHAVERI_CREDENTIAL_KIND'')"

definition credentialFromEnv :: "(jsstr \<rightharpoonup> jsstr) \<Rightarrow> sdk_error + sdk_credential option" where
  "credentialFromEnv env =
    (let (idName, secretName, kindName) = CREDENTIAL_ENV in
     case (env idName, env secretName) of
       (Some i, Some secret) \<Rightarrow>
         let kind = (case env kindName of None \<Rightarrow> js ''pop'' | Some k \<Rightarrow> k) in
         if kind \<noteq> js ''pop'' \<and> kind \<noteq> js ''bearer'' then Inl AUTH_CONFIG
         else bindE (decodeSecret secret (kind = js ''pop'')) (\<lambda>bs.
           Inr (Some (if kind = js ''pop'' then SdkPop i bs else SdkBearer bs)))
     | _ \<Rightarrow> Inr None)"

subsection \<open>The two codecs are one\<close>

definition toUrlChar :: "cu \<Rightarrow> cu" where
  "toUrlChar c = (let d = (if c = plus then minus else c) in if d = jc CHR ''/'' then under else d)"

definition toStdChar :: "cu \<Rightarrow> cu" where
  "toStdChar c = (let d = (if c = minus then plus else c) in if d = under then jc CHR ''/'' else d)"

lemma replace_chars:
  "replaceAll (jc CHR ''/'') under (replaceAll plus minus s) = map toUrlChar s"
  "replaceAll under (jc CHR ''/'') (replaceAll minus plus s) = map toStdChar s"
  by (simp_all add: replaceAll_def toUrlChar_def toStdChar_def Let_def)

lemma char_codes: "map toUrlChar (map b64Char [0..<64]) = ALPHABET" "map toStdChar ALPHABET = map b64Char [0..<64]"
  by (simp_all add: upt_conv_Cons b64Char_def ALPHABET_def js_def toUrlChar_def toStdChar_def plus_def minus_def under_def jc_def cuOf_def)

lemma toUrlChar_b64: "n < 64 \<Longrightarrow> toUrlChar (b64Char n) = alpha n"
proof -
  assume "n < 64"
  then have "map toUrlChar (map b64Char [0..<64]) ! n = toUrlChar (b64Char n)" by simp
  then show ?thesis unfolding char_codes(1) alpha_def by simp
qed

lemma toStdChar_alpha: "n < 64 \<Longrightarrow> toStdChar (alpha n) = b64Char n"
proof -
  assume n: "n < 64"
  then have "map toStdChar ALPHABET ! n = toStdChar (alpha n)" by (simp add: alpha_def)
  then show ?thesis unfolding char_codes(2) using n by simp
qed

lemma map_body: "map toUrlChar (b64Body bs) = toBase64Url bs"
  by (induction bs rule: toBase64Url.induct) (simp_all add: toUrlChar_b64 six_bits)

lemma toUrlChar_equals: "toUrlChar equalsSign = equalsSign"
  by (simp add: toUrlChar_def plus_def minus_def under_def equalsSign_def jc_def cuOf_def)

lemma sdk_encode: "sdkToBase64Url bs = toBase64Url bs"
proof -
  obtain k where k: "b64Enc bs = b64Body bs @ replicate k equalsSign" using b64Enc_body [of bs] by blast
  have "list_all (\<lambda>c. c \<noteq> equalsSign) (toBase64Url bs)"
  proof -
    have "\<not> urlChar equalsSign" by (simp add: equalsSign_def urlChar_def)
    then show ?thesis using toBase64Url_chars [of bs] by (auto simp: list_all_iff)
  qed
  then have "trimPadding (toBase64Url bs @ replicate k equalsSign) = toBase64Url bs"
    by (intro trimPadding_body) (auto simp: list_all_iff)
  then show ?thesis
    by (simp add: sdkToBase64Url_def replace_chars btoa_def k map_body toUrlChar_equals trimPadding_def)
qed

lemma url_digits: "list_all urlChar s \<Longrightarrow> \<exists>ns. s = map alpha ns \<and> list_all (\<lambda>n. n < 64) ns"
proof (induction s)
  case (Cons c s)
  then obtain ns where ns: "s = map alpha ns" "list_all (\<lambda>n. n < 64) ns" by auto
  obtain n where "n < 64" "sextet c BAD_POP_HEADER = Inr n" using sextet_total [of c] Cons.prems by auto
  then have "c # s = map alpha (n # ns) \<and> list_all (\<lambda>n. n < 64) (n # ns)" using ns by (auto simp: sextet_Inr)
  then show ?case by (rule exI)
qed simp

lemma loop_char:
  assumes "b64Index c = Some n"
  shows "b64Loop b 0 (c # cs) = b64Loop (b * 64 + n) 6 cs"
    and "b64Loop b 6 (c # cs) = byteOf ((b * 64 + n) div 16 mod 256) # b64Loop ((b * 64 + n) mod 16) 4 cs"
    and "b64Loop b 4 (c # cs) = byteOf ((b * 64 + n) div 4 mod 256) # b64Loop ((b * 64 + n) mod 4) 2 cs"
    and "b64Loop b 2 (c # cs) = byteOf ((b * 64 + n) mod 256) # b64Loop 0 0 cs"
proof -
  have n: "(0 :: nat) + 6 = 6" "(8 \<le> (6 :: nat)) = False" "(6 :: nat) + 6 = 12" "(8 \<le> (12 :: nat)) = True"
    "(12 :: nat) - 8 = 4" "(2 :: nat) ^ 4 = 16" "(4 :: nat) + 6 = 10" "(8 \<le> (10 :: nat)) = True" "(10 :: nat) - 8 = 2"
    "(2 :: nat) ^ 2 = 4" "(2 :: nat) + 6 = 8" "(8 \<le> (8 :: nat)) = True" "(8 :: nat) - 8 = 0" "(2 :: nat) ^ 0 = 1"
    by simp_all
  show "b64Loop b 0 (c # cs) = b64Loop (b * 64 + n) 6 cs"
    "b64Loop b 6 (c # cs) = byteOf ((b * 64 + n) div 16 mod 256) # b64Loop ((b * 64 + n) mod 16) 4 cs"
    "b64Loop b 4 (c # cs) = byteOf ((b * 64 + n) div 4 mod 256) # b64Loop ((b * 64 + n) mod 4) 2 cs"
    "b64Loop b 2 (c # cs) = byteOf ((b * 64 + n) mod 256) # b64Loop 0 0 cs"
    by (simp_all only: b64Loop.simps assms option.sel Let_def n if_True if_False div_by_1 mod_by_1)
qed

lemma loop_step:
  "n0 < 64 \<Longrightarrow> n1 < 64 \<Longrightarrow> b64Loop 0 0 (b64Char n0 # b64Char n1 # cs) = byteOf (n0 * 4 + n1 div 16) # b64Loop (n1 mod 16) 4 cs"
  "n1 < 64 \<Longrightarrow> n2 < 64 \<Longrightarrow> b64Loop (n1 mod 16) 4 (b64Char n2 # cs) = byteOf (n1 mod 16 * 16 + n2 div 4) # b64Loop (n2 mod 4) 2 cs"
  "n2 < 64 \<Longrightarrow> n3 < 64 \<Longrightarrow> b64Loop (n2 mod 4) 2 (b64Char n3 # cs) = byteOf (n2 mod 4 * 64 + n3) # b64Loop 0 0 cs"
proof -
  assume n: "n0 < 64" "n1 < 64"
  have "n1 div 16 < 4" using n by (simp add: less_mult_imp_div_less)
  then have e: "(n0 * 64 + n1) div 16 mod 256 = n0 * 4 + n1 div 16" "(n0 * 64 + n1) mod 16 = n1 mod 16"
    using n(1) div_mult_self3 [of 16 "n0 * 4" n1] mod_mult_self3 [of "n0 * 4" 16 n1] by (simp_all add: mult.commute)
  show "b64Loop 0 0 (b64Char n0 # b64Char n1 # cs) = byteOf (n0 * 4 + n1 div 16) # b64Loop (n1 mod 16) 4 cs"
    unfolding loop_char(1) [OF b64Index_char [OF n(1)]] loop_char(2) [OF b64Index_char [OF n(2)]] mult_0 add_0 e ..
next
  assume n: "n1 < 64" "n2 < 64"
  have "n2 div 4 < 16" "n1 mod 16 < 16" using n by (simp_all add: less_mult_imp_div_less)
  then have "n1 mod 16 * 16 + n2 div 4 < 256" by linarith
  then have e: "(n1 mod 16 * 64 + n2) div 4 mod 256 = n1 mod 16 * 16 + n2 div 4" "(n1 mod 16 * 64 + n2) mod 4 = n2 mod 4"
    using div_mult_self3 [of 4 "n1 mod 16 * 16" n2] mod_mult_self3 [of "n1 mod 16 * 16" 4 n2]
    by (simp_all add: mult.commute)
  show "b64Loop (n1 mod 16) 4 (b64Char n2 # cs) = byteOf (n1 mod 16 * 16 + n2 div 4) # b64Loop (n2 mod 4) 2 cs"
    unfolding loop_char(3) [OF b64Index_char [OF n(2)]] e ..
next
  assume n: "n2 < 64" "n3 < 64"
  have "n2 mod 4 < 4" by simp
  then have e: "(n2 mod 4 * 64 + n3) mod 256 = n2 mod 4 * 64 + n3" using n by (intro mod_less) linarith
  show "b64Loop (n2 mod 4) 2 (b64Char n3 # cs) = byteOf (n2 mod 4 * 64 + n3) # b64Loop 0 0 cs"
    unfolding loop_char(4) [OF b64Index_char [OF n(2)]] e ..
qed

lemma decodeLoop_b64:
  "list_all (\<lambda>n. n < 64) ns \<Longrightarrow> length ns mod 4 \<noteq> 1 \<Longrightarrow> decodeLoop code (map alpha ns) = Inr (b64Loop 0 0 (map b64Char ns))"
proof (induction ns rule: list_induct_four)
  case (two x y)
  then show ?case by (simp add: loop_step del: b64Loop.simps) simp
next
  case (three x y z)
  then show ?case by (simp add: loop_step del: b64Loop.simps) simp
next
  case (four x y z w t)
  then show ?case by (simp add: loop_step del: b64Loop.simps)
qed simp_all

lemma std_chars:
  assumes "list_all (\<lambda>n. n < 64) ns"
  shows "list_all (\<lambda>c. b64Index c \<noteq> None) (map b64Char ns)" "equalsSign \<notin> set (map b64Char ns)"
    "filter (\<lambda>c. unat c \<notin> {0x09, 0x0a, 0x0c, 0x0d, 0x20}) (map b64Char ns @ replicate k equalsSign) = map b64Char ns @ replicate k equalsSign"
proof -
  have i: "n < 64 \<Longrightarrow> b64Index (b64Char n) \<noteq> None \<and> b64Char n \<noteq> equalsSign" for n by (rule b64Char_ok)
  then show "list_all (\<lambda>c. b64Index c \<noteq> None) (map b64Char ns)" "equalsSign \<notin> set (map b64Char ns)"
    using assms by (auto simp: list_all_iff dest: sym)
  have "b64Index c \<noteq> None \<or> c = equalsSign \<Longrightarrow> unat c \<notin> {0x09, 0x0a, 0x0c, 0x0d, 0x20}" for c
    by (auto simp: b64Index_def equalsSign_def Let_def)
  then show "filter (\<lambda>c. unat c \<notin> {0x09, 0x0a, 0x0c, 0x0d, 0x20}) (map b64Char ns @ replicate k equalsSign) =
      map b64Char ns @ replicate k equalsSign"
    using assms i by (intro filter_True) (auto simp: list_all_iff)
qed

lemma atob_padded:
  assumes "list_all (\<lambda>n. n < 64) ns"
  shows "atob (padEnd ((length ns + 3) div 4 * 4) equalsSign (map b64Char ns)) =
    (if length ns mod 4 = 1 then None else Some (b64Loop 0 0 (map b64Char ns)))"
proof -
  let ?t = "map b64Char ns" and ?p = "(length ns + 3) div 4 * 4 - length ns"
  note ok = std_chars [OF assms]
  have pad: "padEnd ((length ns + 3) div 4 * 4) equalsSign ?t = ?t @ replicate ?p equalsSign" by (simp add: padEnd_def)
  have last: "?t \<noteq> [] \<Longrightarrow> last ?t \<noteq> equalsSign" using ok(2) by (metis last_in_set)
  have tail: "drop (length ?t - 2) ?t \<noteq> [equalsSign, equalsSign]" using ok(2) by (metis in_set_dropD list.set_intros(1))
  have alpha: "b64Index equalsSign = None" by (simp add: b64Index_def equalsSign_def)
  have "m mod 4 = 0 \<and> (m + 3) div 4 * 4 - m = 0 \<or> m mod 4 = 1 \<and> (m + 3) div 4 * 4 - m = 3 \<or>
      m mod 4 = 2 \<and> (m + 3) div 4 * 4 - m = 2 \<or> m mod 4 = 3 \<and> (m + 3) div 4 * 4 - m = 1" for m :: nat
    by presburger
  from this [of "length ns"] consider "length ns mod 4 = 0" "?p = 0" | "length ns mod 4 = 1" "?p = 3" | "length ns mod 4 = 2" "?p = 2" | "length ns mod 4 = 3" "?p = 1"
    by (elim disjE conjE) metis+
  then show ?thesis
  proof cases
    case 1
    then show ?thesis unfolding pad atob_def Let_def ok(3) using ok(1) last tail by auto
  next
    case 2
    have r: "replicate 3 equalsSign = [equalsSign, equalsSign, equalsSign]" by (simp add: numeral_3_eq_3)
    have "length (?t @ replicate 3 equalsSign) mod 4 = 0" using 2 by simp presburger
    then show ?thesis unfolding pad atob_def Let_def ok(3) 2(2) using 2(1) alpha by (simp add: r)
  next
    case 3
    have r: "replicate 2 equalsSign = [equalsSign, equalsSign]" by (simp add: numeral_2_eq_2)
    have "length (?t @ replicate 2 equalsSign) mod 4 = 0" using 3 by simp presburger
    then show ?thesis unfolding pad atob_def Let_def ok(3) 3(2) using 3(1) ok(1) by (simp add: r)
  next
    case 4
    have l: "length (?t @ [equalsSign]) mod 4 = 0" using 4 by simp presburger
    have "?t \<noteq> []" using 4(1) by auto
    then have "drop (length (?t @ [equalsSign]) - 2) (?t @ [equalsSign]) = [last ?t, equalsSign]"
      by (cases ns rule: rev_cases) simp_all
    then show ?thesis unfolding pad atob_def Let_def ok(3) 4(2) using 4(1) ok(1) last l \<open>?t \<noteq> []\<close> by simp
  qed
qed

text \<open>
  The SDK and the receipt package each have a base64url codec, one over \<open>btoa\<close> and \<open>atob\<close> and one over
  shifts. They are the same codec: they write the same text for all bytes, and on every text either both
  refuse, or both read the same bytes.
\<close>

theorem sdk_codec_agrees:
  "sdkToBase64Url bs = toBase64Url bs \<and>
    sdkFromBase64Url value = (case fromBase64Url value code of Inl _ \<Rightarrow> None | Inr out \<Rightarrow> Some out)"
proof
  show "sdkToBase64Url bs = toBase64Url bs" by (rule sdk_encode)
  show "sdkFromBase64Url value = (case fromBase64Url value code of Inl _ \<Rightarrow> None | Inr out \<Rightarrow> Some out)"
  proof (cases "list_all urlChar value")
    case True
    then obtain ns where ns: "value = map alpha ns" "list_all (\<lambda>n. n < 64) ns" using url_digits by blast
    have "map toStdChar value = map b64Char ns" using ns by (simp add: toStdChar_alpha list_all_iff)
    then have "sdkFromBase64Url value = (if length ns mod 4 = 1 then None else Some (b64Loop 0 0 (map b64Char ns)))"
      using True atob_padded [OF ns(2)] by (simp add: sdkFromBase64Url_def replace_chars)
    then show ?thesis using True decodeLoop_b64 [OF ns(2)] by (simp add: fromBase64Url_def ns(1))
  qed (simp add: sdkFromBase64Url_def fromBase64Url_def)
qed

end
