(* ===== verification/Access.thy ===== *)
theory Access
  imports Routes
begin

text \<open>
  gateway/src/access.ts, the credential store: how a request is admitted or refused, and how the file is
  reloaded. A store is a record, a method takes it and returns it updated beside its answer; a thrown
  AccessError is \<open>Inl\<close>. SHA-256, the Ed25519 verifier, the dummy key and Node's base64url decoder are the
  fields of \<open>access_env\<close>, and each reading of the clock \<open>admit\<close> takes is a field of \<open>readings\<close>.
\<close>

subsection \<open>Requests\<close>

datatype header = OneHeader jsstr | ManyHeaders "jsstr list"

record admission_input =
  aiMethod :: jsstr
  aiUrl :: jsstr
  aiHeaders :: "(jsstr \<times> header) list"
  aiBody :: "bytes option"
  aiNowSeconds :: "int option"
  aiPeerAddress :: "jsstr option"

datatype auth_kind = PopAuth | BearerAuth

record admission =
  adCredentialId :: "jsstr option"
  adScope :: route_scope
  adAuth :: "auth_kind option"
  adNonce :: "bytes option"
  adReceiptId :: "jsstr option"

record access_env =
  evSha256 :: "bytes \<Rightarrow> bytes"
  evVerifier :: "bytes \<Rightarrow> bytes \<Rightarrow> bytes \<Rightarrow> bool"
  evDummyKey :: bytes
  evBufferFrom :: "jsstr \<Rightarrow> bytes"

record readings =
  rdPeer :: int
  rdStamp :: int
  rdReplay :: int
  rdCharge :: int

definition BEARER_PREFIX :: jsstr where "BEARER_PREFIX = js ''Bearer ''"

definition nonceKey :: "jsstr \<Rightarrow> bytes \<Rightarrow> jsstr" where
  "nonceKey cred nonce = cred @ js '':'' @ toBase64Url nonce"

definition firstHeader :: "(jsstr \<times> header) list \<Rightarrow> jsstr \<Rightarrow> jsstr option" where
  "firstHeader headers name =
    (case map_of headers name of
       None \<Rightarrow> None
     | Some (OneHeader v) \<Rightarrow> Some v
     | Some (ManyHeaders []) \<Rightarrow> None
     | Some (ManyHeaders (v # _)) \<Rightarrow> Some v)"

definition bearerSecret :: "jsstr \<Rightarrow> jsstr option" where
  "bearerSecret header =
    (if \<not> startsWith BEARER_PREFIX header then None
     else let secret = jsTrim (drop (length BEARER_PREFIX) header) in if secret = [] then None else Some secret)"

definition bodyDigest :: "(bytes \<Rightarrow> bytes) \<Rightarrow> bytes option \<Rightarrow> jsstr" where
  "bodyDigest digest body =
    (case body of None \<Rightarrow> EMPTY_BODY_SHA256_HEX | Some bs \<Rightarrow> if bs = [] then EMPTY_BODY_SHA256_HEX else sha256Hex digest bs)"

definition receiptIdFrom :: "jsstr \<Rightarrow> jsstr option" where
  "receiptIdFrom url =
    (let path = pathOf url; rest = drop (length (js ''/v1/receipts/'')) path in
     if startsWith (js ''/v1/receipts/'') path \<and> idText rest then Some rest else None)"

definition parseAuthorization :: "jsstr \<Rightarrow> access_error + pop_authorization" where
  "parseAuthorization header =
    (case parsePopAuthorization header of
       Inr p \<Rightarrow> Inr p
     | Inl e \<Rightarrow> if e = AUTH_SCHEME_MISMATCH then refuse AUTH_SCHEME else refuse AUTH_MALFORMED)"

definition presentedNonce :: "(jsstr \<times> header) list \<Rightarrow> access_error + bytes" where
  "presentedNonce headers =
    (case firstHeader headers (js ''x-ashaveri-nonce'') of
       None \<Rightarrow> refuse AUTH_NONCE_MISSING
     | Some h \<Rightarrow>
         (case fromBase64Url h BAD_POP_NONCE of
            Inl _ \<Rightarrow> refuse AUTH_NONCE_MISSING
          | Inr nonce \<Rightarrow> if length nonce \<noteq> POP_NONCE_BYTES then refuse AUTH_NONCE_MISSING else Inr nonce))"

subsection \<open>The store\<close>

record credential_store =
  csRecords :: "credential_record list"
  csById :: "(jsstr \<times> ingested) list"
  csReplay :: "jsstr replay_set"
  csBuckets :: "jsstr token_bucket"
  csPeerBuckets :: "jsstr token_bucket"
  csPath :: "jsstr option"
  csAllowBearer :: bool
  csTolerance :: int
  csPeerRate :: credential_rate
  csWatchedMtime :: rat
  csReloading :: bool
  csVerifications :: nat

text \<open>A Map built from entries: a later entry of a key replaces the value and keeps the place.\<close>

definition newMap :: "('k \<times> 'v) list \<Rightarrow> ('k \<times> 'v) list" where
  "newMap entries = fold (\<lambda>(k, v) m. upsert k v m) entries []"

definition install :: "credential_file \<Rightarrow> credential_store \<Rightarrow> access_error + credential_store" where
  "install file s =
    bindE (mapE ingestCredential (cfCredentials file)) (\<lambda>entries.
      Inr (s\<lparr>csRecords := map igRecord entries, csById := newMap (map (\<lambda>e. (cdId (igRecord e), e)) entries)\<rparr>))"

record store_options =
  soPath :: "jsstr option"
  soFile :: "credential_file option"
  soAllowBearer :: "bool option"
  soToleranceSeconds :: "int option"
  soPeerRate :: "credential_rate option"

definition newCredentialStore :: "store_options \<Rightarrow> access_error + credential_store" where
  "newCredentialStore options =
    bindE (failIf (soPath options \<noteq> None \<and> soFile options \<noteq> None) (newAccessError BAD_CREDENTIAL_FILE None None None)) (\<lambda>_.
    bindE (failIf (soPath options = None \<and> soFile options = None) (newAccessError BAD_CREDENTIAL_FILE None None None)) (\<lambda>_.
      install (case soFile options of None \<Rightarrow> \<lparr>cfCredentials = []\<rparr> | Some file \<Rightarrow> file)
        \<lparr>csRecords = [], csById = [], csReplay = newReplaySet REPLAY_WINDOW_SECONDS REPLAY_MAX_ENTRIES,
         csBuckets = newTokenBucket None, csPeerBuckets = newTokenBucket (Some MAX_TRACKED_PEERS),
         csPath = soPath options,
         csAllowBearer = (case soAllowBearer options of None \<Rightarrow> False | Some b \<Rightarrow> b),
         csTolerance = (case soToleranceSeconds options of None \<Rightarrow> int POP_TIMESTAMP_TOLERANCE_SECONDS | Some t \<Rightarrow> t),
         csPeerRate = (case soPeerRate options of None \<Rightarrow> DEFAULT_PEER_RATE | Some r \<Rightarrow> r),
         csWatchedMtime = 0, csReloading = False, csVerifications = 0\<rparr>))"

definition credentials :: "credential_store \<Rightarrow> credential_record list" where
  "credentials s = csRecords s"

subsection \<open>Reloading\<close>

text \<open>
  \<open>reloadIfNeeded\<close> gives up control three times: at \<open>stat\<close>, at the read of the file, and when another
  reload is awaited. The calls below are what it runs in between: whether \<open>stat\<close> is called, what its answer
  (\<open>None\<close> when it threw) starts, and what the read (\<open>None\<close> when it threw) installs.
\<close>

definition reloadBegins :: "credential_store \<Rightarrow> bool" where
  "reloadBegins s \<longleftrightarrow> csPath s \<noteq> None \<and> \<not> csReloading s"

definition afterStat :: "rat option \<Rightarrow> credential_store \<Rightarrow> rat option \<times> credential_store" where
  "afterStat mtime s =
    (case mtime of
       None \<Rightarrow> (None, s)
     | Some t \<Rightarrow> if t = csWatchedMtime s then (None, s) else (Some t, s\<lparr>csReloading := True\<rparr>))"

definition afterRead :: "rat \<Rightarrow> jsstr option \<Rightarrow> credential_store \<Rightarrow> access_error option \<times> credential_store" where
  "afterRead mtime content s =
    (case bindE (loadCredentialFile content) (\<lambda>file. install file s) of
       Inl e \<Rightarrow> (Some e, s\<lparr>csReloading := False\<rparr>)
     | Inr s' \<Rightarrow> (None, s'\<lparr>csWatchedMtime := mtime, csReloading := False\<rparr>))"

subsection \<open>Admission\<close>

definition chargePeer :: "int \<Rightarrow> jsstr option \<Rightarrow> credential_store \<Rightarrow> (access_error + unit) \<times> credential_store" where
  "chargePeer nowMs peer s =
    (case peer of
       None \<Rightarrow> (Inr (), s)
     | Some address \<Rightarrow>
         let (taken, pb) = takeToken address (csPeerRate s) nowMs (csPeerBuckets s);
             s' = s\<lparr>csPeerBuckets := pb\<rparr>
         in if \<not> tkAllowed taken
            then (Inl (newAccessError RATE_LIMITED (Some (tkRetryAfterSeconds taken)) None (Some PEER_RATE_LIMITED)), s')
            else (Inr (), s'))"

definition verify :: "access_env \<Rightarrow> pop_fields \<Rightarrow> bytes \<Rightarrow> bytes \<Rightarrow> credential_store \<Rightarrow> bool \<times> credential_store" where
  "verify env pf signature key s =
    (verifyPopSignature (evVerifier env) pf signature key, s\<lparr>csVerifications := csVerifications s + 1\<rparr>)"

definition collapsedRefusal ::
  "access_env \<Rightarrow> pop_authorization \<Rightarrow> pop_fields \<Rightarrow> access_code \<Rightarrow> credential_store \<Rightarrow> access_error \<times> credential_store" where
  "collapsedRefusal env presented pf logCode s =
    (let (_, s') = verify env pf (paSignature presented) (evDummyKey env) s
     in (newAccessError AUTH_SIGNATURE None (Some (paCredential presented)) (Some (Caller logCode)), s'))"

definition locate ::
  "access_env \<Rightarrow> pop_authorization \<Rightarrow> pop_fields \<Rightarrow> credential_store \<Rightarrow>
    (access_error + credential_record \<times> bytes) \<times> credential_store" where
  "locate env presented pf s =
    (case map_of (csById s) (paCredential presented) of
       None \<Rightarrow> (let (e, s') = collapsedRefusal env presented pf AUTH_UNKNOWN s in (Inl e, s'))
     | Some held \<Rightarrow>
         (case igPopKey held of
            None \<Rightarrow> (let (e, s') = collapsedRefusal env presented pf AUTH_SCHEME s in (Inl e, s'))
          | Some key \<Rightarrow> (Inr (igRecord held, key), s)))"

definition charge ::
  "int \<Rightarrow> jsstr \<Rightarrow> credential_record \<Rightarrow> route_scope \<Rightarrow> admission_input \<Rightarrow> auth_kind \<Rightarrow> bytes option \<Rightarrow>
    credential_store \<Rightarrow> (access_error + admission) \<times> credential_store" where
  "charge nowMs cred record sc inp auth nonce s =
    (let (taken, tb) = takeToken cred (case cdRate record of None \<Rightarrow> DEFAULT_RATE | Some r \<Rightarrow> r) nowMs (csBuckets s);
         s' = s\<lparr>csBuckets := tb\<rparr>
     in if \<not> tkAllowed taken
        then (Inl (newAccessError RATE_LIMITED (Some (tkRetryAfterSeconds taken)) (Some cred) None), s')
        else (Inr \<lparr>adCredentialId = Some cred, adScope = sc, adAuth = Some auth, adNonce = nonce,
          adReceiptId = receiptIdFrom (aiUrl inp)\<rparr>, s'))"

text \<open>\<open>scope === undefined || !scopeSatisfied(record.scopes, scope)\<close>, negated.\<close>

definition granted :: "route_scope option \<Rightarrow> credential_record \<Rightarrow> route_scope option" where
  "granted sc record = (case sc of None \<Rightarrow> None | Some r \<Rightarrow> if scopeSatisfied (cdScopes record) r then Some r else None)"

definition chargeScope ::
  "int \<Rightarrow> jsstr \<Rightarrow> credential_record \<Rightarrow> route_scope option \<Rightarrow> admission_input \<Rightarrow> auth_kind \<Rightarrow> bytes option \<Rightarrow>
    credential_store \<Rightarrow> (access_error + admission) \<times> credential_store" where
  "chargeScope nowMs cred record sc inp auth nonce s =
    (case granted sc record of
       None \<Rightarrow> (Inl (newAccessError SCOPE_DENIED None (Some (cdId record)) None), s)
     | Some r \<Rightarrow> charge nowMs cred record r inp auth nonce s)"

text \<open>The first record in the order of the map whose digest is the presented one.\<close>

fun bearerMatch :: "bytes \<Rightarrow> (jsstr \<times> ingested) list \<Rightarrow> credential_record option" where
  "bearerMatch wanted [] = None"
| "bearerMatch wanted ((_, entry) # rest) =
    (let record = igRecord entry in
     if cdRevokedAt record \<noteq> None then bearerMatch wanted rest
     else case bearerSecretHashOf record of
       None \<Rightarrow> bearerMatch wanted rest
     | Some stored \<Rightarrow> if constantTimeEquals wanted stored then Some record else bearerMatch wanted rest)"

definition admitBearer ::
  "access_env \<Rightarrow> int \<Rightarrow> jsstr \<Rightarrow> route_scope option \<Rightarrow> admission_input \<Rightarrow> credential_store \<Rightarrow>
    (access_error + admission) \<times> credential_store" where
  "admitBearer env nowMs secret sc inp s =
    (case bearerMatch (hashSecret (evSha256 env) (evBufferFrom env secret)) (csById s) of
       None \<Rightarrow> (refuse AUTH_UNKNOWN, s)
     | Some record \<Rightarrow> chargeScope nowMs (cdId record) record sc inp BearerAuth None s)"

definition requestFields :: "access_env \<Rightarrow> pop_authorization \<Rightarrow> bytes \<Rightarrow> admission_input \<Rightarrow> pop_fields" where
  "requestFields env presented nonce inp =
    \<lparr>pfTs = paTs presented, pfNonce = nonce, pfMethod = toUpper (aiMethod inp), pfTarget = aiUrl inp,
     pfBodyDigestHex = bodyDigest (evSha256 env) (aiBody inp)\<rparr>"

text \<open>\<open>input.nowSeconds ?? Math.floor(this.nowMillis() / 1000)\<close>.\<close>

definition clockSeconds :: "int option \<Rightarrow> int \<Rightarrow> int" where
  "clockSeconds given ms = (case given of None \<Rightarrow> \<lfloor>rnd (of_int ms / 1000)\<rfloor> | Some t \<Rightarrow> t)"

text \<open>From the signature on: who the caller is, what it may do, what it has left.\<close>

definition admitPop ::
  "access_env \<Rightarrow> readings \<Rightarrow> pop_authorization \<Rightarrow> bytes \<Rightarrow> route_scope option \<Rightarrow> admission_input \<Rightarrow> credential_store \<Rightarrow>
    (access_error + admission) \<times> credential_store" where
  "admitPop env rd presented nonce sc inp s =
    (let cred = paCredential presented; pf = requestFields env presented nonce inp in
     case locate env presented pf s of
       (Inl e, s1) \<Rightarrow> (Inl e, s1)
     | (Inr (record, key), s1) \<Rightarrow>
         let (ok, s2) = verify env pf (paSignature presented) key s1 in
         if \<not> ok then (Inl (newAccessError AUTH_SIGNATURE None (Some cred) None), s2)
         else if cdRevokedAt record \<noteq> None then (Inl (newAccessError AUTH_REVOKED None (Some cred) None), s2)
         else let (seen, rs) = see (nonceKey cred nonce) (rdReplay rd) (csReplay s2); s3 = s2\<lparr>csReplay := rs\<rparr> in
           if seen then (Inl (newAccessError NONCE_SEEN None (Some cred) None), s3)
           else chargeScope (rdCharge rd) cred record sc inp PopAuth (Some nonce) s3)"

definition presentPop ::
  "access_env \<Rightarrow> readings \<Rightarrow> jsstr \<Rightarrow> route_scope option \<Rightarrow> admission_input \<Rightarrow> credential_store \<Rightarrow>
    (access_error + admission) \<times> credential_store" where
  "presentPop env rd trimmed sc inp s =
    (case parseAuthorization trimmed of
       Inl e \<Rightarrow> (Inl e, s)
     | Inr presented \<Rightarrow>
         if \<bar>clockSeconds (aiNowSeconds inp) (rdStamp rd) - int (paTs presented)\<bar> > csTolerance s
         then (Inl (newAccessError AUTH_STALE None (Some (paCredential presented)) None), s)
         else case presentedNonce (aiHeaders inp) of
           Inl e \<Rightarrow> (Inl e, s)
         | Inr nonce \<Rightarrow> admitPop env rd presented nonce sc inp s)"

definition admitNamed ::
  "access_env \<Rightarrow> readings \<Rightarrow> route_scope option \<Rightarrow> admission_input \<Rightarrow> credential_store \<Rightarrow>
    (access_error + admission) \<times> credential_store" where
  "admitNamed env rd sc inp s =
    (case firstHeader (aiHeaders inp) (js ''authorization'') of
       None \<Rightarrow> (refuse AUTH_MALFORMED, s)
     | Some header \<Rightarrow>
         let trimmed = jsTrim header in
         if trimmed = [] then (refuse AUTH_MALFORMED, s)
         else case bearerSecret trimmed of
           Some secret \<Rightarrow>
             if \<not> csAllowBearer s then (refuse AUTH_SCHEME, s)
             else admitBearer env (rdCharge rd) secret sc inp s
         | None \<Rightarrow> presentPop env rd trimmed sc inp s)"

definition admit ::
  "access_env \<Rightarrow> readings \<Rightarrow> admission_input \<Rightarrow> credential_store \<Rightarrow> (access_error + admission) \<times> credential_store" where
  "admit env rd inp s =
    (case chargePeer (rdPeer rd) (aiPeerAddress inp) s of
       (Inl e, s1) \<Rightarrow> (Inl e, s1)
     | (Inr _, s1) \<Rightarrow>
         let sc = routeScope (aiMethod inp) (aiUrl inp) in
         if sc = Some RPublic
         then (Inr \<lparr>adCredentialId = None, adScope = RPublic, adAuth = None, adNonce = None, adReceiptId = None\<rparr>, s1)
         else admitNamed env rd sc inp s1)"

end
