(* ===== verification/AccessSpec.thy ===== *)
theory AccessSpec
  imports Access
begin

text \<open>
  What admission promises: the store invariant, what an admission establishes, what a refusal discloses,
  and that no proof of possession is admitted twice.
\<close>

subsection \<open>Inversion of the steps\<close>

lemma locate_Inr:
  "locate env p pf s = (Inr (record, key), s') \<longleftrightarrow>
    s' = s \<and> (\<exists>held. map_of (csById s) (paCredential p) = Some held \<and> igRecord held = record \<and> igPopKey held = Some key)"
  by (auto simp: locate_def collapsedRefusal_def split: option.splits prod.splits)

lemma locate_Inl:
  "locate env p pf s = (Inl e, s') \<Longrightarrow> s' = s\<lparr>csVerifications := csVerifications s + 1\<rparr> \<and>
    (\<exists>code. e = newAccessError AUTH_SIGNATURE None (Some (paCredential p)) (Some (Caller code)))"
  by (auto simp: locate_def collapsedRefusal_def verify_def split: option.splits prod.splits)

lemma charge_Inr:
  "charge now cred record sc inp auth nonce s = (Inr a, s') \<Longrightarrow>
    a = \<lparr>adCredentialId = Some cred, adScope = sc, adAuth = Some auth, adNonce = nonce, adReceiptId = receiptIdFrom (aiUrl inp)\<rparr> \<and>
    (\<exists>taken tb. takeToken cred (case cdRate record of None \<Rightarrow> DEFAULT_RATE | Some r \<Rightarrow> r) now (csBuckets s) = (taken, tb) \<and>
      tkAllowed taken \<and> s' = s\<lparr>csBuckets := tb\<rparr>)"
  by (auto simp: charge_def Let_def split: prod.splits if_splits)

lemma granted_Some: "granted sc record = Some r \<longleftrightarrow> sc = Some r \<and> scopeSatisfied (cdScopes record) r"
  by (auto simp: granted_def split: option.splits)

lemma chargeScope_Inr:
  "chargeScope now cred record sc inp auth nonce s = (Inr a, s') \<Longrightarrow>
    \<exists>r. sc = Some r \<and> scopeSatisfied (cdScopes record) r \<and> charge now cred record r inp auth nonce s = (Inr a, s')"
  by (auto simp: chargeScope_def granted_Some split: option.splits)

text \<open>What a step from the scope on can change: the tokens of the credential.\<close>

lemma chargeScope_frame:
  "chargeScope now cred record sc inp auth nonce s = (r, s') \<Longrightarrow> \<exists>tb. s' = s\<lparr>csBuckets := tb\<rparr>"
  by (auto simp: chargeScope_def charge_def Let_def intro: exI [of _ "csBuckets s"] split: option.splits prod.splits if_splits)

text \<open>The ways a proof of possession ends, with the presentations and verifications each one made.\<close>

lemma admitPop_cases:
  assumes "admitPop env rd p nonce sc inp s = (r, s')"
  obtains (unknown) code where "s' = s\<lparr>csVerifications := csVerifications s + 1\<rparr>"
      "r = Inl (newAccessError AUTH_SIGNATURE None (Some (paCredential p)) (Some (Caller code)))"
      "\<nexists>held key. map_of (csById s) (paCredential p) = Some held \<and> igPopKey held = Some key"
  | (bad) held key where "map_of (csById s) (paCredential p) = Some held" "igPopKey held = Some key"
      "\<not> verifyPopSignature (evVerifier env) (requestFields env p nonce inp) (paSignature p) key"
      "s' = s\<lparr>csVerifications := csVerifications s + 1\<rparr>"
      "r = Inl (newAccessError AUTH_SIGNATURE None (Some (paCredential p)) None)"
  | (revoked) held key where "map_of (csById s) (paCredential p) = Some held" "igPopKey held = Some key"
      "verifyPopSignature (evVerifier env) (requestFields env p nonce inp) (paSignature p) key"
      "cdRevokedAt (igRecord held) \<noteq> None" "s' = s\<lparr>csVerifications := csVerifications s + 1\<rparr>"
      "r = Inl (newAccessError AUTH_REVOKED None (Some (paCredential p)) None)"
  | (seen) held key rs where "map_of (csById s) (paCredential p) = Some held" "igPopKey held = Some key"
      "verifyPopSignature (evVerifier env) (requestFields env p nonce inp) (paSignature p) key"
      "cdRevokedAt (igRecord held) = None"
      "see (nonceKey (paCredential p) nonce) (rdReplay rd) (csReplay s) = (True, rs)"
      "s' = s\<lparr>csVerifications := csVerifications s + 1, csReplay := rs\<rparr>"
      "r = Inl (newAccessError NONCE_SEEN None (Some (paCredential p)) None)"
  | (fresh) held key rs where "map_of (csById s) (paCredential p) = Some held" "igPopKey held = Some key"
      "verifyPopSignature (evVerifier env) (requestFields env p nonce inp) (paSignature p) key"
      "cdRevokedAt (igRecord held) = None"
      "see (nonceKey (paCredential p) nonce) (rdReplay rd) (csReplay s) = (False, rs)"
      "chargeScope (rdCharge rd) (paCredential p) (igRecord held) sc inp PopAuth (Some nonce)
        (s\<lparr>csVerifications := csVerifications s + 1, csReplay := rs\<rparr>) = (r, s')"
proof (cases "locate env p (requestFields env p nonce inp) s")
  case (Pair l s1)
  show thesis
  proof (cases l)
    case (Inl e)
    have "\<nexists>held key. map_of (csById s) (paCredential p) = Some held \<and> igPopKey held = Some key"
    proof
      assume "\<exists>held key. map_of (csById s) (paCredential p) = Some held \<and> igPopKey held = Some key"
      then have "\<exists>x. locate env p (requestFields env p nonce inp) s = (Inr x, s)" by (auto simp: locate_def)
      then show False using Pair Inl by auto
    qed
    then show ?thesis
      using unknown locate_Inl [OF Pair [unfolded Inl]] assms Pair Inl by (auto simp: admitPop_def Let_def)
  next
    case (Inr rk)
    obtain rc key where rk: "rk = (rc, key)" by (cases rk)
    obtain held where h: "s1 = s" "map_of (csById s) (paCredential p) = Some held" "igRecord held = rc" "igPopKey held = Some key"
      using Pair Inr rk locate_Inr by metis
    note a = assms [unfolded admitPop_def Let_def Pair Inr rk sum.case prod.case verify_def]
    show ?thesis
      using a h bad revoked seen fresh by (auto split: if_splits prod.splits)
  qed
qed

text \<open>The ways a request ends, with the store the charge on the peer left.\<close>

definition peerCharged :: "readings \<Rightarrow> admission_input \<Rightarrow> credential_store \<Rightarrow> credential_store" where
  "peerCharged rd inp s = snd (chargePeer (rdPeer rd) (aiPeerAddress inp) s)"

definition authorization :: "admission_input \<Rightarrow> jsstr option" where
  "authorization inp = map_option jsTrim (firstHeader (aiHeaders inp) (js ''authorization''))"

lemma chargePeer_frame: "\<exists>pb. snd (chargePeer now peer s) = s\<lparr>csPeerBuckets := pb\<rparr>"
  by (auto simp: chargePeer_def Let_def intro: exI [of _ "csPeerBuckets s"] split: option.splits prod.splits)

lemma peerCharged_frame:
  "csById (peerCharged rd inp s) = csById s" "csReplay (peerCharged rd inp s) = csReplay s"
  "csTolerance (peerCharged rd inp s) = csTolerance s" "csVerifications (peerCharged rd inp s) = csVerifications s"
  "csAllowBearer (peerCharged rd inp s) = csAllowBearer s" "csRecords (peerCharged rd inp s) = csRecords s"
  "csBuckets (peerCharged rd inp s) = csBuckets s" "csPeerRate (peerCharged rd inp s) = csPeerRate s"
  using chargePeer_frame [of "rdPeer rd" "aiPeerAddress inp" s] by (auto simp: peerCharged_def)

lemma admit_cases:
  assumes "admit env rd inp s = (r, s')"
  obtains (peer) e where "chargePeer (rdPeer rd) (aiPeerAddress inp) s = (Inl e, s')" "r = Inl e"
  | (unasked) "routeScope (aiMethod inp) (aiUrl inp) = Some RPublic" "s' = peerCharged rd inp s"
      "r = Inr \<lparr>adCredentialId = None, adScope = RPublic, adAuth = None, adNonce = None, adReceiptId = None\<rparr>"
  | (header) e where "r = Inl e" "s' = peerCharged rd inp s"
  | (bearer) secret where "routeScope (aiMethod inp) (aiUrl inp) \<noteq> Some RPublic"
      "map_option bearerSecret (authorization inp) = Some (Some secret)" "csAllowBearer s"
      "admitBearer env (rdCharge rd) secret (routeScope (aiMethod inp) (aiUrl inp)) inp (peerCharged rd inp s) = (r, s')"
  | (pop) h p nonce where "routeScope (aiMethod inp) (aiUrl inp) \<noteq> Some RPublic" "authorization inp = Some h"
      "bearerSecret h = None" "parsePopAuthorization h = Inr p"
      "\<bar>clockSeconds (aiNowSeconds inp) (rdStamp rd) - int (paTs p)\<bar> \<le> csTolerance s"
      "presentedNonce (aiHeaders inp) = Inr nonce"
      "admitPop env rd p nonce (routeScope (aiMethod inp) (aiUrl inp)) inp (peerCharged rd inp s) = (r, s')"
proof (cases "chargePeer (rdPeer rd) (aiPeerAddress inp) s")
  case (Pair c s1)
  then have s1: "s1 = peerCharged rd inp s" by (simp add: peerCharged_def)
  show thesis
  proof (cases c)
    case (Inl e)
    then show ?thesis using assms Pair peer by (auto simp: admit_def)
  next
    case (Inr u)
    show ?thesis
    proof (cases "routeScope (aiMethod inp) (aiUrl inp) = Some RPublic")
      case True
      then show ?thesis using assms Pair Inr s1 unasked by (auto simp: admit_def Let_def)
    next
      case False
      then have a: "admitNamed env rd (routeScope (aiMethod inp) (aiUrl inp)) inp s1 = (r, s')"
        using assms Pair Inr by (auto simp: admit_def Let_def)
      show ?thesis
      proof (cases "authorization inp")
        case None
        then show ?thesis using a s1 header by (auto simp: authorization_def admitNamed_def refuse_def)
      next
        case (Some h)
        then obtain raw where raw: "firstHeader (aiHeaders inp) (js ''authorization'') = Some raw" "h = jsTrim raw"
          by (auto simp: authorization_def)
        note b = a [unfolded admitNamed_def raw(1) option.case Let_def, folded raw(2)]
        show ?thesis
        proof (cases "h = [] \<or> bearerSecret h \<noteq> None")
          case True
          then show ?thesis
            using b bearer [OF False] header s1 Some by (auto simp: refuse_def peerCharged_frame split: option.splits if_splits)
        next
          case h: False
          then have c: "presentPop env rd h (routeScope (aiMethod inp) (aiUrl inp)) inp s1 = (r, s')" using b by simp
          show ?thesis
            using c header s1 pop [OF False Some]  h
            by (auto simp: presentPop_def parseAuthorization_def refuse_def peerCharged_frame not_less
                split: sum.splits if_splits)
        qed
      qed
    qed
  qed
qed

subsection \<open>The invariant\<close>

text \<open>An entry of the map: under its own id, with the key its kind asks for and no other.\<close>

definition entryOk :: "jsstr \<times> ingested \<Rightarrow> bool" where
  "entryOk e \<longleftrightarrow> fst e = cdId (igRecord (snd e)) \<and>
    (case cdKind (igRecord (snd e)) of
       PopKind \<Rightarrow> (\<exists>k. igPopKey (snd e) = Some k \<and> length k = 32 \<and> cdPublicKey (igRecord (snd e)) = Some k) \<and>
         cdSecretHash (igRecord (snd e)) = None
     | BearerKind \<Rightarrow> igPopKey (snd e) = None)"

definition tableOk :: "credential_record list \<Rightarrow> (jsstr \<times> ingested) list \<Rightarrow> bool" where
  "tableOk records entries \<longleftrightarrow> distinct (map fst entries) \<and> list_all entryOk entries \<and>
    fst ` set entries = cdId ` set records"

definition peersOk :: "jsstr token_bucket \<Rightarrow> bool" where
  "peersOk tb \<longleftrightarrow> tbMaxKeys tb = Some MAX_TRACKED_PEERS \<and> distinct (map fst (tbBuckets tb)) \<and>
    length (tbBuckets tb) \<le> MAX_TRACKED_PEERS"

definition storeOk :: "credential_store \<Rightarrow> bool" where
  "storeOk s \<longleftrightarrow> tableOk (csRecords s) (csById s) \<and>
    replayInv REPLAY_WINDOW_SECONDS REPLAY_MAX_ENTRIES (csReplay s) \<and> peersOk (csPeerBuckets s)"

lemma ingest_entryOk: "ingestCredential r = Inr ig \<Longrightarrow> entryOk (cdId (igRecord ig), ig) \<and> cdId (igRecord ig) = cdId r"
  by (auto simp: ingestCredential_def entryOk_def refuse_def ED25519_PUBLIC_KEY_BYTES_def
      split: credential_kind.splits option.splits if_splits)

lemma set_upsert: "fst ` set (upsert k v m) = insert k (fst ` set m)" "set (upsert k v m) \<subseteq> insert (k, v) (set m)"
proof -
  show "fst ` set (upsert k v m) = insert k (fst ` set m)" by (simp flip: dom_map_of_conv_image_fst)
  show "set (upsert k v m) \<subseteq> insert (k, v) (set m)" by (induction m) (auto split: if_splits)
qed

lemma newMap_fold:
  "distinct (map fst m) \<Longrightarrow> distinct (map fst (fold (\<lambda>(k, v) m. upsert k v m) entries m))"
  "fst ` set (fold (\<lambda>(k, v) m. upsert k v m) entries m) = fst ` set entries \<union> fst ` set m"
  "x \<in> set (fold (\<lambda>(k, v) m. upsert k v m) entries m) \<Longrightarrow> x \<in> set entries \<or> x \<in> set m"
proof (induction entries arbitrary: m)
  case (Cons e es)
  {
    case 1
    then show ?case using Cons.IH(1) by (simp add: distinct_upsert split: prod.split)
  next
    case 2
    show ?case by (simp add: Cons.IH(2) set_upsert(1) split: prod.split)
  next
    case 3
    then show ?case
      using Cons.IH(3) [of "upsert (fst e) (snd e) m"] subsetD [OF set_upsert(2) [of "fst e" "snd e" m], of x]
      by (auto simp: split_beta)
  }
qed simp_all

lemma newMap_keys:
  "distinct (map fst (newMap entries))" "fst ` set (newMap entries) = fst ` set entries" "set (newMap entries) \<subseteq> set entries"
  unfolding newMap_def
  by (simp add: newMap_fold(1)) (simp add: newMap_fold(2), auto dest: newMap_fold(3))

lemma map_of_newMap: "map_of (newMap entries) k = map_of (rev (entries :: ('k \<times> 'v) list)) k"
proof -
  have "map_of (fold (\<lambda>(k, v) m. upsert k v m) entries m) k =
      (case map_of (rev entries) k of None \<Rightarrow> map_of m k | Some v \<Rightarrow> Some v)" for m :: "('k \<times> 'v) list"
    by (induction entries arbitrary: m) (auto simp: map_add_def split: option.splits)
  from this [of "[]"] show ?thesis by (simp add: newMap_def split: option.split)
qed

lemma mapE_image: "mapE f xs = Inr ys \<Longrightarrow> y \<in> set ys \<Longrightarrow> \<exists>x \<in> set xs. f x = Inr y"
  by (induction xs arbitrary: ys) (auto simp: bindE_Inr)

lemma install_table:
  assumes "install file s = Inr s'"
  obtains es where "mapE ingestCredential (cfCredentials file) = Inr es"
    "s' = s\<lparr>csRecords := map igRecord es, csById := newMap (map (\<lambda>e. (cdId (igRecord e), e)) es)\<rparr>"
    "tableOk (csRecords s') (csById s')"
proof -
  obtain es where es: "mapE ingestCredential (cfCredentials file) = Inr es"
    and s': "s' = s\<lparr>csRecords := map igRecord es, csById := newMap (map (\<lambda>e. (cdId (igRecord e), e)) es)\<rparr>"
    using assms by (auto simp: install_def bindE_Inr)
  let ?m = "map (\<lambda>e. (cdId (igRecord e), e)) es"
  have e: "\<forall>e \<in> set es. entryOk (cdId (igRecord e), e)"
    using mapE_image [OF es] ingest_entryOk by blast
  have n: "distinct (map fst (newMap ?m))" "fst ` set (newMap ?m) = fst ` set ?m" "set (newMap ?m) \<subseteq> set ?m"
    by (rule newMap_keys)+
  have "list_all entryOk (newMap ?m)"
    unfolding list_all_iff
  proof
    fix x assume "x \<in> set (newMap ?m)"
    then have "x \<in> set ?m" by (rule subsetD [OF n(3)])
    then show "entryOk x" using e by auto
  qed
  moreover have "fst ` set (newMap ?m) = cdId ` set (map igRecord es)" unfolding n(2) by (simp add: image_image)
  ultimately have "tableOk (csRecords s') (csById s')" using n(1) by (simp add: tableOk_def s')
  then show thesis by (rule that [OF es s'])
qed

lemma install_storeOk: "install file s = Inr s' \<Longrightarrow> storeOk s \<Longrightarrow> storeOk s'"
  by (erule install_table) (simp add: storeOk_def)

lemma map_of_in: "map_of m k = Some v \<Longrightarrow> k \<in> fst ` set m"
  by (auto dest!: map_of_SomeD intro: rev_image_eqI)

lemma takeToken_capped:
  assumes "tbMaxKeys tb = Some n" "distinct (map fst (tbBuckets tb))" "length (tbBuckets tb) \<le> n"
    and "takeToken key rate now tb = (t, tb')"
  shows "tbMaxKeys tb' = Some n \<and> distinct (map fst (tbBuckets tb')) \<and> length (tbBuckets tb') \<le> n"
proof (cases "map_of (tbBuckets tb) key")
  case None
  then show ?thesis
    using assms by (auto simp: takeToken_def trim_def length_dropOldest intro!: distinct_dropOldest distinct_upsert)
next
  case (Some b)
  then show ?thesis
    using assms mapDelete_less [of "tbBuckets tb" key] distinct_mapDelete [of "tbBuckets tb" key] fst_mapDelete [of key "tbBuckets tb"]
    by (auto simp: takeToken_def Let_def split: if_splits)
qed

lemma takeToken_peersOk: "takeToken key rate now tb = (t, tb') \<Longrightarrow> peersOk tb \<Longrightarrow> peersOk tb'"
  using takeToken_capped [of tb MAX_TRACKED_PEERS key rate now t tb'] by (simp add: peersOk_def)

lemma peerCharged_ok: "storeOk s \<Longrightarrow> storeOk (peerCharged rd inp s)"
  by (auto simp: storeOk_def peerCharged_def chargePeer_def Let_def split: option.splits prod.splits dest: takeToken_peersOk)

lemma admitPop_ok: "admitPop env rd p nonce sc inp s = (r, s') \<Longrightarrow> storeOk s \<Longrightarrow> storeOk s'"
proof (erule admitPop_cases)
  fix rs
  assume s: "storeOk s"
    and see: "see (nonceKey (paCredential p) nonce) (rdReplay rd) (csReplay s) = (True, rs)"
    and s': "s' = s\<lparr>csVerifications := csVerifications s + 1, csReplay := rs\<rparr>"
  show "storeOk s'" using s see_inv [OF _ see] by (simp add: storeOk_def s')
next
  fix held rs
  assume s: "storeOk s"
    and see: "see (nonceKey (paCredential p) nonce) (rdReplay rd) (csReplay s) = (False, rs)"
    and c: "chargeScope (rdCharge rd) (paCredential p) (igRecord held) sc inp PopAuth (Some nonce)
        (s\<lparr>csVerifications := csVerifications s + 1, csReplay := rs\<rparr>) = (r, s')"
  obtain tb where "s' = s\<lparr>csVerifications := csVerifications s + 1, csReplay := rs\<rparr>\<lparr>csBuckets := tb\<rparr>"
    using chargeScope_frame [OF c] by blast
  then show "storeOk s'" using s see_inv [OF _ see] by (simp add: storeOk_def)
qed (simp_all add: storeOk_def)

lemma admitBearer_frame: "admitBearer env now secret sc inp s = (r, s') \<Longrightarrow> \<exists>tb. s' = s\<lparr>csBuckets := tb\<rparr>"
  by (auto simp: admitBearer_def intro: exI [of _ "csBuckets s"] dest: chargeScope_frame split: option.splits)

lemma admit_ok:
  assumes "admit env rd inp s = (r, s')" "storeOk s"
  shows "storeOk s'"
  using assms(1)
proof (cases rule: admit_cases)
  case (peer e)
  then show ?thesis using peerCharged_ok [OF assms(2), of rd inp] by (simp add: peerCharged_def)
next
  case (bearer secret)
  then obtain tb where "s' = (peerCharged rd inp s)\<lparr>csBuckets := tb\<rparr>" using admitBearer_frame by blast
  then show ?thesis using peerCharged_ok [OF assms(2), of rd inp] by (simp add: storeOk_def)
next
  case (pop h p nonce)
  then show ?thesis using peerCharged_ok [OF assms(2)] admitPop_ok by blast
qed (simp_all add: peerCharged_ok assms(2))

lemma afterRead_cases:
  assumes "afterRead t content s = (e, s')"
  obtains (failed) err where "e = Some err" "s' = s\<lparr>csReloading := False\<rparr>"
  | (loaded) cf s1 where "e = None" "loadCredentialFile content = Inr cf" "install cf s = Inr s1"
      "s' = s1\<lparr>csWatchedMtime := t, csReloading := False\<rparr>"
  using assms by (auto simp: afterRead_def bindE_Inr split: sum.splits)

lemma afterRead_ok: "afterRead t content s = (e, s') \<Longrightarrow> storeOk s \<Longrightarrow> storeOk s'"
  by (erule afterRead_cases) (auto simp: storeOk_def elim!: install_table)

lemma newCredentialStore_ok: "newCredentialStore options = Inr s \<Longrightarrow> storeOk s"
proof -
  assume "newCredentialStore options = Inr s"
  then obtain cf s0 where "install cf s0 = Inr s" "storeOk s0"
    by (auto simp: newCredentialStore_def bindE_Inr failIf_def tableOk_def peersOk_def storeOk_def newReplaySet_inv
        newTokenBucket_def split: if_splits)
  then show ?thesis by (rule install_storeOk)
qed

subsection \<open>Honest requests\<close>

lemma toUpper_idem [simp]: "toUpper (toUpper m) = toUpper m"
proof -
  have "upperCu (upperCu c) = upperCu c" for c
  proof (cases "0x61 \<le> unat c \<and> unat c \<le> 0x7a")
    case True
    then have "unat (c - 0x20) = unat c - 0x20" by (simp add: unat_sub word_le_nat_alt)
    then show ?thesis using True by (auto simp: upperCu_def)
  qed (simp add: upperCu_def)
  then show ?thesis by (simp add: toUpper_def)
qed

text \<open>The fields a client signs for a request.\<close>

definition clientFields :: "access_env \<Rightarrow> nat \<Rightarrow> bytes \<Rightarrow> admission_input \<Rightarrow> pop_fields" where
  "clientFields env ts nonce inp =
    \<lparr>pfTs = ts, pfNonce = nonce, pfMethod = toUpper (aiMethod inp), pfTarget = aiUrl inp,
     pfBodyDigestHex = bodyDigest (evSha256 env) (aiBody inp)\<rparr>"

lemma clientFields_signed: "requestFields env p nonce inp = clientFields env (paTs p) nonce inp"
  by (simp add: requestFields_def clientFields_def)

lemma encoded_header:
  assumes "encodePopAuthorization cred (NInt i) signature = Inr h"
  shows "jsTrim h = h" and "h \<noteq> []" and "bearerSecret h = None"
proof -
  let ?r = "js '' credential='' @ cred @ js '', ts='' @ decimalOf (nat i) @ js '', sig='' @ toBase64Url signature"
  have h: "h = POP_AUTH_PREFIX @ ?r" and l: "length signature = 64"
    using assms by (auto simp: encodePopAuthorization_def bindE_Inr)
  have s: "toBase64Url signature \<noteq> []" using length_toBase64Url [of signature] l by auto
  have "last h = last (toBase64Url signature)" using s by (simp add: h)
  moreover have "last (toBase64Url signature) \<in> set (toBase64Url signature)" using s by simp
  ultimately have "\<not> jsSpace (last h)"
    using plain_chars(2) [OF toBase64Url_chars [of signature]] by (auto simp: list_all_iff)
  moreover have "hd h = jc CHR ''A''" "h \<noteq> []" by (simp_all add: h POP_AUTH_PREFIX_def)
  ultimately show "jsTrim h = h" "h \<noteq> []" by (auto intro!: jsTrim_id simp: jc_def jsSpace_def)
  have "jc CHR ''A'' \<noteq> jc CHR ''B''" by (simp add: jc_def)
  then show "bearerSecret h = None"
    by (simp add: bearerSecret_def startsWith_def BEARER_PREFIX_def h POP_AUTH_PREFIX_def)
qed

text \<open>A request that passes every check is admitted, and its nonce is put down.\<close>

lemma admit_verified:
  assumes h: "firstHeader (aiHeaders inp) (js ''authorization'') = Some h"
    and signed: "signPopAuthorization sign (clientFields env ts nonce inp) cred priv = Inr h"
    and nonce: "firstHeader (aiHeaders inp) (js ''x-ashaveri-nonce'') = Some (toBase64Url nonce)"
    and key: "map_of (csById s) cred = Some held" "igPopKey held = Some key" "length key = 32"
    and verifies: "evVerifier env (sign (textEncode (popSigningString (clientFields env ts nonce inp))) priv)
        (textEncode (popSigningString (clientFields env ts nonce inp))) key"
    and live: "cdRevokedAt (igRecord held) = None"
    and stamp: "\<bar>clockSeconds (aiNowSeconds inp) (rdStamp rd) - int ts\<bar> \<le> csTolerance s"
    and route: "routeScope (aiMethod inp) (aiUrl inp) = Some r" "r \<noteq> RPublic" "scopeSatisfied (cdScopes (igRecord held)) r"
    and fresh: "\<not> fst (see (nonceKey cred nonce) (rdReplay rd) (csReplay s))"
    and tokens: "tkAllowed (fst (takeToken cred (case cdRate (igRecord held) of None \<Rightarrow> DEFAULT_RATE | Some r \<Rightarrow> r) (rdCharge rd) (csBuckets s)))"
    and peer: "\<And>a. aiPeerAddress inp = Some a \<Longrightarrow> tkAllowed (fst (takeToken a (csPeerRate s) (rdPeer rd) (csPeerBuckets s)))"
  shows "\<exists>s'. admit env rd inp s = (Inr \<lparr>adCredentialId = Some cred, adScope = r, adAuth = Some PopAuth, adNonce = Some nonce,
      adReceiptId = receiptIdFrom (aiUrl inp)\<rparr>, s')"
proof -
  let ?f = "clientFields env ts nonce inp"
  let ?sig = "sign (textEncode (popSigningString ?f)) priv"
  have enc: "encodePopAuthorization cred (NInt (int ts)) ?sig = Inr h" and n: "length nonce = POP_NONCE_BYTES"
    using signed by (auto simp: signPopAuthorization_def bindE_Inr clientFields_def)
  have parse: "parseAuthorization h = Inr \<lparr>paCredential = cred, paTs = ts, paSignature = ?sig\<rparr>"
    using header_read_back [OF enc] by (simp add: parseAuthorization_def)
  have sig: "length ?sig = 64" using enc by (auto simp: encodePopAuthorization_def bindE_Inr)
  have nn: "presentedNonce (aiHeaders inp) = Inr nonce" using nonce n by (simp add: presentedNonce_def)
  have pc: "chargePeer (rdPeer rd) (aiPeerAddress inp) s = (Inr (), peerCharged rd inp s)"
    using peer by (auto simp: peerCharged_def chargePeer_def Let_def split: option.split prod.split)
  obtain rs where see: "see (nonceKey cred nonce) (rdReplay rd) (csReplay s) = (False, rs)"
    using fresh by (cases "see (nonceKey cred nonce) (rdReplay rd) (csReplay s)") auto
  obtain taken tb where take: "takeToken cred (case cdRate (igRecord held) of None \<Rightarrow> DEFAULT_RATE | Some r \<Rightarrow> r) (rdCharge rd) (csBuckets s) = (taken, tb)"
    and ok: "tkAllowed taken"
    using tokens by (cases "takeToken cred (case cdRate (igRecord held) of None \<Rightarrow> DEFAULT_RATE | Some r \<Rightarrow> r) (rdCharge rd) (csBuckets s)") auto
  have "granted (Some r) (igRecord held) = Some r" using route(3) by (simp add: granted_def)
  then show ?thesis
    using encoded_header [OF enc] route(1,2) stamp key verifies sig live see take ok
    by (simp add: admit_def pc Let_def admitNamed_def h presentPop_def parse peerCharged_frame nn admitPop_def locate_def
        verify_def clientFields_signed verifyPopSignature_def chargeScope_def charge_def del: js_Cons)
qed

subsection \<open>A small deployment\<close>

text \<open>One credential, one key, a signature that is a constant, and a request for the attestation.\<close>

definition sampleDigest :: "bytes \<Rightarrow> bytes" where
  "sampleDigest bs = hexPairs EMPTY_BODY_SHA256_HEX"

definition sampleEnv :: access_env where
  "sampleEnv = \<lparr>evSha256 = sampleDigest, evVerifier = (\<lambda>signature m key. signature = replicate 64 7),
    evDummyKey = replicate 32 9, evBufferFrom = (\<lambda>_. [])\<rparr>"

definition samplePop :: credential_record where
  "samplePop = \<lparr>cdId = js ''a'', cdKind = PopKind, cdPublicKey = Some (replicate 32 1), cdSecretHash = None,
    cdScopes = [ReadScope], cdLabel = None, cdRate = None, cdCreatedAt = NInt 5, cdRevokedAt = None\<rparr>"

definition sampleOptions :: store_options where
  "sampleOptions = \<lparr>soPath = None, soFile = Some \<lparr>cfCredentials = [samplePop]\<rparr>, soAllowBearer = None,
    soToleranceSeconds = None, soPeerRate = None\<rparr>"

definition sampleStore :: credential_store where
  "sampleStore = \<lparr>csRecords = [samplePop], csById = [(js ''a'', \<lparr>igRecord = samplePop, igPopKey = Some (replicate 32 1)\<rparr>)],
    csReplay = newReplaySet REPLAY_WINDOW_SECONDS REPLAY_MAX_ENTRIES,
    csBuckets = newTokenBucket None, csPeerBuckets = newTokenBucket (Some MAX_TRACKED_PEERS),
    csPath = None, csAllowBearer = False, csTolerance = 120, csPeerRate = DEFAULT_PEER_RATE,
    csWatchedMtime = 0, csReloading = False, csVerifications = 0\<rparr>"

lemma sampleStore_new: "newCredentialStore sampleOptions = Inr sampleStore"
  by (simp add: newCredentialStore_def sampleOptions_def failIf_def install_def samplePop_def ingestCredential_def
      ED25519_PUBLIC_KEY_BYTES_def newMap_def sampleStore_def POP_TIMESTAMP_TOLERANCE_SECONDS_def del: js_Cons)

definition sampleInput :: "jsstr \<Rightarrow> admission_input" where
  "sampleInput h = \<lparr>aiMethod = js ''GET'', aiUrl = js ''/v1/attestation'',
    aiHeaders = [(js ''authorization'', OneHeader h), (js ''x-ashaveri-nonce'', OneHeader (toBase64Url (replicate 16 3)))],
    aiBody = None, aiNowSeconds = None, aiPeerAddress = Some (js ''peer'')\<rparr>"

definition sampleReadings :: readings where
  "sampleReadings = \<lparr>rdPeer = 5000, rdStamp = 5000, rdReplay = 5000, rdCharge = 5000\<rparr>"

definition sampleAdmission :: admission where
  "sampleAdmission = \<lparr>adCredentialId = Some (js ''a''), adScope = RRead, adAuth = Some PopAuth,
    adNonce = Some (replicate 16 3), adReceiptId = None\<rparr>"

lemma sample_seconds: "clockSeconds None 5000 = 5"
proof -
  have "rnd (of_int 5000 / 1000) = 5" using rnd_of_int [of 5] by simp
  then show ?thesis by (simp add: clockSeconds_def)
qed

lemma sample_route: "routeScope (js ''GET'') (js ''/v1/attestation'') = Some RRead"
  unfolding routeScope_is_table
  by (simp add: normalizedMethod_def toUpper_def upperCu_def segments_def pathOf_def tableScope_def jc_def)

lemma sample_receipt: "receiptIdFrom (js ''/v1/attestation'') = None"
  by (simp add: receiptIdFrom_def pathOf_def startsWith_def jc_def)

lemma sampleDigest_empty: "toHex (sampleDigest bs) = EMPTY_BODY_SHA256_HEX"
  unfolding sampleDigest_def
  by (rule toHex_hexPairs) (simp_all add: EMPTY_BODY_SHA256_HEX_def jc_def lowerHex_def)

lemma fresh_bucket: "takeToken k rate now (newTokenBucket cap) = (t, tb) \<Longrightarrow> tkAllowed t"
  by (auto simp: takeToken_def newTokenBucket_def)

lemma sample_header:
  "\<exists>h. encodePopAuthorization (js ''a'') (NInt 5) (replicate 64 7) = Inr h"
  by (simp add: encodePopAuthorization_def failIf_def idText_def idChar_def jc_def MAX_SAFE_INTEGER_def)

lemma sample_admitted:
  assumes "encodePopAuthorization (js ''a'') (NInt 5) (replicate 64 7) = Inr h"
  shows "\<exists>s'. admit sampleEnv sampleReadings (sampleInput h) sampleStore = (Inr sampleAdmission, s')"
proof -
  have "\<exists>s'. admit sampleEnv sampleReadings (sampleInput h) sampleStore =
      (Inr \<lparr>adCredentialId = Some (js ''a''), adScope = RRead, adAuth = Some PopAuth, adNonce = Some (replicate 16 3),
        adReceiptId = receiptIdFrom (aiUrl (sampleInput h))\<rparr>, s')"
  proof (rule admit_verified [where sign = "\<lambda>_ _. replicate 64 7" and ts = 5 and priv = "[]"])
    show "signPopAuthorization (\<lambda>_ _. replicate 64 7) (clientFields sampleEnv 5 (replicate 16 3) (sampleInput h)) (js ''a'') [] = Inr h"
      using assms by (simp add: signPopAuthorization_def clientFields_def POP_NONCE_BYTES_def failIf_def del: js_Cons)
  qed (auto simp: sampleInput_def firstHeader_def sampleStore_def sampleEnv_def samplePop_def sampleReadings_def sample_seconds
      sample_route scopeSatisfied_def see_def newReplaySet_def REPLAY_MAX_ENTRIES_def intro: fresh_bucket simp del: js_Cons
      intro!: fresh_bucket [OF prod.collapse [symmetric]])
  then show ?thesis by (simp add: sampleAdmission_def sampleInput_def sample_receipt del: js_Cons)
qed

subsection \<open>What an admission establishes\<close>

lemma bearerMatch_Some:
  "bearerMatch wanted m = Some rc \<Longrightarrow>
    (\<exists>e \<in> set m. igRecord (snd e) = rc) \<and> cdRevokedAt rc = None \<and> bearerSecretHashOf rc = Some wanted"
  by (induction m) (auto simp: Let_def constantTimeEquals_eq split: if_splits option.splits)

text \<open>
  C5 Soundness of admission. If a request is admitted, then either its route is the public one and nothing
  about the caller is asserted; or it carries a proof of possession: a header that parses, a stamp within the
  tolerance, a 16-byte nonce, and a signature over exactly this method, target and body that verifies under
  the key of a record the store holds, not revoked, whose scopes satisfy the route, the nonce not seen
  before; or bearer secrets are allowed and the digest of the presented secret is the one of such a record.
  The credential reported is that record's, and the nonce the one signed.
\<close>

theorem admission_sound:
  assumes "admit env rd inp s = (Inr a, s')"
  shows "(adAuth a = None \<and> adCredentialId a = None \<and> routeScope (aiMethod inp) (aiUrl inp) = Some RPublic) \<or>
    (adAuth a = Some PopAuth \<and> routeScope (aiMethod inp) (aiUrl inp) = Some (adScope a) \<and>
      (\<exists>h p nonce held key. authorization inp = Some h \<and> parsePopAuthorization h = Inr p \<and>
        \<bar>clockSeconds (aiNowSeconds inp) (rdStamp rd) - int (paTs p)\<bar> \<le> csTolerance s \<and>
        presentedNonce (aiHeaders inp) = Inr nonce \<and> length nonce = 16 \<and>
        map_of (csById s) (paCredential p) = Some held \<and> igPopKey held = Some key \<and>
        verifyPopSignature (evVerifier env) (clientFields env (paTs p) nonce inp) (paSignature p) key \<and>
        cdRevokedAt (igRecord held) = None \<and> scopeSatisfied (cdScopes (igRecord held)) (adScope a) \<and>
        \<not> fst (see (nonceKey (paCredential p) nonce) (rdReplay rd) (csReplay s)) \<and>
        adCredentialId a = Some (paCredential p) \<and> adNonce a = Some nonce)) \<or>
    (adAuth a = Some BearerAuth \<and> csAllowBearer s \<and> routeScope (aiMethod inp) (aiUrl inp) = Some (adScope a) \<and>
      (\<exists>h secret rc. authorization inp = Some h \<and> bearerSecret h = Some secret \<and>
        rc \<in> igRecord ` snd ` set (csById s) \<and> cdRevokedAt rc = None \<and>
        bearerSecretHashOf rc = Some (evSha256 env (evBufferFrom env secret)) \<and>
        scopeSatisfied (cdScopes rc) (adScope a) \<and> adCredentialId a = Some (cdId rc)))"
  using assms
proof (cases rule: admit_cases)
  case unasked
  then show ?thesis by simp
next
  case (bearer secret)
  let ?t = "peerCharged rd inp s"
  obtain rc where m: "bearerMatch (hashSecret (evSha256 env) (evBufferFrom env secret)) (csById ?t) = Some rc"
    and c: "chargeScope (rdCharge rd) (cdId rc) rc (routeScope (aiMethod inp) (aiUrl inp)) inp BearerAuth None ?t = (Inr a, s')"
    using bearer(4) by (auto simp: admitBearer_def refuse_def split: option.splits)
  have "rc \<in> igRecord ` snd ` set (csById s)" "cdRevokedAt rc = None" "bearerSecretHashOf rc = Some (evSha256 env (evBufferFrom env secret))"
    using bearerMatch_Some [OF m] by (auto simp: peerCharged_frame hashSecret_def)
  moreover obtain r where "routeScope (aiMethod inp) (aiUrl inp) = Some r" "scopeSatisfied (cdScopes rc) r" "adScope a = r"
      "adAuth a = Some BearerAuth" "adCredentialId a = Some (cdId rc)"
    using chargeScope_Inr [OF c] by (auto dest!: charge_Inr)
  ultimately show ?thesis using bearer(2,3) by auto
next
  case (pop h p nonce)
  have n: "length nonce = 16" using pop(6) by (auto simp: presentedNonce_def POP_NONCE_BYTES_def refuse_def split: option.splits sum.splits if_splits)
  from pop(7) show ?thesis
  proof (cases rule: admitPop_cases)
    case (fresh held key rs)
    obtain r where "routeScope (aiMethod inp) (aiUrl inp) = Some r" "scopeSatisfied (cdScopes (igRecord held)) r" "adScope a = r"
        "adAuth a = Some PopAuth" "adCredentialId a = Some (paCredential p)" "adNonce a = Some nonce"
      using chargeScope_Inr [OF fresh(6)] by (auto dest!: charge_Inr)
    then show ?thesis using fresh pop n by (auto simp: peerCharged_frame clientFields_signed)
  qed simp_all
qed simp_all

lemma admission_sound_witness:
  "\<exists>h key. verifyPopSignature (evVerifier sampleEnv) (clientFields sampleEnv 5 (replicate 16 3) (sampleInput h)) (replicate 64 7) key"
proof -
  obtain h where h: "encodePopAuthorization (js ''a'') (NInt 5) (replicate 64 7) = Inr h" using sample_header by blast
  obtain s' where a: "admit sampleEnv sampleReadings (sampleInput h) sampleStore = (Inr sampleAdmission, s')"
    using sample_admitted [OF h] by blast
  have p: "parsePopAuthorization h = Inr \<lparr>paCredential = js ''a'', paTs = 5, paSignature = replicate 64 7\<rparr>"
    using header_read_back [OF h] by simp
  have "authorization (sampleInput h) = Some h"
    using encoded_header(1) [OF h] by (simp add: authorization_def sampleInput_def firstHeader_def del: js_Cons)
  then show ?thesis
    using admission_sound [OF a] p by (auto simp: sampleAdmission_def simp del: js_Cons)
qed

subsection \<open>What a refusal discloses\<close>

text \<open>What the caller is told: the code, the status and the seconds to wait; the log code stays inside.\<close>

definition answerOf :: "access_error + admission \<Rightarrow> (access_code \<times> nat \<times> int option) + admission" where
  "answerOf r = (case r of Inl e \<Rightarrow> Inl (aeCode e, aeStatus e, aeRetryAfterSeconds e) | Inr a \<Rightarrow> Inr a)"

text \<open>The request proves possession of the key of a record the store holds.\<close>

definition proves :: "access_env \<Rightarrow> admission_input \<Rightarrow> credential_store \<Rightarrow> bool" where
  "proves env inp s \<longleftrightarrow> (\<exists>h p nonce held key. authorization inp = Some h \<and> parsePopAuthorization h = Inr p \<and>
    presentedNonce (aiHeaders inp) = Inr nonce \<and> map_of (csById s) (paCredential p) = Some held \<and> igPopKey held = Some key \<and>
    verifyPopSignature (evVerifier env) (requestFields env p nonce inp) (paSignature p) key)"

lemma admitPop_blind:
  assumes "\<nexists>held key. map_of (csById s) (paCredential p) = Some held \<and> igPopKey held = Some key \<and>
      verifyPopSignature (evVerifier env) (requestFields env p nonce inp) (paSignature p) key"
  shows "\<exists>lc. admitPop env rd p nonce sc inp s =
    (Inl (newAccessError AUTH_SIGNATURE None (Some (paCredential p)) lc), s\<lparr>csVerifications := csVerifications s + 1\<rparr>)"
proof (cases "admitPop env rd p nonce sc inp s")
  case (Pair r s')
  then show ?thesis by (rule admitPop_cases) (use assms Pair in auto)
qed

text \<open>The answer to a caller that proves nothing, computed without the records, and the verifications it cost.\<close>

type_synonym answer = "(access_code \<times> nat \<times> int option) + admission"

definition no :: "access_code \<Rightarrow> nat \<Rightarrow> answer \<times> nat" where
  "no code cost = (Inl (code, accessStatus code, None), cost)"

definition blindPop :: "readings \<Rightarrow> admission_input \<Rightarrow> int \<Rightarrow> jsstr \<Rightarrow> answer \<times> nat" where
  "blindPop rd inp tolerance h =
    (case parsePopAuthorization h of
       Inl e \<Rightarrow> no (if e = AUTH_SCHEME_MISMATCH then AUTH_SCHEME else AUTH_MALFORMED) 0
     | Inr p \<Rightarrow>
         if \<bar>clockSeconds (aiNowSeconds inp) (rdStamp rd) - int (paTs p)\<bar> > tolerance then no AUTH_STALE 0
         else case presentedNonce (aiHeaders inp) of Inl e \<Rightarrow> no AUTH_NONCE_MISSING 0 | Inr nonce \<Rightarrow> no AUTH_SIGNATURE 1)"

definition blindNamed :: "readings \<Rightarrow> admission_input \<Rightarrow> int \<Rightarrow> answer \<times> nat" where
  "blindNamed rd inp tolerance =
    (case authorization inp of
       None \<Rightarrow> no AUTH_MALFORMED 0
     | Some h \<Rightarrow>
         if h = [] then no AUTH_MALFORMED 0
         else if bearerSecret h \<noteq> None then no AUTH_SCHEME 0
         else blindPop rd inp tolerance h)"

definition blindAnswer :: "readings \<Rightarrow> admission_input \<Rightarrow> int \<Rightarrow> access_error + unit \<Rightarrow> answer \<times> nat" where
  "blindAnswer rd inp tolerance peer =
    (case peer of
       Inl e \<Rightarrow> (answerOf (Inl e), 0)
     | Inr _ \<Rightarrow>
         if routeScope (aiMethod inp) (aiUrl inp) = Some RPublic
         then (Inr \<lparr>adCredentialId = None, adScope = RPublic, adAuth = None, adNonce = None, adReceiptId = None\<rparr>, 0)
         else blindNamed rd inp tolerance)"

definition outcome :: "credential_store \<Rightarrow> (access_error + admission) \<times> credential_store \<Rightarrow> (answer \<times> nat) \<times> jsstr token_bucket" where
  "outcome s rs = ((answerOf (fst rs), csVerifications (snd rs) - csVerifications s), csPeerBuckets (snd rs))"

lemma presentedNonce_Inl: "presentedNonce hs = Inl e \<Longrightarrow> e = newAccessError AUTH_NONCE_MISSING None None None"
  by (auto simp: presentedNonce_def refuse_def split: option.splits sum.splits if_splits)

lemma outcome_refused: "outcome s (Inl (newAccessError code None cred lc), s) = (no code 0, csPeerBuckets s)"
  "outcome s (Inl (newAccessError code None cred lc), s\<lparr>csVerifications := csVerifications s + 1\<rparr>) = (no code 1, csPeerBuckets s)"
  by (simp_all add: outcome_def answerOf_def newAccessError_def no_def)

lemma presentPop_blind:
  assumes "authorization inp = Some h" "\<not> proves env inp s"
  shows "outcome s (presentPop env rd h sc inp s) = (blindPop rd inp (csTolerance s) h, csPeerBuckets s)"
proof (cases "parsePopAuthorization h")
  case (Inl e)
  then show ?thesis by (simp add: presentPop_def parseAuthorization_def blindPop_def refuse_def outcome_refused)
next
  case (Inr p)
  then have a: "parseAuthorization h = Inr p" by (simp add: parseAuthorization_def)
  show ?thesis
  proof (cases "presentedNonce (aiHeaders inp)")
    case (Inl e)
    then show ?thesis
      using presentedNonce_Inl [OF Inl] by (simp add: presentPop_def a blindPop_def Inr outcome_refused)
  next
    case nonce: (Inr nonce)
    obtain lc where "admitPop env rd p nonce sc inp s =
        (Inl (newAccessError AUTH_SIGNATURE None (Some (paCredential p)) lc), s\<lparr>csVerifications := csVerifications s + 1\<rparr>)"
      using admitPop_blind [of s p env nonce inp rd sc] assms Inr nonce by (auto simp: proves_def)
    then show ?thesis
      using nonce outcome_refused(2) [of s AUTH_SIGNATURE] by (simp add: presentPop_def a blindPop_def Inr outcome_refused(1))
  qed
qed

lemma admitNamed_blind:
  assumes "\<not> csAllowBearer s" "\<not> proves env inp s"
  shows "outcome s (admitNamed env rd sc inp s) = (blindNamed rd inp (csTolerance s), csPeerBuckets s)"
proof (cases "firstHeader (aiHeaders inp) (js ''authorization'')")
  case None
  then show ?thesis by (simp add: admitNamed_def blindNamed_def authorization_def refuse_def outcome_refused del: js_Cons)
next
  case (Some raw)
  then have a: "authorization inp = Some (jsTrim raw)" by (simp add: authorization_def del: js_Cons)
  show ?thesis
    using presentPop_blind [OF a assms(2), of rd sc] assms(1)
    by (auto simp: admitNamed_def blindNamed_def a Some refuse_def outcome_refused Let_def split: option.splits simp del: js_Cons)
qed

lemma admit_blind:
  assumes "\<not> csAllowBearer s" "\<not> proves env inp s"
  shows "outcome s (admit env rd inp s) =
    (blindAnswer rd inp (csTolerance s) (fst (chargePeer (rdPeer rd) (aiPeerAddress inp) s)), csPeerBuckets (peerCharged rd inp s))"
proof -
  obtain c where ct: "chargePeer (rdPeer rd) (aiPeerAddress inp) s = (c, peerCharged rd inp s)"
    by (cases "chargePeer (rdPeer rd) (aiPeerAddress inp) s") (simp add: peerCharged_def)
  have "\<not> csAllowBearer (peerCharged rd inp s)" "\<not> proves env inp (peerCharged rd inp s)"
    using assms by (simp_all add: proves_def peerCharged_frame)
  note n = admitNamed_blind [OF this, of rd "routeScope (aiMethod inp) (aiUrl inp)"]
  show ?thesis
    using n by (auto simp: admit_def blindAnswer_def ct outcome_def peerCharged_frame answerOf_def split: sum.split)
qed

lemma chargePeer_cong:
  "csPeerBuckets s1 = csPeerBuckets s2 \<Longrightarrow> csPeerRate s1 = csPeerRate s2 \<Longrightarrow>
    fst (chargePeer now peer s1) = fst (chargePeer now peer s2) \<and>
    csPeerBuckets (snd (chargePeer now peer s1)) = csPeerBuckets (snd (chargePeer now peer s2))"
  by (auto simp: chargePeer_def Let_def split: option.split prod.split)

text \<open>
  C21 A caller that proves nothing learns nothing about the file. Take two deployments that differ only in their
  credentials, what those did before, and their replay sets, and a request that proves possession of no key
  in either: the name may be unknown in one, a bearer record in the other, revoked, or held under another
  key. Both answer with the same code, the same status and the same wait, both perform the same number of
  Ed25519 verifications, and both leave the connection with the same budget.
\<close>

theorem unproved_caller_learns_nothing:
  assumes "csPeerBuckets s1 = csPeerBuckets s2" "csPeerRate s1 = csPeerRate s2" "csTolerance s1 = csTolerance s2"
    and "\<not> csAllowBearer s1" "\<not> csAllowBearer s2" and "\<not> proves env inp s1" "\<not> proves env inp s2"
    and "admit env rd inp s1 = (r1, s1')" "admit env rd inp s2 = (r2, s2')"
  shows "answerOf r1 = answerOf r2 \<and>
    csVerifications s1' - csVerifications s1 = csVerifications s2' - csVerifications s2 \<and>
    csPeerBuckets s1' = csPeerBuckets s2'"
  using admit_blind [OF assms(4,6), of rd] admit_blind [OF assms(5,7), of rd] assms(1-3,8,9)
    chargePeer_cong [OF assms(1,2), of "rdPeer rd" "aiPeerAddress inp"]
  by (auto simp: outcome_def peerCharged_def dest: sym)

lemma unproved_caller_learns_nothing_witness:
  "\<exists>h r1 s1 r2 s2. admit sampleEnv sampleReadings (sampleInput h) (sampleStore\<lparr>csById := []\<rparr>) = (r1, s1) \<and>
    admit sampleEnv sampleReadings (sampleInput h)
      (sampleStore\<lparr>csById := [(js ''a'', \<lparr>igRecord = sampleRecord, igPopKey = None\<rparr>)]\<rparr>) = (r2, s2) \<and>
    answerOf r1 = answerOf r2 \<and> csVerifications s1 = csVerifications s2"
proof -
  obtain h where h: "encodePopAuthorization (js ''a'') (NInt 5) (replicate 64 7) = Inr h" using sample_header by blast
  define t1 where "t1 = sampleStore\<lparr>csById := []\<rparr>"
  define t2 where "t2 = sampleStore\<lparr>csById := [(js ''a'', \<lparr>igRecord = sampleRecord, igPopKey = None\<rparr>)]\<rparr>"
  obtain r1 s1 r2 s2 where a: "admit sampleEnv sampleReadings (sampleInput h) t1 = (r1, s1)"
      "admit sampleEnv sampleReadings (sampleInput h) t2 = (r2, s2)" by (metis surj_pair)
  have np: "\<not> proves sampleEnv (sampleInput h) t1" "\<not> proves sampleEnv (sampleInput h) t2"
    by (auto simp: proves_def t1_def t2_def sampleStore_def split: if_splits)
  have "answerOf r1 = answerOf r2 \<and> csVerifications s1 - csVerifications t1 = csVerifications s2 - csVerifications t2 \<and>
      csPeerBuckets s1 = csPeerBuckets s2"
    by (rule unproved_caller_learns_nothing [OF _ _ _ _ _ np a]) (simp_all add: t1_def t2_def sampleStore_def)
  then have "answerOf r1 = answerOf r2 \<and> csVerifications s1 = csVerifications s2"
    by (simp add: t1_def t2_def sampleStore_def)
  then show ?thesis using a unfolding t1_def t2_def by blast
qed

end
