(* ===== verification/AccessRuns.thy ===== *)
theory AccessRuns
  imports AccessSpec
begin

text \<open>
  The credential store in time: a step relation whose steps are the admissions and the parts of a reload
  between two awaits, in any order the event loop gives; its invariant; the refinement of an abstract
  table of credentials; and what holds of a whole run.
\<close>

subsection \<open>Steps\<close>

text \<open>
  Calls of \<open>reloadIfNeeded\<close> wait for \<open>stat\<close> or for the read of the file. Several can wait at once, since
  nothing is marked before \<open>stat\<close> answers.
\<close>

record access_system =
  asStore :: credential_store
  asStats :: nat
  asLoads :: "rat list"

datatype access_event =
    Admit readings admission_input "access_error + admission"
  | CallReload bool
  | StatAnswered "rat option"
  | ReadAnswered rat "jsstr option" "access_error option"

inductive accessStep :: "access_env \<Rightarrow> access_system \<Rightarrow> access_event \<Rightarrow> access_system \<Rightarrow> bool" for env where
  admits: "admit env rd inp (asStore y) = (r, s') \<Longrightarrow> accessStep env y (Admit rd inp r) (y\<lparr>asStore := s'\<rparr>)"
| calls: "accessStep env y (CallReload (reloadBegins (asStore y)))
    (if reloadBegins (asStore y) then y\<lparr>asStats := asStats y + 1\<rparr> else y)"
| stats: "0 < asStats y \<Longrightarrow> afterStat mtime (asStore y) = (load, s') \<Longrightarrow>
    accessStep env y (StatAnswered mtime)
      (y\<lparr>asStore := s', asStats := asStats y - 1,
        asLoads := (case load of None \<Rightarrow> asLoads y | Some t \<Rightarrow> t # asLoads y)\<rparr>)"
| reads: "t \<in> set (asLoads y) \<Longrightarrow> afterRead t content (asStore y) = (e, s') \<Longrightarrow>
    accessStep env y (ReadAnswered t content e) (y\<lparr>asStore := s', asLoads := remove1 t (asLoads y)\<rparr>)"

inductive_cases admitsE: "accessStep env y (Admit rd inp r) y'"
inductive_cases callsE: "accessStep env y (CallReload b) y'"
inductive_cases statsE: "accessStep env y (StatAnswered mtime) y'"
inductive_cases readsE: "accessStep env y (ReadAnswered t content e) y'"

lemmas stepE = admitsE callsE statsE readsE

inductive accessRun :: "access_env \<Rightarrow> access_system \<Rightarrow> access_event list \<Rightarrow> access_system \<Rightarrow> bool" for env where
  here: "accessRun env y [] y"
| more: "accessStep env y ev y1 \<Longrightarrow> accessRun env y1 evs y2 \<Longrightarrow> accessRun env y (ev # evs) y2"

inductive_simps run_Nil [simp]: "accessRun env y [] y'"
inductive_simps run_Cons: "accessRun env y (ev # evs) y'"

definition booted :: "credential_store \<Rightarrow> access_system" where
  "booted s = \<lparr>asStore = s, asStats = 0, asLoads = []\<rparr>"

lemma run_append: "accessRun env y (evs @ evs') y' \<longleftrightarrow> (\<exists>y1. accessRun env y evs y1 \<and> accessRun env y1 evs' y')"
  by (induction evs arbitrary: y) (auto simp: run_Cons)

lemma afterStat_frame: "afterStat mtime s = (load, s') \<Longrightarrow> \<exists>b. s' = s\<lparr>csReloading := b\<rparr>"
  by (auto simp: afterStat_def intro: exI [of _ "csReloading s"] split: option.splits if_splits)

lemma step_ok: "accessStep env y ev y' \<Longrightarrow> storeOk (asStore y) \<Longrightarrow> storeOk (asStore y')"
proof (induction rule: accessStep.induct)
  case (stats y mtime load s')
  then show ?case using afterStat_frame [OF stats(2)] by (auto simp: storeOk_def)
qed (auto dest: admit_ok afterRead_ok)

lemma run_ok: "accessRun env y evs y' \<Longrightarrow> storeOk (asStore y) \<Longrightarrow> storeOk (asStore y')"
  by (induction rule: accessRun.induct) (auto dest: step_ok)

text \<open>
  C23 The types of the store, at every moment of every run from the constructor, whatever requests arrive and
  however reloads interleave: every name in the table is the id of its record and of a record served; a
  proof-of-possession record has its own 32-byte key beside it and no secret hash, a bearer record has none;
  the replay set never holds more than 65,536 nonces and the peer map never more than 16,384 addresses,
  each once.
\<close>

theorem reachable_storeOk:
  assumes "newCredentialStore options = Inr s" and "accessRun env (booted s) evs y"
  shows "tableOk (csRecords (asStore y)) (csById (asStore y)) \<and>
    replaySize (csReplay (asStore y)) \<le> REPLAY_MAX_ENTRIES \<and> distinct (map fst (rsSeen (csReplay (asStore y)))) \<and>
    length (tbBuckets (csPeerBuckets (asStore y))) \<le> MAX_TRACKED_PEERS \<and>
    distinct (map fst (tbBuckets (csPeerBuckets (asStore y))))"
  using run_ok [OF assms(2)] newCredentialStore_ok [OF assms(1)]
  by (simp add: booted_def storeOk_def replayInv_def replaySize_def peersOk_def)

subsection \<open>Refinement of a table of credentials\<close>

text \<open>
  The abstract store: the credential a name stands for. An admission under a name reads it, an installed
  file replaces it, and nothing else touches it.
\<close>

type_synonym credential_table = "jsstr \<rightharpoonup> ingested"

definition tableOf :: "credential_file \<Rightarrow> credential_table" where
  "tableOf cf i =
    (case find (\<lambda>r. cdId r = i) (rev (cfCredentials cf)) of
       None \<Rightarrow> None
     | Some r \<Rightarrow> (case ingestCredential r of Inl _ \<Rightarrow> None | Inr ig \<Rightarrow> Some ig))"

definition usable :: "credential_table \<Rightarrow> jsstr \<Rightarrow> route_scope \<Rightarrow> bool" where
  "usable table i sc \<longleftrightarrow> (\<exists>ig. table i = Some ig \<and> cdRevokedAt (igRecord ig) = None \<and> scopeSatisfied (cdScopes (igRecord ig)) sc)"

inductive tableStep :: "credential_table \<Rightarrow> access_event \<Rightarrow> credential_table \<Rightarrow> bool" where
  refused: "tableStep T (Admit rd inp (Inl e)) T"
| unasked: "adCredentialId a = None \<Longrightarrow> routeScope (aiMethod inp) (aiUrl inp) = Some RPublic \<Longrightarrow>
    tableStep T (Admit rd inp (Inr a)) T"
| named: "adCredentialId a = Some i \<Longrightarrow> routeScope (aiMethod inp) (aiUrl inp) = Some (adScope a) \<Longrightarrow> usable T i (adScope a) \<Longrightarrow>
    tableStep T (Admit rd inp (Inr a)) T"
| called: "tableStep T (CallReload b) T"
| looked: "tableStep T (StatAnswered mtime) T"
| kept: "tableStep T (ReadAnswered t content (Some e)) T"
| replaced: "loadCredentialFile content = Inr cf \<Longrightarrow> tableStep T (ReadAnswered t content None) (tableOf cf)"

inductive_cases tableNamedE: "tableStep T (Admit rd inp (Inr a)) T'"

definition served :: "access_system \<Rightarrow> credential_table" where
  "served y = map_of (csById (asStore y))"

lemma map_of_find: "map_of (map (\<lambda>e. (f e, e)) es) i = find (\<lambda>e. f e = i) es"
  by (induction es) auto

lemma find_ingested:
  "mapE ingestCredential rs = Inr es \<Longrightarrow>
    find (\<lambda>e. cdId (igRecord e) = i) es =
    (case find (\<lambda>r. cdId r = i) rs of None \<Rightarrow> None | Some r \<Rightarrow> (case ingestCredential r of Inl _ \<Rightarrow> None | Inr ig \<Rightarrow> Some ig))"
  by (induction rs arbitrary: es) (auto simp: bindE_Inr dest: ingest_entryOk)

lemma mapE_rev: "mapE f xs = Inr ys \<Longrightarrow> mapE f (rev xs) = Inr (rev ys)"
  by (simp add: mapE_Inr_iff)

lemma install_refines: "install cf s = Inr s' \<Longrightarrow> map_of (csById s') = tableOf cf"
proof
  fix i
  assume "install cf s = Inr s'"
  then obtain es where es: "mapE ingestCredential (cfCredentials cf) = Inr es"
    and s': "s' = s\<lparr>csRecords := map igRecord es, csById := newMap (map (\<lambda>e. (cdId (igRecord e), e)) es)\<rparr>"
    by (rule install_table)
  show "map_of (csById s') i = tableOf cf i"
    using find_ingested [OF mapE_rev [OF es], of i]
    by (simp add: s' map_of_newMap rev_map map_of_find tableOf_def)
qed

lemma admit_served:
  assumes a: "admit env rd inp s = (Inr a, s')" and ok: "storeOk s"
  shows "tableStep (map_of (csById s)) (Admit rd inp (Inr a)) (map_of (csById s'))"
  using a
proof (cases rule: admit_cases)
  case unasked
  then show ?thesis by (auto simp: peerCharged_frame intro: tableStep.unasked)
next
  case (bearer secret)
  let ?t = "peerCharged rd inp s"
  obtain rc where m: "bearerMatch (hashSecret (evSha256 env) (evBufferFrom env secret)) (csById ?t) = Some rc"
    and c: "chargeScope (rdCharge rd) (cdId rc) rc (routeScope (aiMethod inp) (aiUrl inp)) inp BearerAuth None ?t = (Inr a, s')"
    using bearer(4) by (auto simp: admitBearer_def refuse_def split: option.splits)
  obtain k e where e: "(k, e) \<in> set (csById s)" "igRecord e = rc" "cdRevokedAt rc = None"
    using bearerMatch_Some [OF m] by (fastforce simp: peerCharged_frame)
  have t: "distinct (map fst (csById s))" "list_all entryOk (csById s)" using ok by (auto simp: storeOk_def tableOk_def)
  have "map_of (csById s) k = Some e" by (rule map_of_is_SomeI [OF t(1) e(1)])
  moreover have "k = cdId rc" using t(2) e(1,2) by (auto simp: list_all_iff entryOk_def)
  moreover have "csById s' = csById s" using chargeScope_frame [OF c] by (auto simp: peerCharged_frame)
  ultimately show ?thesis
    using chargeScope_Inr [OF c] e(2,3) by (auto simp: usable_def dest!: charge_Inr intro!: tableStep.named)
next
  case (pop h p nonce)
  let ?t = "peerCharged rd inp s"
  show ?thesis using pop(7)
  proof (cases rule: admitPop_cases)
    case (fresh held key rs)
    have "csById s' = csById s" using chargeScope_frame [OF fresh(6)] by (auto simp: peerCharged_frame)
    then show ?thesis
      using chargeScope_Inr [OF fresh(6)] fresh(1,4)
      by (auto simp: usable_def peerCharged_frame dest!: charge_Inr intro!: tableStep.named)
  qed simp_all
qed simp_all

lemma admit_keeps_table: "admit env rd inp s = (r, s') \<Longrightarrow> csById s' = csById s"
proof (erule admit_cases)
  fix e
  assume "chargePeer (rdPeer rd) (aiPeerAddress inp) s = (Inl e, s')"
  then show "csById s' = csById s" using chargePeer_frame [of "rdPeer rd" "aiPeerAddress inp" s] by auto
next
  fix secret
  assume "admitBearer env (rdCharge rd) secret (routeScope (aiMethod inp) (aiUrl inp)) inp (peerCharged rd inp s) = (r, s')"
  then show "csById s' = csById s" by (auto simp: peerCharged_frame dest!: admitBearer_frame)
next
  fix p nonce
  assume "admitPop env rd p nonce (routeScope (aiMethod inp) (aiUrl inp)) inp (peerCharged rd inp s) = (r, s')"
  then show "csById s' = csById s"
    by (rule admitPop_cases) (auto simp: peerCharged_frame dest!: chargeScope_frame)
qed (simp_all add: peerCharged_frame)

lemma step_refines: "accessStep env y ev y' \<Longrightarrow> storeOk (asStore y) \<Longrightarrow> tableStep (served y) ev (served y')"
proof (induction rule: accessStep.induct)
  case (admits rd inp y r s')
  have k: "csById s' = csById (asStore y)" by (rule admit_keeps_table [OF admits(1)])
  show ?case
  proof (cases r)
    case (Inr a)
    then show ?thesis using admit_served [OF admits(1) [unfolded Inr] admits(2)] by (simp add: served_def)
  qed (simp add: served_def k tableStep.refused)
next
  case (stats y mtime load s')
  then show ?case using afterStat_frame [OF stats(2)] by (auto simp: served_def intro: tableStep.looked)
next
  case (reads t y content e s')
  from reads(2) show ?case
  proof (cases rule: afterRead_cases)
    case (loaded cf s1)
    then show ?thesis using install_refines [OF loaded(3)] by (auto simp: served_def intro: tableStep.replaced)
  qed (auto simp: served_def intro: tableStep.kept)
qed (auto simp: served_def intro: tableStep.called)

lemma booted_serves:
  "newCredentialStore options = Inr s \<Longrightarrow>
    served (booted s) = tableOf (case soFile options of None \<Rightarrow> \<lparr>cfCredentials = []\<rparr> | Some cf \<Rightarrow> cf)"
  by (auto simp: newCredentialStore_def bindE_Inr served_def booted_def dest: install_refines)

text \<open>
  C22 The store refines a table of credentials. From the constructor on, through every interleaving of
  requests and reloads, each step of the store is a step of the table: at first the table of the file given;
  an admission under a name only when the table has the name, unrevoked, with a scope that satisfies the
  route; replaced as a whole, and only, when a read of the file parsed and ingested, by the last record of
  each id in it; and never in between, in part, or by a reload that failed.
\<close>

theorem store_refines_table:
  assumes "newCredentialStore options = Inr s"
    and "accessRun env (booted s) evs y" and "accessStep env y ev y'"
  shows "served (booted s) = tableOf (case soFile options of None \<Rightarrow> \<lparr>cfCredentials = []\<rparr> | Some cf \<Rightarrow> cf) \<and>
    tableStep (served y) ev (served y')"
proof -
  have "storeOk (asStore y)" using run_ok [OF assms(2)] newCredentialStore_ok [OF assms(1)] by (simp add: booted_def)
  then show ?thesis using step_refines [OF assms(3)] booted_serves [OF assms(1)] by simp
qed

text \<open>The run of one request, for the witnesses.\<close>

lemma sample_run:
  "\<exists>h y. accessStep sampleEnv (booted sampleStore) (Admit sampleReadings (sampleInput h) (Inr sampleAdmission)) y"
proof -
  obtain h where h: "encodePopAuthorization (js ''a'') (NInt 5) (replicate 64 7) = Inr h" using sample_header by blast
  obtain s' where a: "admit sampleEnv sampleReadings (sampleInput h) sampleStore = (Inr sampleAdmission, s')"
    using sample_admitted [OF h] by blast
  have "accessStep sampleEnv (booted sampleStore) (Admit sampleReadings (sampleInput h) (Inr sampleAdmission))
      ((booted sampleStore)\<lparr>asStore := s'\<rparr>)"
    by (rule accessStep.admits) (simp add: booted_def a)
  then show ?thesis by blast
qed

lemma reachable_storeOk_witness:
  "\<exists>h y. accessRun sampleEnv (booted sampleStore) [Admit sampleReadings (sampleInput h) (Inr sampleAdmission)] y \<and>
    tableOk (csRecords (asStore y)) (csById (asStore y)) \<and> replaySize (csReplay (asStore y)) \<le> REPLAY_MAX_ENTRIES"
proof -
  obtain h y where "accessStep sampleEnv (booted sampleStore) (Admit sampleReadings (sampleInput h) (Inr sampleAdmission)) y"
    using sample_run by blast
  then have r: "accessRun sampleEnv (booted sampleStore) [Admit sampleReadings (sampleInput h) (Inr sampleAdmission)] y"
    by (simp add: run_Cons)
  then show ?thesis using reachable_storeOk [OF sampleStore_new r] by blast
qed

lemma store_refines_table_witness:
  "\<exists>h y. tableStep (served (booted sampleStore)) (Admit sampleReadings (sampleInput h) (Inr sampleAdmission)) (served y) \<and>
    usable (served (booted sampleStore)) (js ''a'') RRead"
proof -
  obtain h y where "accessStep sampleEnv (booted sampleStore) (Admit sampleReadings (sampleInput h) (Inr sampleAdmission)) y"
    using sample_run by blast
  then have t: "tableStep (served (booted sampleStore)) (Admit sampleReadings (sampleInput h) (Inr sampleAdmission)) (served y)"
    using store_refines_table [OF sampleStore_new accessRun.here] by blast
  moreover have "usable (served (booted sampleStore)) (js ''a'') RRead"
    using t by (rule tableNamedE) (simp_all add: sampleAdmission_def del: js_Cons)
  ultimately show ?thesis by blast
qed

subsection \<open>What a guess costs\<close>

text \<open>The admissions of a run that the budget of the connection let through.\<close>

definition letThrough :: "access_event list \<Rightarrow> nat" where
  "letThrough evs = length (filter (\<lambda>ev. case ev of
      Admit rd inp r \<Rightarrow> (case r of Inl e \<Rightarrow> aeLogCode e \<noteq> PEER_RATE_LIMITED | Inr a \<Rightarrow> adAuth a = Some PopAuth)
    | _ \<Rightarrow> False) evs)"

lemma chargePeer_Inl: "chargePeer now peer s = (Inl e, s') \<Longrightarrow> aeLogCode e = PEER_RATE_LIMITED"
  by (auto simp: chargePeer_def Let_def newAccessError_def split: option.splits prod.splits if_splits)

lemma chargeScope_log: "chargeScope now cred rc sc inp auth nonce s = (Inl e, s') \<Longrightarrow> aeLogCode e \<noteq> PEER_RATE_LIMITED"
  by (auto simp: chargeScope_def charge_def Let_def newAccessError_def split: option.splits prod.splits if_splits)

lemma chargeScope_auth: "chargeScope now cred rc sc inp auth nonce s = (Inr a, s') \<Longrightarrow> adAuth a = Some auth"
  using chargeScope_Inr [of now cred rc sc inp auth nonce s a s'] by (auto dest!: charge_Inr)

lemma admit_cost: "admit env rd inp s = (r, s') \<Longrightarrow> csVerifications s' \<le> csVerifications s + letThrough [Admit rd inp r]"
proof (erule admit_cases)
  fix e
  assume "chargePeer (rdPeer rd) (aiPeerAddress inp) s = (Inl e, s')"
  then have "csVerifications s' = csVerifications s"
    using chargePeer_frame [of "rdPeer rd" "aiPeerAddress inp" s] by auto
  then show ?thesis by simp
next
  fix secret
  assume "admitBearer env (rdCharge rd) secret (routeScope (aiMethod inp) (aiUrl inp)) inp (peerCharged rd inp s) = (r, s')"
  then show ?thesis by (auto simp: peerCharged_frame dest!: admitBearer_frame)
next
  fix p nonce
  assume "admitPop env rd p nonce (routeScope (aiMethod inp) (aiUrl inp)) inp (peerCharged rd inp s) = (r, s')"
  then show ?thesis
  proof (cases rule: admitPop_cases)
    case (fresh held key rs)
    then show ?thesis using chargeScope_frame [OF fresh(6)] chargeScope_log chargeScope_auth
      by (cases r) (fastforce simp: peerCharged_frame letThrough_def)+
  qed (simp_all add: peerCharged_frame letThrough_def newAccessError_def)
qed (simp_all add: peerCharged_frame)

text \<open>
  C40 What a guess costs the deployment. Over any run, the Ed25519 verifications performed are at most the
  proof-of-possession admissions and the refusals other than the connection's own: a request refused for its
  connection's budget, which is charged before any header is read, costs none, every other request at most
  one, and a public or a bearer admission none.
\<close>

theorem verifications_bound:
  assumes "newCredentialStore options = Inr s" and "accessRun env (booted s) evs y"
  shows "csVerifications (asStore y) \<le> letThrough evs"
proof -
  have step: "csVerifications (asStore y') \<le> csVerifications (asStore y) + letThrough [ev]" if "accessStep env y ev y'" for y ev y'
    using that
  proof (induction rule: accessStep.induct)
    case (admits rd inp y r s')
    then show ?case using admit_cost by simp
  qed (auto dest!: afterStat_frame elim!: afterRead_cases install_table)
  have "csVerifications (asStore y') \<le> csVerifications (asStore y) + letThrough evs" if "accessRun env y evs y'" for y evs y'
    using that
  proof (induction rule: accessRun.induct)
    case (more y ev y1 evs y2)
    have "letThrough (ev # evs) = letThrough [ev] + letThrough evs" by (simp add: letThrough_def)
    then show ?case using step [OF more(1)] more(3) by linarith
  qed simp
  moreover have "csVerifications s = 0"
    using assms(1) by (auto simp: newCredentialStore_def bindE_Inr elim!: install_table)
  ultimately show ?thesis using assms(2) by (fastforce simp: booted_def)
qed

lemma verifications_bound_witness:
  "\<exists>h y. accessRun sampleEnv (booted sampleStore) [Admit sampleReadings (sampleInput h) (Inr sampleAdmission)] y \<and>
    csVerifications (asStore y) \<le> 1"
proof -
  obtain h y where "accessStep sampleEnv (booted sampleStore) (Admit sampleReadings (sampleInput h) (Inr sampleAdmission)) y"
    using sample_run by blast
  then have r: "accessRun sampleEnv (booted sampleStore) [Admit sampleReadings (sampleInput h) (Inr sampleAdmission)] y"
    by (simp add: run_Cons)
  have "letThrough [Admit sampleReadings (sampleInput h) (Inr sampleAdmission)] = 1"
    by (simp add: letThrough_def sampleAdmission_def)
  then show ?thesis using verifications_bound [OF sampleStore_new r] r by auto
qed

end
