(* ===== verification/AccessReplay.thy ===== *)
theory AccessReplay
  imports AccessRuns
begin

text \<open>
  A captured proof of possession is worth nothing: the replay set, the tolerance on the stamp and the order
  of the checks together. The presentations a run makes to the replay set are the calls of
  \<open>replay_guard\<close>, whose interpretation \<open>nonces\<close> carries the argument.
\<close>

subsection \<open>The presentations of a run\<close>

lemma chargePeer_replay: "csReplay (snd (chargePeer now peer s)) = csReplay s"
  using chargePeer_frame [of now peer s] by auto

lemma admit_see:
  assumes "admit env rd inp s = (r, s')"
  shows "csReplay s' = csReplay s \<or> (\<exists>k. csReplay s' = snd (see k (rdReplay rd) (csReplay s)))"
  using assms
proof (cases rule: admit_cases)
  case (peer e)
  then show ?thesis using chargePeer_replay [of "rdPeer rd" "aiPeerAddress inp" s] by simp
next
  case (bearer secret)
  then show ?thesis using admitBearer_frame [OF bearer(4)] by (auto simp: peerCharged_frame)
next
  case (pop h p nonce)
  from pop(7) show ?thesis
  proof (cases rule: admitPop_cases)
    case (seen held key rs)
    then have "csReplay s' = snd (see (nonceKey (paCredential p) nonce) (rdReplay rd) (csReplay s))"
      by (simp add: peerCharged_frame)
    then show ?thesis by blast
  next
    case (fresh held key rs)
    then have "csReplay s' = snd (see (nonceKey (paCredential p) nonce) (rdReplay rd) (csReplay s))"
      using chargeScope_frame [OF fresh(6)] by (auto simp: peerCharged_frame)
    then show ?thesis by blast
  qed (simp_all add: peerCharged_frame)
qed (simp_all add: peerCharged_frame)

text \<open>An admitted proof of possession put its nonce down.\<close>

lemma admitted_fresh:
  assumes "admit env rd inp s = (Inr a, s')" "adAuth a = Some PopAuth"
  obtains h p nonce where "authorization inp = Some h" "parsePopAuthorization h = Inr p"
    "presentedNonce (aiHeaders inp) = Inr nonce"
    "\<bar>clockSeconds (aiNowSeconds inp) (rdStamp rd) - int (paTs p)\<bar> \<le> csTolerance s"
    "see (nonceKey (paCredential p) nonce) (rdReplay rd) (csReplay s) = (False, csReplay s')"
  using assms(1)
proof (cases rule: admit_cases)
  case (bearer secret)
  then have "adAuth a = Some BearerAuth"
    by (auto simp: admitBearer_def refuse_def dest: chargeScope_auth split: option.splits)
  then show thesis using assms(2) by simp
next
  case (pop h p nonce)
  from pop(7) show thesis
  proof (cases rule: admitPop_cases)
    case (fresh held key rs)
    then have "see (nonceKey (paCredential p) nonce) (rdReplay rd) (csReplay s) = (False, csReplay s')"
      using chargeScope_frame [OF fresh(6)] by (auto simp: peerCharged_frame)
    then show thesis using that pop by blast
  qed simp_all
qed (use assms(2) in simp_all)

definition admitsIn :: "access_event list \<Rightarrow> readings list" where
  "admitsIn evs = concat (map (\<lambda>ev. case ev of Admit rd _ _ \<Rightarrow> [rd] | _ \<Rightarrow> []) evs)"

lemma install_config:
  "install cf s = Inr s' \<Longrightarrow> csReplay s' = csReplay s \<and> csTolerance s' = csTolerance s \<and> csAllowBearer s' = csAllowBearer s"
  by (erule install_table) simp

lemma afterRead_config:
  "afterRead t content s = (e, s') \<Longrightarrow> csReplay s' = csReplay s \<and> csTolerance s' = csTolerance s"
  by (erule afterRead_cases) (auto dest: install_config)

lemma admit_tolerance: "admit env rd inp s = (r, s') \<Longrightarrow> csTolerance s' = csTolerance s"
proof (erule admit_cases)
  fix e
  assume "chargePeer (rdPeer rd) (aiPeerAddress inp) s = (Inl e, s')"
  then show ?thesis using chargePeer_frame [of "rdPeer rd" "aiPeerAddress inp" s] by auto
next
  fix secret
  assume "admitBearer env (rdCharge rd) secret (routeScope (aiMethod inp) (aiUrl inp)) inp (peerCharged rd inp s) = (r, s')"
  then show ?thesis by (auto simp: peerCharged_frame dest!: admitBearer_frame)
next
  fix p nonce
  assume "admitPop env rd p nonce (routeScope (aiMethod inp) (aiUrl inp)) inp (peerCharged rd inp s) = (r, s')"
  then show ?thesis by (rule admitPop_cases) (auto simp: peerCharged_frame dest!: chargeScope_frame)
qed (simp_all add: peerCharged_frame)

lemma step_tolerance: "accessStep env y ev y' \<Longrightarrow> csTolerance (asStore y') = csTolerance (asStore y)"
  by (induction rule: accessStep.induct)
     (auto dest: admit_tolerance afterRead_config afterStat_frame)

lemma run_tolerance: "accessRun env y evs y' \<Longrightarrow> csTolerance (asStore y') = csTolerance (asStore y)"
  by (induction rule: accessRun.induct) (simp_all add: step_tolerance)

lemma step_see:
  assumes "accessStep env y ev y'"
  shows "csReplay (asStore y') = csReplay (asStore y) \<or>
    (\<exists>k rd. admitsIn [ev] = [rd] \<and> csReplay (asStore y') = snd (see k (rdReplay rd) (csReplay (asStore y))))"
  using assms
proof (induction rule: accessStep.induct)
  case (admits rd inp y r s')
  then show ?case using admit_see by (fastforce simp: admitsIn_def)
qed (auto dest: afterRead_config afterStat_frame)

lemma run_sees:
  assumes "accessRun env y evs y'"
  shows "\<exists>reqs rs. runCalls see reqs (csReplay (asStore y)) = (rs, csReplay (asStore y')) \<and>
    length reqs \<le> length (admitsIn evs) \<and> snd ` set reqs \<subseteq> rdReplay ` set (admitsIn evs)"
  using assms
proof (induction rule: accessRun.induct)
  case (here y)
  have "runCalls see [] (csReplay (asStore y)) = ([], csReplay (asStore y))" by (simp add: runCalls.simps)
  then show ?case by fastforce
next
  case (more y ev y1 evs y2)
  then obtain reqs rs where run: "runCalls see reqs (csReplay (asStore y1)) = (rs, csReplay (asStore y2))"
    and l: "length reqs \<le> length (admitsIn evs)" and t: "snd ` set reqs \<subseteq> rdReplay ` set (admitsIn evs)" by blast
  have a: "admitsIn (ev # evs) = admitsIn [ev] @ admitsIn evs" by (simp add: admitsIn_def)
  from step_see [OF more(1)] show ?case
  proof
    assume "csReplay (asStore y1) = csReplay (asStore y)"
    then show ?case using run l t unfolding a by (intro exI [of _ reqs] exI [of _ rs]) auto
  next
    assume "\<exists>k rd. admitsIn [ev] = [rd] \<and> csReplay (asStore y1) = snd (see k (rdReplay rd) (csReplay (asStore y)))"
    then obtain k rd where k: "admitsIn [ev] = [rd]" "csReplay (asStore y1) = snd (see k (rdReplay rd) (csReplay (asStore y)))"
      by blast
    then have "runCalls see ((k, rdReplay rd) # reqs) (csReplay (asStore y)) =
        (fst (see k (rdReplay rd) (csReplay (asStore y))) # rs, csReplay (asStore y2))"
      using run by (auto simp: runCalls_Cons intro: prod.collapse [symmetric])
    then show ?case using l t k(1) unfolding a
      by (intro exI [of _ "(k, rdReplay rd) # reqs"] exI) auto
  qed
qed

text \<open>The seconds the clock shows are within one of its milliseconds, however the division rounds.\<close>

lemma div_thousand: "ms div 1000 * 1000 \<le> ms" "ms < (ms div 1000 + 1) * 1000" for ms :: int
  by presburger+

lemma clock_within:
  assumes "\<bar>ms\<bar> \<le> 2 ^ 53"
  shows "ms div 1000 \<le> clockSeconds None ms" "clockSeconds None ms \<le> ms div 1000 + 1"
proof -
  let ?x = "of_int ms / 1000 :: rat" and ?q = "ms div 1000"
  have q: "of_int ?q \<le> ?x" "?x \<le> of_int (?q + 1)"
  proof -
    have "of_int (?q * 1000) \<le> (of_int ms :: rat)" "of_int ms \<le> (of_int ((?q + 1) * 1000) :: rat)"
      unfolding of_int_le_iff using div_thousand [of ms] by simp_all
    then show "of_int ?q \<le> ?x" "?x \<le> of_int (?q + 1)" by (simp_all add: field_simps)
  qed
  have b: "\<bar>?q\<bar> \<le> 2 ^ 53" "\<bar>?q + 1\<bar> \<le> 2 ^ 53"
  proof -
    have small: "\<bar>q\<bar> \<le> 2 ^ 53 \<and> \<bar>q + 1\<bar> \<le> 2 ^ 53" if "q * 1000 \<le> m" "m < (q + 1) * 1000" "\<bar>m\<bar> \<le> 2 ^ 53" for q m :: int
    proof -
      have "- (2 ^ 53) \<le> m" "m \<le> 2 ^ 53" using that(3) by linarith+
      then have "- (2 ^ 53) \<le> q" "q + 1 \<le> 2 ^ 53" using that(1,2) by simp_all
      then show ?thesis by linarith
    qed
    show "\<bar>?q\<bar> \<le> 2 ^ 53" "\<bar>?q + 1\<bar> \<le> 2 ^ 53" using small [OF div_thousand assms] by blast+
  qed
  have "of_int ?q \<le> rnd ?x" using rnd_mono [OF q(1)] rnd_of_int [OF b(1)] by simp
  then show "?q \<le> clockSeconds None ms" by (simp add: clockSeconds_def le_floor_iff)
  have "rnd ?x \<le> of_int (?q + 1)" using rnd_mono [OF q(2)] unfolding rnd_of_int [OF b(2)] .
  then show "clockSeconds None ms \<le> ?q + 1" by (simp add: clockSeconds_def floor_le_iff)
qed

lemma stamp_spread:
  assumes "\<bar>ms1\<bar> \<le> 2 ^ 53" "\<bar>ms2\<bar> \<le> 2 ^ 53"
    and "\<bar>clockSeconds None ms1 - ts\<bar> \<le> t" "\<bar>clockSeconds None ms2 - ts\<bar> \<le> t"
  shows "ms2 < ms1 + (2 * t + 2) * 1000"
proof -
  have far: "m2 < m1 + (2 * t + 2) * 1000"
    if "c1 \<le> q1 + 1" "q2 \<le> c2" "\<bar>c1 - ts\<bar> \<le> t" "\<bar>c2 - ts\<bar> \<le> t" "q1 * 1000 \<le> m1" "m2 < (q2 + 1) * 1000"
    for c1 c2 q1 q2 m1 m2 :: int
  proof -
    have "c2 - ts \<le> t" "ts - c1 \<le> t" using that(3,4) by linarith+
    then have "q2 + 1 \<le> q1 + (2 * t + 2)" using that(1,2) by linarith
    then have "(q2 + 1) * 1000 \<le> (q1 + (2 * t + 2)) * 1000" by (rule mult_right_mono) simp
    then show ?thesis using that(5,6) unfolding distrib_right by linarith
  qed
  show ?thesis
    by (rule far [OF clock_within(2) [OF assms(1)] clock_within(1) [OF assms(2)] assms(3,4) div_thousand(1) div_thousand(2)])
qed

lemma newCredentialStore_config:
  assumes "newCredentialStore options = Inr s"
  shows "csTolerance s = (case soToleranceSeconds options of None \<Rightarrow> int POP_TIMESTAMP_TOLERANCE_SECONDS | Some t \<Rightarrow> t)"
  using assms by (auto simp: newCredentialStore_def bindE_Inr dest!: install_config)

text \<open>
  A second admission of a nonce under a credential comes a whole window after the first, as long as fewer
  presentations than the set holds come between.
\<close>

lemma second_admission:
  assumes "accessStep env y (Admit rd1 inp1 (Inr a1)) y1" "accessRun env y1 between y2"
    and "accessStep env y2 (Admit rd2 inp2 (Inr a2)) y3" "storeOk (asStore y)"
    and "adAuth a1 = Some PopAuth" "adAuth a2 = Some PopAuth"
    and "authorization inp2 = authorization inp1" "presentedNonce (aiHeaders inp2) = presentedNonce (aiHeaders inp1)"
    and "length (admitsIn between) < REPLAY_MAX_ENTRIES" "\<forall>rd \<in> set (admitsIn between). rdReplay rd1 \<le> rdReplay rd"
  shows "rdReplay rd1 + REPLAY_WINDOW_SECONDS * 1000 \<le> rdReplay rd2"
proof -
  obtain s1 where s1: "admit env rd1 inp1 (asStore y) = (Inr a1, s1)" "asStore y1 = s1" using assms(1) by (auto elim: admitsE)
  obtain s3 where s3: "admit env rd2 inp2 (asStore y2) = (Inr a2, s3)" using assms(3) by (auto elim: admitsE)
  obtain h p nonce where one: "authorization inp1 = Some h" "parsePopAuthorization h = Inr p"
      "presentedNonce (aiHeaders inp1) = Inr nonce"
      "see (nonceKey (paCredential p) nonce) (rdReplay rd1) (csReplay (asStore y)) = (False, csReplay s1)"
    using s1(1) assms(5) by (rule admitted_fresh)
  have two: "\<not> fst (see (nonceKey (paCredential p) nonce) (rdReplay rd2) (csReplay (asStore y2)))"
    using s3 assms(6) by (rule admitted_fresh) (use one assms(7,8) in auto)
  obtain reqs rs where run: "runCalls see reqs (csReplay s1) = (rs, csReplay (asStore y2))"
    and l: "length reqs \<le> length (admitsIn between)" and t: "snd ` set reqs \<subseteq> rdReplay ` set (admitsIn between)"
    using run_sees [OF assms(2)] s1(2) by auto
  have inv: "replayInv REPLAY_WINDOW_SECONDS REPLAY_MAX_ENTRIES (csReplay (asStore y))" using assms(4) by (simp add: storeOk_def)
  have late: "\<forall>(k', now) \<in> set reqs. rdReplay rd1 \<le> now" using t assms(10) by fastforce
  show ?thesis
    using nonces.replay_refused [OF inv one(4) run _ late, of "rdReplay rd2"] two l assms(9) by linarith
qed

text \<open>
  C4 A captured proof of possession is never admitted again. Once a request was admitted, a request with the
  same Authorization header and the same nonce is refused at every later moment of the run, whatever
  requests, reloads and revocations come between, on a store with the default tolerance of 120 seconds: inside
  the window of 900 seconds the replay set holds the nonce, and after it the stamp is stale. It needs a clock
  that does not step back behind the first admission, takes less than ten minutes inside one call, and fewer
  than 65,536 presentations in between, the capacity of the replay set.
\<close>

theorem captured_request_refused:
  assumes "newCredentialStore options = Inr s" and "soToleranceSeconds options = None"
    and "accessRun env (booted s) (before @ Admit rd1 inp1 (Inr a1) # between @ [Admit rd2 inp2 (Inr a2)]) y"
    and "adAuth a1 = Some PopAuth"
    and "authorization inp2 = authorization inp1" and "presentedNonce (aiHeaders inp2) = presentedNonce (aiHeaders inp1)"
    and "aiNowSeconds inp1 = None" and "aiNowSeconds inp2 = None"
    and "rdStamp rd1 \<le> rdReplay rd1" and "rdReplay rd2 \<le> rdStamp rd2 + 600000"
    and "\<bar>rdStamp rd1\<bar> \<le> 2 ^ 53" and "\<bar>rdStamp rd2\<bar> \<le> 2 ^ 53"
    and "length (admitsIn between) < REPLAY_MAX_ENTRIES" and "\<forall>rd \<in> set (admitsIn between). rdReplay rd1 \<le> rdReplay rd"
  shows "adAuth a2 \<noteq> Some PopAuth"
proof
  assume pop2: "adAuth a2 = Some PopAuth"
  obtain y0 y1 y2 where run: "accessRun env (booted s) before y0" "accessStep env y0 (Admit rd1 inp1 (Inr a1)) y1"
      "accessRun env y1 between y2" "accessStep env y2 (Admit rd2 inp2 (Inr a2)) y"
    using assms(3) by (auto simp: run_append run_Cons)
  have ok: "storeOk (asStore y0)"
    using run_ok [OF run(1)] newCredentialStore_ok [OF assms(1)] by (simp add: booted_def)
  have far: "rdReplay rd1 + REPLAY_WINDOW_SECONDS * 1000 \<le> rdReplay rd2"
    by (rule second_admission [OF run(2,3,4) ok assms(4) pop2 assms(5,6,13,14)])
  have tol: "csTolerance (asStore y0) = 120" "csTolerance (asStore y2) = 120"
    using run_tolerance [OF run(1)] step_tolerance [OF run(2)] run_tolerance [OF run(3)] newCredentialStore_config [OF assms(1)]
      assms(2) by (simp_all add: booted_def POP_TIMESTAMP_TOLERANCE_SECONDS_def)
  obtain s1 where s1: "admit env rd1 inp1 (asStore y0) = (Inr a1, s1)" using run(2) by (auto elim: admitsE)
  obtain s3 where s3: "admit env rd2 inp2 (asStore y2) = (Inr a2, s3)" using run(4) by (auto elim: admitsE)
  obtain h p where one: "authorization inp1 = Some h" "parsePopAuthorization h = Inr p"
      "\<bar>clockSeconds None (rdStamp rd1) - int (paTs p)\<bar> \<le> 120"
    using s1 assms(4) by (rule admitted_fresh) (use assms(7) tol(1) in auto)
  have two: "\<bar>clockSeconds None (rdStamp rd2) - int (paTs p)\<bar> \<le> 120"
    using s3 pop2 by (rule admitted_fresh) (use assms(5,8) one tol(2) in auto)
  have "rdStamp rd2 < rdStamp rd1 + (2 * 120 + 2) * 1000"
    by (rule stamp_spread [OF assms(11,12) one(3) two])
  then show False using far assms(9,10) by (simp add: REPLAY_WINDOW_SECONDS_def)
qed

definition publicAdmission :: admission where
  "publicAdmission = \<lparr>adCredentialId = None, adScope = RPublic, adAuth = None, adNonce = None, adReceiptId = None\<rparr>"

definition publicInput :: "jsstr \<Rightarrow> admission_input" where
  "publicInput h = sampleInput h\<lparr>aiUrl := js ''/v1/weights/x'', aiPeerAddress := None\<rparr>"

lemma public_admitted: "admit env rd (publicInput h) s = (Inr publicAdmission, s)"
proof -
  have "routeScope (js ''GET'') (js ''/v1/weights/x'') = Some RPublic"
    unfolding routeScope_is_table
    by (simp add: normalizedMethod_def toUpper_def upperCu_def segments_def pathOf_def tableScope_def jc_def)
  then show ?thesis by (simp add: admit_def publicInput_def sampleInput_def chargePeer_def publicAdmission_def del: js_Cons)
qed

lemma captured_request_refused_witness:
  "\<exists>h y. accessRun sampleEnv (booted sampleStore)
      [Admit sampleReadings (sampleInput h) (Inr sampleAdmission), Admit sampleReadings (publicInput h) (Inr publicAdmission)] y \<and>
    adAuth sampleAdmission = Some PopAuth \<and> adAuth publicAdmission \<noteq> Some PopAuth"
proof -
  obtain h y where s1: "accessStep sampleEnv (booted sampleStore) (Admit sampleReadings (sampleInput h) (Inr sampleAdmission)) y"
    using sample_run by blast
  have "accessStep sampleEnv y (Admit sampleReadings (publicInput h) (Inr publicAdmission)) (y\<lparr>asStore := asStore y\<rparr>)"
    by (rule accessStep.admits) (rule public_admitted)
  then have run: "accessRun sampleEnv (booted sampleStore)
      ([] @ Admit sampleReadings (sampleInput h) (Inr sampleAdmission) # [] @
        [Admit sampleReadings (publicInput h) (Inr publicAdmission)]) (y\<lparr>asStore := asStore y\<rparr>)"
    using s1 by (auto simp: run_Cons)
  have "adAuth publicAdmission \<noteq> Some PopAuth"
    by (rule captured_request_refused [OF sampleStore_new _ run])
       (simp_all add: sampleOptions_def sampleAdmission_def publicInput_def sampleInput_def authorization_def firstHeader_def
          presentedNonce_def sampleReadings_def admitsIn_def REPLAY_MAX_ENTRIES_def del: js_Cons)
  then show ?thesis using run by (auto simp: sampleAdmission_def)
qed

end
