(* ===== verification/ClientGateway.thy ===== *)
theory ClientGateway
  imports ClientAuth AccessReplay
begin

text \<open>
  The client of packages/sdk and the gateway together: a request the SDK signed with a proof-of-possession
  credential is admitted.
\<close>

text \<open>What the transport may do to a body: none and an empty one are the same on the wire.\<close>

definition sameBody :: "bytes option \<Rightarrow> bytes option \<Rightarrow> bool" where
  "sameBody a b \<longleftrightarrow> (case a of None \<Rightarrow> [] | Some x \<Rightarrow> x) = (case b of None \<Rightarrow> [] | Some x \<Rightarrow> x)"

lemma digest_agrees:
  assumes "sameBody sent received" "toHex (digest []) = EMPTY_BODY_SHA256_HEX"
  shows "bodyDigest digest received = bodyDigestOf digest sent"
  using assms by (auto simp: sameBody_def bodyDigest_def bodyDigestOf_def sha256Hex_def split: option.splits)

lemma header_names: "js ''authorization'' \<noteq> js ''x-ashaveri-nonce''"
  by simp

text \<open>What a signed header list holds.\<close>

lemma applyCredential_pop:
  assumes "applyCredential ce nowMs drawn (SdkPop cred priv) og = Inr hs"
    and "map_of (ogHeaders og) (js ''authorization'') = None"
    and "bodyBytes (ogBody og) = Inr body" and "requestTarget (ceParseUrl ce) (ogUrl og) = Some target"
    and "map_of hs (js ''x-ashaveri-nonce'') = Some (toBase64Url nonce)"
  obtains h where "map_of hs (js ''authorization'') = Some h" "0 \<le> secondsOf nowMs"
    "signPopAuthorization (ceSign ce)
      \<lparr>pfTs = nat (secondsOf nowMs), pfNonce = nonce, pfMethod = toUpper (case ogMethod og of None \<Rightarrow> js ''GET'' | Some m \<Rightarrow> m),
       pfTarget = target, pfBodyDigestHex = bodyDigestOf (ceSha256 ce) body\<rparr> cred priv = Inr h"
proof -
  obtain given h where g: "readNonceHeader (ogHeaders og) = Inr given"
    and sign: "signFields ce (secondsOf nowMs) (case given of None \<Rightarrow> drawn | Some n \<Rightarrow> n)
        (toUpper (case ogMethod og of None \<Rightarrow> js ''GET'' | Some m \<Rightarrow> m)) target (bodyDigestOf (ceSha256 ce) body) cred priv = Inr h"
    and hs: "hs = upsert (js ''authorization'') h
        (upsert (js ''x-ashaveri-nonce'') (sdkToBase64Url (case given of None \<Rightarrow> drawn | Some n \<Rightarrow> n)) (ogHeaders og))"
    using assms(1-4) by (auto simp: applyCredential_def Let_def bindE_Inr simp del: js_Cons)
  have n: "(case given of None \<Rightarrow> drawn | Some n \<Rightarrow> n) = nonce"
    using assms(5) header_names by (simp add: hs sdk_encode del: js_Cons)
  have "0 \<le> secondsOf nowMs \<and> signPopAuthorization (ceSign ce)
      \<lparr>pfTs = nat (secondsOf nowMs), pfNonce = nonce, pfMethod = toUpper (case ogMethod og of None \<Rightarrow> js ''GET'' | Some m \<Rightarrow> m),
       pfTarget = target, pfBodyDigestHex = bodyDigestOf (ceSha256 ce) body\<rparr> cred priv = Inr h"
    using sign unfolding signFields_def n by (auto simp: failIf_def split: sum.splits if_splits)
  then show thesis using that hs by simp
qed

text \<open>
  C6 An honest client is admitted. When the SDK signs a request with a credential the gateway holds, and the
  request arrives as it was sent (the same target, a method that agrees up to case, the two headers, the
  body), the gateway admits it under that credential: provided the credential is not revoked and grants the
  route's scope, the clocks agree within the tolerance, the nonce is fresh and there are tokens left for the
  credential and the connection. It rests on the signer and the verifier being a pair, and on both sides
  computing the SHA-256 whose value on no bytes is the published constant.
\<close>

theorem signed_request_admitted:
  assumes signed: "applyCredential ce nowMs drawn (SdkPop cred priv) og = Inr hs"
      "map_of (ogHeaders og) (js ''authorization'') = None"
    and sent: "bodyBytes (ogBody og) = Inr body" "sameBody body (aiBody inp)"
      "requestTarget (ceParseUrl ce) (ogUrl og) = Some (aiUrl inp)"
      "toUpper (aiMethod inp) = toUpper (case ogMethod og of None \<Rightarrow> js ''GET'' | Some m \<Rightarrow> m)"
      "firstHeader (aiHeaders inp) (js ''authorization'') = map_of hs (js ''authorization'')"
      "firstHeader (aiHeaders inp) (js ''x-ashaveri-nonce'') = map_of hs (js ''x-ashaveri-nonce'')"
      "map_of hs (js ''x-ashaveri-nonce'') = Some (toBase64Url nonce)"
    and crypto: "evSha256 env = ceSha256 ce" "toHex (ceSha256 ce []) = EMPTY_BODY_SHA256_HEX"
      "\<And>m. evVerifier env (ceSign ce m priv) m key"
    and held: "map_of (csById s) cred = Some held" "igPopKey held = Some key" "length key = 32" "cdRevokedAt (igRecord held) = None"
    and scope: "routeScope (aiMethod inp) (aiUrl inp) = Some r" "r \<noteq> RPublic" "scopeSatisfied (cdScopes (igRecord held)) r"
    and fresh: "\<bar>clockSeconds (aiNowSeconds inp) (rdStamp rd) - secondsOf nowMs\<bar> \<le> csTolerance s"
      "\<not> fst (see (nonceKey cred nonce) (rdReplay rd) (csReplay s))"
    and tokens: "tkAllowed (fst (takeToken cred (case cdRate (igRecord held) of None \<Rightarrow> DEFAULT_RATE | Some r \<Rightarrow> r) (rdCharge rd) (csBuckets s)))"
      "\<And>a. aiPeerAddress inp = Some a \<Longrightarrow> tkAllowed (fst (takeToken a (csPeerRate s) (rdPeer rd) (csPeerBuckets s)))"
  shows "\<exists>s'. admit env rd inp s = (Inr \<lparr>adCredentialId = Some cred, adScope = r, adAuth = Some PopAuth, adNonce = Some nonce,
      adReceiptId = receiptIdFrom (aiUrl inp)\<rparr>, s')"
proof -
  obtain h where h: "map_of hs (js ''authorization'') = Some h" "0 \<le> secondsOf nowMs"
    and sign: "signPopAuthorization (ceSign ce)
      \<lparr>pfTs = nat (secondsOf nowMs), pfNonce = nonce, pfMethod = toUpper (case ogMethod og of None \<Rightarrow> js ''GET'' | Some m \<Rightarrow> m),
       pfTarget = aiUrl inp, pfBodyDigestHex = bodyDigestOf (ceSha256 ce) body\<rparr> cred priv = Inr h"
    by (rule applyCredential_pop [OF signed sent(1) sent(3) sent(7)])
  have f: "clientFields env (nat (secondsOf nowMs)) nonce inp =
      \<lparr>pfTs = nat (secondsOf nowMs), pfNonce = nonce, pfMethod = toUpper (case ogMethod og of None \<Rightarrow> js ''GET'' | Some m \<Rightarrow> m),
       pfTarget = aiUrl inp, pfBodyDigestHex = bodyDigestOf (ceSha256 ce) body\<rparr>"
    using digest_agrees [where digest = "ceSha256 ce", OF sent(2) crypto(2)] by (simp add: clientFields_def crypto(1) sent(4) del: js_Cons)
  show ?thesis
    by (rule admit_verified [where sign = "ceSign ce" and ts = "nat (secondsOf nowMs)" and priv = priv and h = h and key = key and held = held])
       (use sent(5-7) h sign held crypto(3) scope fresh tokens in \<open>simp_all add: f\<close>)
qed

definition sampleClient :: client_env where
  "sampleClient = \<lparr>ceSha256 = sampleDigest, ceSign = (\<lambda>_ _. replicate 64 7),
    ceParseUrl = (\<lambda>_. Some (js ''/v1/attestation'', []))\<rparr>"

definition sampleRequest :: outgoing where
  "sampleRequest = \<lparr>ogUrl = js ''https://host/v1/attestation'', ogMethod = None, ogHeaders = [], ogBody = NoBody\<rparr>"

lemma signed_request_admitted_witness:
  "\<exists>hs h s'. applyCredential sampleClient 5000 (replicate 16 3) (SdkPop (js ''a'') []) sampleRequest = Inr hs \<and>
    map_of hs (js ''authorization'') = Some h \<and>
    admit sampleEnv sampleReadings (sampleInput h) sampleStore = (Inr sampleAdmission, s')"
proof -
  obtain h where h: "encodePopAuthorization (js ''a'') (NInt 5) (replicate 64 7) = Inr h" using sample_header by blast
  have t: "secondsOf 5000 = 5" using sample_seconds by (simp add: clockSeconds_def secondsOf_def)
  let ?n = "replicate 16 (3 :: byte)"
  let ?hs = "[(js ''x-ashaveri-nonce'', toBase64Url ?n), (js ''authorization'', h)]"
  have s: "applyCredential sampleClient 5000 ?n (SdkPop (js ''a'') []) sampleRequest = Inr ?hs"
    using h header_names
    by (simp add: applyCredential_def sampleRequest_def readNonceHeader_def bodyBytes_def requestTarget_def sampleClient_def
        signFields_def signPopAuthorization_def t POP_NONCE_BYTES_def failIf_def sdk_encode del: js_Cons)
  have "\<exists>s'. admit sampleEnv sampleReadings (sampleInput h) sampleStore =
      (Inr \<lparr>adCredentialId = Some (js ''a''), adScope = RRead, adAuth = Some PopAuth, adNonce = Some ?n,
        adReceiptId = receiptIdFrom (aiUrl (sampleInput h))\<rparr>, s')"
    by (rule signed_request_admitted [OF s, where body = None and key = "replicate 32 1"])
       (auto simp: sampleRequest_def bodyBytes_def sameBody_def sampleInput_def requestTarget_def sampleClient_def firstHeader_def
          sampleEnv_def sampleDigest_empty sampleStore_def samplePop_def sample_route scopeSatisfied_def sampleReadings_def
          sample_seconds t see_def newReplaySet_def REPLAY_MAX_ENTRIES_def simp del: js_Cons
          intro!: fresh_bucket [OF prod.collapse [symmetric]])
  moreover have "map_of ?hs (js ''authorization'') = Some h" using header_names by (simp del: js_Cons)
  ultimately show ?thesis using s by (auto simp: sampleAdmission_def sampleInput_def sample_receipt simp del: js_Cons)
qed

end
