(* ===== verification/CborRef.thy ===== *)
theory CborRef
  imports Cbor
begin

text \<open>
  A reference codec: the encoding of \<open>Cbor\<close> with a decoder for it, written from RFC 8949, which satisfies
  \<open>lawful\<close>. It shows that the hypothesis about the library can hold and gives the examples a concrete codec;
  nothing about the program is stated over it.
\<close>

definition readHead :: "bytes \<Rightarrow> (nat \<times> nat \<times> bytes) option" where
  "readHead bs =
    (case bs of
       [] \<Rightarrow> None
     | b # t \<Rightarrow>
         let info = unat b mod 32; width = 2 ^ (info - 24) in
         if info < 24 then Some (unat b div 32, info, t)
         else if info < 28 \<and> width \<le> length t then Some (unat b div 32, beNat (take width t), drop width t)
         else None)"

primrec decTimes :: "(bytes \<Rightarrow> ('a \<times> bytes) option) \<Rightarrow> nat \<Rightarrow> bytes \<Rightarrow> ('a list \<times> bytes) option" where
  "decTimes f 0 bs = Some ([], bs)"
| "decTimes f (Suc k) bs =
    (case f bs of
       None \<Rightarrow> None
     | Some (x, t) \<Rightarrow> (case decTimes f k t of None \<Rightarrow> None | Some (xs, t') \<Rightarrow> Some (x # xs, t')))"

definition decPair :: "(bytes \<Rightarrow> ('a \<times> bytes) option) \<Rightarrow> bytes \<Rightarrow> (('a \<times> 'a) \<times> bytes) option" where
  "decPair f bs =
    (case f bs of
       None \<Rightarrow> None
     | Some (k, t) \<Rightarrow> (case f t of None \<Rightarrow> None | Some (v, t') \<Rightarrow> Some ((k, v), t')))"

primrec decItem :: "nat \<Rightarrow> bytes \<Rightarrow> (cval \<times> bytes) option" where
  "decItem 0 bs = None"
| "decItem (Suc n) bs =
    (case readHead bs of
       None \<Rightarrow> None
     | Some (major, arg, t) \<Rightarrow>
         if major = 0 then Some (cint (int arg), t)
         else if major = 1 then Some (cint (- 1 - int arg), t)
         else if major = 2 then (if arg \<le> length t then Some (CBytes (take arg t), drop arg t) else None)
         else if major = 3 then
           (if arg \<le> length t then map_option (\<lambda>cps. (CText (utf16_encode cps), drop arg t)) (utf8_decode (take arg t)) else None)
         else if major = 4 then map_option (\<lambda>(xs, t'). (CArr xs, t')) (decTimes (decItem n) arg t)
         else if major = 5 then map_option (\<lambda>(es, t'). (CMap es, t')) (decTimes (decPair (decItem n)) arg t)
         else if major = 6 then map_option (\<lambda>(v, t'). (CTag arg v, t')) (decItem n t)
         else if arg = 22 then Some (CNull, t)
         else None)"

definition refDecode :: "bytes \<Rightarrow> cval option" where
  "refDecode bs = (case decItem 9 bs of Some (v, []) \<Rightarrow> Some v | _ \<Rightarrow> None)"

definition refCodec :: codec where
  "refCodec = \<lparr>cdEncode = cborEnc, cdDecode = refDecode, cdDecodeNoFloats = refDecode\<rparr>"

lemma readHead_cborHead:
  assumes "major < 8" "n < 2 ^ 64"
  shows "readHead (cborHead major n @ t) = Some (major, n, t)"
proof -
  have h: "unat (byteOf (32 * major + i)) mod 32 = i \<and> unat (byteOf (32 * major + i)) div 32 = major" if "i < 32" for i
    using assms(1) that by simp
  have w: "readHead (byteOf (32 * major + (24 + k)) # beEnc (2 ^ k) n @ t) = Some (major, n, t)" if "k < 4" "n < 256 ^ (2 ^ k)" for k
    using h [of "24 + k"] that by (simp add: readHead_def Let_def beNat_beEnc)
  consider "n < 24" | "24 \<le> n" "n < 2 ^ 8" | "2 ^ 8 \<le> n" "n < 2 ^ 16" | "2 ^ 16 \<le> n" "n < 2 ^ 32" | "2 ^ 32 \<le> n" by linarith
  then show ?thesis
  proof cases
    case 1
    then show ?thesis using h [of n] by (simp add: cborHead_def readHead_def Let_def)
  next
    case 2
    then show ?thesis using w [of 0] by (simp add: cborHead_def)
  next
    case 3
    then show ?thesis using w [of 1] by (simp add: cborHead_def)
  next
    case 4
    then show ?thesis using w [of 2] by (simp add: cborHead_def)
  next
    case 5
    then show ?thesis using w [of 3] assms(2) by (simp add: cborHead_def)
  qed
qed

lemma sortKeys_map: "sortKeys (map (\<lambda>(k, v). (k, f v)) ps) = map (\<lambda>(k, v). (k, f v)) (sortKeys ps)"
proof -
  have "insertKey (k, f v) (map (\<lambda>(k, v). (k, f v)) qs) = map (\<lambda>(k, v). (k, f v)) (insertKey (k, v) qs)" for k v qs
    by (induction qs) auto
  then show ?thesis by (induction ps) (auto simp: sortKeys_def split_beta)
qed

lemma decTimes_concat:
  assumes "\<And>x t. x \<in> set xs \<Longrightarrow> f (e x @ t) = Some (g x, t)"
  shows "decTimes f (length xs) (concat (map e xs) @ t) = Some (map g xs, t)"
  using assms by (induction xs) simp_all

lemma cborEnc_CMap:
  "cborEnc (CMap m) = cborHead 5 (length m) @ concat (map (\<lambda>(k, v). cborEnc k @ cborEnc v)
    (map snd (sortKeys (map (\<lambda>(k, v). (cborEnc k, (k, v))) m))))"
proof -
  define ps where "ps = map (\<lambda>(k, v). (cborEnc k, (k, v))) m"
  have "map (\<lambda>(k, v). (cborEnc k, cborEnc v)) m = map (\<lambda>(a, kv). (a, cborEnc (snd kv))) ps"
    by (simp add: ps_def split_beta comp_def)
  then have e: "sortKeys (map (\<lambda>(k, v). (cborEnc k, cborEnc v)) m) = map (\<lambda>(a, kv). (a, cborEnc (snd kv))) (sortKeys ps)"
    by (simp only: sortKeys_map)
  have "fst q = cborEnc (fst (snd q))" if "q \<in> set (sortKeys ps)" for q
  proof -
    have "q \<in> set ps" using that mset_sortKeys [of ps] by (metis set_mset_mset)
    then show ?thesis by (auto simp: ps_def)
  qed
  then have "map (\<lambda>(k, e). k @ e) (sortKeys (map (\<lambda>(k, v). (cborEnc k, cborEnc v)) m)) =
      map (\<lambda>(k, v). cborEnc k @ cborEnc v) (map snd (sortKeys ps))"
    unfolding e by (simp add: split_beta)
  then show ?thesis by (simp add: ps_def)
qed

lemma canonEntries_sorted:
  "canonEntries m = map (\<lambda>(k, v). (k, canon v)) (map snd (sortKeys (map (\<lambda>(k, v). (cborEnc k, (k, v))) m)))"
proof -
  define ps where "ps = map (\<lambda>(k, v). (cborEnc k, (k, v))) m"
  have "map (\<lambda>(k, v). (cborEnc k, (k, canon v))) m = map (\<lambda>(a, kv). (a, (\<lambda>(k, v). (k, canon v)) kv)) ps"
    by (simp add: ps_def split_beta comp_def)
  then have "sortKeys (map (\<lambda>(k, v). (cborEnc k, (k, canon v))) m) = map (\<lambda>(a, kv). (a, (\<lambda>(k, v). (k, canon v)) kv)) (sortKeys ps)"
    by (simp only: sortKeys_map)
  then show ?thesis by (simp add: canonEntries_def ps_def split_beta comp_def)
qed

lemma mapKey_canon: "mapKey k \<Longrightarrow> plain d k \<and> canon k = k"
  by (cases k rule: mapKey.cases) auto

lemma decItem_int: "\<bar>i\<bar> \<le> MAX_SAFE_INTEGER \<Longrightarrow> decItem (Suc n) (intEnc i @ t) = Some (cint i, t)"
  by (simp add: intEnc_def readHead_cborHead MAX_SAFE_INTEGER_def)

lemma decItem_text:
  assumes "wfText s" "length (textEncode s) < 2 ^ 32"
  shows "decItem (Suc n) (cborEnc (CText s) @ t) = Some (CText s, t)"
proof -
  have "utf8_decode (textEncode s) = Some (utf16_points s)"
    using assms(1) textEncode_wf [OF assms(1)] by (simp add: wfText_def utf8_decode_encode)
  then show ?thesis using assms(2) by (simp add: readHead_cborHead Let_def utf16_encode_points)
qed

lemma set_sortKeys: "set (sortKeys ps) = set ps"
  by (metis mset_sortKeys set_mset_mset)

lemma length_sortKeys: "length (sortKeys ps) = length ps"
  by (metis mset_sortKeys size_mset)

lemma decItem_cborEnc: "plain d v \<Longrightarrow> d < n \<Longrightarrow> decItem n (cborEnc v @ t) = Some (canon v, t)"
proof (induction d v arbitrary: n t rule: plain.induct)
  case (1 d x)
  then obtain i n' where "x = NInt i" "\<bar>i\<bar> \<le> MAX_SAFE_INTEGER" "n = Suc n'" by (cases x; cases n) auto
  then show ?case by (simp add: decItem_int del: decItem.simps)
next
  case (2 d bs)
  then obtain n' where "n = Suc n'" by (cases n) auto
  then show ?case using 2 by (simp add: readHead_cborHead)
next
  case (3 d s)
  then obtain n' where "n = Suc n'" by (cases n) auto
  then show ?case using 3 decItem_text [of s n' t] by (simp del: decItem.simps)
next
  case (4 d xs)
  then obtain n' where n: "n = Suc n'" by (cases n) auto
  have "decItem n' (cborEnc x @ u) = Some (canon x, u)" if "x \<in> set xs" for x u
    using 4 that n by (intro "4.IH") auto
  then have "decTimes (decItem n') (length xs) (concat (map cborEnc xs) @ t) = Some (map canon xs, t)"
    by (rule decTimes_concat)
  then show ?case using 4 n by (simp add: readHead_cborHead)
next
  case (5 d m)
  then obtain n' where n: "n = Suc n'" by (cases n) auto
  define es where "es = map snd (sortKeys (map (\<lambda>(k, v). (cborEnc k, (k, v))) m))"
  have es: "set es = set m" "length es = length m"
    by (force simp: es_def set_sortKeys, simp add: es_def length_sortKeys)
  have "decPair (decItem n') ((case e of (k, v) \<Rightarrow> cborEnc k @ cborEnc v) @ u) = Some ((\<lambda>(k, v). (k, canon v)) e, u)"
    if "e \<in> set es" for e u
  proof -
    obtain k v where e: "e = (k, v)" by (cases e)
    have m: "(k, v) \<in> set m" using that e es by simp
    have "mapKey k" using 5 m by (force simp: list_all_iff)
    then have "decItem n' (cborEnc k @ w) = Some (k, w)" for w
      using 5 n by (cases k rule: mapKey.cases; cases n') (auto simp: decItem_int decItem_text simp del: decItem.simps cborEnc.simps(3))
    moreover have "decItem n' (cborEnc v @ w) = Some (canon v, w)" for w
      using "5.IH" [of "(k, v)" n' w] 5 n m by auto
    ultimately show ?thesis by (simp add: e decPair_def)
  qed
  then have "decTimes (decPair (decItem n')) (length es) (concat (map (\<lambda>(k, v). cborEnc k @ cborEnc v) es) @ t) =
      Some (map (\<lambda>(k, v). (k, canon v)) es, t)"
    by (rule decTimes_concat)
  then have "decItem n ((cborHead 5 (length m) @ concat (map (\<lambda>(k, v). cborEnc k @ cborEnc v) es)) @ t) =
      Some (CMap (canonEntries m), t)"
    using 5 n es by (simp add: readHead_cborHead canonEntries_sorted es_def)
  then show ?case unfolding cborEnc_CMap es_def [symmetric] canon_CMap .
next
  case (6 d k v)
  then obtain n' where n: "n = Suc n'" by (cases n) auto
  have "d - 1 < n'" using 6 n by auto
  then show ?case using 6 n by (simp add: readHead_cborHead)
next
  case (7 d)
  then obtain n' where "n = Suc n'" by (cases n) auto
  then show ?case by (simp add: readHead_def Let_def)
qed simp_all

lemma lawful_refCodec: "lawful refCodec"
  using decItem_cborEnc [of 8 _ 9 "[]"] by (simp add: lawful_def refCodec_def refDecode_def)

end
