(* ===== verification/ReceiptSpec.thy ===== *)
theory ReceiptSpec
  imports Receipt CborRef
begin

text \<open>
  What a receipt that was read satisfies, what verification establishes of it, and the round trip: the bytes
  a writer signed are read back as the payload it was handed. \<open>payloadWf\<close> is the shape of a payload the
  reader returns, \<open>writable\<close> the payloads a caller can hand the writer.
\<close>

subsection \<open>Inversion of the readers\<close>

named_theorems reader_simps \<open>what a reader of the payload accepts\<close>

lemma uintOf_Some [reader_simps]: "uintOf v = Some n \<longleftrightarrow> v = cint (int n) \<and> int n \<le> MAX_SAFE_INTEGER"
  by (auto simp: uintOf_def split: cval.splits jsnum.splits if_splits)

lemma readUint_Inr [reader_simps]: "readUint v = Inr n \<longleftrightarrow> v = cint (int n) \<and> int n \<le> MAX_SAFE_INTEGER"
  by (cases "uintOf v") (auto simp: readUint_def uintOf_Some simp flip: uintOf_Some)

lemma readTstr_Inr [reader_simps]: "readTstr v = Inr s \<longleftrightarrow> v = CText s"
  by (auto simp: readTstr_def split: cval.splits)

lemma readBstr_Inr [reader_simps]: "readBstr n v = Inr bs \<longleftrightarrow> v = CBytes bs \<and> length bs = n"
  by (auto simp: readBstr_def split: cval.splits if_splits)

lemma readMap_Inr [reader_simps]: "readMap v = Inr m \<longleftrightarrow> v = CMap m"
  by (auto simp: readMap_def split: option.splits)

lemma assertMembersAreDefined_Inr [reader_simps]: "assertMembersAreDefined raw d = Inr u \<longleftrightarrow> membersDefined d raw"
  by (simp add: assertMembersAreDefined_def)

lemma claimedVersion_Inr [reader_simps]: "claimedVersion v accepted = Inr i \<longleftrightarrow> v = cint i \<and> i \<in> {1, 2} \<and> i \<in> set accepted"
  by (auto simp: claimedVersion_def isReceiptVersion_def PARSED_VERSIONS_def split: cval.splits jsnum.splits if_splits)

subsection \<open>The shape of a payload\<close>

definition slotWf :: "collateral_slot \<Rightarrow> bool" where
  "slotWf s = (case s of Held d \<Rightarrow> length d = 32 | Absent _ _ \<Rightarrow> True)"

definition payloadWf :: "receipt_payload \<Rightarrow> bool" where
  "payloadWf p \<longleftrightarrow> length (rpNce p) = 16 \<and> length (rpReq p) = 32 \<and> length (rpRes p) = 32 \<and> length (rpWts p) = 32 \<and>
    length (msM (rpMeas p)) = MEASUREMENT_BYTES (msTee (rpMeas p)) \<and> length (erD (rpAtt p)) = 32 \<and>
    length (mkD (rpMk p)) = 32 \<and> slotWf (cvCollateral (rpCva p)) \<and> slotWf (cvValidity (rpCva p)) \<and>
    rpItm p \<noteq> [] \<and> stampsInOrder (rpItm p) \<and> (\<forall>it \<in> set (rpItm p). length (itD it) = 32) \<and>
    (\<forall>pk. rpEnc p = Some (EncSession pk) \<longrightarrow> length pk = 32) \<and>
    (\<forall>n \<in> {rpIat p, erTs (rpAtt p), rpEpk p, tmP (rpTok p), tmC (rpTok p)} \<union> set_option (sdUnc (rpSd p)) \<union> itT ` set (rpItm p).
      int n \<le> MAX_SAFE_INTEGER)"

lemma readMeasurement_Inr: "readMeasurement v = Inr ms \<Longrightarrow> length (msM ms) = MEASUREMENT_BYTES (msTee ms)"
proof -
  assume a: "readMeasurement v = Inr ms"
  then obtain m where m: "v = CMap m" by (auto simp: readMeasurement_def result_simps reader_simps)
  then show ?thesis using a
    by (cases "member m ''tee''")
       (auto simp: readMeasurement_def readMap_def result_simps reader_simps Let_def split: option.splits if_splits)
qed

lemma readEvidenceRef_Inr: "readEvidenceRef v = Inr er \<Longrightarrow> length (erD er) = 32 \<and> int (erTs er) \<le> MAX_SAFE_INTEGER"
  by (auto simp: readEvidenceRef_def result_simps reader_simps)

lemma readTokenMetering_Inr:
  "readTokenMetering v = Inr tm \<Longrightarrow> int (tmP tm) \<le> MAX_SAFE_INTEGER \<and> int (tmC tm) \<le> MAX_SAFE_INTEGER"
  by (auto simp: readTokenMetering_def result_simps reader_simps)

lemma readMarking_Inr: "readMarking raw = Inr mk \<Longrightarrow> length (mkD mk) = 32"
  by (auto simp: readMarking_def result_simps reader_simps Let_def split: option.splits if_splits)

lemma readStampDisclosure_Inr: "readStampDisclosure raw = Inr sd \<Longrightarrow> sdUnc sd = Some n \<Longrightarrow> int n \<le> MAX_SAFE_INTEGER"
  by (auto simp: readStampDisclosure_def result_simps reader_simps Let_def split: if_splits)

lemma readCollateralSlot_Inr: "readCollateralSlot v = Inr s \<Longrightarrow> slotWf s"
proof -
  assume a: "readCollateralSlot v = Inr s"
  then obtain m where m: "v = CMap m" by (auto simp: readCollateralSlot_def result_simps reader_simps)
  then show ?thesis using a
    by (cases "member m ''p''")
       (auto simp: readCollateralSlot_def readMap_def slotWf_def result_simps reader_simps split: option.splits if_splits)
qed

lemma readCollateralAnchor_Inr: "readCollateralAnchor raw = Inr cv \<Longrightarrow> slotWf (cvCollateral cv) \<and> slotWf (cvValidity cv)"
  by (auto simp: readCollateralAnchor_def result_simps reader_simps Let_def dest!: readCollateralSlot_Inr split: if_splits)

lemma readItemStamp_Inr: "readItemStamp v = Inr it \<Longrightarrow> length (itD it) = 32 \<and> int (itT it) \<le> MAX_SAFE_INTEGER"
  by (auto simp: readItemStamp_def result_simps reader_simps)

lemma mapE_set: "mapE f xs = Inr ys \<Longrightarrow> y \<in> set ys \<Longrightarrow> \<exists>x \<in> set xs. f x = Inr y"
  by (induction xs arbitrary: ys) (auto simp: result_simps)

lemma readItemStamps_Inr:
  assumes "readItemStamps raw = Inr items"
  shows "items \<noteq> [] \<and> stampsInOrder items \<and> (\<forall>it \<in> set items. length (itD it) = 32 \<and> int (itT it) \<le> MAX_SAFE_INTEGER)"
proof -
  obtain xs where xs: "member raw ''itm'' = CArr xs" "xs \<noteq> []" "mapE readItemStamp xs = Inr items" "stampsInOrder items"
    using assms by (auto simp: readItemStamps_def result_simps split: cval.splits if_splits)
  then have "items \<noteq> []" using mapE_Inr_length by fastforce
  then show ?thesis using xs(4) mapE_set [OF xs(3)] readItemStamp_Inr by blast
qed

lemma readEncryption_Inr: "readEncryption raw = Inr (EncSession pk) \<Longrightarrow> length pk = 32"
  by (auto simp: readEncryption_def result_simps reader_simps Let_def split: if_splits)

lemma parsePayload_shape:
  assumes "parsePayload env bs accepted = Inr p"
  shows "payloadWf p \<and> receiptVersion p \<in> set accepted \<and>
    (\<exists>raw. cdDecodeNoFloats (reCodec env) bs = Some (CMap raw) \<and> member raw ''v'' = cint (receiptVersion p) \<and>
      membersDefined (DEFINED_MAPS (receiptVersion p)) raw)"
proof -
  obtain raw version where raw: "cdDecodeNoFloats (reCodec env) bs = Some (CMap raw)" "member raw ''v'' = cint version"
      "version \<in> {1, 2}" "version \<in> set accepted" "membersDefined (DEFINED_MAPS version) raw"
    and nums: "int (rpIat p) \<le> MAX_SAFE_INTEGER" "int (rpEpk p) \<le> MAX_SAFE_INTEGER"
    and widths: "length (rpNce p) = 16" "length (rpReq p) = 32" "length (rpRes p) = 32" "length (rpWts p) = 32"
    and rd: "readMeasurement (member raw ''meas'') = Inr (rpMeas p)" "readEvidenceRef (member raw ''att'') = Inr (rpAtt p)"
      "readTokenMetering (member raw ''tok'') = Inr (rpTok p)" "readMarking raw = Inr (rpMk p)"
      "readStampDisclosure raw = Inr (rpSd p)" "readCollateralAnchor raw = Inr (rpCva p)" "readItemStamps raw = Inr (rpItm p)"
      "(if version = 2 then bindE (readEncryption raw) (\<lambda>enc. Inr (Some enc)) else Inr None) = (Inr (rpEnc p) :: failure + encryption option)"
    using assms unfolding parsePayload_def bindE_Inr reader_simps decodeClosedDocument_Inr by fastforce
  have v: "receiptVersion p = version"
    using rd(8) raw(3) by (cases "rpEnc p") (auto simp: receiptVersion_def result_simps split: if_splits)
  have e: "length pk = 32" if "rpEnc p = Some (EncSession pk)" for pk
    using rd(8) that readEncryption_Inr by (auto simp: result_simps split: if_splits)
  have "payloadWf p"
    unfolding payloadWf_def
    using nums widths e readMeasurement_Inr [OF rd(1)] readEvidenceRef_Inr [OF rd(2)] readTokenMetering_Inr [OF rd(3)]
      readMarking_Inr [OF rd(4)] readStampDisclosure_Inr [OF rd(5)] readCollateralAnchor_Inr [OF rd(6)] readItemStamps_Inr [OF rd(7)]
    by auto
  then show ?thesis using raw by (auto simp: v)
qed

subsection \<open>The members of a payload\<close>

text \<open>
  The layout, map by map: which members a payload of a version may name, at the top and in every map it holds.
  Each arm of the anchor and of the encryption has members of its own, chosen by its label.
\<close>

definition onlyNames :: "string list \<Rightarrow> (cval \<times> cval) list \<Rightarrow> bool" where
  "onlyNames names m \<longleftrightarrow> (\<forall>(k, v) \<in> set m. \<exists>n \<in> set names. k = ctext n)"

definition mapNaming :: "string list \<Rightarrow> cval \<Rightarrow> bool" where
  "mapNaming names v \<longleftrightarrow> (case v of CMap m \<Rightarrow> onlyNames names m | _ \<Rightarrow> False)"

definition armNaming :: "string \<Rightarrow> (string \<times> string list) list \<Rightarrow> cval \<Rightarrow> bool" where
  "armNaming label arms v \<longleftrightarrow>
    (case v of CMap m \<Rightarrow> list_ex (\<lambda>(s, names). member m label = ctext s \<and> onlyNames names m) arms | _ \<Rightarrow> False)"

definition payloadClosed :: "int \<Rightarrow> (cval \<times> cval) list \<Rightarrow> bool" where
  "payloadClosed version m \<longleftrightarrow>
    onlyNames ([''v'', ''iss'', ''ins'', ''iat'', ''nce'', ''req'', ''res'', ''mdl'', ''wts'', ''meas'', ''att'', ''epk'', ''tok'',
      ''mk'', ''sd'', ''cva'', ''itm''] @ (if version = 2 then [''enc''] else [])) m \<and>
    mapNaming [''tee'', ''m''] (member m ''meas'') \<and> mapNaming [''d'', ''ts'', ''url''] (member m ''att'') \<and>
    mapNaming [''p'', ''c''] (member m ''tok'') \<and> mapNaming [''sch'', ''d''] (member m ''mk'') \<and>
    mapNaming [''name'', ''unc''] (member m ''sd'') \<and> mapNaming [''col'', ''val''] (member m ''cva'') \<and>
    (case member m ''cva'' of CMap cva \<Rightarrow> \<forall>slot \<in> {''col'', ''val''}. armNaming ''p''
        [(''held'', [''p'', ''d'']), (''absent-at-source'', [''p'', ''r'']), (''not-taken-in'', [''p'', ''r''])] (member cva slot)
      | _ \<Rightarrow> False) \<and>
    (case member m ''itm'' of CArr xs \<Rightarrow> list_all (mapNaming [''t'', ''d'']) xs | _ \<Rightarrow> False) \<and>
    (version = 2 \<longrightarrow> armNaming ''sch'' [(''none'', [''sch'']), (''x25519-aes-256-gcm-v1'', [''sch'', ''pk''])] (member m ''enc''))"

lemma membersDefined_leaf: "membersDefined (leafMap names) m \<longleftrightarrow> onlyNames names m"
proof -
  have "(case k of CText s \<Rightarrow> s \<in> set (map js names) \<and>
      (case map_of [] s of None \<Rightarrow> True | Some inner \<Rightarrow> (case decodedMap v of None \<Rightarrow> True | Some m \<Rightarrow> membersDefined inner m))
      | _ \<Rightarrow> False) \<longleftrightarrow> (\<exists>n \<in> set names. k = ctext n)" for k v
    by (cases k) auto
  then show ?thesis unfolding leafMap_def membersDefined.simps onlyNames_def list_all_iff by simp
qed

lemma naming_CMap [simp]:
  "mapNaming names (CMap m) = onlyNames names m"
  "armNaming label arms (CMap m) = list_ex (\<lambda>(s, names). member m label = ctext s \<and> onlyNames names m) arms"
  by (simp_all add: mapNaming_def armNaming_def)

lemma readCollateralSlot_closed:
  "readCollateralSlot v = Inr s \<Longrightarrow> armNaming ''p''
    [(''held'', [''p'', ''d'']), (''absent-at-source'', [''p'', ''r'']), (''not-taken-in'', [''p'', ''r''])] v"
proof -
  assume a: "readCollateralSlot v = Inr s"
  then obtain m where m: "v = CMap m" by (auto simp: readCollateralSlot_def result_simps reader_simps)
  then show ?thesis using a
    by (cases "member m ''p''")
       (auto simp: readCollateralSlot_def readMap_def result_simps assertMembersAreDefined_Inr membersDefined_leaf PRESENCE_HELD_def
         split: option.splits if_splits)
qed

lemma readItemStamp_closed: "readItemStamp v = Inr it \<Longrightarrow> mapNaming [''t'', ''d''] v"
  by (auto simp: readItemStamp_def result_simps reader_simps membersDefined_leaf)

lemma readItemStamps_closed:
  assumes "readItemStamps raw = Inr items"
  shows "\<exists>xs. member raw ''itm'' = CArr xs \<and> list_all (mapNaming [''t'', ''d'']) xs"
proof -
  obtain xs ys where xs: "member raw ''itm'' = CArr xs" "mapE readItemStamp xs = Inr ys"
    using assms by (auto simp: readItemStamps_def result_simps split: cval.splits if_splits)
  from xs(2) have "list_all (mapNaming [''t'', ''d'']) xs"
    by (induction xs arbitrary: ys) (auto simp: result_simps dest: readItemStamp_closed)
  with xs(1) show ?thesis by blast
qed

lemma readEncryption_closed:
  "readEncryption raw = Inr e \<Longrightarrow>
    armNaming ''sch'' [(''none'', [''sch'']), (''x25519-aes-256-gcm-v1'', [''sch'', ''pk''])] (member raw ''enc'')"
  by (auto simp: readEncryption_def result_simps reader_simps Let_def membersDefined_leaf ENCRYPTION_NONE_def
      ENCRYPTION_SESSION_def split: if_splits)

lemma member_in: "member m n = v \<Longrightarrow> v \<noteq> CUndef \<Longrightarrow> (ctext n, v) \<in> set m"
  by (auto simp: member_def cget_def split: option.splits dest: map_of_SomeD)

lemma nested_closed:
  assumes "membersDefined (DEFINED_MAPS version) raw" and "member raw n = CMap m"
    and "map_of SHARED_NESTED_MAPS (js n) = Some (leafMap names)"
  shows "mapNaming names (member raw n)"
proof -
  have "(ctext n, CMap m) \<in> set raw" by (rule member_in [OF assms(2)]) simp
  with assms(1) have "membersDefined (leafMap names) m"
    using assms(3) by (auto simp: DEFINED_MAPS_def list_all_iff)
  then show ?thesis by (simp add: assms(2) membersDefined_leaf)
qed

lemma membersDefined_top:
  assumes "membersDefined (DefinedMap (map js names) nested) m"
  shows "onlyNames names m"
  unfolding onlyNames_def
proof (intro ballI, clarify)
  fix k v
  assume "(k, v) \<in> set m"
  from bspec [OF assms [unfolded membersDefined.simps list_all_iff] this]
  show "\<exists>n \<in> set names. k = ctext n" by (cases k) auto
qed

lemma parsePayload_closed:
  assumes "parsePayload env bs accepted = Inr p"
  shows "\<exists>raw. cdDecodeNoFloats (reCodec env) bs = Some (CMap raw) \<and> member raw ''v'' = cint (receiptVersion p) \<and>
    membersDefined (DEFINED_MAPS (receiptVersion p)) raw \<and> payloadClosed (receiptVersion p) raw"
proof -
  obtain raw version where raw: "cdDecodeNoFloats (reCodec env) bs = Some (CMap raw)" "member raw ''v'' = cint version"
      "version \<in> {1, 2}" "membersDefined (DEFINED_MAPS version) raw"
    and rd: "readMeasurement (member raw ''meas'') = Inr (rpMeas p)" "readEvidenceRef (member raw ''att'') = Inr (rpAtt p)"
      "readTokenMetering (member raw ''tok'') = Inr (rpTok p)" "readMarking raw = Inr (rpMk p)"
      "readStampDisclosure raw = Inr (rpSd p)" "readCollateralAnchor raw = Inr (rpCva p)" "readItemStamps raw = Inr (rpItm p)"
      "(if version = 2 then bindE (readEncryption raw) (\<lambda>enc. Inr (Some enc)) else Inr None) = (Inr (rpEnc p) :: failure + encryption option)"
    using assms unfolding parsePayload_def bindE_Inr reader_simps decodeClosedDocument_Inr by fastforce
  have v: "receiptVersion p = version"
    using rd(8) raw(3) by (cases "rpEnc p") (auto simp: receiptVersion_def result_simps split: if_splits)
  obtain m1 m2 m3 m4 m5 m6 where m: "member raw ''meas'' = CMap m1" "member raw ''att'' = CMap m2" "member raw ''tok'' = CMap m3"
      "member raw ''mk'' = CMap m4" "member raw ''sd'' = CMap m5" "member raw ''cva'' = CMap m6"
    using rd(1-6)
    by (auto simp: readMeasurement_def readEvidenceRef_def readTokenMetering_def readMarking_def readStampDisclosure_def
        readCollateralAnchor_def result_simps reader_simps Let_def split: if_splits)
  have nested: "mapNaming [''tee'', ''m''] (member raw ''meas'')" "mapNaming [''d'', ''ts'', ''url''] (member raw ''att'')"
      "mapNaming [''p'', ''c''] (member raw ''tok'')" "mapNaming [''sch'', ''d''] (member raw ''mk'')"
      "mapNaming [''name'', ''unc''] (member raw ''sd'')" "mapNaming [''col'', ''val''] (member raw ''cva'')"
    by (rule nested_closed [OF raw(4)], rule m, simp add: SHARED_NESTED_MAPS_def)+
  obtain c d where "readCollateralSlot (member m6 ''col'') = Inr c" "readCollateralSlot (member m6 ''val'') = Inr d"
    using rd(6) m(6) by (auto simp: readCollateralAnchor_def readMap_def result_simps Let_def)
  then have slots: "\<forall>slot \<in> {''col'', ''val''}. armNaming ''p''
      [(''held'', [''p'', ''d'']), (''absent-at-source'', [''p'', ''r'']), (''not-taken-in'', [''p'', ''r''])] (member m6 slot)"
    using readCollateralSlot_closed by blast
  obtain xs where items: "member raw ''itm'' = CArr xs" "list_all (mapNaming [''t'', ''d'']) xs" using readItemStamps_closed [OF rd(7)] by blast
  have arm: "version = 2 \<Longrightarrow> armNaming ''sch'' [(''none'', [''sch'']), (''x25519-aes-256-gcm-v1'', [''sch'', ''pk''])] (member raw ''enc'')"
    using rd(8) readEncryption_closed by (auto simp: result_simps split: if_splits)
  have "onlyNames ([''v'', ''iss'', ''ins'', ''iat'', ''nce'', ''req'', ''res'', ''mdl'', ''wts'', ''meas'', ''att'', ''epk'', ''tok'',
      ''mk'', ''sd'', ''cva'', ''itm''] @ (if version = 2 then [''enc''] else [])) raw"
    using membersDefined_top [OF raw(4) [unfolded DEFINED_MAPS_def]] raw(3)
    by (auto simp: PAYLOAD_MEMBERS_def PAYLOAD_V2_MEMBERS_def)
  then have "payloadClosed version raw"
    unfolding payloadClosed_def m(6) cval.case items(1) using nested [unfolded m(6)] slots items(2) arm by blast
  then show ?thesis using raw by (auto simp: v)
qed

subsection \<open>Reading what was written\<close>

lemma member_Nil [simp]: "member [] n = CUndef"
  by (simp add: member_def cget_def)

lemma member_Cons [simp]: "member ((ctext n, v) # m) n' = (if n = n' then v else member m n')"
  by (simp add: member_def cget_def)

lemma decodedMap_canon: "decodedMap (canon v) = map_option canonEntries (decodedMap v)"
  by (cases v) (auto simp: decodedMap_def canonEntries_def)

lemma membersDefined_canon: "membersDefined d (canonEntries m) = membersDefined d m"
proof (induction d m rule: membersDefined.induct)
  case (1 members nested raw)
  have "membersDefined (DefinedMap members nested) (canonEntries raw) \<longleftrightarrow>
      (\<forall>(k, v) \<in> set raw. case k of
        CText s \<Rightarrow> s \<in> set members \<and>
          (case map_of nested s of None \<Rightarrow> True
           | Some inner \<Rightarrow> (case decodedMap v of None \<Rightarrow> True | Some m \<Rightarrow> membersDefined inner (canonEntries m)))
      | _ \<Rightarrow> False)"
    by (simp add: list_all_iff set_canonEntries split_beta decodedMap_canon option.case_eq_if option.map_sel cong: cval.case_cong)
  also have "\<dots> \<longleftrightarrow> membersDefined (DefinedMap members nested) raw"
    unfolding membersDefined.simps list_all_iff
    by (intro ball_cong refl) (auto simp: "1.IH" split: cval.splits option.splits)
  finally show ?case .
qed

lemma readMap_canon: "readMap (canon (CMap m)) = Inr (canonEntries m)"
  by (simp add: canon_CMap readMap_def del: canon.simps)

named_theorems back_simps \<open>a position read back as it was written\<close>

declare readMap_canon [back_simps] member_canonEntries [back_simps] bindE.simps [back_simps]

lemma readUint_int [back_simps]: "int n \<le> MAX_SAFE_INTEGER \<Longrightarrow> readUint (cint (int n)) = Inr n"
  by (simp add: readUint_Inr)

lemma readTstr_text [back_simps]: "readTstr (CText s) = Inr s"
  by (simp add: readTstr_def)

lemma readBstr_bytes [back_simps]: "length bs = n \<Longrightarrow> readBstr n (CBytes bs) = Inr bs"
  by (simp add: readBstr_def)

lemma teeOf_label [back_simps]: "teeOf (teeLabel k) = Some k"
  by (cases k) (simp_all add: teeOf_def teeKinds_def)

lemma markingScheme_label [back_simps]: "markingScheme (schemeLabel s) = Some s"
  by (cases s) (simp_all add: markingScheme_def)

lemma absence_label [back_simps]: "find (\<lambda>a. absenceLabel a = absenceLabel x) [AbsentAtSource, NotTakenIn] = Some x"
    "absenceLabel x \<noteq> PRESENCE_HELD"
  by (cases x; simp add: PRESENCE_HELD_def)+

lemma members_leaf [back_simps]: "assertMembersAreDefined (canonEntries m) (leafMap ns) =
    (if list_all (\<lambda>(k, v). k \<in> ctext ` set ns) m then Inr () else refuse BAD_PAYLOAD)"
proof -
  have "(case k of CText s \<Rightarrow> s \<in> set (map js ns) \<and>
      (case map_of [] s of None \<Rightarrow> True | Some inner \<Rightarrow> (case decodedMap v of None \<Rightarrow> True | Some m \<Rightarrow> membersDefined inner m))
      | _ \<Rightarrow> False) \<longleftrightarrow> k \<in> ctext ` set ns" for k v
    by (cases k) auto
  then have "membersDefined (leafMap ns) m \<longleftrightarrow> list_all (\<lambda>(k, v). k \<in> ctext ` set ns) m"
    unfolding leafMap_def membersDefined.simps by simp
  then show ?thesis by (simp add: assertMembersAreDefined_def membersDefined_canon failIf_def)
qed

lemma measurement_back:
  "length (msM ms) = MEASUREMENT_BYTES (msTee ms) \<Longrightarrow>
    readMeasurement (canon (CMap [(ctext ''tee'', CText (teeLabel (msTee ms))), (ctext ''m'', CBytes (msM ms))])) = Inr ms"
  by (simp add: readMeasurement_def isTeeKind_def back_simps del: canon.simps(2) find.simps)

lemma evidence_back:
  "length (erD er) = 32 \<Longrightarrow> int (erTs er) \<le> MAX_SAFE_INTEGER \<Longrightarrow>
    readEvidenceRef (canon (CMap [(ctext ''d'', CBytes (erD er)), (ctext ''ts'', cint (int (erTs er))), (ctext ''url'', CText (erUrl er))])) = Inr er"
  by (simp add: readEvidenceRef_def back_simps del: canon.simps(2) find.simps)

lemma metering_back:
  "int (tmP tm) \<le> MAX_SAFE_INTEGER \<Longrightarrow> int (tmC tm) \<le> MAX_SAFE_INTEGER \<Longrightarrow>
    readTokenMetering (canon (CMap [(ctext ''p'', cint (int (tmP tm))), (ctext ''c'', cint (int (tmC tm)))])) = Inr tm"
  by (simp add: readTokenMetering_def back_simps del: canon.simps(2) find.simps)

lemma marking_back:
  "member raw ''mk'' = canon (markingMembers mk) \<Longrightarrow> length (mkD mk) = 32 \<Longrightarrow> readMarking raw = Inr mk"
  by (simp add: readMarking_def markingMembers_def canon_CMap readMap_def back_simps del: canon.simps(2) find.simps)

lemma slot_back: "slotWf s \<Longrightarrow> readCollateralSlot (canon (collateralSlotMembers s)) = Inr s"
  by (cases s) (simp_all add: readCollateralSlot_def slotWf_def back_simps del: canon.simps(2) find.simps)

lemma item_back: "length (itD it) = 32 \<Longrightarrow> int (itT it) \<le> MAX_SAFE_INTEGER \<Longrightarrow> readItemStamp (canon (itemMembers it)) = Inr it"
  by (simp add: readItemStamp_def itemMembers_def back_simps del: canon.simps(2) find.simps)

lemma disclosure_back:
  assumes "member raw ''sd'' = canon (CMap [(ctext ''name'', CText (sdName sd)),
      (ctext ''unc'', case sdUnc sd of None \<Rightarrow> CNull | Some n \<Rightarrow> cint (int n))])"
    and "\<forall>n \<in> set_option (sdUnc sd). int n \<le> MAX_SAFE_INTEGER"
  shows "readStampDisclosure raw = Inr sd"
  using assms(2)
  by (cases "sdUnc sd")
     (simp_all add: readStampDisclosure_def assms(1) canon_CMap readMap_def back_simps del: canon.simps(2))

lemma anchor_back:
  assumes "member raw ''cva'' = canon (CMap [(ctext ''col'', collateralSlotMembers (cvCollateral cv)),
      (ctext ''val'', collateralSlotMembers (cvValidity cv))])" and "slotWf (cvCollateral cv)" "slotWf (cvValidity cv)"
  shows "readCollateralAnchor raw = Inr cv"
  using assms(2,3)
  by (simp add: readCollateralAnchor_def assms(1) canon_CMap readMap_def slot_back back_simps del: canon.simps(2))

lemma items_back:
  assumes "member raw ''itm'' = canon (CArr (map itemMembers items))"
    and "items \<noteq> []" "stampsInOrder items" "\<forall>it \<in> set items. length (itD it) = 32 \<and> int (itT it) \<le> MAX_SAFE_INTEGER"
  shows "readItemStamps raw = Inr items"
proof -
  have "mapE readItemStamp (map canon (map itemMembers items)) = Inr items"
    using assms(4) by (induction items) (simp_all add: item_back)
  then show ?thesis using assms(1-3) by (simp add: readItemStamps_def)
qed

lemma encryption_back:
  assumes "member raw ''enc'' = canon (encryptionMembers e)" and "\<forall>pk. e = EncSession pk \<longrightarrow> length pk = 32"
  shows "readEncryption raw = Inr e"
  using assms
  by (cases e)
     (simp_all add: readEncryption_def canon_CMap readMap_def ENCRYPTION_NONE_def ENCRYPTION_SESSION_def back_simps
       del: canon.simps(2))

subsection \<open>The payloads a caller can hand over\<close>

definition textOkay :: "jsstr \<Rightarrow> bool" where
  "textOkay s \<longleftrightarrow> wfText s \<and> length (textEncode s) < 2 ^ 32 \<and> firstForgingCodePoint s = None \<and> jsTrim s = s"

definition writable :: "receipt_payload \<Rightarrow> bool" where
  "writable p \<longleftrightarrow> payloadWf p \<and> length (rpItm p) < 2 ^ 32 \<and> list_all textOkay (attestedTexts p)"

lemma payload_keys:
  "map fst (payloadEntries p) = map (\<lambda>n. ctext n) (if receiptVersion p = 1 then PAYLOAD_MEMBERS else PAYLOAD_V2_MEMBERS)"
  by (cases "rpEnc p") (simp_all add: payloadEntries_def receiptVersion_def PAYLOAD_MEMBERS_def PAYLOAD_V2_MEMBERS_def)

lemma distinct_payload: "distinct (map fst (payloadEntries p))"
  unfolding payload_keys by (simp add: distinct_map PAYLOAD_MEMBERS_def PAYLOAD_V2_MEMBERS_def inj_on_def)

lemma leaf_walk [simp]: "membersDefined (leafMap ns) m \<longleftrightarrow> list_all (\<lambda>(k, v). k \<in> ctext ` set ns) m"
  using members_leaf [of m ns] by (simp add: assertMembersAreDefined_def membersDefined_canon failIf_def split: if_splits)

lemma receiptVersion_cases: "receiptVersion p = 1 \<or> receiptVersion p = 2"
  by (simp add: receiptVersion_def split: option.split)

lemma nested_maps:
  "map_of SHARED_NESTED_MAPS (js n) = map_option leafMap (map_of [(''meas'', [''tee'', ''m'']), (''att'', [''d'', ''ts'', ''url'']),
    (''tok'', [''p'', ''c'']), (''mk'', [''sch'', ''d'']), (''sd'', [''name'', ''unc'']), (''cva'', [''col'', ''val''])] n)"
  by (simp add: SHARED_NESTED_MAPS_def)

lemma payload_members: "membersDefined (DEFINED_MAPS (receiptVersion p)) (payloadEntries p)"
proof -
  define names where "names = (if receiptVersion p = 1 then PAYLOAD_MEMBERS else PAYLOAD_V2_MEMBERS)"
  have names: "k \<in> ctext ` set names" if "(k, v) \<in> set (payloadEntries p)" for k v
  proof -
    have "k \<in> set (map fst (payloadEntries p))" unfolding set_map using that by (rule rev_image_eqI) simp
    then show ?thesis unfolding payload_keys names_def [symmetric] by simp
  qed
  have leaf: "list_all (\<lambda>(k, w). k \<in> ctext ` set ns) m"
    if "(ctext n, CMap m) \<in> set (payloadEntries p)" "map_of SHARED_NESTED_MAPS (js n) = Some (leafMap ns)" for n m ns
    using that
    by (cases "rpEnc p") (auto simp: payloadEntries_def nested_maps markingMembers_def leafMap_def split: if_splits)
  show ?thesis
    unfolding DEFINED_MAPS_def membersDefined.simps list_all_iff
  proof (intro ballI, clarify)
    fix k v assume kv: "(k, v) \<in> set (payloadEntries p)"
    obtain n where n: "k = ctext n" "n \<in> set names" using names [OF kv] by blast
    have "membersDefined inner m" if s: "map_of SHARED_NESTED_MAPS (js n) = Some inner" "v = CMap m" for inner m
    proof -
      obtain ns where ns: "inner = leafMap ns" using s(1) unfolding nested_maps by blast
      then show ?thesis using leaf [of n m ns] kv n s by simp
    qed
    then show "case k of CText s \<Rightarrow> s \<in> set (map js (if receiptVersion p = 1 then PAYLOAD_MEMBERS else PAYLOAD_V2_MEMBERS)) \<and>
        (case map_of SHARED_NESTED_MAPS s of None \<Rightarrow> True
         | Some inner \<Rightarrow> (case decodedMap v of None \<Rightarrow> True | Some m \<Rightarrow> membersDefined inner m)) | _ \<Rightarrow> False"
      using n by (auto simp: names_def split: option.splits)
  qed
qed

lemma plain_keys: "list_all mapKey (map (\<lambda>n. ctext n) names)" if "list_all (\<lambda>n. asciiStr n \<and> length n < 2 ^ 32) names"
  using that by (induction names) (simp_all add: plain_literal del: mapKey.simps)

lemma payload_mapKeys: "list_all mapKey (map fst (payloadEntries p))"
  unfolding payload_keys
  by (rule plain_keys) (simp add: PAYLOAD_MEMBERS_def PAYLOAD_V2_MEMBERS_def asciiStr_def)

lemma labels_plain [simp]: "plain d (CText (teeLabel k))" "plain d (CText (schemeLabel s))" "plain d (CText (absenceLabel a))"
    "plain d (CText PRESENCE_HELD)" "plain d (CText ENCRYPTION_NONE)" "plain d (CText ENCRYPTION_SESSION)"
proof -
  note lit = plain_literal(1) asciiStr_def
  show "plain d (CText (teeLabel k))" by (cases k) (simp_all add: lit del: plain.simps(3))
  show "plain d (CText (schemeLabel s))" by (cases s) (simp_all add: lit del: plain.simps(3))
  show "plain d (CText (absenceLabel a))" by (cases a) (simp_all add: lit del: plain.simps(3))
  show "plain d (CText PRESENCE_HELD)" "plain d (CText ENCRYPTION_NONE)" "plain d (CText ENCRYPTION_SESSION)"
    by (simp_all add: lit PRESENCE_HELD_def ENCRYPTION_NONE_def ENCRYPTION_SESSION_def del: plain.simps(3))
qed

definition shortName :: "string \<Rightarrow> bool" where
  "shortName n \<longleftrightarrow> asciiStr n \<and> length n < 2 ^ 32"

lemma plain_map:
  assumes "0 < d" "list_all (\<lambda>(n, v). shortName n \<and> plain (d - 1) v) ps" "distinct (map fst ps)" "length ps < 2 ^ 32"
  shows "plain d (CMap (map (\<lambda>(n, v). (ctext n, v)) ps))"
proof -
  have "map fst (map (\<lambda>(n, v). (ctext n, v)) ps) = map (\<lambda>n. ctext n) (map fst ps)" by (simp add: split_beta)
  moreover have "list_all mapKey (map (\<lambda>n. ctext n) (map fst ps))"
    by (rule plain_keys) (use assms(2) in \<open>auto simp: list_all_iff shortName_def\<close>)
  ultimately show ?thesis
    using assms by (auto simp: distinct_map inj_on_def list_all_iff)
qed

lemma plain_maps:
  assumes "0 < d"
  shows "shortName n1 \<Longrightarrow> plain (d - 1) v1 \<Longrightarrow> plain d (CMap [(ctext n1, v1)])"
    and "shortName n1 \<Longrightarrow> plain (d - 1) v1 \<Longrightarrow> shortName n2 \<Longrightarrow> plain (d - 1) v2 \<Longrightarrow> n1 \<noteq> n2 \<Longrightarrow>
      plain d (CMap [(ctext n1, v1), (ctext n2, v2)])"
    and "shortName n1 \<Longrightarrow> plain (d - 1) v1 \<Longrightarrow> shortName n2 \<Longrightarrow> plain (d - 1) v2 \<Longrightarrow> shortName n3 \<Longrightarrow> plain (d - 1) v3 \<Longrightarrow>
      distinct [n1, n2, n3] \<Longrightarrow> plain d (CMap [(ctext n1, v1), (ctext n2, v2), (ctext n3, v3)])"
  using plain_map [OF assms, of "[(n1, v1)]"] plain_map [OF assms, of "[(n1, v1), (n2, v2)]"]
    plain_map [OF assms, of "[(n1, v1), (n2, v2), (n3, v3)]"]
  by (simp_all del: plain.simps)

lemma writable_texts:
  assumes "writable p"
  shows "\<forall>s \<in> set (attestedTexts p). plain d (CText s)"
  using assms by (auto simp: writable_def textOkay_def list_all_iff)

lemma plain_uint: "int n \<le> MAX_SAFE_INTEGER \<Longrightarrow> plain d (cint (int n))"
  by simp

lemma plain_slot:
  assumes "slotWf s" "\<forall>r \<in> set (slotTexts s). plain d (CText r)"
  shows "plain (Suc d) (collateralSlotMembers s)"
  using assms
  by (cases s) (simp_all add: plain_maps slotWf_def shortName_def asciiStr_def del: plain.simps(3,5))

lemma plain_payload:
  assumes "writable p"
  shows "plain 8 (CMap (payloadEntries p))"
proof -
  have tx: "plain d (CText s)" if "s \<in> set (attestedTexts p)" for d s using writable_texts [OF assms] that by blast
  have wf: "payloadWf p" "length (rpItm p) < 2 ^ 32" using assms by (simp_all add: writable_def)
  have texts: "plain d (CText (rpIss p))" "plain d (CText (rpIns p))" "plain d (CText (rpMdl p))"
      "plain d (CText (erUrl (rpAtt p)))" "plain d (CText (sdName (rpSd p)))" for d
    by (rule tx, simp add: attestedTexts_def)+
  have nums: "plain d (cint (int (rpIat p)))" "plain d (cint (int (rpEpk p)))" "plain d (cint (int (erTs (rpAtt p))))"
      "plain d (cint (int (tmP (rpTok p))))" "plain d (cint (int (tmC (rpTok p))))" for d
    using wf(1) by (auto intro!: plain_uint simp: payloadWf_def simp del: plain.simps)
  have v: "plain d (cint (receiptVersion p))" for d
    using receiptVersion_cases [of p] by (auto simp: MAX_SAFE_INTEGER_def)
  have unc: "plain d (case sdUnc (rpSd p) of None \<Rightarrow> CNull | Some n \<Rightarrow> cint (int n))" for d
    using wf(1) by (cases "sdUnc (rpSd p)") (auto simp: payloadWf_def)
  have slots: "plain 6 (collateralSlotMembers (cvCollateral (rpCva p)))" "plain 6 (collateralSlotMembers (cvValidity (rpCva p)))"
    using wf(1) tx plain_slot [of "cvCollateral (rpCva p)" 5] plain_slot [of "cvValidity (rpCva p)" 5]
    by (auto simp: payloadWf_def attestedTexts_def simp del: plain.simps)
  have items: "plain 6 (itemMembers it)" if "it \<in> set (rpItm p)" for it
    unfolding itemMembers_def using wf(1) that
    by (intro plain_maps) (auto simp: payloadWf_def shortName_def asciiStr_def)
  have enc: "plain 7 (encryptionMembers e)" if "rpEnc p = Some e" for e
    using wf(1) that by (cases e) (simp_all add: plain_maps payloadWf_def shortName_def asciiStr_def del: plain.simps(3,5))
  have widths: "plain d (CBytes (rpNce p))" "plain d (CBytes (rpReq p))" "plain d (CBytes (rpRes p))" "plain d (CBytes (rpWts p))"
      "plain d (CBytes (msM (rpMeas p)))" "plain d (CBytes (erD (rpAtt p)))" "plain d (CBytes (mkD (rpMk p)))" for d
    using wf(1) by (auto simp: payloadWf_def MEASUREMENT_BYTES_def split: if_splits)
  have maps: "plain 7 (CMap [(ctext ''tee'', CText (teeLabel (msTee (rpMeas p)))), (ctext ''m'', CBytes (msM (rpMeas p)))])"
      "plain 7 (CMap [(ctext ''d'', CBytes (erD (rpAtt p))), (ctext ''ts'', cint (int (erTs (rpAtt p)))), (ctext ''url'', CText (erUrl (rpAtt p)))])"
      "plain 7 (CMap [(ctext ''p'', cint (int (tmP (rpTok p)))), (ctext ''c'', cint (int (tmC (rpTok p))))])"
      "plain 7 (markingMembers (rpMk p))"
      "plain 7 (CMap [(ctext ''name'', CText (sdName (rpSd p))), (ctext ''unc'', case sdUnc (rpSd p) of None \<Rightarrow> CNull | Some n \<Rightarrow> cint (int n))])"
      "plain 7 (CMap [(ctext ''col'', collateralSlotMembers (cvCollateral (rpCva p))), (ctext ''val'', collateralSlotMembers (cvValidity (rpCva p)))])"
    using widths texts nums unc slots
    by (simp_all add: plain_maps markingMembers_def shortName_def asciiStr_def del: plain.simps)
  have "plain 7 v" if "(k, v) \<in> set (payloadEntries p)" for k v
    using that maps texts nums widths v items enc wf(2)
    by (auto simp: payloadEntries_def simp del: plain.simps(1,2,3,5,6) split: option.splits)
  moreover have "length (payloadEntries p) < 2 ^ 32" by (cases "rpEnc p") (simp_all add: payloadEntries_def)
  ultimately show ?thesis
    using distinct_payload payload_mapKeys by (auto simp del: plain.simps(1-4,6-))
qed

lemma lookup_payload:
  assumes "raw = canonEntries (payloadEntries p)"
  shows "member raw n = canon (member (payloadEntries p) n)"
  unfolding assms by (rule member_canonEntries [OF distinct_payload])

lemma member_payload:
  "member (payloadEntries p) ''enc'' = (case rpEnc p of None \<Rightarrow> CUndef | Some e \<Rightarrow> encryptionMembers e)"
  by (cases "rpEnc p") (simp_all add: payloadEntries_def)

lemma parse_encode:
  assumes law: "lawful (reCodec env)" and w: "writable p" and v: "receiptVersion p \<in> set accepted"
  shows "parsePayload env (encodeCanonical (reCodec env) (CMap (payloadEntries p))) accepted = Inr p"
proof -
  define raw where "raw = canonEntries (payloadEntries p)"
  note at = lookup_payload [OF raw_def]
  have dec: "cdDecodeNoFloats (reCodec env) (encodeCanonical (reCodec env) (CMap (payloadEntries p))) = Some (CMap raw)"
    using lawfulD(3) [OF law plain_payload [OF w]] by (simp add: encodeCanonical_def canon_CMap raw_def del: canon.simps)
  have wf: "payloadWf p" using w by (simp add: writable_def)
  have mem: "assertMembersAreDefined raw (DEFINED_MAPS (receiptVersion p)) = Inr ()"
    using payload_members [of p] by (simp add: assertMembersAreDefined_Inr raw_def membersDefined_canon)
  have ver: "claimedVersion (member raw ''v'') accepted = Inr (receiptVersion p)"
    using v receiptVersion_cases [of p] unfolding claimedVersion_Inr at by (auto simp: payloadEntries_def)
  have enc: "(if receiptVersion p = 2 then bindE (readEncryption raw) (\<lambda>enc. Inr (Some enc)) else Inr None) =
      (Inr (rpEnc p) :: failure + encryption option)"
    using encryption_back [of raw] wf at [of "''enc''"]
    by (cases "rpEnc p") (simp_all add: receiptVersion_def member_payload payloadWf_def)
  have "readMarking raw = Inr (rpMk p)"
    by (rule marking_back) (use wf in \<open>simp_all add: at payloadWf_def payloadEntries_def del: canon.simps\<close>)
  moreover have "readStampDisclosure raw = Inr (rpSd p)"
    by (rule disclosure_back) (use wf in \<open>simp_all add: at payloadWf_def payloadEntries_def del: canon.simps\<close>)
  moreover have "readCollateralAnchor raw = Inr (rpCva p)"
    by (rule anchor_back) (use wf in \<open>simp_all add: at payloadWf_def payloadEntries_def del: canon.simps\<close>)
  moreover have "readItemStamps raw = Inr (rpItm p)"
    by (rule items_back) (use wf in \<open>simp_all add: at payloadWf_def payloadEntries_def del: canon.simps\<close>)
  moreover have "readMeasurement (member raw ''meas'') = Inr (rpMeas p)" "readEvidenceRef (member raw ''att'') = Inr (rpAtt p)"
      "readTokenMetering (member raw ''tok'') = Inr (rpTok p)"
    using wf by (simp_all add: at payloadEntries_def payloadWf_def measurement_back evidence_back metering_back del: canon.simps(2))
  moreover have "readTstr (member raw ''iss'') = Inr (rpIss p)" "readTstr (member raw ''ins'') = Inr (rpIns p)"
      "readTstr (member raw ''mdl'') = Inr (rpMdl p)" "readUint (member raw ''iat'') = Inr (rpIat p)"
      "readUint (member raw ''epk'') = Inr (rpEpk p)" "readBstr 16 (member raw ''nce'') = Inr (rpNce p)"
      "readBstr 32 (member raw ''req'') = Inr (rpReq p)" "readBstr 32 (member raw ''res'') = Inr (rpRes p)"
      "readBstr 32 (member raw ''wts'') = Inr (rpWts p)"
    using wf by (simp_all add: at payloadEntries_def payloadWf_def back_simps)
  ultimately show ?thesis
    using dec mem ver enc
    by (simp add: parsePayload_def decodeClosedDocument_def decodeWith_def readMap_def del: bindE_Inr)
qed

subsection \<open>Verification\<close>

text \<open>The key the caller means for a kid: the one it pinned, else the one its resolver answers.\<close>

definition designates :: "bytes option \<Rightarrow> (bytes \<Rightarrow> bytes option) option \<Rightarrow> bytes \<Rightarrow> bytes \<Rightarrow> bool" where
  "designates pinned resolver kid pk \<longleftrightarrow>
    pinned = Some pk \<or> pinned = None \<and> (\<exists>f. resolver = Some f \<and> f kid = Some pk)"

definition inWindow :: "verify_receipt_options \<Rightarrow> int \<Rightarrow> receipt_payload \<Rightarrow> bool" where
  "inWindow opts now p \<longleftrightarrow> \<not> isStale (rvFreshnessSeconds opts) now (rpIat p) \<and>
    \<not> isStale (rvEvidenceFreshnessSeconds opts) now (erTs (rpAtt p)) \<and>
    (\<forall>nonce. rvExpectedNonce opts = Some nonce \<longrightarrow> rpNce p = nonce)"

definition instantOf :: "verify_receipt_options \<Rightarrow> int \<Rightarrow> failure + int" where
  "instantOf opts clockMs =
    (case rvNowSeconds opts of Some handed \<Rightarrow> verificationSeconds handed | None \<Rightarrow> Inr \<lfloor>rnd (of_int clockMs / 1000)\<rfloor>)"

lemma verifyReceipt_Inr:
  "verifyReceipt env clockMs bs opts = Inr vr \<longleftrightarrow>
    (\<exists>pk now. designates (rvPublicKey opts) (rvResolveKey opts) (phKid (vcHeader vr)) pk \<and>
      decodeCoseSign1 env bs RECEIPT_CONTENT_TYPE = Inr (vcCose vr, vcHeader vr) \<and>
      phKid (vcHeader vr) = keyId env pk \<and> sealedBy env (vcCose vr) pk \<and>
      parsePayload env (coPayload (vcCose vr)) (acceptedVersions (rvAcceptedVersions opts)) = Inr (vcPayload vr) \<and>
      instantOf opts clockMs = Inr now \<and> inWindow opts now (vcPayload vr) \<and>
      vr = \<lparr>vcPayload = vcPayload vr, vcHeader = vcHeader vr, vcCose = vcCose vr\<rparr>)" (is "?l = ?r")
proof -
  define opened where "opened = (case rvPublicKey opts of
        Some publicKey \<Rightarrow> verifyCoseSign1 env bs publicKey [] RECEIPT_CONTENT_TYPE
      | None \<Rightarrow> (case rvResolveKey opts of
          Some resolveKey \<Rightarrow>
            bindE (decodeCoseSign1 env bs RECEIPT_CONTENT_TYPE) (\<lambda>(cose, header).
              case resolveKey (phKid header) of
                None \<Rightarrow> refuse UNKNOWN_KEY
              | Some key \<Rightarrow> verifyCoseSign1 env bs key [] RECEIPT_CONTENT_TYPE)
        | None \<Rightarrow> refuse UNKNOWN_KEY))"
  have o: "opened = Inr (co, h) \<longleftrightarrow> (\<exists>pk. designates (rvPublicKey opts) (rvResolveKey opts) (phKid h) pk \<and>
      decodeCoseSign1 env bs RECEIPT_CONTENT_TYPE = Inr (co, h) \<and> phKid h = keyId env pk \<and> sealedBy env co pk)" for co h
    unfolding opened_def designates_def sealedBy_def
    by (cases "rvPublicKey opts"; cases "rvResolveKey opts"; cases "decodeCoseSign1 env bs RECEIPT_CONTENT_TYPE")
       (auto simp: verifyCoseSign1_Inr split: option.splits)
  have n: "(case rvExpectedNonce opts of None \<Rightarrow> False | Some nonce \<Rightarrow> \<not> sameBytes (rpNce p) nonce) \<longleftrightarrow>
      \<not> (\<forall>nonce. rvExpectedNonce opts = Some nonce \<longrightarrow> rpNce p = nonce)" for p
    by (cases "rvExpectedNonce opts") auto
  have "?l \<longleftrightarrow> (\<exists>co h p now. opened = Inr (co, h) \<and>
      parsePayload env (coPayload co) (acceptedVersions (rvAcceptedVersions opts)) = Inr p \<and>
      instantOf opts clockMs = Inr now \<and> inWindow opts now p \<and> vr = \<lparr>vcPayload = p, vcHeader = h, vcCose = co\<rparr>)"
    unfolding verifyReceipt_def opened_def [symmetric] instantOf_def [symmetric] inWindow_def n bindE_Inr failIf_simps
    by (auto simp: bindE_Inr)
  then show ?thesis unfolding o by (cases vr) auto
qed

text \<open>
  C12 What every payload that was read satisfies, for any codec: it is one of the versions the caller accepts
  and the bytes said so; it names no member that version does not define, in any map it holds, down to the arms
  of the anchor, the item stamps and the arm of the encryption, each of which has the members of its label;
  every digest, nonce, measurement and key has its width, every count and stamp is a safe integer from zero,
  and the items are at least one and stamped in order.
\<close>

theorem parsePayload_wf:
  assumes "parsePayload env bs accepted = Inr p"
  shows "payloadWf p \<and> receiptVersion p \<in> set accepted \<and>
    (\<exists>raw. cdDecodeNoFloats (reCodec env) bs = Some (CMap raw) \<and> member raw ''v'' = cint (receiptVersion p) \<and>
      membersDefined (DEFINED_MAPS (receiptVersion p)) raw \<and> payloadClosed (receiptVersion p) raw)"
  using parsePayload_shape [OF assms] parsePayload_closed [OF assms] by blast

text \<open>
  C7 What a verified receipt establishes: a key the caller designates for the kid in the signed header, whose
  digest is that kid, verifies the signature over exactly the header and payload bytes; the content type is
  the receipt's; the payload is the reading of those bytes, in a version the caller accepts; it carries the
  nonce the caller expects, and both its stamps lie within the windows the caller set, measured from the
  instant it handed over or the host clock.
\<close>

theorem verifyReceipt_sound:
  assumes "verifyReceipt env clockMs bs opts = Inr vr"
  shows "\<exists>pk now. designates (rvPublicKey opts) (rvResolveKey opts) (phKid (vcHeader vr)) pk \<and>
    phKid (vcHeader vr) = reSha256 env pk \<and> phContentType (vcHeader vr) = RECEIPT_CONTENT_TYPE \<and>
    reVerify env (coSignature (vcCose vr)) (sigStructure env (coProtected (vcCose vr)) [] (coPayload (vcCose vr))) pk = Some True \<and>
    parsePayload env (coPayload (vcCose vr)) (acceptedVersions (rvAcceptedVersions opts)) = Inr (vcPayload vr) \<and>
    payloadWf (vcPayload vr) \<and> instantOf opts clockMs = Inr now \<and> inWindow opts now (vcPayload vr)"
  using assms parsePayload_shape
  unfolding verifyReceipt_Inr decodeCoseSign1_Inr parseProtectedHeader_Inr sealedBy_def keyId_def
  by (metis protected_header.select_convs(3))

lemma content_type_ascii: "ascii RECEIPT_CONTENT_TYPE" "length RECEIPT_CONTENT_TYPE < 2 ^ 16"
  unfolding RECEIPT_CONTENT_TYPE_def by (rule ascii_js) (simp_all add: asciiStr_def js_def)

lemma writable_encodable: "writable p \<Longrightarrow> assertEncodable p = Inr ()"
proof -
  have "mapE assertLineSafeText ss = Inr (map (\<lambda>_. ()) ss)" if "list_all textOkay ss" for ss
    using that by (induction ss) (simp_all add: textOkay_def assertLineSafeText_def failIf_def)
  then show "writable p \<Longrightarrow> assertEncodable p = Inr ()" by (simp add: assertEncodable_def writable_def)
qed

lemma issued_opens:
  assumes law: "lawful (reCodec env)" and w: "writable p" and key: "workingKey env key"
    and size: "length (cborEnc (CMap (payloadEntries p))) < 2 ^ 32"
  shows "\<exists>bs co. issueReceipt env p key = Inr bs \<and>
    decodeCoseSign1 env bs RECEIPT_CONTENT_TYPE =
      Inr (co, \<lparr>phAlg = ALG_EDDSA, phKid = skKid key, phContentType = RECEIPT_CONTENT_TYPE\<rparr>) \<and>
    coPayload co = encodeCanonical (reCodec env) (CMap (payloadEntries p)) \<and> sealedBy env co (skPublicKey key)"
proof -
  have "length (encodeCanonical (reCodec env) (CMap (payloadEntries p))) < 2 ^ 32"
    using size lawfulD(1) [OF law plain_payload [OF w]] by (simp add: encodeCanonical_def del: cborEnc.simps)
  from sealed_opens [OF law key content_type_ascii this]
  show ?thesis using w writable_encodable [OF w]
    by (auto simp: issueReceipt_def encodePayload_def writable_def payloadWf_def failIf_def)
qed

lemma issued_verifies:
  assumes "lawful (reCodec env)" and "writable p" and "workingKey env key"
    and "length (cborEnc (CMap (payloadEntries p))) < 2 ^ 32"
    and "designates (rvPublicKey opts) (rvResolveKey opts) (skKid key) (skPublicKey key)"
    and "receiptVersion p \<in> set (acceptedVersions (rvAcceptedVersions opts))"
    and "instantOf opts clockMs = Inr now" and "inWindow opts now p"
  shows "\<exists>bs vr. issueReceipt env p key = Inr bs \<and> verifyReceipt env clockMs bs opts = Inr vr \<and>
    vcPayload vr = p \<and> phKid (vcHeader vr) = skKid key"
proof -
  obtain bs co where bs: "issueReceipt env p key = Inr bs"
      "decodeCoseSign1 env bs RECEIPT_CONTENT_TYPE =
        Inr (co, \<lparr>phAlg = ALG_EDDSA, phKid = skKid key, phContentType = RECEIPT_CONTENT_TYPE\<rparr>)"
      "coPayload co = encodeCanonical (reCodec env) (CMap (payloadEntries p))" "sealedBy env co (skPublicKey key)"
    using issued_opens [OF assms(1-4)] by blast
  let ?vr = "\<lparr>vcPayload = p, vcHeader = \<lparr>phAlg = ALG_EDDSA, phKid = skKid key, phContentType = RECEIPT_CONTENT_TYPE\<rparr>, vcCose = co\<rparr>"
  have "skKid key = keyId env (skPublicKey key)" using assms(3) unfolding workingKey_def by blast
  then have "verifyReceipt env clockMs bs opts = Inr ?vr"
    unfolding verifyReceipt_Inr using bs parse_encode [OF assms(1,2,6)] assms(5,7,8) by auto
  then show ?thesis using bs(1) by auto
qed

text \<open>
  C11 What was issued verifies. For a payload a caller can state and a working key, under a codec that keeps
  RFC 8949, the receipt is issued, and every reader that designates the key, accepts the version, expects no
  other nonce and stands inside its own windows verifies it and reads back exactly the payload.
\<close>

theorem receipt_roundtrip:
  assumes "lawful (reCodec env)" and "writable p" and "workingKey env key"
    and "length (cborEnc (CMap (payloadEntries p))) < 2 ^ 32"
    and "designates (rvPublicKey opts) (rvResolveKey opts) (skKid key) (skPublicKey key)"
    and "receiptVersion p \<in> set (acceptedVersions (rvAcceptedVersions opts))"
    and "instantOf opts clockMs = Inr now" and "inWindow opts now p"
  shows "\<exists>bs vr. issueReceipt env p key = Inr bs \<and> verifyReceipt env clockMs bs opts = Inr vr \<and>
    vcPayload vr = p \<and> phKid (vcHeader vr) = skKid key"
  by (rule issued_verifies [OF assms])

subsection \<open>An example deployment\<close>

definition toyHash :: "bytes \<Rightarrow> bytes" where
  "toyHash bs = 1 # byteOf (length bs mod 256) # take 30 (rev bs @ replicate 30 0)"

definition toyEnv :: receipt_env where
  "toyEnv = \<lparr>reCodec = refCodec, reSha256 = toyHash, reVerify = (\<lambda>s m k. Some (s = toyHash m @ k)),
    reSign = (\<lambda>m k. Some (toyHash m @ k)), rePublicKey = (\<lambda>seed. seed), reNative = None\<rparr>"

definition toyKey :: signing_key where
  "toyKey = (let seed = replicate 32 7 in \<lparr>skPrivateKey = seed, skPublicKey = seed, skKid = toyHash seed\<rparr>)"

definition samplePayload :: "nat \<Rightarrow> receipt_payload" where
  "samplePayload stamp = \<lparr>rpIss = js ''iss'', rpIns = js ''a'', rpIat = stamp, rpNce = replicate 16 1, rpReq = replicate 32 2,
    rpRes = replicate 32 3, rpMdl = js ''m'', rpWts = replicate 32 4, rpMeas = \<lparr>msTee = TeeSnp, msM = replicate 48 5\<rparr>,
    rpAtt = \<lparr>erD = replicate 32 6, erTs = stamp, erUrl = js ''u''\<rparr>, rpEpk = 0, rpTok = \<lparr>tmP = 1, tmC = 2\<rparr>,
    rpMk = \<lparr>mkSch = MarkNone, mkD = replicate 32 0\<rparr>, rpSd = \<lparr>sdName = js ''host'', sdUnc = None\<rparr>,
    rpCva = \<lparr>cvCollateral = Absent NotTakenIn (js ''r''), cvValidity = Absent AbsentAtSource (js ''r'')\<rparr>,
    rpItm = [\<lparr>itT = stamp, itD = replicate 32 8\<rparr>], rpEnc = None\<rparr>"

definition sampleVerify :: verify_receipt_options where
  "sampleVerify = \<lparr>rvPublicKey = Some (replicate 32 7), rvResolveKey = None, rvExpectedNonce = None,
    rvNowSeconds = Some (NInt 1800000000), rvFreshnessSeconds = Some 60, rvEvidenceFreshnessSeconds = None, rvAcceptedVersions = None\<rparr>"

lemma length_toyHash [simp]: "length (toyHash bs) = 32"
  by (simp add: toyHash_def)

lemma toyKey_works: "workingKey toyEnv toyKey"
  by (simp add: workingKey_def toyEnv_def toyKey_def keyId_def signEd25519_def nativeEd25519Signer_def thrown_def Let_def)

lemma lawful_toyEnv: "lawful (reCodec toyEnv)"
  by (simp add: toyEnv_def lawful_refCodec)

lemma textOkay_printing:
  assumes "\<forall>c \<in> set s. 0x21 \<le> unat c \<and> unat c < 0x7f" "length s < 2 ^ 32"
  shows "textOkay s"
proof -
  have a: "ascii s" using assms(1) by (auto simp: ascii_def list_all_iff)
  have "\<not> forgesALine c" if "0x21 \<le> c" "c < 0x7f" for c
    using that by (simp add: forgesALine_def FORMAT_CHARACTERS_def)
  then have f: "firstForgingCodePoint s = None"
    using assms(1) by (auto simp: firstForgingCodePoint_def utf16_points_ascii [OF a] find_None_iff)
  have "\<not> jsSpace c" if "c \<in> set s" for c
    using assms(1) that by (auto simp: jsSpace_def Let_def)
  then have "jsTrim s = s"
    by (cases "s = []") (simp_all add: jsTrim_def dropWhile_eq_self_iff [THEN iffD2] hd_rev)
  then show ?thesis using a f assms(2) by (simp add: textOkay_def wfText_ascii length_textEncode_ascii)
qed

lemma textOkay_samples: "list_all textOkay (map js [''iss'', ''a'', ''m'', ''u'', ''none'', ''host'', ''r''])"
  by (simp, intro conjI textOkay_printing) (simp_all add: js_def)

lemma samplePayload_writable: "stamp < 2 ^ 32 \<Longrightarrow> writable (samplePayload stamp)"
  using textOkay_samples
  by (simp add: writable_def payloadWf_def samplePayload_def attestedTexts_def slotWf_def MEASUREMENT_BYTES_def MAX_SAFE_INTEGER_def)

lemma samplePayload_size: "length (cborEnc (CMap (payloadEntries (samplePayload stamp)))) < 2 ^ 32"
proof -
  have "cborBound (CMap (payloadEntries (samplePayload stamp))) < 2 ^ 32"
    by (simp add: payloadEntries_def samplePayload_def markingMembers_def itemMembers_def PRESENCE_HELD_def asciiStr_def)
  then show ?thesis using length_cborEnc [of "CMap (payloadEntries (samplePayload stamp))"] by linarith
qed

lemma instantOf_sample: "instantOf sampleVerify 0 = Inr 1800000000"
  by (simp add: instantOf_def sampleVerify_def verificationSeconds_def MAX_SAFE_INTEGER_def
      EARLIEST_VERIFICATION_SECONDS_def LATEST_VERIFICATION_SECONDS_def)

lemma inWindow_sample: "inWindow sampleVerify 1800000000 (samplePayload 1800000000)"
  by (simp add: inWindow_def sampleVerify_def samplePayload_def isStale_def)

lemmas sample_issue = lawful_toyEnv samplePayload_writable toyKey_works samplePayload_size

lemma sample_designation:
  "designates (rvPublicKey sampleVerify) (rvResolveKey sampleVerify) (skKid toyKey) (skPublicKey toyKey)"
  "receiptVersion (samplePayload stamp) \<in> set (acceptedVersions (rvAcceptedVersions sampleVerify))"
  by (simp_all add: designates_def sampleVerify_def toyKey_def Let_def samplePayload_def receiptVersion_def
      acceptedVersions_def PARSED_VERSIONS_def)

lemma receipt_roundtrip_witness:
  "\<exists>bs vr. issueReceipt toyEnv (samplePayload 1800000000) toyKey = Inr bs \<and> verifyReceipt toyEnv 0 bs sampleVerify = Inr vr \<and>
    vcPayload vr = samplePayload 1800000000 \<and> phKid (vcHeader vr) = skKid toyKey"
  by (rule receipt_roundtrip [OF sample_issue sample_designation instantOf_sample inWindow_sample]) simp

lemma verifyReceipt_sound_witness:
  "\<exists>bs vr. verifyReceipt toyEnv 0 bs sampleVerify = Inr vr \<and> payloadWf (vcPayload vr) \<and>
    phContentType (vcHeader vr) = RECEIPT_CONTENT_TYPE \<and>
    (\<exists>now. instantOf sampleVerify 0 = Inr now \<and> inWindow sampleVerify now (vcPayload vr))"
proof -
  obtain bs vr where v: "verifyReceipt toyEnv 0 bs sampleVerify = Inr vr"
    using issued_verifies [OF sample_issue sample_designation instantOf_sample inWindow_sample] by auto
  show ?thesis using v verifyReceipt_sound [OF v] by blast
qed

lemma parsePayload_wf_witness:
  "payloadWf (samplePayload 1800000000) \<and> receiptVersion (samplePayload 1800000000) \<in> set PARSED_VERSIONS \<and>
    (\<exists>raw. cdDecodeNoFloats (reCodec toyEnv) (encodeCanonical (reCodec toyEnv) (CMap (payloadEntries (samplePayload 1800000000)))) =
      Some (CMap raw) \<and> payloadClosed 1 raw)"
proof -
  have v: "receiptVersion (samplePayload 1800000000) = 1" by (simp add: samplePayload_def receiptVersion_def)
  have "parsePayload toyEnv (encodeCanonical (reCodec toyEnv) (CMap (payloadEntries (samplePayload 1800000000)))) PARSED_VERSIONS =
      Inr (samplePayload 1800000000)"
    by (rule parse_encode [OF lawful_toyEnv samplePayload_writable]) (simp_all add: v PARSED_VERSIONS_def)
  from parsePayload_wf [OF this] show ?thesis unfolding v by blast
qed

end
