(* ===== verification/Pack.thy ===== *)
theory Pack
  imports Receipt
begin

text \<open>
  packages/receipt/src/provenance.ts and pack.ts: a pack of receipts, its manifest read and written, the
  digest of a record, the walk over the links from the anchor to the head, the references and the attached
  material, and the verification of the whole. A stamp or a duration is a \<open>nat\<close>, as the reader requires.
\<close>

subsection \<open>Provenance\<close>

datatype provenance = Live | Captured | Fixture

fun provenanceLabel :: "provenance \<Rightarrow> jsstr" where
  "provenanceLabel Live = js ''live''"
| "provenanceLabel Captured = js ''captured''"
| "provenanceLabel Fixture = js ''fixture''"

definition PROVENANCES :: "provenance list" where
  "PROVENANCES = [Live, Captured, Fixture]"

definition provenanceOf :: "cval \<Rightarrow> provenance option" where
  "provenanceOf v = (case v of CText s \<Rightarrow> find (\<lambda>p. provenanceLabel p = s) PROVENANCES | _ \<Rightarrow> None)"

text \<open>\<open>PROVENANCES.indexOf\<close>.\<close>

fun strength :: "provenance \<Rightarrow> nat" where
  "strength Live = 0"
| "strength Captured = 1"
| "strength Fixture = 2"

definition reduceProvenance :: "provenance list \<Rightarrow> failure + provenance" where
  "reduceProvenance values =
    (case values of
       [] \<Rightarrow> Inl Thrown
     | first # _ \<Rightarrow> Inr (foldl (\<lambda>weakest one. if strength one > strength weakest then one else weakest) first values))"

subsection \<open>Data\<close>

datatype anchor_slot = SlotCol | SlotVal

fun slotLabel :: "anchor_slot \<Rightarrow> jsstr" where
  "slotLabel SlotCol = js ''col''"
| "slotLabel SlotVal = js ''val''"

datatype weighing_arm = ArmServed | ArmEmbedded

fun armLabel :: "weighing_arm \<Rightarrow> jsstr" where
  "armLabel ArmServed = js ''served''"
| "armLabel ArmEmbedded = js ''embedded''"

record pack_span =
  psFrom :: nat
  psTo :: nat

record pack_chain =
  pcAnchor :: bytes
  pcHead :: bytes

record pack_duty =
  pdArt :: jsstr
  pdRev :: nat
  pdRequired :: nat
  pdHeld :: nat

record pack_item =
  piId :: jsstr
  piIat :: nat
  piProv :: provenance
  piPrev :: bytes
  piReceipt :: bytes

record custody_entry =
  cyItem :: jsstr
  cySlot :: anchor_slot
  cyO :: jsstr
  cyU :: jsstr
  cyI :: "jsstr option"
  cyS :: nat
  cyN :: "nat option"
  cyB :: bytes
  cyC :: "bytes option"
  cyA :: weighing_arm
  cyW :: pack_span
  cyY :: jsstr

record attached_object =
  aoBytes :: bytes
  aoSha256 :: bytes
  aoChain :: "bytes option"
  aoChainSha256 :: "bytes option"

record pack_manifest =
  pmAt :: nat
  pmProv :: provenance
  pmSpan :: pack_span
  pmChain :: pack_chain
  pmDuty :: pack_duty
  pmItems :: "pack_item list"
  pmCustody :: "custody_entry list"
  pmAttached :: "attached_object list"

definition PACK_CONTENT_TYPE :: jsstr where "PACK_CONTENT_TYPE = js ''ashaveri/pack''"
definition DIGEST_BYTES :: nat where "DIGEST_BYTES = 32"
definition ID_MAX_BYTES :: nat where "ID_MAX_BYTES = 65535"
definition ID_LENGTH_BYTES :: nat where "ID_LENGTH_BYTES = 2"
definition IAT_BYTES :: nat where "IAT_BYTES = 8"
definition REQUEST_MAX_BYTES :: nat where "REQUEST_MAX_BYTES = 2048"
definition TEXT_MAX_BYTES :: nat where "TEXT_MAX_BYTES = ID_MAX_BYTES"
definition CARRIED_MAX_BYTES :: nat where "CARRIED_MAX_BYTES = ID_MAX_BYTES"
definition CUSTODY_SLOTS_PER_ITEM :: nat where "CUSTODY_SLOTS_PER_ITEM = 2"

lemmas width_defs = DIGEST_BYTES_def ID_MAX_BYTES_def ID_LENGTH_BYTES_def IAT_BYTES_def REQUEST_MAX_BYTES_def
  TEXT_MAX_BYTES_def CARRIED_MAX_BYTES_def CUSTODY_SLOTS_PER_ITEM_def

definition PACK_MANIFEST_MEMBERS :: "string list" where
  "PACK_MANIFEST_MEMBERS = [''v'', ''at'', ''prov'', ''span'', ''chain'', ''duty'', ''items'', ''custody'', ''attached'']"
definition PACK_SPAN_MEMBERS :: "string list" where "PACK_SPAN_MEMBERS = [''from'', ''to'']"
definition PACK_CHAIN_MEMBERS :: "string list" where "PACK_CHAIN_MEMBERS = [''anchor'', ''head'']"
definition PACK_DUTY_MEMBERS :: "string list" where "PACK_DUTY_MEMBERS = [''art'', ''rev'', ''required'', ''held'']"
definition PACK_ITEM_MEMBERS :: "string list" where "PACK_ITEM_MEMBERS = [''id'', ''iat'', ''prov'', ''prev'', ''receipt'']"
definition PACK_CUSTODY_MEMBERS :: "string list" where
  "PACK_CUSTODY_MEMBERS = [''k'', ''o'', ''u'', ''i'', ''s'', ''n'', ''b'', ''c'', ''a'', ''w'', ''y'']"
definition PACK_CUSTODY_KEY_MEMBERS :: "string list" where "PACK_CUSTODY_KEY_MEMBERS = [''item'', ''slot'']"
definition PACK_WINDOW_MEMBERS :: "string list" where "PACK_WINDOW_MEMBERS = [''from'', ''to'']"
definition PACK_ATTACHED_MEMBERS :: "string list" where
  "PACK_ATTACHED_MEMBERS = [''bytes'', ''sha256'', ''chain'', ''chain_sha256'']"

subsection \<open>The record digest and the walk\<close>

definition badManifest :: "failure + 'a" where
  "badManifest = refuse PACK_BAD_MANIFEST"

definition recordFrame :: "bytes \<Rightarrow> nat \<Rightarrow> bytes \<Rightarrow> bytes \<Rightarrow> bytes" where
  "recordFrame prev iat i receipt = 0 # prev @ beEnc IAT_BYTES iat @ beEnc ID_LENGTH_BYTES (length i) @ i @ receipt"

definition recordDigestOf :: "receipt_env \<Rightarrow> bytes \<Rightarrow> nat \<Rightarrow> jsstr \<Rightarrow> bytes \<Rightarrow> failure + bytes" where
  "recordDigestOf env prev iat name receipt =
    (let i = textEncode name in
     if length prev \<noteq> DIGEST_BYTES then badManifest
     else if length i = 0 \<or> length i > ID_MAX_BYTES then badManifest
     else Inr (reSha256 env (recordFrame prev iat i receipt)))"

definition packRecordDigest :: "receipt_env \<Rightarrow> pack_item \<Rightarrow> failure + bytes" where
  "packRecordDigest env it = recordDigestOf env (piPrev it) (piIat it) (piId it) (piReceipt it)"

text \<open>
  \<open>walk\<close> over records that carry an item. The loop ends because each turn visits a name it had not visited.
\<close>

function walkFrom ::
  "('r \<Rightarrow> pack_item) \<Rightarrow> receipt_env \<Rightarrow> 'r list \<Rightarrow> jsstr set \<Rightarrow> bytes \<Rightarrow> failure + 'r list \<times> bytes" where
  "walkFrom item env records visited cursor =
    (case filter (\<lambda>one. piId (item one) \<notin> visited \<and> sameBytes (piPrev (item one)) cursor) records of
       [] \<Rightarrow> Inr ([], cursor)
     | [r] \<Rightarrow>
         bindE (packRecordDigest env (item r)) (\<lambda>digest.
         bindE (walkFrom item env records (insert (piId (item r)) visited) digest) (\<lambda>(walked, end).
           Inr (r # walked, end)))
     | _ \<Rightarrow> refuse PACK_CHAIN_BROKEN)"
  by pat_completeness auto

termination
proof (relation "measure (\<lambda>(item, env, records, visited, cursor). length (filter (\<lambda>one. piId (item one) \<notin> visited) records))")
  fix item :: "'r \<Rightarrow> pack_item" and env records visited cursor r rest digest
  assume f: "filter (\<lambda>one. piId (item one) \<notin> visited \<and> sameBytes (piPrev (item one)) cursor) records = r # rest"
  then have "r \<in> set (filter (\<lambda>one. piId (item one) \<notin> visited \<and> sameBytes (piPrev (item one)) cursor) records)" by simp
  then have r: "r \<in> set records" "piId (item r) \<notin> visited" by auto
  have "length (filter (\<lambda>one. piId (item one) \<notin> insert (piId (item r)) visited) records) <
      length (filter (\<lambda>one. piId (item one) \<notin> visited) records)"
  proof -
    have "filter (\<lambda>one. piId (item one) \<notin> insert (piId (item r)) visited) records =
        filter (\<lambda>one. piId (item one) \<noteq> piId (item r)) (filter (\<lambda>one. piId (item one) \<notin> visited) records)"
      by (simp add: conj_commute)
    then show ?thesis using r length_filter_less [of r "filter (\<lambda>one. piId (item one) \<notin> visited) records"] by simp
  qed
  then show "((item, env, records, insert (piId (item r)) visited, digest), item, env, records, visited, cursor)
      \<in> measure (\<lambda>(item, env, records, visited, cursor). length (filter (\<lambda>one. piId (item one) \<notin> visited) records))"
    by simp
qed simp

declare walkFrom.simps [simp del]

definition walk :: "('r \<Rightarrow> pack_item) \<Rightarrow> receipt_env \<Rightarrow> 'r list \<Rightarrow> bytes \<Rightarrow> bytes \<Rightarrow> failure + 'r list" where
  "walk item env records anchor head =
    bindE (walkFrom item env records {} anchor) (\<lambda>(walked, cursor).
    bindE (failIf (\<not> sameBytes cursor head) (Refused PACK_CHAIN_BROKEN)) (\<lambda>_.
    bindE (failIf (\<exists>one \<in> set records. piId (item one) \<notin> (\<lambda>r. piId (item r)) ` set walked) (Refused PACK_ITEM_UNREACHED)) (\<lambda>_.
      Inr walked)))"

subsection \<open>Reading a manifest\<close>

definition assertDefined :: "(cval \<times> cval) list \<Rightarrow> string list \<Rightarrow> (string \<times> string list) list \<Rightarrow> failure + unit" where
  "assertDefined raw members nested =
    failIf (\<not> membersDefined (DefinedMap (map js members) (map (\<lambda>(n, ms). (js n, leafMap ms)) nested)) raw)
      (Refused PACK_BAD_MANIFEST)"

definition requireText :: "cval \<Rightarrow> nat \<Rightarrow> failure + jsstr" where
  "requireText v maxBytes =
    (case v of
       CText s \<Rightarrow> let n = length (textEncode s) in if n < 1 \<or> n > maxBytes then badManifest else Inr s
     | _ \<Rightarrow> badManifest)"

definition requireStamp :: "cval \<Rightarrow> failure + nat" where
  "requireStamp v = (case uintOf v of None \<Rightarrow> badManifest | Some n \<Rightarrow> Inr n)"

definition requireDuration :: "cval \<Rightarrow> failure + nat" where
  "requireDuration v = (case uintOf v of None \<Rightarrow> badManifest | Some n \<Rightarrow> Inr n)"

definition requireDigest :: "cval \<Rightarrow> failure + bytes" where
  "requireDigest v = (case v of CBytes bs \<Rightarrow> if length bs \<noteq> DIGEST_BYTES then badManifest else Inr bs | _ \<Rightarrow> badManifest)"

definition orNull :: "(cval \<Rightarrow> failure + 'a) \<Rightarrow> cval \<Rightarrow> failure + 'a option" where
  "orNull f v = (if v = CNull then Inr None else bindE (f v) (\<lambda>x. Inr (Some x)))"

definition requireNullableText :: "cval \<Rightarrow> nat \<Rightarrow> failure + jsstr option" where
  "requireNullableText v maxBytes = orNull (\<lambda>v. requireText v maxBytes) v"

definition requireNullableDigest :: "cval \<Rightarrow> failure + bytes option" where
  "requireNullableDigest v = orNull requireDigest v"

definition requireNullableStamp :: "cval \<Rightarrow> failure + nat option" where
  "requireNullableStamp v = orNull requireDuration v"

definition requireBytes1 :: "cval \<Rightarrow> failure + bytes" where
  "requireBytes1 v = (case v of CBytes bs \<Rightarrow> if length bs < 1 then badManifest else Inr bs | _ \<Rightarrow> badManifest)"

definition requireNullableBytes :: "cval \<Rightarrow> failure + bytes option" where
  "requireNullableBytes v = orNull requireBytes1 v"

definition requireSlot :: "cval \<Rightarrow> failure + anchor_slot" where
  "requireSlot v =
    (case v of
       CText s \<Rightarrow> (case find (\<lambda>k. slotLabel k = s) [SlotCol, SlotVal] of None \<Rightarrow> badManifest | Some k \<Rightarrow> Inr k)
     | _ \<Rightarrow> badManifest)"

definition requireArm :: "cval \<Rightarrow> failure + weighing_arm" where
  "requireArm v =
    (case v of
       CText s \<Rightarrow> (case find (\<lambda>k. armLabel k = s) [ArmServed, ArmEmbedded] of None \<Rightarrow> badManifest | Some k \<Rightarrow> Inr k)
     | _ \<Rightarrow> badManifest)"

definition requireProvenance :: "cval \<Rightarrow> failure + provenance" where
  "requireProvenance v = (case provenanceOf v of None \<Rightarrow> badManifest | Some p \<Rightarrow> Inr p)"

definition requireMap :: "cval \<Rightarrow> failure + (cval \<times> cval) list" where
  "requireMap v = (case decodedMap v of None \<Rightarrow> badManifest | Some m \<Rightarrow> Inr m)"

definition requireArray :: "cval \<Rightarrow> failure + cval list" where
  "requireArray v = (case v of CArr xs \<Rightarrow> Inr xs | _ \<Rightarrow> badManifest)"

text \<open>Each container answers for its content type before the key parameters of its header.\<close>

definition containerHeader :: "receipt_env \<Rightarrow> bytes \<Rightarrow> jsstr \<Rightarrow> receipt_error \<Rightarrow> failure + protected_header" where
  "containerHeader env bs declared bad =
    bindE (closedHeaderMap env bs bad) (\<lambda>raw.
    bindE (readContentType raw declared bad) (\<lambda>contentType.
    bindE (readAlg raw) (\<lambda>_.
    bindE (readKid raw bad) (\<lambda>kid.
      Inr \<lparr>phAlg = ALG_EDDSA, phKid = kid, phContentType = contentType\<rparr>))))"

definition containerEnvelope ::
  "receipt_env \<Rightarrow> bytes \<Rightarrow> jsstr \<Rightarrow> receipt_error \<Rightarrow> receipt_error \<Rightarrow> failure + cose_sign1 \<times> protected_header" where
  "containerEnvelope env bs declared malformed bad =
    bindE (decodeCanonical (reCodec env) bs malformed) (\<lambda>doc.
    bindE (fourElements doc) (\<lambda>cose.
    bindE (containerHeader env (coProtected cose) declared bad) (\<lambda>header. Inr (cose, header))))"

definition readHeader :: "receipt_env \<Rightarrow> bytes \<Rightarrow> failure + protected_header" where
  "readHeader env bs = containerHeader env bs PACK_CONTENT_TYPE PACK_BAD_HEADER"

definition readEnvelope :: "receipt_env \<Rightarrow> bytes \<Rightarrow> failure + cose_sign1 \<times> protected_header" where
  "readEnvelope env bs = containerEnvelope env bs PACK_CONTENT_TYPE PACK_MALFORMED_CBOR PACK_BAD_HEADER"

definition readSpan :: "(cval \<times> cval) list \<Rightarrow> nat \<Rightarrow> failure + pack_span" where
  "readSpan raw stamp =
    bindE (requireStamp (member raw ''from'')) (\<lambda>a.
    bindE (requireStamp (member raw ''to'')) (\<lambda>b.
    bindE (failIf (stamp < b) (Refused PACK_BAD_MANIFEST)) (\<lambda>_. Inr \<lparr>psFrom = a, psTo = b\<rparr>)))"

definition readChain :: "(cval \<times> cval) list \<Rightarrow> failure + pack_chain" where
  "readChain raw =
    bindE (requireDigest (member raw ''anchor'')) (\<lambda>a.
    bindE (requireDigest (member raw ''head'')) (\<lambda>h. Inr \<lparr>pcAnchor = a, pcHead = h\<rparr>))"

definition readDuty :: "(cval \<times> cval) list \<Rightarrow> nat \<Rightarrow> failure + pack_duty" where
  "readDuty raw stamp =
    (case member raw ''art'' of
       CText art \<Rightarrow>
         bindE (requireStamp (member raw ''rev'')) (\<lambda>rev.
         bindE (requireDuration (member raw ''required'')) (\<lambda>required.
         bindE (requireDuration (member raw ''held'')) (\<lambda>held.
         bindE (failIf (rev > stamp) (Refused PACK_BAD_MANIFEST)) (\<lambda>_.
           Inr \<lparr>pdArt = art, pdRev = rev, pdRequired = required, pdHeld = held\<rparr>))))
     | _ \<Rightarrow> badManifest)"

definition readItem :: "cval \<Rightarrow> failure + pack_item" where
  "readItem v =
    bindE (requireMap v) (\<lambda>m.
    bindE (assertDefined m PACK_ITEM_MEMBERS []) (\<lambda>_.
    case member m ''receipt'' of
      CBytes receipt \<Rightarrow>
        bindE (requireText (member m ''id'') ID_MAX_BYTES) (\<lambda>i.
        bindE (requireStamp (member m ''iat'')) (\<lambda>iat.
        bindE (requireProvenance (member m ''prov'')) (\<lambda>prov.
        bindE (requireDigest (member m ''prev'')) (\<lambda>prev.
          Inr \<lparr>piId = i, piIat = iat, piProv = prov, piPrev = prev, piReceipt = receipt\<rparr>))))
    | _ \<Rightarrow> badManifest))"

definition readItems :: "cval \<Rightarrow> pack_span \<Rightarrow> failure + pack_item list" where
  "readItems v window =
    bindE (requireArray v) (\<lambda>xs.
    bindE (failIf (xs = []) (Refused PACK_BAD_MANIFEST)) (\<lambda>_.
    bindE (mapE readItem xs) (\<lambda>items.
    bindE (failIf (\<exists>one \<in> set items. piIat one < psFrom window \<or> piIat one \<ge> psTo window) (Refused PACK_BAD_MANIFEST)) (\<lambda>_.
    bindE (failIf (\<not> distinct (map piId items)) (Refused PACK_DUPLICATE_ID)) (\<lambda>_. Inr items)))))"

definition readWindow :: "cval \<Rightarrow> failure + pack_span" where
  "readWindow v =
    bindE (requireMap v) (\<lambda>m.
    bindE (assertDefined m PACK_WINDOW_MEMBERS []) (\<lambda>_.
    bindE (requireStamp (member m ''from'')) (\<lambda>a.
    bindE (requireStamp (member m ''to'')) (\<lambda>b. Inr \<lparr>psFrom = a, psTo = b\<rparr>))))"

definition readCustodyEntry :: "cval \<Rightarrow> failure + custody_entry" where
  "readCustodyEntry v =
    bindE (requireMap v) (\<lambda>m.
    bindE (assertDefined m PACK_CUSTODY_MEMBERS [(''k'', PACK_CUSTODY_KEY_MEMBERS), (''w'', PACK_WINDOW_MEMBERS)]) (\<lambda>_.
    bindE (requireMap (member m ''k'')) (\<lambda>k.
    bindE (requireText (member k ''item'') ID_MAX_BYTES) (\<lambda>item.
    bindE (requireSlot (member k ''slot'')) (\<lambda>slot.
    bindE (requireText (member m ''o'') TEXT_MAX_BYTES) (\<lambda>origin.
    bindE (requireText (member m ''u'') REQUEST_MAX_BYTES) (\<lambda>request.
    bindE (requireNullableText (member m ''i'') TEXT_MAX_BYTES) (\<lambda>ident.
    bindE (requireStamp (member m ''s'')) (\<lambda>s.
    bindE (requireNullableStamp (member m ''n'')) (\<lambda>n.
    bindE (requireDigest (member m ''b'')) (\<lambda>b.
    bindE (requireNullableDigest (member m ''c'')) (\<lambda>c.
    bindE (requireArm (member m ''a'')) (\<lambda>a.
    bindE (readWindow (member m ''w'')) (\<lambda>w.
    bindE (requireText (member m ''y'') TEXT_MAX_BYTES) (\<lambda>y.
      Inr \<lparr>cyItem = item, cySlot = slot, cyO = origin, cyU = request, cyI = ident, cyS = s, cyN = n, cyB = b, cyC = c,
        cyA = a, cyW = w, cyY = y\<rparr>)))))))))))))))"

definition readCustody :: "cval \<Rightarrow> failure + custody_entry list" where
  "readCustody v = bindE (requireArray v) (mapE readCustodyEntry)"

definition readAttachedObject :: "cval \<Rightarrow> failure + attached_object" where
  "readAttachedObject v =
    bindE (requireMap v) (\<lambda>m.
    bindE (assertDefined m PACK_ATTACHED_MEMBERS []) (\<lambda>_.
    bindE (requireBytes1 (member m ''bytes'')) (\<lambda>bs.
    bindE (requireDigest (member m ''sha256'')) (\<lambda>digest.
    bindE (requireNullableBytes (member m ''chain'')) (\<lambda>chain.
    bindE (requireNullableDigest (member m ''chain_sha256'')) (\<lambda>chainSha256.
      Inr \<lparr>aoBytes = bs, aoSha256 = digest, aoChain = chain, aoChainSha256 = chainSha256\<rparr>))))))"

definition readAttached :: "cval \<Rightarrow> failure + attached_object list" where
  "readAttached v = bindE (requireArray v) (mapE readAttachedObject)"

subsection \<open>What the manifest is held to\<close>

record held_slot =
  hsItem :: jsstr
  hsSlot :: anchor_slot
  hsIat :: nat
  hsSha256 :: bytes

fun heldDigest :: "collateral_slot \<Rightarrow> bytes option" where
  "heldDigest (Held d) = Some d"
| "heldDigest (Absent _ _) = None"

definition heldOf :: "pack_item \<Rightarrow> anchor_slot \<Rightarrow> collateral_slot \<Rightarrow> held_slot list" where
  "heldOf one k slot =
    (case heldDigest slot of None \<Rightarrow> [] | Some d \<Rightarrow> [\<lparr>hsItem = piId one, hsSlot = k, hsIat = piIat one, hsSha256 = d\<rparr>])"

text \<open>A receipt that does not decode names no slot here.\<close>

definition slotsOfItem :: "receipt_env \<Rightarrow> pack_item \<Rightarrow> held_slot list" where
  "slotsOfItem env one =
    (case decodeReceipt env (piReceipt one) None of
       Inl _ \<Rightarrow> []
     | Inr r \<Rightarrow> heldOf one SlotCol (cvCollateral (rpCva (vcPayload r))) @ heldOf one SlotVal (cvValidity (rpCva (vcPayload r))))"

definition heldSlotDigests :: "receipt_env \<Rightarrow> pack_manifest \<Rightarrow> held_slot list" where
  "heldSlotDigests env m = concat (map (slotsOfItem env) (pmItems m))"

definition requireBand :: "nat \<Rightarrow> failure + unit" where
  "requireBand v =
    failIf (int v < EARLIEST_VERIFICATION_SECONDS \<or> int v > LATEST_VERIFICATION_SECONDS) (Refused PACK_CUSTODY_UNIT_OUTSIDE_BAND)"

definition answersFor :: "custody_entry \<Rightarrow> held_slot \<Rightarrow> bool" where
  "answersFor one slot \<longleftrightarrow> hsItem slot = cyItem one \<and> hsSlot slot = cySlot one \<and> sameBytes (hsSha256 slot) (cyB one)"

definition assertCustodyResolves :: "receipt_env \<Rightarrow> pack_manifest \<Rightarrow> failure + unit" where
  "assertCustodyResolves env m =
    (let named = heldSlotDigests env m in
     bindE (failIf (length (pmCustody m) > length (pmItems m) * CUSTODY_SLOTS_PER_ITEM) (Refused PACK_BAD_MANIFEST)) (\<lambda>_.
     bindE (failIf (\<exists>one \<in> set (pmCustody m). \<not> list_ex (answersFor one) named) (Refused PACK_CUSTODY_UNNAMED)) (\<lambda>_.
     bindE (failIf (\<exists>slot \<in> set named. \<not> list_ex (\<lambda>one. answersFor one slot) (pmCustody m)) (Refused PACK_CUSTODY_UNRESOLVED)) (\<lambda>_.
     bindE (mapE (\<lambda>one. bindE (requireBand (cyS one)) (\<lambda>_. bindE (requireBand (psFrom (cyW one))) (\<lambda>_.
       requireBand (psTo (cyW one))))) (pmCustody m)) (\<lambda>_. Inr ())))))"

definition attachedShape :: "attached_object \<Rightarrow> bool" where
  "attachedShape one \<longleftrightarrow> length (aoBytes one) \<le> CARRIED_MAX_BYTES \<and>
    (\<forall>chain \<in> set_option (aoChain one). length chain \<le> CARRIED_MAX_BYTES) \<and>
    (aoChain one = None \<longleftrightarrow> aoChainSha256 one = None)"

text \<open>The header beside the bytes hashes to what is stated for it; nothing is compared when either is missing.\<close>

definition headerHashes :: "receipt_env \<Rightarrow> attached_object \<Rightarrow> bool" where
  "headerHashes env one =
    (case (aoChain one, aoChainSha256 one) of
       (Some chain, Some digest) \<Rightarrow> sameBytes (reSha256 env chain) digest
     | _ \<Rightarrow> True)"

text \<open>The loop over the attached objects, \<open>stated\<close> being the digests met before.\<close>

fun attachedLoop :: "receipt_env \<Rightarrow> custody_entry list \<Rightarrow> bytes list \<Rightarrow> attached_object list \<Rightarrow> failure + unit" where
  "attachedLoop env custody stated [] = Inr ()"
| "attachedLoop env custody stated (one # rest) =
    (let actual = reSha256 env (aoBytes one); resolved = filter (\<lambda>c. sameBytes (cyB c) (aoSha256 one)) custody in
     bindE (failIf (\<not> sameBytes actual (aoSha256 one)) (Refused PACK_ATTACHED_DIGEST_MISMATCH)) (\<lambda>_.
     bindE (failIf (\<not> headerHashes env one) (Refused PACK_ATTACHED_DIGEST_MISMATCH)) (\<lambda>_.
     bindE (failIf (actual \<in> set stated) (Refused PACK_ATTACHED_DUPLICATE)) (\<lambda>_.
     bindE (failIf (resolved = []) (Refused PACK_ATTACHED_UNNAMED)) (\<lambda>_.
     bindE (failIf (\<exists>c \<in> set resolved. cyC c \<noteq> aoChainSha256 one) (Refused PACK_ATTACHED_DIGEST_MISMATCH)) (\<lambda>_.
       attachedLoop env custody (actual # stated) rest))))))"

definition assertAttachedResolves :: "receipt_env \<Rightarrow> pack_manifest \<Rightarrow> failure + unit" where
  "assertAttachedResolves env m =
    bindE (failIf (\<exists>one \<in> set (pmAttached m). \<not> attachedShape one) (Refused PACK_BAD_MANIFEST)) (\<lambda>_.
    bindE (failIf (length (pmAttached m) > length (pmItems m) * CUSTODY_SLOTS_PER_ITEM) (Refused PACK_BAD_MANIFEST)) (\<lambda>_.
      attachedLoop env (pmCustody m) [] (pmAttached m)))"

definition custodyForSlot :: "pack_manifest \<Rightarrow> jsstr \<Rightarrow> anchor_slot \<Rightarrow> failure + custody_entry" where
  "custodyForSlot m item slot =
    (case find (\<lambda>one. cyItem one = item \<and> cySlot one = slot) (pmCustody m) of
       None \<Rightarrow> refuse PACK_CUSTODY_UNRESOLVED
     | Some entry \<Rightarrow> Inr entry)"

record attached_resolution =
  arItem :: jsstr
  arSlot :: anchor_slot
  arIat :: nat
  arBytes :: bytes
  arChain :: "bytes option"
  arChainSha256 :: "bytes option"
  arCustody :: custody_entry

definition resolveAttached :: "receipt_env \<Rightarrow> pack_manifest \<Rightarrow> bytes \<Rightarrow> failure + attached_resolution" where
  "resolveAttached env m digest =
    (if length digest \<noteq> DIGEST_BYTES then badManifest
     else
       let named = find (\<lambda>slot. sameBytes (hsSha256 slot) digest) (heldSlotDigests env m) in
       case find (\<lambda>one. sameBytes (aoSha256 one) digest) (pmAttached m) of
         None \<Rightarrow> refuse PACK_ATTACHED_UNRESOLVED
       | Some entry \<Rightarrow>
           if \<not> sameBytes (reSha256 env (aoBytes entry)) digest then refuse PACK_ATTACHED_DIGEST_MISMATCH
           else case named of
             None \<Rightarrow> refuse PACK_ATTACHED_UNNAMED
           | Some slot \<Rightarrow>
               bindE (custodyForSlot m (hsItem slot) (hsSlot slot)) (\<lambda>reference.
               bindE (failIf ((aoChain entry = None) \<noteq> (aoChainSha256 entry = None)) (Refused PACK_BAD_MANIFEST)) (\<lambda>_.
               bindE (failIf (\<not> headerHashes env entry) (Refused PACK_ATTACHED_DIGEST_MISMATCH)) (\<lambda>_.
               bindE (failIf (cyC reference \<noteq> aoChainSha256 entry) (Refused PACK_ATTACHED_DIGEST_MISMATCH)) (\<lambda>_.
                 Inr \<lparr>arItem = hsItem slot, arSlot = hsSlot slot, arIat = hsIat slot, arBytes = aoBytes entry,
                   arChain = aoChain entry, arChainSha256 = aoChainSha256 entry, arCustody = reference\<rparr>)))))"

definition assertProvReduces :: "pack_manifest \<Rightarrow> failure + unit" where
  "assertProvReduces m =
    bindE (reduceProvenance (map piProv (pmItems m))) (\<lambda>weakest. failIf (pmProv m \<noteq> weakest) (Refused PACK_BAD_MANIFEST))"

definition assertHeldCoversItems :: "pack_manifest \<Rightarrow> failure + unit" where
  "assertHeldCoversItems m =
    failIf (int (pdHeld (pmDuty m)) < int (pmAt m) - int (Min (piIat ` set (pmItems m)))) (Refused PACK_BAD_MANIFEST)"

definition parseManifest :: "receipt_env \<Rightarrow> bytes \<Rightarrow> failure + pack_manifest" where
  "parseManifest env bs =
    bindE (decodeClosedDocument (reCodec env) bs PACK_BAD_MANIFEST) (\<lambda>doc.
    bindE (requireMap doc) (\<lambda>raw.
    bindE (case member raw ''v'' of
        CNum (NInt v) \<Rightarrow> if v \<noteq> 1 then refuse PACK_UNSUPPORTED_VERSION else Inr ()
      | _ \<Rightarrow> badManifest) (\<lambda>_.
    bindE (assertDefined raw PACK_MANIFEST_MEMBERS
      [(''span'', PACK_SPAN_MEMBERS), (''chain'', PACK_CHAIN_MEMBERS), (''duty'', PACK_DUTY_MEMBERS)]) (\<lambda>_.
    bindE (requireMap (member raw ''span'')) (\<lambda>spanMap.
    bindE (requireMap (member raw ''chain'')) (\<lambda>chainMap.
    bindE (requireMap (member raw ''duty'')) (\<lambda>dutyMap.
    bindE (requireStamp (member raw ''at'')) (\<lambda>stamp.
    bindE (readSpan spanMap stamp) (\<lambda>window.
    bindE (requireProvenance (member raw ''prov'')) (\<lambda>prov.
    bindE (readChain chainMap) (\<lambda>chain.
    bindE (readDuty dutyMap stamp) (\<lambda>duty.
    bindE (readItems (member raw ''items'') window) (\<lambda>items.
    bindE (readCustody (member raw ''custody'')) (\<lambda>custody.
    bindE (readAttached (member raw ''attached'')) (\<lambda>attached.
      let m = \<lparr>pmAt = stamp, pmProv = prov, pmSpan = window, pmChain = chain, pmDuty = duty, pmItems = items,
        pmCustody = custody, pmAttached = attached\<rparr> in
      bindE (assertProvReduces m) (\<lambda>_.
      bindE (assertHeldCoversItems m) (\<lambda>_.
      bindE (assertCustodyResolves env m) (\<lambda>_.
      bindE (assertAttachedResolves env m) (\<lambda>_. Inr m)))))))))))))))))))"

subsection \<open>Verification\<close>

record key_options =
  koPublicKey :: "bytes option"
  koResolveKey :: "(bytes \<Rightarrow> bytes option) option"

record verified_item =
  viItem :: pack_item
  viReceipt :: verified_receipt

record ordering_finding =
  ofFrom :: jsstr
  ofTo :: jsstr
  ofFromIat :: nat
  ofToIat :: nat

record verified_pack =
  vpManifest :: pack_manifest
  vpHeader :: protected_header
  vpEnvelope :: cose_sign1
  vpWalked :: "verified_item list"
  vpOrdering :: "ordering_finding list"

definition decodePack :: "receipt_env \<Rightarrow> bytes \<Rightarrow> failure + pack_manifest \<times> protected_header \<times> cose_sign1" where
  "decodePack env bs =
    bindE (readEnvelope env bs) (\<lambda>(cose, header).
    bindE (parseManifest env (coPayload cose)) (\<lambda>m. Inr (m, header, cose)))"

definition receiptOptions :: "key_options \<Rightarrow> verify_receipt_options" where
  "receiptOptions opts = \<lparr>rvPublicKey = koPublicKey opts, rvResolveKey = koResolveKey opts, rvExpectedNonce = None,
    rvNowSeconds = None, rvFreshnessSeconds = None, rvEvidenceFreshnessSeconds = None, rvAcceptedVersions = None\<rparr>"

definition checkOriginal :: "receipt_env \<Rightarrow> int \<Rightarrow> key_options \<Rightarrow> pack_item \<Rightarrow> failure + verified_item" where
  "checkOriginal env clockMs opts one =
    (case verifyReceipt env clockMs (piReceipt one) (receiptOptions opts) of
       Inl e \<Rightarrow> refuse (if e = Refused UNKNOWN_KEY then PACK_UNKNOWN_KEY else PACK_RECEIPT_INVALID)
     | Inr r \<Rightarrow>
         bindE (failIf (rpIat (vcPayload r) \<noteq> piIat one) (Refused PACK_RECEIPT_STAMP_MISMATCH)) (\<lambda>_.
           Inr \<lparr>viItem = one, viReceipt = r\<rparr>))"

definition checkOriginals :: "receipt_env \<Rightarrow> int \<Rightarrow> key_options \<Rightarrow> pack_item list \<Rightarrow> failure + verified_item list" where
  "checkOriginals env clockMs opts items = mapE (checkOriginal env clockMs opts) items"

fun stampOrderFindings :: "verified_item list \<Rightarrow> ordering_finding list" where
  "stampOrderFindings (a # b # rest) =
    (if piIat (viItem b) < piIat (viItem a)
     then [\<lparr>ofFrom = piId (viItem a), ofTo = piId (viItem b), ofFromIat = piIat (viItem a), ofToIat = piIat (viItem b)\<rparr>]
     else []) @ stampOrderFindings (b # rest)"
| "stampOrderFindings _ = []"

definition designatedKey :: "receipt_env \<Rightarrow> key_options \<Rightarrow> bytes \<Rightarrow> receipt_error \<Rightarrow> receipt_error \<Rightarrow> failure + bytes" where
  "designatedKey env opts kid unknown mismatch =
    (case (case koPublicKey opts of Some pk \<Rightarrow> Some pk
           | None \<Rightarrow> (case koResolveKey opts of None \<Rightarrow> None | Some f \<Rightarrow> f kid)) of
       None \<Rightarrow> refuse unknown
     | Some designated \<Rightarrow> if \<not> sameBytes kid (keyId env designated) then refuse mismatch else Inr designated)"

definition envelopeKey :: "receipt_env \<Rightarrow> key_options \<Rightarrow> bytes \<Rightarrow> failure + bytes" where
  "envelopeKey env opts kid = designatedKey env opts kid PACK_UNKNOWN_KEY PACK_KID_MISMATCH"

definition packSigStructure :: "receipt_env \<Rightarrow> bytes \<Rightarrow> bytes \<Rightarrow> bytes \<Rightarrow> bytes" where
  "packSigStructure env protectedBytes payloadBytes externalAad =
    encodeCanonical (reCodec env) (CArr [ctext ''Signature1'', CBytes protectedBytes, CBytes externalAad, CBytes payloadBytes])"

definition verifyPack :: "receipt_env \<Rightarrow> int \<Rightarrow> bytes \<Rightarrow> key_options \<Rightarrow> failure + verified_pack" where
  "verifyPack env clockMs bs opts =
    bindE (failIf (koPublicKey opts = None \<and> koResolveKey opts = None) (Refused PACK_UNKNOWN_KEY)) (\<lambda>_.
    bindE (readEnvelope env bs) (\<lambda>(cose, header).
    bindE (envelopeKey env opts (phKid header)) (\<lambda>publicKey.
    bindE (checkSignature env (coSignature cose) (packSigStructure env (coProtected cose) (coPayload cose) []) publicKey) (\<lambda>_.
    bindE (parseManifest env (coPayload cose)) (\<lambda>m.
    bindE (checkOriginals env clockMs opts (pmItems m)) (\<lambda>originals.
    bindE (walk viItem env originals (pcAnchor (pmChain m)) (pcHead (pmChain m))) (\<lambda>walked.
      Inr \<lparr>vpManifest = m, vpHeader = header, vpEnvelope = cose, vpWalked = walked,
        vpOrdering = stampOrderFindings walked\<rparr>)))))))"

subsection \<open>Writing\<close>

definition nullable :: "('a \<Rightarrow> cval) \<Rightarrow> 'a option \<Rightarrow> cval" where
  "nullable f x = (case x of None \<Rightarrow> CNull | Some y \<Rightarrow> f y)"

definition cnat :: "nat \<Rightarrow> cval" where
  "cnat n = cint (int n)"

definition itemMap :: "pack_item \<Rightarrow> cval" where
  "itemMap one = CMap [(ctext ''id'', CText (piId one)), (ctext ''iat'', cnat (piIat one)),
    (ctext ''prov'', CText (provenanceLabel (piProv one))), (ctext ''prev'', CBytes (piPrev one)),
    (ctext ''receipt'', CBytes (piReceipt one))]"

definition windowMap :: "pack_span \<Rightarrow> cval" where
  "windowMap w = CMap [(ctext ''from'', cnat (psFrom w)), (ctext ''to'', cnat (psTo w))]"

definition custodyMap :: "custody_entry \<Rightarrow> cval" where
  "custodyMap one = CMap [
    (ctext ''k'', CMap [(ctext ''item'', CText (cyItem one)), (ctext ''slot'', CText (slotLabel (cySlot one)))]),
    (ctext ''o'', CText (cyO one)), (ctext ''u'', CText (cyU one)), (ctext ''i'', nullable CText (cyI one)),
    (ctext ''s'', cnat (cyS one)), (ctext ''n'', nullable cnat (cyN one)), (ctext ''b'', CBytes (cyB one)),
    (ctext ''c'', nullable CBytes (cyC one)), (ctext ''a'', CText (armLabel (cyA one))), (ctext ''w'', windowMap (cyW one)),
    (ctext ''y'', CText (cyY one))]"

definition attachedMap :: "attached_object \<Rightarrow> cval" where
  "attachedMap one = CMap [(ctext ''bytes'', CBytes (aoBytes one)), (ctext ''sha256'', CBytes (aoSha256 one)),
    (ctext ''chain'', nullable CBytes (aoChain one)), (ctext ''chain_sha256'', nullable CBytes (aoChainSha256 one))]"

definition manifestEntries :: "pack_manifest \<Rightarrow> (cval \<times> cval) list" where
  "manifestEntries m = [(ctext ''v'', cint 1), (ctext ''at'', cnat (pmAt m)),
    (ctext ''prov'', CText (provenanceLabel (pmProv m))), (ctext ''span'', windowMap (pmSpan m)),
    (ctext ''chain'', CMap [(ctext ''anchor'', CBytes (pcAnchor (pmChain m))), (ctext ''head'', CBytes (pcHead (pmChain m)))]),
    (ctext ''duty'', CMap [(ctext ''art'', CText (pdArt (pmDuty m))), (ctext ''rev'', cnat (pdRev (pmDuty m))),
      (ctext ''required'', cnat (pdRequired (pmDuty m))), (ctext ''held'', cnat (pdHeld (pmDuty m)))]),
    (ctext ''items'', CArr (map itemMap (pmItems m))), (ctext ''custody'', CArr (map custodyMap (pmCustody m))),
    (ctext ''attached'', CArr (map attachedMap (pmAttached m)))]"

definition encodePackManifest :: "receipt_env \<Rightarrow> pack_manifest \<Rightarrow> bytes" where
  "encodePackManifest env m = encodeCanonical (reCodec env) (CMap (manifestEntries m))"

definition encodePackProtectedHeader :: "receipt_env \<Rightarrow> bytes \<Rightarrow> bytes" where
  "encodePackProtectedHeader env kid = buildProtectedHeader env kid PACK_CONTENT_TYPE"

definition sealPack :: "receipt_env \<Rightarrow> bytes \<Rightarrow> bytes \<Rightarrow> bytes \<Rightarrow> (cval \<times> cval) list \<Rightarrow> bytes" where
  "sealPack env protectedBytes payloadBytes signature unprotected =
    sealCoseSign1 env protectedBytes payloadBytes signature unprotected"

definition containerKey :: "receipt_env \<Rightarrow> signing_key \<Rightarrow> failure + unit" where
  "containerKey env key =
    bindE (failIf (length (skKid key) \<noteq> DIGEST_BYTES \<or> length (skPrivateKey key) \<noteq> DIGEST_BYTES \<or>
        length (skPublicKey key) \<noteq> DIGEST_BYTES) (Refused BAD_SIGNING_KEY)) (\<lambda>_.
      failIf (\<not> sameBytes (keyId env (skPublicKey key)) (skKid key)) (Refused BAD_SIGNING_KEY))"

definition signPack :: "receipt_env \<Rightarrow> pack_manifest \<Rightarrow> signing_key \<Rightarrow> failure + bytes" where
  "signPack env m key =
    bindE (containerKey env key) (\<lambda>_.
    let payloadBytes = encodePackManifest env m in
    bindE (parseManifest env payloadBytes) (\<lambda>parsed.
    bindE (walk (\<lambda>one. one) env (pmItems parsed) (pcAnchor (pmChain parsed)) (pcHead (pmChain parsed))) (\<lambda>_.
    let protectedBytes = encodePackProtectedHeader env (skKid key) in
    bindE (signEd25519 env (packSigStructure env protectedBytes payloadBytes []) (skPrivateKey key)) (\<lambda>signature.
      Inr (sealPack env protectedBytes payloadBytes signature [])))))"

end
