(* ===== verification/PackSpec.thy ===== *)
theory PackSpec
  imports Pack RecordChain ReceiptSpec
begin

text \<open>
  What a verified pack establishes. The walk against its specification as a link-ordered permutation of the
  records, whatever order they were listed in; the records two packs between the same digests have in common;
  the soundness of the verification and the round trip of a pack that was signed.
\<close>

subsection \<open>The record digest\<close>

definition itemFrame :: "pack_item \<Rightarrow> bytes" where
  "itemFrame it = recordFrame (piPrev it) (piIat it) (textEncode (piId it)) (piReceipt it)"

definition itemDigest :: "receipt_env \<Rightarrow> pack_item \<Rightarrow> bytes" where
  "itemDigest env it = reSha256 env (itemFrame it)"

text \<open>The items \<open>packRecordDigest\<close> answers for, and those whose stamp also fits its eight bytes.\<close>

definition digestible :: "pack_item \<Rightarrow> bool" where
  "digestible it \<longleftrightarrow> length (piPrev it) = 32 \<and> textEncode (piId it) \<noteq> [] \<and> length (textEncode (piId it)) \<le> 65535"

definition framedItem :: "pack_item \<Rightarrow> bool" where
  "framedItem it \<longleftrightarrow> digestible it \<and> piIat it < 2 ^ 64"

text \<open>What the digest commits to: not the provenance, and of the id the bytes it encodes to.\<close>

definition itemCore :: "pack_item \<Rightarrow> bytes \<times> nat \<times> bytes \<times> bytes" where
  "itemCore it = (piPrev it, piIat it, textEncode (piId it), piReceipt it)"

lemma packRecordDigest_Inr: "packRecordDigest env it = Inr d \<longleftrightarrow> digestible it \<and> d = itemDigest env it"
  by (auto simp: packRecordDigest_def recordDigestOf_def badManifest_def digestible_def itemDigest_def itemFrame_def
      width_defs Let_def not_le split: if_splits)

lemma recordFrame_inject:
  assumes "length p = 32" "length p' = 32" "t < 2 ^ 64" "t' < 2 ^ 64" "length i \<le> 65535" "length i' \<le> 65535"
    and "recordFrame p t i r = recordFrame p' t' i' r'"
  shows "p = p' \<and> t = t' \<and> i = i' \<and> r = r'"
proof -
  have e: "p @ beEnc 8 t @ beEnc 2 (length i) @ i @ r = p' @ beEnc 8 t' @ beEnc 2 (length i') @ i' @ r'"
    using assms(7) by (simp add: recordFrame_def width_defs)
  from e have p: "p = p'" and rest: "beEnc 8 t @ beEnc 2 (length i) @ i @ r = beEnc 8 t' @ beEnc 2 (length i') @ i' @ r'"
    using assms(1,2) by auto
  from rest have t: "beEnc 8 t = beEnc 8 t'" and l: "beEnc 2 (length i) = beEnc 2 (length i')" and ir: "i @ r = i' @ r'"
    by (auto simp: append_eq_append_conv)
  from t have "t = t'" using assms(3,4) by (simp add: beEnc_inject)
  moreover from l have "length i = length i'" using assms(5,6) by (simp add: beEnc_inject)
  ultimately show ?thesis using p ir by simp
qed

interpretation pack: record_chain "reSha256 env" framedItem itemFrame piPrev itemCore for env :: receipt_env
proof
  fix r s
  assume "framedItem r" "framedItem s" "itemFrame r = itemFrame s"
  then show "itemCore r = itemCore s"
    using recordFrame_inject [of "piPrev r" "piPrev s" "piIat r" "piIat s" "textEncode (piId r)" "textEncode (piId s)"]
    by (auto simp: framedItem_def digestible_def itemFrame_def itemCore_def)
qed (simp add: itemCore_def)

lemma pack_digest: "pack.digest env = itemDigest env"
  by (simp add: fun_eq_iff pack.digest_def itemDigest_def)

subsection \<open>The walk\<close>

text \<open>The records a run from \<open>c\<close> to \<open>e\<close> leads over, each following from the one before it.\<close>

definition linked :: "('r \<Rightarrow> pack_item) \<Rightarrow> receipt_env \<Rightarrow> bytes \<Rightarrow> 'r list \<Rightarrow> bytes \<Rightarrow> bool" where
  "linked item env c w e \<longleftrightarrow> chained (itemDigest env) piPrev c (map item w) e \<and> list_all (digestible \<circ> item) w"

lemma linked_simps [simp]:
  "linked item env c [] e \<longleftrightarrow> c = e"
  "linked item env c (r # w) e \<longleftrightarrow>
    piPrev (item r) = c \<and> digestible (item r) \<and> linked item env (itemDigest env (item r)) w e"
  by (auto simp: linked_def)

definition unvisited :: "('r \<Rightarrow> pack_item) \<Rightarrow> 'r list \<Rightarrow> jsstr set \<Rightarrow> 'r set" where
  "unvisited item records V = {r \<in> set records. piId (item r) \<notin> V}"

definition walksTo :: "('r \<Rightarrow> pack_item) \<Rightarrow> receipt_env \<Rightarrow> 'r list \<Rightarrow> jsstr set \<Rightarrow> bytes \<Rightarrow> 'r list \<Rightarrow> bytes \<Rightarrow> bool" where
  "walksTo item env records V c w e \<longleftrightarrow> linked item env c w e \<and> distinct w \<and> set w \<subseteq> unvisited item records V \<and>
    (\<forall>r \<in> set w. \<forall>s \<in> unvisited item records V. piPrev (item r) = piPrev (item s) \<longrightarrow> r = s) \<and>
    (\<forall>s \<in> unvisited item records V - set w. piPrev (item s) \<noteq> e)"

lemma walksTo_Nil: "walksTo item env records V c [] e \<longleftrightarrow> c = e \<and> (\<forall>s \<in> unvisited item records V. piPrev (item s) \<noteq> e)"
  by (auto simp: walksTo_def)

lemma walksTo_Cons:
  assumes r: "r \<in> unvisited item records V" "piPrev (item r) = c"
    and only: "\<And>s. s \<in> unvisited item records V \<Longrightarrow> piPrev (item s) = c \<Longrightarrow> s = r"
    and less: "unvisited item records (insert (piId (item r)) V) = unvisited item records V - {r}"
  shows "walksTo item env records V c (x # w) e \<longleftrightarrow>
    x = r \<and> digestible (item r) \<and> walksTo item env records (insert (piId (item r)) V) (itemDigest env (item r)) w e"
proof -
  define U where "U = unvisited item records V"
  define P where "P \<longleftrightarrow> (\<forall>y \<in> set (r # w). \<forall>s \<in> U. piPrev (item y) = piPrev (item s) \<longrightarrow> y = s)"
  define Q where "Q \<longleftrightarrow> (\<forall>y \<in> set w. \<forall>s \<in> U - {r}. piPrev (item y) = piPrev (item s) \<longrightarrow> y = s)"
  have "walksTo item env records V c (x # w) e \<longleftrightarrow> x = r \<and> walksTo item env records V c (r # w) e"
  proof -
    have "x = r" if "walksTo item env records V c (x # w) e"
      by (rule only) (use that in \<open>auto simp: walksTo_def\<close>)
    then show ?thesis by blast
  qed
  moreover have "distinct (r # w) \<and> set (r # w) \<subseteq> U \<longleftrightarrow> distinct w \<and> set w \<subseteq> U - {r}" using r by (auto simp: U_def)
  moreover have "P \<longleftrightarrow> Q" if w: "set w \<subseteq> U - {r}"
  proof -
    have o: "piPrev (item r) = piPrev (item s) \<longleftrightarrow> s = r" if "s \<in> U" for s using only r that unfolding U_def by metis
    have "(\<forall>s \<in> U. piPrev (item r) = piPrev (item s) \<longrightarrow> r = s)" using o by blast
    moreover have "piPrev (item y) \<noteq> piPrev (item r)" if "y \<in> set w" for y using o [of y] that w by (metis Diff_iff insertI1 subsetD)
    ultimately show ?thesis unfolding P_def Q_def by auto
  qed
  moreover have "U - set (r # w) = U - {r} - set w" by auto
  moreover have "linked item env c (r # w) e \<longleftrightarrow> digestible (item r) \<and> linked item env (itemDigest env (item r)) w e"
    using r(2) by simp
  ultimately show ?thesis unfolding walksTo_def less U_def [symmetric] P_def [symmetric] Q_def [symmetric] by metis
qed

lemma walkFrom_iff:
  assumes "distinct (map (piId \<circ> item) records)"
  shows "walkFrom item env records V c = Inr (w, e) \<longleftrightarrow> walksTo item env records V c w e"
  using assms
proof (induction item env records V c arbitrary: w e rule: walkFrom.induct)
  case (1 item env records V c)
  define cands where "cands = filter (\<lambda>one. piId (item one) \<notin> V \<and> sameBytes (piPrev (item one)) c) records"
  have set_cands: "set cands = {r \<in> unvisited item records V. piPrev (item r) = c}"
    by (auto simp: cands_def unvisited_def)
  have d: "distinct cands" using "1.prems" by (simp add: cands_def distinct_map)
  have inj: "piId (item r) = piId (item s) \<Longrightarrow> r = s" if "r \<in> set records" "s \<in> set records" for r s
    using "1.prems" that by (auto simp: distinct_map inj_on_def)
  show ?case
  proof (cases cands)
    case Nil
    then have no: "piPrev (item r) \<noteq> c" if "r \<in> unvisited item records V" for r using set_cands that by auto
    have "walkFrom item env records V c = Inr ([], c)" using Nil by (simp add: walkFrom.simps cands_def)
    then show ?thesis using no by (cases w) (auto simp: walksTo_def)
  next
    case (Cons r rest)
    have r: "r \<in> unvisited item records V" "piPrev (item r) = c" using set_cands Cons by auto
    show ?thesis
    proof (cases rest)
      case Nil
      have only: "s = r" if "s \<in> unvisited item records V" "piPrev (item s) = c" for s
        using set_cands that Cons Nil by auto
      have less: "unvisited item records (insert (piId (item r)) V) = unvisited item records V - {r}"
        using inj r(1) by (auto simp: unvisited_def)
      have IH: "walkFrom item env records (insert (piId (item r)) V) (itemDigest env (item r)) = Inr (w', e) \<longleftrightarrow>
          walksTo item env records (insert (piId (item r)) V) (itemDigest env (item r)) w' e" if "digestible (item r)" for w' e
        using "1.IH" [of r "[]" "itemDigest env (item r)" w' e] that "1.prems" Cons Nil
        by (simp add: cands_def packRecordDigest_Inr)
      have step: "walkFrom item env records V c = bindE (packRecordDigest env (item r)) (\<lambda>digest.
          bindE (walkFrom item env records (insert (piId (item r)) V) digest) (\<lambda>(walked, end). Inr (r # walked, end)))"
        unfolding walkFrom.simps [of item env records V c] cands_def [symmetric] Cons Nil by simp
      have "walkFrom item env records V c = Inr (w, e) \<longleftrightarrow>
          (\<exists>w'. w = r # w' \<and> digestible (item r) \<and>
            walksTo item env records (insert (piId (item r)) V) (itemDigest env (item r)) w' e)"
        unfolding step bindE_Inr packRecordDigest_Inr using IH by (auto simp: bindE_Inr)
      also have "\<dots> \<longleftrightarrow> walksTo item env records V c w e"
        using walksTo_Cons [OF r only less] walksTo_Nil [of item env records V c e] r by (cases w) auto
      finally show ?thesis .
    next
      case (Cons s more)
      note two = \<open>cands = r # rest\<close> [unfolded Cons]
      have s: "s \<in> unvisited item records V" "piPrev (item s) = c" "r \<noteq> s" using set_cands two d by auto
      have "walkFrom item env records V c = refuse PACK_CHAIN_BROKEN" using two by (simp add: walkFrom.simps cands_def)
      moreover have False if w: "walksTo item env records V c w e"
      proof (cases w)
        case Nil
        then show ?thesis using w r unfolding Nil walksTo_Nil by blast
      next
        case (Cons x w')
        then have "piPrev (item x) = c" "\<forall>s \<in> unvisited item records V. piPrev (item x) = piPrev (item s) \<longrightarrow> x = s"
          using w by (simp_all add: walksTo_def)
        then show ?thesis using r s by metis
      qed
      ultimately show ?thesis by auto
    qed
  qed
qed

lemma walk_iff_helper:
  assumes "distinct (map (piId \<circ> item) records)"
  shows "walk item env records anchor head = Inr w \<longleftrightarrow>
    mset w = mset records \<and> linked item env anchor w head \<and> distinct (map (piPrev \<circ> item) records)"
proof -
  have all: "unvisited item records {} = set records" by (simp add: unvisited_def)
  have d: "distinct records" using assms by (simp add: distinct_map)
  have inj: "piId (item r) = piId (item s) \<Longrightarrow> r = s" if "r \<in> set records" "s \<in> set records" for r s
    using assms that by (auto simp: distinct_map inj_on_def)
  have covers: "(\<forall>one \<in> set records. piId (item one) \<in> (\<lambda>r. piId (item r)) ` set w) \<longleftrightarrow> set records \<subseteq> set w"
    if "set w \<subseteq> set records"
    using inj that by blast
  have perm: "mset w = mset records \<longleftrightarrow> distinct w \<and> set w = set records"
    using d by (metis mset_eq_imp_distinct_iff mset_eq_setD set_eq_iff_mset_eq_distinct)
  have "walk item env records anchor head = Inr w \<longleftrightarrow>
      walksTo item env records {} anchor w head \<and> (\<forall>one \<in> set records. piId (item one) \<in> (\<lambda>r. piId (item r)) ` set w)"
    by (auto simp: walk_def bindE_Inr walkFrom_iff [OF assms])
  also have "\<dots> \<longleftrightarrow> walksTo item env records {} anchor w head \<and> set records \<subseteq> set w"
    using covers by (auto simp: walksTo_def all)
  also have "\<dots> \<longleftrightarrow> mset w = mset records \<and> linked item env anchor w head \<and> inj_on (piPrev \<circ> item) (set records)"
    unfolding perm walksTo_def all by (auto simp: inj_on_def)
  also have "inj_on (piPrev \<circ> item) (set records) \<longleftrightarrow> distinct (map (piPrev \<circ> item) records)"
    using d by (simp add: distinct_map)
  finally show ?thesis .
qed

subsection \<open>The shape of a manifest\<close>

definition shortText :: "nat \<Rightarrow> jsstr \<Rightarrow> bool" where
  "shortText k s \<longleftrightarrow> 1 \<le> length (textEncode s) \<and> length (textEncode s) \<le> k"

definition safeNat :: "nat \<Rightarrow> bool" where
  "safeNat n \<longleftrightarrow> int n \<le> MAX_SAFE_INTEGER"

definition itemWf :: "pack_item \<Rightarrow> bool" where
  "itemWf it \<longleftrightarrow> shortText 65535 (piId it) \<and> length (piPrev it) = 32 \<and> safeNat (piIat it)"

definition windowWf :: "pack_span \<Rightarrow> bool" where
  "windowWf w \<longleftrightarrow> safeNat (psFrom w) \<and> safeNat (psTo w)"

definition custodyWf :: "custody_entry \<Rightarrow> bool" where
  "custodyWf c \<longleftrightarrow> list_all (shortText 65535) ([cyItem c, cyO c, cyY c] @ (case cyI c of None \<Rightarrow> [] | Some i \<Rightarrow> [i])) \<and>
    shortText 2048 (cyU c) \<and> safeNat (cyS c) \<and> pred_option safeNat (cyN c) \<and> length (cyB c) = 32 \<and>
    pred_option (\<lambda>d. length d = 32) (cyC c) \<and> windowWf (cyW c)"

definition attachedWf :: "attached_object \<Rightarrow> bool" where
  "attachedWf a \<longleftrightarrow> aoBytes a \<noteq> [] \<and> length (aoSha256 a) = 32 \<and> pred_option (\<lambda>bs. bs \<noteq> []) (aoChain a) \<and>
    pred_option (\<lambda>d. length d = 32) (aoChainSha256 a)"

definition spanWf :: "pack_manifest \<Rightarrow> bool" where
  "spanWf m \<longleftrightarrow> windowWf (pmSpan m) \<and> psTo (pmSpan m) \<le> pmAt m \<and> safeNat (pmAt m)"

definition dutyWf :: "pack_manifest \<Rightarrow> bool" where
  "dutyWf m \<longleftrightarrow> safeNat (pdRev (pmDuty m)) \<and> safeNat (pdRequired (pmDuty m)) \<and> safeNat (pdHeld (pmDuty m)) \<and>
    pdRev (pmDuty m) \<le> pmAt m"

definition itemsWf :: "pack_manifest \<Rightarrow> bool" where
  "itemsWf m \<longleftrightarrow> pmItems m \<noteq> [] \<and> list_all itemWf (pmItems m) \<and> distinct (map piId (pmItems m)) \<and>
    (\<forall>it \<in> set (pmItems m). psFrom (pmSpan m) \<le> piIat it \<and> piIat it < psTo (pmSpan m))"

definition manifestWf :: "pack_manifest \<Rightarrow> bool" where
  "manifestWf m \<longleftrightarrow> spanWf m \<and> dutyWf m \<and> itemsWf m \<and> length (pcAnchor (pmChain m)) = 32 \<and> length (pcHead (pmChain m)) = 32 \<and>
    list_all custodyWf (pmCustody m) \<and> list_all attachedWf (pmAttached m)"

text \<open>
  What the references have to answer for: the provenance is the weakest of the items, the stated holding
  reaches back to the oldest item, entries and slots held by the receipts answer for one another, and every
  attached object is what its digest says, once, and named by an entry.
\<close>

definition provenanceHeld :: "pack_manifest \<Rightarrow> bool" where
  "provenanceHeld m \<longleftrightarrow> pmProv m \<in> piProv ` set (pmItems m) \<and>
    (\<forall>it \<in> set (pmItems m). strength (piProv it) \<le> strength (pmProv m))"

definition holdingHeld :: "pack_manifest \<Rightarrow> bool" where
  "holdingHeld m \<longleftrightarrow> (\<forall>it \<in> set (pmItems m). int (pmAt m) - int (piIat it) \<le> int (pdHeld (pmDuty m)))"

definition inBand :: "nat \<Rightarrow> bool" where
  "inBand n \<longleftrightarrow> EARLIEST_VERIFICATION_SECONDS \<le> int n \<and> int n \<le> LATEST_VERIFICATION_SECONDS"

definition custodyHeld :: "receipt_env \<Rightarrow> pack_manifest \<Rightarrow> bool" where
  "custodyHeld env m \<longleftrightarrow> length (pmCustody m) \<le> 2 * length (pmItems m) \<and>
    (\<forall>c \<in> set (pmCustody m). (\<exists>s \<in> set (heldSlotDigests env m). answersFor c s) \<and>
      inBand (cyS c) \<and> inBand (psFrom (cyW c)) \<and> inBand (psTo (cyW c))) \<and>
    (\<forall>s \<in> set (heldSlotDigests env m). \<exists>c \<in> set (pmCustody m). answersFor c s)"

definition attachedGenuine :: "receipt_env \<Rightarrow> custody_entry list \<Rightarrow> attached_object \<Rightarrow> bool" where
  "attachedGenuine env custody a \<longleftrightarrow> reSha256 env (aoBytes a) = aoSha256 a \<and> headerHashes env a \<and>
    (\<exists>c \<in> set custody. cyB c = aoSha256 a) \<and> (\<forall>c \<in> set custody. cyB c = aoSha256 a \<longrightarrow> cyC c = aoChainSha256 a)"

definition attachedHeld :: "receipt_env \<Rightarrow> pack_manifest \<Rightarrow> bool" where
  "attachedHeld env m \<longleftrightarrow> length (pmAttached m) \<le> 2 * length (pmItems m) \<and> list_all attachedShape (pmAttached m) \<and>
    list_all (attachedGenuine env (pmCustody m)) (pmAttached m) \<and> distinct (map aoSha256 (pmAttached m))"

lemmas held_defs = provenanceHeld_def holdingHeld_def custodyHeld_def attachedHeld_def

definition manifestHeld :: "receipt_env \<Rightarrow> pack_manifest \<Rightarrow> bool" where
  "manifestHeld env m \<longleftrightarrow> provenanceHeld m \<and> holdingHeld m \<and> custodyHeld env m \<and> attachedHeld env m"

lemma strength_inject: "strength p = strength q \<longleftrightarrow> p = q"
  by (cases p; cases q) simp_all

lemma foldl_weakest:
  "foldl (\<lambda>weakest one. if strength one > strength weakest then one else weakest) p ps = w \<longleftrightarrow>
    w \<in> insert p (set ps) \<and> (\<forall>q \<in> insert p (set ps). strength q \<le> strength w)"
proof (induction ps arbitrary: p)
  case Nil
  then show ?case by auto
next
  case (Cons q ps)
  show ?case using Cons.IH [of "if strength q > strength p then q else p"] strength_inject by (auto; force)
qed

lemma reduceProvenance_Inr: "reduceProvenance ps = Inr w \<longleftrightarrow> w \<in> set ps \<and> (\<forall>q \<in> set ps. strength q \<le> strength w)"
  by (cases ps) (auto simp: reduceProvenance_def foldl_weakest)

lemma assertProvReduces_Inr: "assertProvReduces m = Inr u \<longleftrightarrow> provenanceHeld m"
  unfolding assertProvReduces_def provenanceHeld_def bindE_Inr reduceProvenance_Inr failIf_simps set_map by (simp, metis (no_types, lifting) image_iff)

lemma assertHeldCoversItems_Inr:
  assumes "pmItems m \<noteq> []"
  shows "assertHeldCoversItems m = Inr u \<longleftrightarrow> holdingHeld m"
proof -
  define S where "S = piIat ` set (pmItems m)"
  have S: "finite S" "S \<noteq> {}" using assms by (simp_all add: S_def)
  have "\<not> int h < int a - int (Min S) \<longleftrightarrow> (\<forall>t \<in> S. int a - int t \<le> int h)" for h a
    using Min_in [OF S] Min_le [OF S(1)] by (smt (verit) of_nat_mono)
  then show ?thesis by (simp add: assertHeldCoversItems_def holdingHeld_def S_def [symmetric]) (simp add: S_def)
qed

lemma requireBand_Inr: "requireBand n = Inr u \<longleftrightarrow> inBand n"
  by (auto simp: requireBand_def inBand_def)

lemma mapE_accepts: "(\<exists>us. mapE f xs = Inr us) \<longleftrightarrow> (\<forall>x \<in> set xs. \<exists>u. f x = Inr u)"
  by (induction xs) (auto simp: bindE_Inr)

lemma assertCustodyResolves_Inr: "assertCustodyResolves env m = Inr u \<longleftrightarrow> custodyHeld env m"
proof -
  define f :: "custody_entry \<Rightarrow> failure + unit" where "f one = bindE (requireBand (cyS one)) (\<lambda>_. bindE (requireBand (psFrom (cyW one))) (\<lambda>_. requireBand (psTo (cyW one))))" for one
  have f: "(\<exists>u. f c = Inr u) \<longleftrightarrow> inBand (cyS c) \<and> inBand (psFrom (cyW c)) \<and> inBand (psTo (cyW c))" for c
    by (simp add: f_def bindE_Inr requireBand_Inr)
  show ?thesis
    unfolding assertCustodyResolves_def Let_def f_def [symmetric] bindE_Inr failIf_simps custodyHeld_def
    using mapE_accepts [of f "pmCustody m"] f
    by (auto simp: width_defs list_ex_iff not_less)
qed

lemma attachedLoop_Inr:
  "attachedLoop env custody stated as = Inr u \<longleftrightarrow>
    list_all (attachedGenuine env custody) as \<and> distinct (map aoSha256 as) \<and> set (map aoSha256 as) \<inter> set stated = {}"
proof (induction as arbitrary: stated)
  case (Cons a as)
  have named: "filter (\<lambda>c. cyB c = aoSha256 a) custody = [] \<longleftrightarrow> \<not> (\<exists>c \<in> set custody. cyB c = aoSha256 a)"
    by (auto simp: filter_empty_conv)
  have "attachedLoop env custody stated (a # as) = Inr u \<longleftrightarrow>
      attachedGenuine env custody a \<and> aoSha256 a \<notin> set stated \<and> attachedLoop env custody (aoSha256 a # stated) as = Inr u"
  proof (cases "reSha256 env (aoBytes a) = aoSha256 a \<and> headerHashes env a \<and> aoSha256 a \<notin> set stated")
    case True
    have all: "(\<exists>c \<in> set (filter (\<lambda>c. cyB c = aoSha256 a) custody). cyC c \<noteq> aoChainSha256 a) \<longleftrightarrow>
        \<not> (\<forall>c \<in> set custody. cyB c = aoSha256 a \<longrightarrow> cyC c = aoChainSha256 a)" by auto
    show ?thesis using True by (simp only: attachedLoop.simps Let_def bindE_failIf sameBytes_iff named attachedGenuine_def all) simp
  next
    case False
    then show ?thesis by (auto simp: Let_def bindE_failIf attachedGenuine_def)
  qed
  then show ?case unfolding Cons.IH by auto
qed simp

lemma assertAttachedResolves_Inr: "assertAttachedResolves env m = Inr u \<longleftrightarrow> attachedHeld env m"
  by (auto simp: assertAttachedResolves_def attachedHeld_def bindE_Inr attachedLoop_Inr list_all_iff width_defs not_less)

subsection \<open>What the readers accept\<close>

lemma requireText_Inr [reader_simps]: "requireText v k = Inr s \<longleftrightarrow> v = CText s \<and> shortText k s"
  by (auto simp: requireText_def shortText_def badManifest_def Let_def not_less Suc_le_eq split: cval.splits if_splits)

lemma requireStamp_Inr [reader_simps]: "requireStamp v = Inr n \<longleftrightarrow> v = cint (int n) \<and> safeNat n"
  by (auto simp: requireStamp_def badManifest_def safeNat_def uintOf_Some split: option.splits)
     (metis option.distinct(1) uintOf_Some)

lemma requireDuration_stamp: "requireDuration = requireStamp"
  by (simp add: fun_eq_iff requireDuration_def requireStamp_def)

lemma requireDigest_Inr [reader_simps]: "requireDigest v = Inr bs \<longleftrightarrow> v = CBytes bs \<and> length bs = 32"
  by (auto simp: requireDigest_def badManifest_def width_defs split: cval.splits if_splits)

lemma requireBytes1_Inr [reader_simps]: "requireBytes1 v = Inr bs \<longleftrightarrow> v = CBytes bs \<and> bs \<noteq> []"
  by (auto simp: requireBytes1_def badManifest_def not_less Suc_le_eq split: cval.splits if_splits)

lemma orNull_Inr: "orNull f v = Inr x \<longleftrightarrow> (case x of None \<Rightarrow> v = CNull | Some y \<Rightarrow> v \<noteq> CNull \<and> f v = Inr y)"
  by (cases x) (auto simp: orNull_def bindE_Inr)

lemma requireMap_Inr [reader_simps]: "requireMap v = Inr m \<longleftrightarrow> v = CMap m"
  by (auto simp: requireMap_def badManifest_def split: option.splits)

lemma requireArray_Inr [reader_simps]: "requireArray v = Inr xs \<longleftrightarrow> v = CArr xs"
  by (auto simp: requireArray_def badManifest_def split: cval.splits)

lemma requireSlot_Inr [reader_simps]: "requireSlot v = Inr k \<longleftrightarrow> v = CText (slotLabel k)"
  by (cases k) (auto simp: requireSlot_def badManifest_def js_def split: cval.splits if_splits)

lemma requireArm_Inr [reader_simps]: "requireArm v = Inr k \<longleftrightarrow> v = CText (armLabel k)"
  by (cases k) (auto simp: requireArm_def badManifest_def js_def split: cval.splits if_splits)

lemma requireProvenance_Inr [reader_simps]: "requireProvenance v = Inr p \<longleftrightarrow> v = CText (provenanceLabel p)"
  by (cases p) (auto simp: requireProvenance_def provenanceOf_def PROVENANCES_def badManifest_def js_def split: cval.splits if_splits)

lemma nullable_Inr [reader_simps]:
  "requireNullableText v k = Inr t \<longleftrightarrow> v = nullable CText t \<and> pred_option (shortText k) t"
  "requireNullableDigest v = Inr d \<longleftrightarrow> v = nullable CBytes d \<and> pred_option (\<lambda>bs. length bs = 32) d"
  "requireNullableStamp v = Inr n \<longleftrightarrow> v = nullable cnat n \<and> pred_option safeNat n"
  "requireNullableBytes v = Inr b \<longleftrightarrow> v = nullable CBytes b \<and> pred_option (\<lambda>bs. bs \<noteq> []) b"
proof -
  show "requireNullableText v k = Inr t \<longleftrightarrow> v = nullable CText t \<and> pred_option (shortText k) t"
    by (cases t) (auto simp: requireNullableText_def orNull_Inr nullable_def requireText_Inr)
  show "requireNullableDigest v = Inr d \<longleftrightarrow> v = nullable CBytes d \<and> pred_option (\<lambda>bs. length bs = 32) d"
    by (cases d) (auto simp: requireNullableDigest_def orNull_Inr nullable_def requireDigest_Inr)
  show "requireNullableStamp v = Inr n \<longleftrightarrow> v = nullable cnat n \<and> pred_option safeNat n"
    by (cases n) (auto simp: requireNullableStamp_def orNull_Inr nullable_def requireDuration_stamp requireStamp_Inr cnat_def)
  show "requireNullableBytes v = Inr b \<longleftrightarrow> v = nullable CBytes b \<and> pred_option (\<lambda>bs. bs \<noteq> []) b"
    by (cases b) (auto simp: requireNullableBytes_def orNull_Inr nullable_def requireBytes1_Inr)
qed

lemma bytesCase_Inr: "(case v of CBytes bs \<Rightarrow> f bs | _ \<Rightarrow> badManifest) = Inr x \<longleftrightarrow> (\<exists>bs. v = CBytes bs \<and> f bs = Inr x)"
  by (cases v) (simp_all add: badManifest_def)

definition definedWith :: "string list \<Rightarrow> (string \<times> string list) list \<Rightarrow> (cval \<times> cval) list \<Rightarrow> bool" where
  "definedWith names nested raw =
    membersDefined (DefinedMap (map js names) (map (\<lambda>(n, ms). (js n, leafMap ms)) nested)) raw"

lemma assertDefined_Inr [reader_simps]: "assertDefined raw names nested = Inr u \<longleftrightarrow> definedWith names nested raw"
  by (simp add: assertDefined_def definedWith_def)

lemma definedWith_canon [simp]: "definedWith names nested (canonEntries m) = definedWith names nested m"
  by (simp only: definedWith_def membersDefined_canon)

lemma readWindow_Inr: "readWindow v = Inr w \<Longrightarrow> windowWf w"
  by (auto simp: readWindow_def bindE_Inr reader_simps windowWf_def)

lemma readItem_Inr: "readItem v = Inr it \<Longrightarrow> itemWf it"
  unfolding readItem_def bindE_Inr bytesCase_Inr reader_simps by (auto simp: itemWf_def width_defs)

lemma readCustodyEntry_Inr: "readCustodyEntry v = Inr c \<Longrightarrow> custodyWf c"
  by (auto simp: readCustodyEntry_def bindE_Inr reader_simps custodyWf_def width_defs dest!: readWindow_Inr split: option.splits)

lemma readAttachedObject_Inr: "readAttachedObject v = Inr a \<Longrightarrow> attachedWf a"
  by (auto simp: readAttachedObject_def bindE_Inr reader_simps attachedWf_def)

lemma mapE_all: "mapE f xs = Inr ys \<Longrightarrow> (\<And>x y. f x = Inr y \<Longrightarrow> P y) \<Longrightarrow> list_all P ys"
  by (induction xs arbitrary: ys) (auto simp: bindE_Inr)

lemma readSpan_Inr:
  "readSpan raw stamp = Inr w \<longleftrightarrow> member raw ''from'' = cnat (psFrom w) \<and> member raw ''to'' = cnat (psTo w) \<and> windowWf w \<and>
    psTo w \<le> stamp"
  by (cases w) (auto simp: readSpan_def bindE_Inr reader_simps cnat_def windowWf_def)

lemma readChain_Inr:
  "readChain raw = Inr c \<longleftrightarrow> member raw ''anchor'' = CBytes (pcAnchor c) \<and> member raw ''head'' = CBytes (pcHead c) \<and>
    length (pcAnchor c) = 32 \<and> length (pcHead c) = 32"
  by (cases c) (auto simp: readChain_def bindE_Inr reader_simps)

lemma readDuty_Inr:
  "readDuty raw stamp = Inr d \<longleftrightarrow> member raw ''art'' = CText (pdArt d) \<and> member raw ''rev'' = cnat (pdRev d) \<and>
    member raw ''required'' = cnat (pdRequired d) \<and> member raw ''held'' = cnat (pdHeld d) \<and>
    safeNat (pdRev d) \<and> safeNat (pdRequired d) \<and> safeNat (pdHeld d) \<and> pdRev d \<le> stamp"
  by (cases d) (auto simp: readDuty_def requireDuration_stamp bindE_Inr reader_simps cnat_def badManifest_def split: cval.splits)

lemma readItems_Inr:
  "readItems v window = Inr items \<longleftrightarrow> (\<exists>xs. v = CArr xs \<and> xs \<noteq> [] \<and> mapE readItem xs = Inr items) \<and>
    (\<forall>it \<in> set items. psFrom window \<le> piIat it \<and> piIat it < psTo window) \<and> distinct (map piId items)"
  by (auto simp: readItems_def bindE_Inr reader_simps not_less not_le)

definition packMembers :: "(cval \<times> cval) list \<Rightarrow> bool" where
  "packMembers raw = definedWith PACK_MANIFEST_MEMBERS
    [(''span'', PACK_SPAN_MEMBERS), (''chain'', PACK_CHAIN_MEMBERS), (''duty'', PACK_DUTY_MEMBERS)] raw"

lemma versionCase_Inr:
  "(case v of CNum (NInt v) \<Rightarrow> if v \<noteq> 1 then refuse PACK_UNSUPPORTED_VERSION else Inr () | _ \<Rightarrow> badManifest) = Inr u \<longleftrightarrow> v = cint 1"
  by (auto simp: badManifest_def split: cval.splits jsnum.splits)

text \<open>The reader of a manifest as one conjunction over the positions of the document.\<close>

definition readsAs :: "(cval \<times> cval) list \<Rightarrow> pack_manifest \<Rightarrow> bool" where
  "readsAs raw m \<longleftrightarrow> member raw ''v'' = cint 1 \<and> packMembers raw \<and>
    (\<exists>sm cm dm xs cs as.
      member raw ''span'' = CMap sm \<and> readSpan sm (pmAt m) = Inr (pmSpan m) \<and>
      member raw ''chain'' = CMap cm \<and> readChain cm = Inr (pmChain m) \<and>
      member raw ''duty'' = CMap dm \<and> readDuty dm (pmAt m) = Inr (pmDuty m) \<and>
      member raw ''at'' = cnat (pmAt m) \<and> safeNat (pmAt m) \<and> member raw ''prov'' = CText (provenanceLabel (pmProv m)) \<and>
      member raw ''items'' = CArr xs \<and> xs \<noteq> [] \<and> mapE readItem xs = Inr (pmItems m) \<and>
      member raw ''custody'' = CArr cs \<and> mapE readCustodyEntry cs = Inr (pmCustody m) \<and>
      member raw ''attached'' = CArr as \<and> mapE readAttachedObject as = Inr (pmAttached m)) \<and>
    (\<forall>it \<in> set (pmItems m). psFrom (pmSpan m) \<le> piIat it \<and> piIat it < psTo (pmSpan m)) \<and> distinct (map piId (pmItems m))"

lemma manifestHeld_asserts:
  assumes "pmItems m \<noteq> []"
  shows "manifestHeld env m \<longleftrightarrow> assertProvReduces m = Inr () \<and> assertHeldCoversItems m = Inr () \<and>
    assertCustodyResolves env m = Inr () \<and> assertAttachedResolves env m = Inr ()"
  unfolding manifestHeld_def assertProvReduces_Inr assertHeldCoversItems_Inr [OF assms] assertCustodyResolves_Inr
    assertAttachedResolves_Inr ..

lemma readsAs_items: "readsAs raw m \<Longrightarrow> pmItems m \<noteq> []"
  unfolding readsAs_def using mapE_Inr_length by fastforce

lemma parseManifest_asserts:
  "parseManifest env bs = Inr m \<longleftrightarrow>
    (\<exists>raw. cdDecodeNoFloats (reCodec env) bs = Some (CMap raw) \<and> readsAs raw m) \<and>
    assertProvReduces m = Inr () \<and> assertHeldCoversItems m = Inr () \<and>
    assertCustodyResolves env m = Inr () \<and> assertAttachedResolves env m = Inr ()"
proof -
  obtain t p w c d items cs as where m: "m = \<lparr>pmAt = t, pmProv = p, pmSpan = w, pmChain = c, pmDuty = d, pmItems = items,
      pmCustody = cs, pmAttached = as\<rparr>" by (cases m)
  show ?thesis
    unfolding parseManifest_def bindE_Inr decodeClosedDocument_Inr versionCase_Inr readCustody_def readAttached_def readItems_Inr
      reader_simps packMembers_def [symmetric] Let_def readsAs_def m pack_manifest.simps cnat_def [symmetric]
    by (auto; blast)
qed

lemma parseManifest_Inr:
  "parseManifest env bs = Inr m \<longleftrightarrow>
    (\<exists>raw. cdDecodeNoFloats (reCodec env) bs = Some (CMap raw) \<and> readsAs raw m) \<and> manifestHeld env m"
  unfolding parseManifest_asserts using manifestHeld_asserts [of m env] readsAs_items by blast

lemma readsAs_wf:
  assumes "readsAs raw m"
  shows "manifestWf m"
proof -
  obtain sm cm dm xs cs as where r: "readSpan sm (pmAt m) = Inr (pmSpan m)" "readChain cm = Inr (pmChain m)"
      "readDuty dm (pmAt m) = Inr (pmDuty m)" "safeNat (pmAt m)" "mapE readItem xs = Inr (pmItems m)"
      "mapE readCustodyEntry cs = Inr (pmCustody m)" "mapE readAttachedObject as = Inr (pmAttached m)"
      "\<forall>it \<in> set (pmItems m). psFrom (pmSpan m) \<le> piIat it \<and> piIat it < psTo (pmSpan m)" "distinct (map piId (pmItems m))"
    using assms unfolding readsAs_def by blast
  have "spanWf m" "dutyWf m" using r(1,3,4) by (simp_all add: spanWf_def dutyWf_def readSpan_Inr readDuty_Inr)
  moreover have "itemsWf m"
    using readsAs_items [OF assms] mapE_all [OF r(5) readItem_Inr] r(8,9) by (simp add: itemsWf_def)
  ultimately show ?thesis
    using r(2) mapE_all [OF r(6) readCustodyEntry_Inr] mapE_all [OF r(7) readAttachedObject_Inr]
    by (simp add: manifestWf_def readChain_Inr)
qed

subsection \<open>Reading a manifest that was written\<close>

definition storable :: "jsstr \<Rightarrow> bool" where
  "storable s \<longleftrightarrow> wfText s \<and> length (textEncode s) < 2 ^ 32"

definition custodyTexts :: "custody_entry \<Rightarrow> jsstr list" where
  "custodyTexts c = [cyItem c, cyO c, cyU c, cyY c] @ (case cyI c of None \<Rightarrow> [] | Some i \<Rightarrow> [i])"

definition manifestTexts :: "pack_manifest \<Rightarrow> jsstr list" where
  "manifestTexts m = pdArt (pmDuty m) # map piId (pmItems m) @ concat (map custodyTexts (pmCustody m))"

definition attachedSizes :: "attached_object \<Rightarrow> bool" where
  "attachedSizes a \<longleftrightarrow> length (aoBytes a) < 2 ^ 32 \<and> pred_option (\<lambda>c. length c < 2 ^ 32) (aoChain a)"

text \<open>The manifests a caller can hand the writer: the shape of one that is read, in text and sizes the format holds.\<close>

definition manifestWritable :: "pack_manifest \<Rightarrow> bool" where
  "manifestWritable m \<longleftrightarrow> manifestWf m \<and> list_all storable (manifestTexts m) \<and>
    length (pmItems m) < 2 ^ 32 \<and> length (pmCustody m) < 2 ^ 32 \<and> length (pmAttached m) < 2 ^ 32 \<and>
    (\<forall>it \<in> set (pmItems m). length (piReceipt it) < 2 ^ 32) \<and> list_all attachedSizes (pmAttached m)"

lemma canon_nullable [simp]:
  "canon (nullable CText t) = nullable CText t" "canon (nullable CBytes b) = nullable CBytes b" "canon (nullable cnat n) = nullable cnat n"
  by (simp_all add: nullable_def cnat_def split: option.split)

lemma canon_cnat [simp]: "canon (cnat n) = cnat n"
  by (simp add: cnat_def)

lemma definedWith_Nil [simp]: "definedWith ns nested []"
  by (simp add: definedWith_def)

lemma definedWith_Cons [simp]:
  "definedWith ns nested ((ctext n, v) # m) \<longleftrightarrow>
    n \<in> set ns \<and> (\<forall>ms mm. map_of nested n = Some ms \<longrightarrow> v = CMap mm \<longrightarrow> list_all (\<lambda>(k, v). k \<in> ctext ` set ms) mm) \<and>
    definedWith ns nested m"
proof -
  have "map_of (map (\<lambda>(n, ms). (js n, leafMap ms)) nested) (js n) = map_option leafMap (map_of nested n)"
    by (induction nested) auto
  then show ?thesis by (auto simp: definedWith_def split: option.splits)
qed

lemmas written = canon_CMap member_canonEntries

lemma window_back: "windowWf w \<Longrightarrow> readWindow (canon (windowMap w)) = Inr w"
  unfolding readWindow_def bindE_Inr reader_simps windowMap_def
  by (cases w) (simp add: windowWf_def PACK_WINDOW_MEMBERS_def written cnat_def del: canon.simps(2))

lemma item_pack_back: "itemWf it \<Longrightarrow> readItem (canon (itemMap it)) = Inr it"
  unfolding readItem_def bindE_Inr bytesCase_Inr reader_simps itemMap_def
  by (cases it) (simp add: itemWf_def width_defs PACK_ITEM_MEMBERS_def written cnat_def del: canon.simps(2))

lemma custody_back: "custodyWf c \<Longrightarrow> readCustodyEntry (canon (custodyMap c)) = Inr c"
proof -
  assume wf: "custodyWf c"
  have opt: "pred_option (shortText 65535) (cyI c)" using wf by (auto simp: custodyWf_def split: option.splits)
  show ?thesis
    unfolding readCustodyEntry_def bindE_Inr reader_simps custodyMap_def
    using wf opt window_back [of "cyW c"]
    by (cases c) (simp add: custodyWf_def width_defs PACK_CUSTODY_MEMBERS_def PACK_CUSTODY_KEY_MEMBERS_def PACK_WINDOW_MEMBERS_def
        windowMap_def written cnat_def del: canon.simps(2))
qed

lemma attached_back: "attachedWf a \<Longrightarrow> readAttachedObject (canon (attachedMap a)) = Inr a"
  unfolding readAttachedObject_def bindE_Inr reader_simps attachedMap_def
  by (cases a) (simp add: attachedWf_def PACK_ATTACHED_MEMBERS_def written del: canon.simps(2))

lemma mapE_back: "\<forall>x \<in> set xs. f (canon (g x)) = Inr x \<Longrightarrow> mapE f (map canon (map g xs)) = Inr xs"
  by (induction xs) simp_all

lemma distinct_manifest: "distinct (map fst (manifestEntries m))"
  by (simp add: manifestEntries_def)

lemma manifest_members: "packMembers (manifestEntries m)"
  unfolding packMembers_def manifestEntries_def windowMap_def
  by (simp add: PACK_MANIFEST_MEMBERS_def PACK_SPAN_MEMBERS_def PACK_CHAIN_MEMBERS_def PACK_DUTY_MEMBERS_def)

lemma manifest_reads_back:
  assumes "manifestWf m"
  shows "readsAs (canonEntries (manifestEntries m)) m"
proof -
  define raw where "raw = canonEntries (manifestEntries m)"
  have at: "member raw n = canon (member (manifestEntries m) n)" for n
    unfolding raw_def by (rule member_canonEntries [OF distinct_manifest])
  have wf: "spanWf m" "dutyWf m" "itemsWf m" "length (pcAnchor (pmChain m)) = 32" "length (pcHead (pmChain m)) = 32"
      "list_all custodyWf (pmCustody m)" "list_all attachedWf (pmAttached m)"
    using assms by (simp_all add: manifestWf_def)
  have "mapE readItem (map canon (map itemMap (pmItems m))) = Inr (pmItems m)"
    by (rule mapE_back) (use wf(3) item_pack_back in \<open>auto simp: itemsWf_def list_all_iff\<close>)
  moreover have "mapE readCustodyEntry (map canon (map custodyMap (pmCustody m))) = Inr (pmCustody m)"
    by (rule mapE_back) (use wf(6) custody_back in \<open>auto simp: list_all_iff\<close>)
  moreover have "mapE readAttachedObject (map canon (map attachedMap (pmAttached m))) = Inr (pmAttached m)"
    by (rule mapE_back) (use wf(7) attached_back in \<open>auto simp: list_all_iff\<close>)
  moreover have "packMembers raw" using manifest_members by (simp only: raw_def packMembers_def definedWith_canon)
  ultimately show ?thesis
    using wf unfolding raw_def [symmetric] readsAs_def
    by (simp add: at manifestEntries_def windowMap_def canon_CMap member_canonEntries readSpan_Inr readChain_Inr readDuty_Inr
        spanWf_def dutyWf_def itemsWf_def del: canon.simps(2))
qed

lemma plain_named:
  assumes "0 < d" "list_all (\<lambda>(n, v). asciiStr n \<and> length n < 2 ^ 32 \<and> plain (d - 1) v) ps" "distinct (map fst ps)" "length ps < 2 ^ 32"
  shows "plain d (CMap (map (\<lambda>(n, v). (ctext n, v)) ps))"
  by (rule plain_map) (use assms in \<open>auto simp: shortName_def list_all_iff simp del: plain.simps\<close>)

lemma plain_cnat [simp]: "safeNat n \<Longrightarrow> plain d (cnat n)"
  by (simp add: cnat_def safeNat_def)

lemma plain_storable: "storable s \<Longrightarrow> plain d (CText s)"
  by (simp add: storable_def)

lemma plain_nullable:
  "pred_option storable t \<Longrightarrow> plain d (nullable CText t)"
  "pred_option (\<lambda>b. length b < 2 ^ 32) b \<Longrightarrow> plain d (nullable CBytes b)"
  "pred_option safeNat n \<Longrightarrow> plain d (nullable cnat n)"
  by (auto simp: nullable_def storable_def split: option.split)

lemma plain_pack_labels: "plain d (CText (provenanceLabel p))" "plain d (CText (slotLabel k))" "plain d (CText (armLabel a))"
proof -
  note lit = plain_literal(1) asciiStr_def
  show "plain d (CText (provenanceLabel p))" by (cases p) (simp_all add: lit del: plain.simps)
  show "plain d (CText (slotLabel k))" by (cases k) (simp_all add: lit del: plain.simps)
  show "plain d (CText (armLabel a))" by (cases a) (simp_all add: lit del: plain.simps)
qed

lemma plain_small: "length bs = 32 \<Longrightarrow> plain d (CBytes bs)"
  by simp

lemmas plain_intros = plain_cnat plain_storable plain_nullable plain_pack_labels plain_small

lemma plain_window: "0 < d \<Longrightarrow> windowWf w \<Longrightarrow> plain d (windowMap w)"
  using plain_named [of d "[(''from'', cnat (psFrom w)), (''to'', cnat (psTo w))]"]
  by (simp add: windowMap_def windowWf_def asciiStr_def del: plain.simps)

lemma plain_item:
  assumes "0 < d" "itemWf it" "storable (piId it)" "length (piReceipt it) < 2 ^ 32"
  shows "plain d (itemMap it)"
proof -
  have "plain (d - 1) (CBytes (piReceipt it))" using assms(4) by simp
  then show ?thesis
    using assms plain_named [of d "[(''id'', CText (piId it)), (''iat'', cnat (piIat it)), (''prov'', CText (provenanceLabel (piProv it))),
      (''prev'', CBytes (piPrev it)), (''receipt'', CBytes (piReceipt it))]"]
    by (simp add: itemMap_def itemWf_def asciiStr_def plain_intros del: plain.simps)
qed

lemma plain_custody:
  assumes "1 < d" "custodyWf c" "list_all storable (custodyTexts c)"
  shows "plain d (custodyMap c)"
proof -
  have t: "storable (cyItem c)" "storable (cyO c)" "storable (cyU c)" "storable (cyY c)" "pred_option storable (cyI c)"
    using assms(3) by (auto simp: custodyTexts_def split: option.splits)
  have k: "plain (d - 1) (CMap [(ctext ''item'', CText (cyItem c)), (ctext ''slot'', CText (slotLabel (cySlot c)))])"
    using assms(1) t(1) plain_named [of "d - 1" "[(''item'', CText (cyItem c)), (''slot'', CText (slotLabel (cySlot c)))]"]
    by (simp add: asciiStr_def plain_intros del: plain.simps)
  have b: "pred_option (\<lambda>b. length b < 2 ^ 32) (cyC c)" using assms(2) by (cases "cyC c") (auto simp: custodyWf_def)
  have w: "plain (d - 1) (windowMap (cyW c))" using assms(1,2) by (simp add: plain_window custodyWf_def)
  show ?thesis
    using assms(1,2) t k b w plain_named [of d "[
      (''k'', CMap [(ctext ''item'', CText (cyItem c)), (ctext ''slot'', CText (slotLabel (cySlot c)))]),
      (''o'', CText (cyO c)), (''u'', CText (cyU c)), (''i'', nullable CText (cyI c)), (''s'', cnat (cyS c)), (''n'', nullable cnat (cyN c)),
      (''b'', CBytes (cyB c)), (''c'', nullable CBytes (cyC c)), (''a'', CText (armLabel (cyA c))), (''w'', windowMap (cyW c)),
      (''y'', CText (cyY c))]"]
    by (simp add: custodyMap_def custodyWf_def asciiStr_def plain_intros del: plain.simps)
qed

lemma plain_attached:
  assumes "0 < d" "attachedWf a" "attachedSizes a"
  shows "plain d (attachedMap a)"
proof -
  have b: "plain (d - 1) (CBytes (aoBytes a))" "pred_option (\<lambda>b. length b < 2 ^ 32) (aoChain a)"
    using assms(3) by (simp_all add: attachedSizes_def)
  have c: "pred_option (\<lambda>b. length b < 2 ^ 32) (aoChainSha256 a)" using assms(2) by (cases "aoChainSha256 a") (auto simp: attachedWf_def)
  show ?thesis
    using assms(1,2) b c plain_named [of d "[(''bytes'', CBytes (aoBytes a)), (''sha256'', CBytes (aoSha256 a)),
      (''chain'', nullable CBytes (aoChain a)), (''chain_sha256'', nullable CBytes (aoChainSha256 a))]"]
    by (simp add: attachedMap_def attachedWf_def asciiStr_def plain_intros del: plain.simps)
qed

lemma plain_arr: "0 < d \<Longrightarrow> length xs < 2 ^ 32 \<Longrightarrow> (\<And>x. x \<in> set xs \<Longrightarrow> plain (d - 1) x) \<Longrightarrow> plain d (CArr xs)"
  by simp

lemma plain_manifest:
  assumes "manifestWritable m"
  shows "plain 8 (CMap (manifestEntries m))"
proof -
  have wf: "spanWf m" "dutyWf m" "itemsWf m" "length (pcAnchor (pmChain m)) = 32" "length (pcHead (pmChain m)) = 32"
      "list_all custodyWf (pmCustody m)" "list_all attachedWf (pmAttached m)"
    and sz: "length (pmItems m) < 2 ^ 32" "length (pmCustody m) < 2 ^ 32" "length (pmAttached m) < 2 ^ 32"
      "\<forall>it \<in> set (pmItems m). length (piReceipt it) < 2 ^ 32" "list_all attachedSizes (pmAttached m)"
    and tx: "\<forall>s \<in> set (manifestTexts m). storable s"
    using assms by (simp_all add: manifestWritable_def manifestWf_def list_all_iff)
  have art: "storable (pdArt (pmDuty m))" using tx by (simp add: manifestTexts_def)
  have items: "plain 7 (CArr (map itemMap (pmItems m)))"
    by (rule plain_arr) (use wf(3) sz(1,4) tx in \<open>auto intro!: plain_item simp: itemsWf_def list_all_iff manifestTexts_def\<close>)
  have texts: "list_all storable (custodyTexts c)" if "c \<in> set (pmCustody m)" for c
    using tx that unfolding list_all_iff manifestTexts_def by auto
  have custody: "plain 7 (CArr (map custodyMap (pmCustody m)))"
    by (rule plain_arr) (use wf(6) sz(2) texts in \<open>auto intro!: plain_custody simp: list_all_iff [of custodyWf]\<close>)
  have attached: "plain 7 (CArr (map attachedMap (pmAttached m)))"
    by (rule plain_arr) (use wf(7) sz(3,5) in \<open>auto intro!: plain_attached simp: list_all_iff\<close>)
  have chain: "plain 7 (CMap [(ctext ''anchor'', CBytes (pcAnchor (pmChain m))), (ctext ''head'', CBytes (pcHead (pmChain m)))])"
    using wf(4,5) plain_named [of 7 "[(''anchor'', CBytes (pcAnchor (pmChain m))), (''head'', CBytes (pcHead (pmChain m)))]"]
    by (simp add: asciiStr_def plain_intros del: plain.simps)
  have duty: "plain 7 (CMap [(ctext ''art'', CText (pdArt (pmDuty m))), (ctext ''rev'', cnat (pdRev (pmDuty m))),
      (ctext ''required'', cnat (pdRequired (pmDuty m))), (ctext ''held'', cnat (pdHeld (pmDuty m)))])"
    using wf(2) art plain_named [of 7 "[(''art'', CText (pdArt (pmDuty m))), (''rev'', cnat (pdRev (pmDuty m))),
      (''required'', cnat (pdRequired (pmDuty m))), (''held'', cnat (pdHeld (pmDuty m)))]"]
    by (simp add: dutyWf_def asciiStr_def plain_intros del: plain.simps)
  have one: "plain 7 (cint 1)" by (simp add: MAX_SAFE_INTEGER_def)
  have span: "plain 7 (windowMap (pmSpan m))" "safeNat (pmAt m)" using wf(1) by (simp_all add: plain_window spanWf_def)
  show ?thesis
    using plain_named [of 8 "[(''v'', cint 1), (''at'', cnat (pmAt m)), (''prov'', CText (provenanceLabel (pmProv m))),
      (''span'', windowMap (pmSpan m)),
      (''chain'', CMap [(ctext ''anchor'', CBytes (pcAnchor (pmChain m))), (ctext ''head'', CBytes (pcHead (pmChain m)))]),
      (''duty'', CMap [(ctext ''art'', CText (pdArt (pmDuty m))), (ctext ''rev'', cnat (pdRev (pmDuty m))),
        (ctext ''required'', cnat (pdRequired (pmDuty m))), (ctext ''held'', cnat (pdHeld (pmDuty m)))]),
      (''items'', CArr (map itemMap (pmItems m))), (''custody'', CArr (map custodyMap (pmCustody m))),
      (''attached'', CArr (map attachedMap (pmAttached m)))]"]
      items custody attached chain duty one span
    by (simp add: manifestEntries_def asciiStr_def plain_intros del: plain.simps)
qed

lemma manifest_roundtrip_helper:
  assumes "lawful (reCodec env)" "manifestWritable m" "manifestHeld env m"
  shows "parseManifest env (encodePackManifest env m) = Inr m"
  unfolding parseManifest_Inr
  using lawfulD(3) [OF assms(1) plain_manifest [OF assms(2)]] manifest_reads_back [of m] assms(2,3)
  by (auto simp: encodePackManifest_def encodeCanonical_def canon_CMap manifestWritable_def simp del: canon.simps plain.simps)

subsection \<open>The envelope\<close>

text \<open>The reader of a pack takes the content type first, and accepts what the reader of a receipt accepts.\<close>

lemma containerEnvelope_Inr: "containerEnvelope env bs ct malformed bad = Inr r \<longleftrightarrow> decodeCoseSign1 env bs ct = Inr r"
  by (cases r)
     (auto simp: containerEnvelope_def containerHeader_def decodeCoseSign1_def parseProtectedHeader_def bindE_Inr
       closedHeaderMap_Inr readKid_Inr readContentType_Inr)

lemma readEnvelope_Inr: "readEnvelope env bs = Inr r \<longleftrightarrow> decodeCoseSign1 env bs PACK_CONTENT_TYPE = Inr r"
  by (simp add: readEnvelope_def containerEnvelope_Inr)

lemma packSigStructure_eq: "packSigStructure env p pl aad = sigStructure env p aad pl"
  by (simp add: packSigStructure_def sigStructure_def)

lemma envelopeKey_Inr:
  "envelopeKey env opts kid = Inr pk \<longleftrightarrow> designates (koPublicKey opts) (koResolveKey opts) kid pk \<and> kid = keyId env pk"
  by (cases "koPublicKey opts"; cases "koResolveKey opts")
     (auto simp: envelopeKey_def designatedKey_def designates_def split: option.splits)

lemma checkOriginal_Inr:
  "checkOriginal env clockMs opts one = Inr vi \<longleftrightarrow> viItem vi = one \<and>
    verifyReceipt env clockMs (piReceipt one) (receiptOptions opts) = Inr (viReceipt vi) \<and>
    rpIat (vcPayload (viReceipt vi)) = piIat one"
  by (cases vi) (auto simp: checkOriginal_def bindE_Inr split: sum.splits)

definition genuine :: "receipt_env \<Rightarrow> int \<Rightarrow> key_options \<Rightarrow> verified_item \<Rightarrow> bool" where
  "genuine env clockMs opts vi \<longleftrightarrow>
    verifyReceipt env clockMs (piReceipt (viItem vi)) (receiptOptions opts) = Inr (viReceipt vi) \<and>
    rpIat (vcPayload (viReceipt vi)) = piIat (viItem vi)"

lemma checkOriginals_Inr:
  "checkOriginals env clockMs opts items = Inr vis \<longleftrightarrow> map viItem vis = items \<and> list_all (genuine env clockMs opts) vis"
  unfolding checkOriginals_def
  by (induction items arbitrary: vis) (auto simp: bindE_Inr checkOriginal_Inr genuine_def list_all_iff)

lemma verifyPack_Inr:
  "verifyPack env clockMs bs opts = Inr vp \<longleftrightarrow>
    (\<exists>pk originals. designates (koPublicKey opts) (koResolveKey opts) (phKid (vpHeader vp)) pk \<and>
      decodeCoseSign1 env bs PACK_CONTENT_TYPE = Inr (vpEnvelope vp, vpHeader vp) \<and>
      phKid (vpHeader vp) = keyId env pk \<and> sealedBy env (vpEnvelope vp) pk \<and>
      parseManifest env (coPayload (vpEnvelope vp)) = Inr (vpManifest vp) \<and>
      checkOriginals env clockMs opts (pmItems (vpManifest vp)) = Inr originals \<and>
      walk viItem env originals (pcAnchor (pmChain (vpManifest vp))) (pcHead (pmChain (vpManifest vp))) = Inr (vpWalked vp)) \<and>
    vpOrdering vp = stampOrderFindings (vpWalked vp)"
  unfolding verifyPack_def bindE_Inr failIf_simps readEnvelope_Inr envelopeKey_Inr checkSignature_Inr packSigStructure_eq
    sealedBy_def
  by (cases vp) (auto simp: designates_def bindE_Inr envelopeKey_Inr checkSignature_Inr; blast)

definition walkedItems :: "verified_pack \<Rightarrow> pack_item list" where
  "walkedItems vp = map viItem (vpWalked vp)"

lemma verifyPack_walked:
  assumes "verifyPack env clockMs bs opts = Inr vp"
  defines "m \<equiv> vpManifest vp"
  shows "mset (walkedItems vp) = mset (pmItems m)"
    and "chained (itemDigest env) piPrev (pcAnchor (pmChain m)) (walkedItems vp) (pcHead (pmChain m))"
    and "list_all (genuine env clockMs opts) (vpWalked vp)"
    and "list_all framedItem (walkedItems vp)"
    and "manifestWf m" "manifestHeld env m"
proof -
  obtain os where p: "parseManifest env (coPayload (vpEnvelope vp)) = Inr m"
    and os: "checkOriginals env clockMs opts (pmItems m) = Inr os"
    and w: "walk viItem env os (pcAnchor (pmChain m)) (pcHead (pmChain m)) = Inr (vpWalked vp)"
    using assms unfolding verifyPack_Inr by blast
  show wf: "manifestWf m" "manifestHeld env m" using p readsAs_wf unfolding parseManifest_Inr by blast+
  have g: "map viItem os = pmItems m" "list_all (genuine env clockMs opts) os" using os unfolding checkOriginals_Inr by auto
  have "distinct (map (piId \<circ> viItem) os)" using wf(1) g(1) by (simp add: manifestWf_def itemsWf_def flip: map_map)
  from w [unfolded walk_iff_helper [OF this]]
  have e: "mset (vpWalked vp) = mset os" and l: "linked viItem env (pcAnchor (pmChain m)) (vpWalked vp) (pcHead (pmChain m))" by auto
  show ms: "mset (walkedItems vp) = mset (pmItems m)" by (metis e g(1) mset_map walkedItems_def)
  show "chained (itemDigest env) piPrev (pcAnchor (pmChain m)) (walkedItems vp) (pcHead (pmChain m))"
    using l by (simp add: linked_def walkedItems_def)
  show "list_all (genuine env clockMs opts) (vpWalked vp)" using g(2) mset_eq_setD [OF e] by (simp add: list_all_iff)
  have "list_all itemWf (walkedItems vp)" using wf(1) mset_eq_setD [OF ms] by (simp add: manifestWf_def itemsWf_def list_all_iff)
  moreover have "list_all digestible (walkedItems vp)" using l by (simp add: linked_def walkedItems_def list_all_iff)
  ultimately show "list_all framedItem (walkedItems vp)"
    by (auto simp: list_all_iff framedItem_def itemWf_def safeNat_def MAX_SAFE_INTEGER_def)
qed

lemma walk_mapped:
  assumes "walk (\<lambda>one. one) env items anchor head = Inr w" "distinct (map piId items)" "\<And>it. item (f it) = it"
  shows "walk item env (map f items) anchor head = Inr (map f w)"
proof -
  have c: "map (piId \<circ> item) (map f items) = map piId items" "map (piPrev \<circ> item) (map f items) = map piPrev items"
      "map item (map f w) = w" "list_all (digestible \<circ> item) (map f w) = list_all digestible w"
    using assms(3) by (simp_all add: comp_def list_all_iff)
  have i: "piId \<circ> (\<lambda>one. one) = piId" "piPrev \<circ> (\<lambda>one. one) = piPrev" "digestible \<circ> (\<lambda>one. one) = digestible" by auto
  have "mset w = mset items" "linked (\<lambda>one. one) env anchor w head" "distinct (map piPrev items)"
    using assms(1) walk_iff_helper [of "\<lambda>one. one" items env anchor head w] assms(2) by (simp_all add: i)
  moreover have "distinct (map (piId \<circ> item) (map f items))" using assms(2) by (simp only: c)
  ultimately show ?thesis
    by (simp only: walk_iff_helper linked_def c i mset_map list.map_ident)
qed

lemma content_type_pack: "ascii PACK_CONTENT_TYPE" "length PACK_CONTENT_TYPE < 2 ^ 16"
  unfolding PACK_CONTENT_TYPE_def by (rule ascii_js) (simp_all add: asciiStr_def js_def)

definition containerReady :: "receipt_env \<Rightarrow> signing_key \<Rightarrow> bool" where
  "containerReady env key \<longleftrightarrow> workingKey env key \<and> length (skPrivateKey key) = 32 \<and> length (skPublicKey key) = 32"

lemma signPack_verifies:
  assumes law: "lawful (reCodec env)" and key: "containerReady env key"
    and m: "manifestWritable m" "manifestHeld env m" "length (cborEnc (CMap (manifestEntries m))) < 2 ^ 32"
    and w: "walk (\<lambda>one. one) env (pmItems m) (pcAnchor (pmChain m)) (pcHead (pmChain m)) = Inr w"
    and d: "designates (koPublicKey opts) (koResolveKey opts) (skKid key) (skPublicKey key)"
    and r: "\<forall>it \<in> set (pmItems m). \<exists>r. verifyReceipt env clockMs (piReceipt it) (receiptOptions opts) = Inr r \<and>
      rpIat (vcPayload r) = piIat it"
  shows "\<exists>bs vp. signPack env m key = Inr bs \<and> verifyPack env clockMs bs opts = Inr vp \<and> vpManifest vp = m \<and>
    walkedItems vp = w \<and> phKid (vpHeader vp) = skKid key"
proof -
  define pl where "pl = encodePackManifest env m"
  have work: "workingKey env key" and kid: "skKid key = keyId env (skPublicKey key)" "length (skKid key) = 32"
    using key unfolding containerReady_def workingKey_def by blast+
  have pl: "length pl < 2 ^ 32" "parseManifest env pl = Inr m"
    using m(3) lawfulD(1) [OF law plain_manifest [OF m(1)]] manifest_roundtrip_helper [OF law m(1,2)]
    by (simp_all add: pl_def encodePackManifest_def encodeCanonical_def del: cborEnc.simps)
  obtain bs co where bs: "signCoseSign1 env pl key [] PACK_CONTENT_TYPE = Inr bs"
      "decodeCoseSign1 env bs PACK_CONTENT_TYPE = Inr (co, \<lparr>phAlg = ALG_EDDSA, phKid = skKid key, phContentType = PACK_CONTENT_TYPE\<rparr>)"
      "coPayload co = pl" "sealedBy env co (skPublicKey key)"
    using sealed_opens [OF law work content_type_pack pl(1)] by blast
  have "containerKey env key = Inr ()" using key kid by (simp add: containerKey_def containerReady_def width_defs bindE_failIf)
  then have "signPack env m key = signCoseSign1 env pl key [] PACK_CONTENT_TYPE"
    using pl(2) w by (simp add: signPack_def signCoseSign1_def pl_def [symmetric] packSigStructure_eq encodePackProtectedHeader_def sealPack_def)
  then have signed: "signPack env m key = Inr bs" using bs(1) by simp
  define f where "f it = \<lparr>viItem = it, viReceipt = projr (verifyReceipt env clockMs (piReceipt it) (receiptOptions opts))\<rparr>" for it
  have "list_all (genuine env clockMs opts) (map f (pmItems m))"
    using r unfolding list_all_iff genuine_def f_def by fastforce
  then have os: "checkOriginals env clockMs opts (pmItems m) = Inr (map f (pmItems m))"
    unfolding checkOriginals_Inr by (simp add: f_def comp_def)
  have "distinct (map piId (pmItems m))" using m(1) by (simp add: manifestWritable_def manifestWf_def itemsWf_def)
  then have "walk viItem env (map f (pmItems m)) (pcAnchor (pmChain m)) (pcHead (pmChain m)) = Inr (map f w)"
    by (rule walk_mapped [OF w]) (simp add: f_def)
  then have "verifyPack env clockMs bs opts = Inr \<lparr>vpManifest = m, vpHeader = \<lparr>phAlg = ALG_EDDSA, phKid = skKid key,
      phContentType = PACK_CONTENT_TYPE\<rparr>, vpEnvelope = co, vpWalked = map f w, vpOrdering = stampOrderFindings (map f w)\<rparr>"
    unfolding verifyPack_Inr using bs(2,3,4) d kid(1) pl(2) os by auto
  then show ?thesis using signed by (auto simp: walkedItems_def f_def comp_def)
qed

subsection \<open>Properties\<close>

text \<open>
  C10 The walk of a pack against its specification. For records of distinct names it returns a list exactly when
  that list is a permutation of the records that leads from the anchor to the head, each record naming the
  digest of the one before, and no two records name the same one. So the order the records were listed in does
  not matter, the result is unique, and a fork, a gap, a cycle or a record left out is refused.
\<close>

theorem walk_iff:
  assumes "distinct (map (piId \<circ> item) records)"
  shows "walk item env records anchor head = Inr w \<longleftrightarrow>
    mset w = mset records \<and> linked item env anchor w head \<and> distinct (map (piPrev \<circ> item) records)"
  by (rule walk_iff_helper [OF assms])

text \<open>
  C8 What a verified pack establishes: a key the caller designates for the kid of the header, whose digest is
  that kid, signed exactly the header and manifest bytes; the manifest is their reading, well-formed and with
  every reference answered; the walked records are its items, no more and no fewer, each linked to the one
  before by its digest from the anchor to the head; and every receipt among them verifies on its own under the
  caller's keys with the instant the item states.
\<close>

theorem verifyPack_sound:
  assumes "verifyPack env clockMs bs opts = Inr vp"
  shows "(\<exists>pk. designates (koPublicKey opts) (koResolveKey opts) (phKid (vpHeader vp)) pk \<and> phKid (vpHeader vp) = reSha256 env pk \<and>
      reVerify env (coSignature (vpEnvelope vp)) (sigStructure env (coProtected (vpEnvelope vp)) [] (coPayload (vpEnvelope vp))) pk = Some True) \<and>
    parseManifest env (coPayload (vpEnvelope vp)) = Inr (vpManifest vp) \<and>
    manifestWf (vpManifest vp) \<and> manifestHeld env (vpManifest vp) \<and>
    mset (walkedItems vp) = mset (pmItems (vpManifest vp)) \<and>
    chained (itemDigest env) piPrev (pcAnchor (pmChain (vpManifest vp))) (walkedItems vp) (pcHead (pmChain (vpManifest vp))) \<and>
    list_all (genuine env clockMs opts) (vpWalked vp)"
  using verifyPack_walked [OF assms] assms unfolding verifyPack_Inr sealedBy_def keyId_def by blast

text \<open>
  C9 What the two digests of a pack commit to. Two packs that verify, whoever sealed them and when, and name the
  same anchor and head carry the same receipts under the same ids and stamps in the same order, or exhibit two
  different record frames with one SHA-256 digest, or a record whose digest is the anchor itself.
\<close>

theorem pack_commits:
  assumes "verifyPack env clockMs bs opts = Inr vp" and "verifyPack env clockMs' bs' opts' = Inr vp'"
    and "pmChain (vpManifest vp) = pmChain (vpManifest vp')"
  shows "map itemCore (walkedItems vp) = map itemCore (walkedItems vp') \<or>
    (\<exists>r \<in> set (walkedItems vp). \<exists>s \<in> set (walkedItems vp'). collision (reSha256 env) (itemFrame r) (itemFrame s)) \<or>
    (\<exists>r \<in> set (walkedItems vp) \<union> set (walkedItems vp'). itemDigest env r = pcAnchor (pmChain (vpManifest vp)))"
  using pack.endpoints_commit [of env "pcAnchor (pmChain (vpManifest vp))" "walkedItems vp" "pcHead (pmChain (vpManifest vp))" "walkedItems vp'"]
    verifyPack_walked(2,4) [OF assms(1)] verifyPack_walked(2,4) [OF assms(2)] assms(3)
  by (simp add: pack_digest itemDigest_def)

text \<open>
  C13 A pack that was signed verifies. For a manifest a caller can state, whose references answer and whose
  items walk from the anchor to the head, and a key of the right widths, the pack is signed; and every reader
  that designates the key, and to whom each receipt verifies with its stamp, reads back exactly the manifest
  and walks the items in the order the writer did.
\<close>

theorem pack_roundtrip:
  assumes "lawful (reCodec env)" and "containerReady env key"
    and "manifestWritable m" "manifestHeld env m" "length (cborEnc (CMap (manifestEntries m))) < 2 ^ 32"
    and "walk (\<lambda>one. one) env (pmItems m) (pcAnchor (pmChain m)) (pcHead (pmChain m)) = Inr w"
    and "designates (koPublicKey opts) (koResolveKey opts) (skKid key) (skPublicKey key)"
    and "\<forall>it \<in> set (pmItems m). \<exists>r. verifyReceipt env clockMs (piReceipt it) (receiptOptions opts) = Inr r \<and>
      rpIat (vcPayload r) = piIat it"
  shows "\<exists>bs vp. signPack env m key = Inr bs \<and> verifyPack env clockMs bs opts = Inr vp \<and> vpManifest vp = m \<and>
    walkedItems vp = w \<and> phKid (vpHeader vp) = skKid key"
  by (rule signPack_verifies [OF assms])

subsection \<open>An example pack\<close>

lemma length_signed:
  assumes law: "lawful (reCodec env)" and key: "workingKey env key" and ct: "ascii ct" "length ct < 2 ^ 16" and pl: "length pl < 2 ^ 20"
    and bs: "signCoseSign1 env pl key [] ct = Inr bs"
  shows "length bs < 2 ^ 21" "64 \<le> length bs"
proof -
  define hm where "hm = CMap [(cint COSE_HEADER_ALG, cint ALG_EDDSA), (cint COSE_HEADER_CONTENT_TYPE, CText ct), (cint COSE_HEADER_KID, CBytes (skKid key))]"
  define ph where "ph = buildProtectedHeader env (skKid key) ct"
  have kid: "length (skKid key) = 32" using key unfolding workingKey_def by blast
  have "plain 8 hm" using ct kid by (simp add: hm_def label_defs MAX_SAFE_INTEGER_def wfText_ascii length_textEncode_ascii)
  then have "ph = cborEnc hm" using lawfulD(1) [OF law] by (simp add: ph_def buildProtectedHeader_def encodeCanonical_def hm_def)
  then have ph: "length ph < 2 ^ 17" using length_cborEnc [of hm] ct kid by (simp add: hm_def length_textEncode_ascii)
  obtain s where s: "signEd25519 env (sigStructure env ph [] pl) (skPrivateKey key) = Inr s" "length s = 64"
    using key unfolding workingKey_def by blast
  have "bs = sealCoseSign1 env ph pl s []" using bs s(1) by (simp add: signCoseSign1_def ph_def [symmetric])
  moreover have "plain 8 (envelopeValue ph pl s [])" using ph pl s(2) by (simp add: envelopeValue_def label_defs)
  ultimately have "bs = cborEnc (envelopeValue ph pl s [])"
    using lawfulD(1) [OF law] by (simp add: sealCoseSign1_def encodeCanonical_def envelopeValue_def)
  then show "length bs < 2 ^ 21" "64 \<le> length bs"
    using length_cborEnc [of "envelopeValue ph pl s []"] ph pl s(2) by (simp_all add: envelopeValue_def)
qed

definition sampleReceipt :: bytes where
  "sampleReceipt = projr (issueReceipt toyEnv (samplePayload 1800000000) toyKey)"

definition sampleItem :: "string \<Rightarrow> bytes \<Rightarrow> pack_item" where
  "sampleItem name prev = \<lparr>piId = js name, piIat = 1800000000, piProv = Live, piPrev = prev, piReceipt = sampleReceipt\<rparr>"

definition firstItem :: pack_item where "firstItem = sampleItem ''a'' (replicate 32 0)"
definition secondItem :: pack_item where "secondItem = sampleItem ''b'' (itemDigest toyEnv firstItem)"

lemmas item_defs = firstItem_def secondItem_def sampleItem_def

text \<open>The items are listed out of order.\<close>

definition samplePack :: pack_manifest where
  "samplePack = \<lparr>pmAt = 1800000001, pmProv = Live, pmSpan = \<lparr>psFrom = 1800000000, psTo = 1800000001\<rparr>,
    pmChain = \<lparr>pcAnchor = replicate 32 0, pcHead = itemDigest toyEnv secondItem\<rparr>,
    pmDuty = \<lparr>pdArt = js ''26.6'', pdRev = 0, pdRequired = 0, pdHeld = 1\<rparr>, pmItems = [secondItem, firstItem],
    pmCustody = [], pmAttached = []\<rparr>"

definition sampleKeys :: key_options where
  "sampleKeys = \<lparr>koPublicKey = Some (replicate 32 7), koResolveKey = None\<rparr>"

lemma sample_bound: "length (encodeCanonical (reCodec toyEnv) (CMap (payloadEntries (samplePayload 1800000000)))) < 2 ^ 20"
proof -
  have "cborBound (CMap (payloadEntries (samplePayload 1800000000))) < 2 ^ 20"
    by (simp add: payloadEntries_def samplePayload_def markingMembers_def itemMembers_def PRESENCE_HELD_def asciiStr_def)
  then show ?thesis
    using length_cborEnc [of "CMap (payloadEntries (samplePayload 1800000000))"]
      lawfulD(1) [OF lawful_toyEnv plain_payload [OF samplePayload_writable]]
    by (simp add: encodeCanonical_def del: cborEnc.simps cborBound.simps)
qed

lemma sampleReceipt_opens:
  "issueReceipt toyEnv (samplePayload 1800000000) toyKey = Inr sampleReceipt" "length sampleReceipt < 2 ^ 32"
  "64 \<le> length sampleReceipt"
  "\<exists>co. decodeCoseSign1 toyEnv sampleReceipt RECEIPT_CONTENT_TYPE =
      Inr (co, \<lparr>phAlg = ALG_EDDSA, phKid = skKid toyKey, phContentType = RECEIPT_CONTENT_TYPE\<rparr>) \<and>
    parsePayload toyEnv (coPayload co) PARSED_VERSIONS = Inr (samplePayload 1800000000) \<and> sealedBy toyEnv co (skPublicKey toyKey)"
proof -
  define p where "p = samplePayload 1800000000"
  have w: "writable p" unfolding p_def by (rule samplePayload_writable) simp
  obtain bs co where bs: "issueReceipt toyEnv p toyKey = Inr bs"
      "decodeCoseSign1 toyEnv bs RECEIPT_CONTENT_TYPE =
        Inr (co, \<lparr>phAlg = ALG_EDDSA, phKid = skKid toyKey, phContentType = RECEIPT_CONTENT_TYPE\<rparr>)"
      "coPayload co = encodeCanonical (reCodec toyEnv) (CMap (payloadEntries p))" "sealedBy toyEnv co (skPublicKey toyKey)"
    using issued_opens [OF lawful_toyEnv w toyKey_works] samplePayload_size by (auto simp: p_def)
  have e: "sampleReceipt = bs" using bs(1) by (simp add: sampleReceipt_def p_def)
  have "parsePayload toyEnv (coPayload co) PARSED_VERSIONS = Inr p"
    unfolding bs(3) by (rule parse_encode [OF lawful_toyEnv w]) (simp add: p_def samplePayload_def receiptVersion_def PARSED_VERSIONS_def)
  then show "\<exists>co. decodeCoseSign1 toyEnv sampleReceipt RECEIPT_CONTENT_TYPE =
      Inr (co, \<lparr>phAlg = ALG_EDDSA, phKid = skKid toyKey, phContentType = RECEIPT_CONTENT_TYPE\<rparr>) \<and>
      parsePayload toyEnv (coPayload co) PARSED_VERSIONS = Inr (samplePayload 1800000000) \<and> sealedBy toyEnv co (skPublicKey toyKey)"
    using bs(2,4) unfolding e p_def by blast
  show "issueReceipt toyEnv (samplePayload 1800000000) toyKey = Inr sampleReceipt" using bs(1) by (simp add: e p_def)
  obtain pl where pl: "encodePayload toyEnv p = Inr pl" "signCoseSign1 toyEnv pl toyKey [] RECEIPT_CONTENT_TYPE = Inr bs"
    using bs(1) by (auto simp: issueReceipt_def bindE_Inr)
  have "pl = encodeCanonical (reCodec toyEnv) (CMap (payloadEntries p))"
    using pl(1) by (auto simp: encodePayload_def bindE_Inr)
  then have "length pl < 2 ^ 20" using sample_bound by (simp add: p_def)
  from length_signed [OF lawful_toyEnv toyKey_works content_type_ascii this pl(2)]
  show "length sampleReceipt < 2 ^ 32" "64 \<le> length sampleReceipt" by (simp_all add: e)
qed

lemma storable_js: "asciiStr s \<Longrightarrow> length s < 2 ^ 32 \<Longrightarrow> storable (js s)"
  using plain_literal(1) [of s 0] by (simp add: storable_def)

lemma shortText_js: "asciiStr s \<Longrightarrow> 0 < length s \<Longrightarrow> length s \<le> k \<Longrightarrow> shortText k (js s)"
  by (simp add: shortText_def Suc_le_eq)

lemma digestible_js:
  assumes "piId it = js s" "asciiStr s" "s \<noteq> []" "length s \<le> 65535" "length (piPrev it) = 32"
  shows "digestible it"
proof -
  have "length (textEncode (piId it)) = length s" using assms(1,2) by simp
  then show ?thesis using assms(3-5) by (auto simp: digestible_def)
qed

lemma length_itemDigest_toy [simp]: "length (itemDigest toyEnv it) = 32"
  by (simp add: itemDigest_def toyEnv_def)

lemma sampleItem_wf:
  assumes "asciiStr name" "name \<noteq> []" "length name \<le> 65535" "length prev = 32"
  shows "itemWf (sampleItem name prev)" "digestible (sampleItem name prev)" "storable (js name)"
proof -
  show "itemWf (sampleItem name prev)"
    using assms shortText_js [of name 65535] by (simp add: itemWf_def sampleItem_def safeNat_def MAX_SAFE_INTEGER_def)
  show "digestible (sampleItem name prev)" using assms by (intro digestible_js [of _ name]) (simp_all add: sampleItem_def)
  show "storable (js name)" using assms by (intro storable_js) simp_all
qed

lemma items_wf: "itemWf firstItem" "itemWf secondItem" "digestible firstItem" "digestible secondItem"
    "storable (js ''a'')" "storable (js ''b'')"
  using sampleItem_wf [of "''a''" "replicate 32 0"] sampleItem_wf [of "''b''" "itemDigest toyEnv firstItem"]
  by (simp_all add: firstItem_def secondItem_def asciiStr_def)

lemma samplePack_writable: "manifestWritable samplePack"
proof -
  have "storable (js ''26.6'')" by (rule storable_js) (simp_all add: asciiStr_def)
  then show ?thesis
    using sampleReceipt_opens(2) items_wf
    by (simp add: manifestWritable_def manifestWf_def spanWf_def dutyWf_def itemsWf_def windowWf_def safeNat_def MAX_SAFE_INTEGER_def
        manifestTexts_def samplePack_def) (simp add: item_defs)
qed

lemma samplePack_held: "manifestHeld toyEnv samplePack"
proof -
  have "slotsOfItem toyEnv (sampleItem name prev) = []" for name prev
    using sampleReceipt_opens(4)
    by (auto simp: slotsOfItem_def decodeReceipt_def sampleItem_def samplePayload_def heldOf_def acceptedVersions_def)
  then have "heldSlotDigests toyEnv samplePack = []"
    by (simp add: heldSlotDigests_def samplePack_def firstItem_def secondItem_def)
  then show ?thesis by (simp add: manifestHeld_def held_defs samplePack_def) (simp add: item_defs)
qed

lemma samplePack_size: "length (cborEnc (CMap (manifestEntries samplePack))) < 2 ^ 32"
proof -
  obtain pl where pl: "encodePayload toyEnv (samplePayload 1800000000) = Inr pl" "signCoseSign1 toyEnv pl toyKey [] RECEIPT_CONTENT_TYPE = Inr sampleReceipt"
    using sampleReceipt_opens(1) by (auto simp: issueReceipt_def bindE_Inr)
  have "length pl < 2 ^ 20" using pl(1) sample_bound by (auto simp: encodePayload_def bindE_Inr)
  then have r: "length sampleReceipt < 2 ^ 21"
    using length_signed(1) [OF lawful_toyEnv toyKey_works content_type_ascii _ pl(2)] by blast
  have "cborBound (CMap (manifestEntries samplePack)) < 2 ^ 32"
    using r by (simp add: manifestEntries_def samplePack_def windowMap_def itemMap_def cnat_def asciiStr_def)
      (simp add: item_defs asciiStr_def)
  then show ?thesis using length_cborEnc [of "CMap (manifestEntries samplePack)"] by linarith
qed

lemma toyKey_ready: "containerReady toyEnv toyKey"
  using toyKey_works by (simp add: containerReady_def toyKey_def Let_def)

lemma prev_first: "piPrev firstItem = replicate 32 0" "piPrev secondItem = itemDigest toyEnv firstItem"
    "piId firstItem = js ''a''" "piId secondItem = js ''b''"
  by (simp_all add: item_defs)

lemma toy_digest: "itemDigest toyEnv it \<noteq> replicate 32 0"
proof -
  have "hd (itemDigest toyEnv it) = 1" by (simp add: itemDigest_def toyEnv_def toyHash_def)
  then show ?thesis by auto
qed

lemma samplePack_walks:
  "walk (\<lambda>one. one) toyEnv (pmItems samplePack) (pcAnchor (pmChain samplePack)) (pcHead (pmChain samplePack)) = Inr [firstItem, secondItem]"
proof -
  have "linked (\<lambda>one. one) toyEnv (replicate 32 0) [firstItem, secondItem] (itemDigest toyEnv secondItem)"
    using items_wf by (simp add: prev_first)
  then show ?thesis
    using toy_digest by (subst walk_iff_helper) (simp_all add: samplePack_def prev_first)
qed

lemma sampleReceipt_verifies:
  "\<forall>it \<in> set (pmItems samplePack). \<exists>r. verifyReceipt toyEnv 0 (piReceipt it) (receiptOptions sampleKeys) = Inr r \<and>
    rpIat (vcPayload r) = piIat it"
proof -
  obtain co where co: "decodeCoseSign1 toyEnv sampleReceipt RECEIPT_CONTENT_TYPE =
      Inr (co, \<lparr>phAlg = ALG_EDDSA, phKid = skKid toyKey, phContentType = RECEIPT_CONTENT_TYPE\<rparr>)"
      "parsePayload toyEnv (coPayload co) PARSED_VERSIONS = Inr (samplePayload 1800000000)" "sealedBy toyEnv co (skPublicKey toyKey)"
    using sampleReceipt_opens(4) by blast
  let ?r = "\<lparr>vcPayload = samplePayload 1800000000, vcHeader = \<lparr>phAlg = ALG_EDDSA, phKid = skKid toyKey,
    phContentType = RECEIPT_CONTENT_TYPE\<rparr>, vcCose = co\<rparr>"
  have "skPublicKey toyKey = replicate 32 7" "skKid toyKey = keyId toyEnv (replicate 32 7)"
    by (simp_all add: toyKey_def Let_def keyId_def toyEnv_def)
  then have "verifyReceipt toyEnv 0 sampleReceipt (receiptOptions sampleKeys) = Inr ?r"
    unfolding verifyReceipt_Inr using co
    by (simp add: receiptOptions_def sampleKeys_def designates_def acceptedVersions_def instantOf_def inWindow_def isStale_def)
  moreover have "piReceipt it = sampleReceipt" "piIat it = 1800000000" if "it \<in> set (pmItems samplePack)" for it
    using that by (auto simp: samplePack_def item_defs)
  ultimately show ?thesis by (auto simp: samplePayload_def)
qed

lemma sampleKeys_designate: "designates (koPublicKey sampleKeys) (koResolveKey sampleKeys) (skKid toyKey) (skPublicKey toyKey)"
  by (simp add: designates_def sampleKeys_def toyKey_def Let_def)

lemmas sample_signing = lawful_toyEnv toyKey_ready samplePack_writable samplePack_held samplePack_size samplePack_walks
  sampleKeys_designate sampleReceipt_verifies

lemma pack_roundtrip_witness:
  "\<exists>bs vp. signPack toyEnv samplePack toyKey = Inr bs \<and> verifyPack toyEnv 0 bs sampleKeys = Inr vp \<and> vpManifest vp = samplePack \<and>
    walkedItems vp = [firstItem, secondItem] \<and> phKid (vpHeader vp) = skKid toyKey"
  by (rule pack_roundtrip [OF sample_signing])

lemma verifyPack_sound_witness:
  "\<exists>bs vp. verifyPack toyEnv 0 bs sampleKeys = Inr vp \<and> vpManifest vp = samplePack \<and> manifestWf (vpManifest vp) \<and>
    mset (walkedItems vp) = mset (pmItems samplePack) \<and> list_all (genuine toyEnv 0 sampleKeys) (vpWalked vp)"
proof -
  obtain bs vp where v: "verifyPack toyEnv 0 bs sampleKeys = Inr vp" "vpManifest vp = samplePack"
    using signPack_verifies [OF sample_signing] by blast
  show ?thesis using v verifyPack_sound [OF v(1)] by (intro exI [of _ bs] exI [of _ vp]) simp
qed

lemma pack_commits_witness:
  "\<exists>bs vp. verifyPack toyEnv 0 bs sampleKeys = Inr vp \<and> walkedItems vp = [firstItem, secondItem] \<and>
    (map itemCore (walkedItems vp) = map itemCore (walkedItems vp) \<or>
      (\<exists>r \<in> set (walkedItems vp). \<exists>s \<in> set (walkedItems vp). collision (reSha256 toyEnv) (itemFrame r) (itemFrame s)) \<or>
      (\<exists>r \<in> set (walkedItems vp) \<union> set (walkedItems vp). itemDigest toyEnv r = pcAnchor (pmChain (vpManifest vp))))"
proof -
  obtain bs vp where v: "verifyPack toyEnv 0 bs sampleKeys = Inr vp" "walkedItems vp = [firstItem, secondItem]"
    using signPack_verifies [OF sample_signing] by blast
  show ?thesis using v pack_commits [OF v(1) v(1) refl] by blast
qed

definition linkItem :: "string \<Rightarrow> bytes \<Rightarrow> pack_item" where
  "linkItem s prev = \<lparr>piId = js s, piIat = 0, piProv = Live, piPrev = prev, piReceipt = []\<rparr>"

lemma walk_iff_witness:
  "let a = linkItem ''a'' (replicate 32 0); b = linkItem ''b'' (itemDigest toyEnv a); h = itemDigest toyEnv b in
    walk (\<lambda>one. one) toyEnv [b, a] (replicate 32 0) h = Inr [a, b] \<and>
    (\<forall>w. walk (\<lambda>one. one) toyEnv [b, a, linkItem ''c'' (piPrev b)] (replicate 32 0) h \<noteq> Inr w)"
proof -
  define a b h where "a = linkItem ''a'' (replicate 32 0)" and "b = linkItem ''b'' (itemDigest toyEnv a)" and "h = itemDigest toyEnv b"
  have ids: "distinct (map (piId \<circ> (\<lambda>one. one)) [b, a])" "distinct (map (piId \<circ> (\<lambda>one. one)) [b, a, linkItem ''c'' (piPrev b)])"
    by (simp_all add: a_def b_def linkItem_def)
  have "linked (\<lambda>one. one) toyEnv (replicate 32 0) [a, b] h"
    using digestible_js [of a "''a''"] digestible_js [of b "''b''"] by (simp add: a_def b_def h_def linkItem_def asciiStr_def)
  moreover have "piPrev a \<noteq> piPrev b" using toy_digest [of a] by (simp add: a_def b_def linkItem_def)
  ultimately have "walk (\<lambda>one. one) toyEnv [b, a] (replicate 32 0) h = Inr [a, b]"
    using walk_iff [OF ids(1), of toyEnv "replicate 32 0" h "[a, b]"] by auto
  moreover have "walk (\<lambda>one. one) toyEnv [b, a, linkItem ''c'' (piPrev b)] (replicate 32 0) h \<noteq> Inr w" for w
    using walk_iff [OF ids(2), of toyEnv "replicate 32 0" h w] by (simp add: linkItem_def)
  ultimately show ?thesis by (simp add: a_def b_def h_def Let_def)
qed

end
