(* ===== verification/Redaction.thy ===== *)
theory Redaction
  imports PackSpec
begin

text \<open>
  packages/receipt/src/redaction.ts: the signed statement that records were taken out of a pack, its manifest
  read and written, the chain over the records that remain and the verification against the pack it names.
  Then what a verified redaction establishes, what its reduced head commits to, and that a redaction that was
  signed verifies.
\<close>

subsection \<open>Data\<close>

definition REDACTION_CONTENT_TYPE :: jsstr where "REDACTION_CONTENT_TYPE = js ''ashaveri/redaction''"
definition STATES_MAX_BYTES :: nat where "STATES_MAX_BYTES = 2048"
definition REDACTION_MANIFEST_MEMBERS :: "string list" where
  "REDACTION_MANIFEST_MEMBERS = [''v'', ''at'', ''pack'', ''removed'', ''reduced'', ''states'']"

record redaction_manifest =
  rmAt :: nat
  rmPack :: bytes
  rmRemoved :: "jsstr list"
  rmReduced :: bytes
  rmStates :: jsstr

record redaction_outcome =
  rcPackSha256 :: bytes
  rcRemoved :: "jsstr list"
  rcSurvivors :: "verified_item list"
  rcReduced :: bytes
  rcOriginalHead :: bytes
  rcPack :: verified_pack

record verified_redaction =
  vrManifest :: redaction_manifest
  vrHeader :: protected_header
  vrEnvelope :: cose_sign1
  vrOutcome :: redaction_outcome

record redaction_options =
  roKeys :: key_options
  roPackBytes :: "bytes option"

subsection \<open>The chain over the survivors\<close>

definition redactionPackDigest :: "receipt_env \<Rightarrow> bytes \<Rightarrow> bytes" where
  "redactionPackDigest env packBytes = reSha256 env packBytes"

text \<open>A record's id, stamp and receipt are hashed; the predecessor is the digest computed before it.\<close>

fun foldLoop :: "receipt_env \<Rightarrow> bytes \<Rightarrow> pack_item list \<Rightarrow> failure + bytes list \<times> bytes" where
  "foldLoop env prev [] = Inr ([], prev)"
| "foldLoop env prev (one # rest) =
    bindE (recordDigestOf env prev (piIat one) (piId one) (piReceipt one)) (\<lambda>digest.
    bindE (foldLoop env digest rest) (\<lambda>(digests, head). Inr (digest # digests, head)))"

definition survivorFold :: "receipt_env \<Rightarrow> bytes \<Rightarrow> pack_item list \<Rightarrow> failure + bytes list \<times> bytes" where
  "survivorFold env anchor survivors =
    bindE (failIf (length anchor \<noteq> DIGEST_BYTES) (Refused REDACTION_BAD_MANIFEST)) (\<lambda>_.
    bindE (failIf (survivors = []) (Refused REDACTION_SURVIVORS_EMPTY)) (\<lambda>_.
      foldLoop env anchor survivors))"

definition redactionSurvivorChain :: "receipt_env \<Rightarrow> bytes \<Rightarrow> pack_item list \<Rightarrow> failure + bytes list" where
  "redactionSurvivorChain env anchor survivors = bindE (survivorFold env anchor survivors) (\<lambda>(digests, head). Inr digests)"

definition redactionSurvivorDigest :: "receipt_env \<Rightarrow> bytes \<Rightarrow> pack_item list \<Rightarrow> failure + bytes" where
  "redactionSurvivorDigest env anchor survivors = bindE (survivorFold env anchor survivors) (\<lambda>(digests, head). Inr head)"

subsection \<open>Reading\<close>

definition badRedaction :: "failure + 'a" where
  "badRedaction = refuse REDACTION_BAD_MANIFEST"

definition redactionStamp :: "cval \<Rightarrow> failure + nat" where
  "redactionStamp v = (case uintOf v of None \<Rightarrow> badRedaction | Some n \<Rightarrow> Inr n)"

definition redactionDigest :: "cval \<Rightarrow> failure + bytes" where
  "redactionDigest v = (case v of CBytes bs \<Rightarrow> if length bs \<noteq> DIGEST_BYTES then badRedaction else Inr bs | _ \<Rightarrow> badRedaction)"

definition redactionText :: "cval \<Rightarrow> nat \<Rightarrow> failure + jsstr" where
  "redactionText v maxBytes =
    (case v of
       CText s \<Rightarrow> let n = length (textEncode s) in if n < 1 \<or> n > maxBytes then badRedaction else Inr s
     | _ \<Rightarrow> badRedaction)"

definition readRemoved :: "cval \<Rightarrow> failure + jsstr list" where
  "readRemoved v =
    (case v of
       CArr xs \<Rightarrow>
         if xs = [] then badRedaction
         else bindE (mapE (\<lambda>one. redactionText one ID_MAX_BYTES) xs) (\<lambda>ids.
           bindE (failIf (\<not> distinct ids) (Refused REDACTION_DUPLICATE_ID)) (\<lambda>_. Inr ids))
     | _ \<Rightarrow> badRedaction)"

definition readRedactionEnvelope :: "receipt_env \<Rightarrow> bytes \<Rightarrow> failure + cose_sign1 \<times> protected_header" where
  "readRedactionEnvelope env bs =
    containerEnvelope env bs REDACTION_CONTENT_TYPE REDACTION_MALFORMED_CBOR REDACTION_BAD_HEADER"

definition parseRedaction :: "receipt_env \<Rightarrow> bytes \<Rightarrow> failure + redaction_manifest" where
  "parseRedaction env bs =
    bindE (decodeClosedDocument (reCodec env) bs REDACTION_BAD_MANIFEST) (\<lambda>doc.
    case decodedMap doc of
      None \<Rightarrow> badRedaction
    | Some raw \<Rightarrow>
        bindE (case member raw ''v'' of
            CNum (NInt v) \<Rightarrow> if v \<noteq> 1 then refuse REDACTION_UNSUPPORTED_VERSION else Inr ()
          | _ \<Rightarrow> badRedaction) (\<lambda>_.
        bindE (failIf (\<not> membersDefined (leafMap REDACTION_MANIFEST_MEMBERS) raw) (Refused REDACTION_BAD_MANIFEST)) (\<lambda>_.
        bindE (redactionStamp (member raw ''at'')) (\<lambda>stamp.
        bindE (redactionDigest (member raw ''pack'')) (\<lambda>pack.
        bindE (readRemoved (member raw ''removed'')) (\<lambda>removed.
        bindE (redactionDigest (member raw ''reduced'')) (\<lambda>reduced.
        bindE (redactionText (member raw ''states'') STATES_MAX_BYTES) (\<lambda>states.
          Inr \<lparr>rmAt = stamp, rmPack = pack, rmRemoved = removed, rmReduced = reduced, rmStates = states\<rparr>))))))))"

definition decodeRedaction :: "receipt_env \<Rightarrow> bytes \<Rightarrow> failure + redaction_manifest \<times> protected_header \<times> cose_sign1" where
  "decodeRedaction env bs =
    bindE (readRedactionEnvelope env bs) (\<lambda>(cose, header).
    bindE (parseRedaction env (coPayload cose)) (\<lambda>m. Inr (m, header, cose)))"

subsection \<open>Writing\<close>

definition redactionEntries :: "redaction_manifest \<Rightarrow> (cval \<times> cval) list" where
  "redactionEntries m = [(ctext ''v'', cint 1), (ctext ''at'', cnat (rmAt m)), (ctext ''pack'', CBytes (rmPack m)),
    (ctext ''removed'', CArr (map CText (rmRemoved m))), (ctext ''reduced'', CBytes (rmReduced m)),
    (ctext ''states'', CText (rmStates m))]"

definition encodeRedactionManifest :: "receipt_env \<Rightarrow> redaction_manifest \<Rightarrow> bytes" where
  "encodeRedactionManifest env m = encodeCanonical (reCodec env) (CMap (redactionEntries m))"

definition redactionSigStructure :: "receipt_env \<Rightarrow> bytes \<Rightarrow> bytes \<Rightarrow> bytes \<Rightarrow> bytes" where
  "redactionSigStructure env protectedBytes payloadBytes externalAad =
    encodeCanonical (reCodec env) (CArr [ctext ''Signature1'', CBytes protectedBytes, CBytes externalAad, CBytes payloadBytes])"

definition encodeRedactionProtectedHeader :: "receipt_env \<Rightarrow> bytes \<Rightarrow> bytes" where
  "encodeRedactionProtectedHeader env kid = buildProtectedHeader env kid REDACTION_CONTENT_TYPE"

definition sealRedaction :: "receipt_env \<Rightarrow> bytes \<Rightarrow> bytes \<Rightarrow> bytes \<Rightarrow> (cval \<times> cval) list \<Rightarrow> bytes" where
  "sealRedaction env protectedBytes payloadBytes signature unprotected =
    sealCoseSign1 env protectedBytes payloadBytes signature unprotected"

definition signRedaction :: "receipt_env \<Rightarrow> redaction_manifest \<Rightarrow> signing_key \<Rightarrow> failure + bytes" where
  "signRedaction env m key =
    bindE (containerKey env key) (\<lambda>_.
    let payloadBytes = encodeRedactionManifest env m in
    bindE (parseRedaction env payloadBytes) (\<lambda>_.
    let protectedBytes = encodeRedactionProtectedHeader env (skKid key) in
    bindE (signEd25519 env (redactionSigStructure env protectedBytes payloadBytes []) (skPrivateKey key)) (\<lambda>signature.
      Inr (sealRedaction env protectedBytes payloadBytes signature []))))"

subsection \<open>Verification\<close>

definition handedPack :: "bytes option \<Rightarrow> failure + bytes" where
  "handedPack p = (case p of None \<Rightarrow> refuse REDACTION_PACK_UNAVAILABLE | Some bs \<Rightarrow> Inr bs)"

definition redactionKey :: "receipt_env \<Rightarrow> key_options \<Rightarrow> bytes \<Rightarrow> failure + bytes" where
  "redactionKey env opts kid = designatedKey env opts kid REDACTION_UNKNOWN_KEY REDACTION_KID_MISMATCH"

definition verifyRedaction :: "receipt_env \<Rightarrow> int \<Rightarrow> bytes \<Rightarrow> redaction_options \<Rightarrow> failure + verified_redaction" where
  "verifyRedaction env clockMs bs opts =
    bindE (failIf (koPublicKey (roKeys opts) = None \<and> koResolveKey (roKeys opts) = None) (Refused REDACTION_UNKNOWN_KEY)) (\<lambda>_.
    bindE (handedPack (roPackBytes opts)) (\<lambda>packBytes.
    bindE (readRedactionEnvelope env bs) (\<lambda>(cose, header).
    bindE (redactionKey env (roKeys opts) (phKid header)) (\<lambda>publicKey.
    bindE (checkSignature env (coSignature cose) (redactionSigStructure env (coProtected cose) (coPayload cose) []) publicKey) (\<lambda>_.
    bindE (parseRedaction env (coPayload cose)) (\<lambda>m.
    let packSha256 = redactionPackDigest env packBytes in
    bindE (failIf (\<not> sameBytes (rmPack m) packSha256) (Refused REDACTION_PACK_MISMATCH)) (\<lambda>_.
    bindE (verifyPack env clockMs packBytes (roKeys opts)) (\<lambda>pack.
    bindE (failIf (rmAt m < pmAt (vpManifest pack)) (Refused REDACTION_PACK_DISAGREES)) (\<lambda>_.
    let reached = vpWalked pack in
    bindE (failIf (\<exists>i \<in> set (rmRemoved m). \<not> list_ex (\<lambda>one. piId (viItem one) = i) reached) (Refused REDACTION_ITEM_ABSENT)) (\<lambda>_.
    let survivors = filter (\<lambda>one. piId (viItem one) \<notin> set (rmRemoved m)) reached in
    bindE (redactionSurvivorDigest env (pcAnchor (pmChain (vpManifest pack))) (map viItem survivors)) (\<lambda>reduced.
    bindE (failIf (\<not> sameBytes (rmReduced m) reduced) (Refused REDACTION_SURVIVOR_CHAIN_MISMATCH)) (\<lambda>_.
      Inr \<lparr>vrManifest = m, vrHeader = header, vrEnvelope = cose,
        vrOutcome = \<lparr>rcPackSha256 = packSha256, rcRemoved = rmRemoved m, rcSurvivors = survivors, rcReduced = reduced,
          rcOriginalHead = pcHead (pmChain (vpManifest pack)), rcPack = pack\<rparr>\<rparr>))))))))))))"

subsection \<open>The relinked run\<close>

text \<open>The survivors with the predecessors the fold gives them.\<close>

fun relinked :: "receipt_env \<Rightarrow> bytes \<Rightarrow> pack_item list \<Rightarrow> pack_item list" where
  "relinked env prev [] = []"
| "relinked env prev (one # rest) =
    (let r = one\<lparr>piPrev := prev\<rparr> in r # relinked env (itemDigest env r) rest)"

lemma foldLoop_Inr:
  "foldLoop env prev items = Inr (ds, h) \<longleftrightarrow> ds = map (itemDigest env) (relinked env prev items) \<and>
    chained (itemDigest env) piPrev prev (relinked env prev items) h \<and> list_all digestible (relinked env prev items)"
proof (induction items arbitrary: prev ds)
  case (Cons one rest)
  have d: "recordDigestOf env prev (piIat one) (piId one) (piReceipt one) = packRecordDigest env (one\<lparr>piPrev := prev\<rparr>)"
    by (simp add: packRecordDigest_def)
  show ?case unfolding foldLoop.simps d bindE_Inr packRecordDigest_Inr using Cons.IH by (auto simp: bindE_Inr Let_def)
qed auto

lemma redactionSurvivorDigest_Inr:
  "redactionSurvivorDigest env anchor items = Inr h \<longleftrightarrow> length anchor = 32 \<and> items \<noteq> [] \<and>
    chained (itemDigest env) piPrev anchor (relinked env anchor items) h \<and> list_all digestible (relinked env anchor items)"
  by (auto simp: redactionSurvivorDigest_def survivorFold_def bindE_Inr foldLoop_Inr width_defs)

text \<open>What a record says once its place in a chain is set aside.\<close>

definition itemText :: "pack_item \<Rightarrow> nat \<times> bytes \<times> bytes" where
  "itemText it = (piIat it, textEncode (piId it), piReceipt it)"

lemma itemText_core: "itemText it = snd (itemCore it)"
  by (simp add: itemText_def itemCore_def)

lemma relinked_texts [simp]: "map itemText (relinked env prev items) = map itemText items"
  by (induction items arbitrary: prev) (simp_all add: itemText_def Let_def)

lemma length_relinked [simp]: "length (relinked env prev items) = length items"
  by (induction items arbitrary: prev) (simp_all add: Let_def)

lemma relinked_iat: "map piIat (relinked env prev items) = map piIat items"
  by (induction items arbitrary: prev) (simp_all add: Let_def)

lemma relinked_run: "chained (itemDigest env) piPrev prev items h \<Longrightarrow> relinked env prev items = items"
  by (induction items arbitrary: prev) (auto simp: Let_def)

lemma relinked_framed:
  assumes "list_all digestible (relinked env prev items)" "list_all framedItem items"
  shows "list_all framedItem (relinked env prev items)"
proof -
  have "piIat r < 2 ^ 64" if "r \<in> set (relinked env prev items)" for r
  proof -
    have "piIat r \<in> piIat ` set items" using that relinked_iat [of env prev items] by (metis image_eqI list.set_map)
    then show ?thesis using assms(2) by (auto simp: list_all_iff framedItem_def)
  qed
  then show ?thesis using assms(1) by (auto simp: list_all_iff framedItem_def)
qed

subsection \<open>What the readers accept\<close>

definition redactionWf :: "redaction_manifest \<Rightarrow> bool" where
  "redactionWf m \<longleftrightarrow> safeNat (rmAt m) \<and> length (rmPack m) = 32 \<and> length (rmReduced m) = 32 \<and> shortText 2048 (rmStates m) \<and>
    rmRemoved m \<noteq> [] \<and> distinct (rmRemoved m) \<and> list_all (shortText 65535) (rmRemoved m)"

lemma redactionStamp_Inr [reader_simps]: "redactionStamp v = Inr n \<longleftrightarrow> v = cnat n \<and> safeNat n"
  using uintOf_Some [of v n] by (cases "uintOf v") (auto simp: redactionStamp_def badRedaction_def cnat_def safeNat_def)

lemma redactionDigest_Inr [reader_simps]: "redactionDigest v = Inr bs \<longleftrightarrow> v = CBytes bs \<and> length bs = 32"
  by (auto simp: redactionDigest_def badRedaction_def width_defs split: cval.splits if_splits)

lemma redactionText_Inr [reader_simps]: "redactionText v k = Inr s \<longleftrightarrow> v = CText s \<and> shortText k s"
  by (auto simp: redactionText_def shortText_def badRedaction_def Let_def not_less Suc_le_eq split: cval.splits if_splits)

lemma texts_Inr: "mapE (\<lambda>one. redactionText one k) xs = Inr ids \<longleftrightarrow> xs = map CText ids \<and> list_all (shortText k) ids"
proof (induction xs arbitrary: ids)
  case (Cons x xs)
  have "mapE (\<lambda>one. redactionText one k) (x # xs) = Inr ids \<longleftrightarrow>
      (\<exists>s ss. x = CText s \<and> shortText k s \<and> (xs = map CText ss \<and> list_all (shortText k) ss) \<and> ids = s # ss)"
    unfolding mapE.simps bindE_Inr redactionText_Inr Cons.IH by blast
  then show ?case by (cases ids) auto
qed auto

lemma readRemoved_Inr [reader_simps]:
  "readRemoved v = Inr ids \<longleftrightarrow> v = CArr (map CText ids) \<and> ids \<noteq> [] \<and> distinct ids \<and> list_all (shortText 65535) ids"
  by (auto simp: readRemoved_def bindE_Inr texts_Inr badRedaction_def width_defs split: cval.splits if_splits)

lemma redactionVersion_Inr:
  "(case v of CNum (NInt v) \<Rightarrow> if v \<noteq> 1 then refuse REDACTION_UNSUPPORTED_VERSION else Inr () | _ \<Rightarrow> badRedaction) = Inr u \<longleftrightarrow>
    v = cint 1"
  by (auto simp: badRedaction_def split: cval.splits jsnum.splits)

lemma mapCase_Inr: "(case decodedMap v of None \<Rightarrow> badRedaction | Some m \<Rightarrow> f m) = Inr x \<longleftrightarrow> (\<exists>m. v = CMap m \<and> f m = Inr x)"
  by (auto simp: badRedaction_def split: option.splits)

lemma parseRedaction_Inr:
  "parseRedaction env bs = Inr m \<longleftrightarrow> redactionWf m \<and>
    (\<exists>raw. cdDecodeNoFloats (reCodec env) bs = Some (CMap raw) \<and> membersDefined (leafMap REDACTION_MANIFEST_MEMBERS) raw \<and>
      member raw ''v'' = cint 1 \<and> member raw ''at'' = cnat (rmAt m) \<and> member raw ''pack'' = CBytes (rmPack m) \<and>
      member raw ''removed'' = CArr (map CText (rmRemoved m)) \<and> member raw ''reduced'' = CBytes (rmReduced m) \<and>
      member raw ''states'' = CText (rmStates m))"
  unfolding parseRedaction_def bindE_Inr decodeClosedDocument_Inr mapCase_Inr redactionVersion_Inr failIf_simps reader_simps
    redactionWf_def STATES_MAX_BYTES_def
  by (cases m) auto

subsection \<open>Reading a manifest that was written\<close>

definition redactionWritable :: "redaction_manifest \<Rightarrow> bool" where
  "redactionWritable m \<longleftrightarrow> redactionWf m \<and> list_all storable (rmStates m # rmRemoved m) \<and> length (rmRemoved m) < 2 ^ 32"

lemma plain_redaction:
  assumes "redactionWritable m"
  shows "plain 8 (CMap (redactionEntries m))"
proof -
  have "plain 7 (CArr (map CText (rmRemoved m)))"
    by (rule plain_arr) (use assms in \<open>auto simp: redactionWritable_def list_all_iff plain_storable simp del: plain.simps\<close>)
  moreover have "plain 7 (cint 1)" by (simp add: MAX_SAFE_INTEGER_def)
  ultimately show ?thesis
    using assms plain_named [of 8 "[(''v'', cint 1), (''at'', cnat (rmAt m)), (''pack'', CBytes (rmPack m)),
      (''removed'', CArr (map CText (rmRemoved m))), (''reduced'', CBytes (rmReduced m)), (''states'', CText (rmStates m))]"]
    by (simp add: redactionEntries_def redactionWritable_def redactionWf_def asciiStr_def plain_intros del: plain.simps)
qed

lemma redaction_reads_back:
  assumes "lawful (reCodec env)" "redactionWritable m"
  shows "parseRedaction env (encodeRedactionManifest env m) = Inr m"
proof -
  define raw where "raw = canonEntries (redactionEntries m)"
  have dec: "cdDecodeNoFloats (reCodec env) (encodeRedactionManifest env m) = Some (CMap raw)"
    using lawfulD(3) [OF assms(1) plain_redaction [OF assms(2)]]
    by (simp add: encodeRedactionManifest_def encodeCanonical_def canon_CMap raw_def del: canon.simps)
  have d: "distinct (map fst (redactionEntries m))" by (simp add: redactionEntries_def)
  have at: "member raw n = canon (member (redactionEntries m) n)" for n unfolding raw_def by (rule member_canonEntries [OF d])
  have "membersDefined (leafMap REDACTION_MANIFEST_MEMBERS) raw"
    unfolding raw_def membersDefined_canon leaf_walk by (simp add: redactionEntries_def REDACTION_MANIFEST_MEMBERS_def)
  moreover have "canon (CArr (map CText (rmRemoved m))) = CArr (map CText (rmRemoved m))" by (simp add: comp_def)
  ultimately show ?thesis
    unfolding parseRedaction_Inr using dec assms(2)
    by (auto simp: at redactionWritable_def) (simp_all add: redactionEntries_def)
qed

subsection \<open>What a verified redaction is\<close>

definition survivorsOf :: "verified_redaction \<Rightarrow> pack_item list" where
  "survivorsOf v = map viItem (rcSurvivors (vrOutcome v))"

text \<open>The run the reduced head closes: the survivors, each linked to the survivor before it.\<close>

definition reducedRun :: "receipt_env \<Rightarrow> verified_redaction \<Rightarrow> pack_item list" where
  "reducedRun env v = relinked env (pcAnchor (pmChain (vpManifest (rcPack (vrOutcome v))))) (survivorsOf v)"

lemma redactionSigStructure_eq: "redactionSigStructure env p pl aad = sigStructure env p aad pl"
  by (simp add: redactionSigStructure_def sigStructure_def)

lemma redactionKey_Inr:
  "redactionKey env opts kid = Inr pk \<longleftrightarrow> designates (koPublicKey opts) (koResolveKey opts) kid pk \<and> kid = keyId env pk"
  by (cases "koPublicKey opts"; cases "koResolveKey opts")
     (auto simp: redactionKey_def designatedKey_def designates_def split: option.splits)

lemma handedPack_Inr: "handedPack p = Inr bs \<longleftrightarrow> p = Some bs"
  by (cases p) (auto simp: handedPack_def)

definition settles :: "receipt_env \<Rightarrow> int \<Rightarrow> redaction_options \<Rightarrow> redaction_manifest \<Rightarrow> bytes \<Rightarrow> verified_pack \<Rightarrow> verified_item list \<Rightarrow> bool" where
  "settles env clockMs opts m pb pack survivors \<longleftrightarrow>
    roPackBytes opts = Some pb \<and> rmPack m = reSha256 env pb \<and> verifyPack env clockMs pb (roKeys opts) = Inr pack \<and>
    pmAt (vpManifest pack) \<le> rmAt m \<and> (\<forall>i \<in> set (rmRemoved m). \<exists>one \<in> set (vpWalked pack). piId (viItem one) = i) \<and>
    survivors = filter (\<lambda>one. piId (viItem one) \<notin> set (rmRemoved m)) (vpWalked pack) \<and>
    redactionSurvivorDigest env (pcAnchor (pmChain (vpManifest pack))) (map viItem survivors) = Inr (rmReduced m)"

lemma verifyRedaction_Inr:
  "verifyRedaction env clockMs bs opts = Inr v \<longleftrightarrow>
    (\<exists>pk pb pack survivors m cose header.
      designates (koPublicKey (roKeys opts)) (koResolveKey (roKeys opts)) (phKid header) pk \<and>
      decodeCoseSign1 env bs REDACTION_CONTENT_TYPE = Inr (cose, header) \<and> phKid header = keyId env pk \<and>
      sealedBy env cose pk \<and> parseRedaction env (coPayload cose) = Inr m \<and> settles env clockMs opts m pb pack survivors \<and>
      v = \<lparr>vrManifest = m, vrHeader = header, vrEnvelope = cose,
        vrOutcome = \<lparr>rcPackSha256 = reSha256 env pb, rcRemoved = rmRemoved m, rcSurvivors = survivors, rcReduced = rmReduced m,
          rcOriginalHead = pcHead (pmChain (vpManifest pack)), rcPack = pack\<rparr>\<rparr>)" (is "?l \<longleftrightarrow> ?r")
proof
  assume ?l
  then show ?r
    unfolding verifyRedaction_def bindE_Inr failIf_simps Let_def readRedactionEnvelope_def containerEnvelope_Inr redactionKey_Inr
      handedPack_Inr redactionSigStructure_eq checkSignature_Inr sameBytes_iff redactionPackDigest_def settles_def sealedBy_def
    by (auto simp: bindE_Inr handedPack_Inr redactionKey_Inr containerEnvelope_Inr checkSignature_Inr redactionSigStructure_eq
        redactionPackDigest_def not_less list_ex_iff; blast)
next
  assume ?r
  then show ?l
    unfolding settles_def sealedBy_def
    by (auto simp: verifyRedaction_def bindE_Inr Let_def readRedactionEnvelope_def containerEnvelope_Inr redactionKey_Inr designates_def
        handedPack_Inr redactionSigStructure_eq checkSignature_Inr redactionPackDigest_def list_ex_iff not_less)
qed

lemma verifyRedaction_settles:
  assumes "verifyRedaction env clockMs bs opts = Inr v"
  obtains pb where "settles env clockMs opts (vrManifest v) pb (rcPack (vrOutcome v)) (rcSurvivors (vrOutcome v))"
    and "redactionWf (vrManifest v)" "rcReduced (vrOutcome v) = rmReduced (vrManifest v)"
    and "rcOriginalHead (vrOutcome v) = pcHead (pmChain (vpManifest (rcPack (vrOutcome v))))"
  using assms unfolding verifyRedaction_Inr parseRedaction_Inr by auto

lemma walked_distinct: "verifyPack env clockMs bs opts = Inr vp \<Longrightarrow> distinct (map piId (walkedItems vp))"
proof -
  assume v: "verifyPack env clockMs bs opts = Inr vp"
  have "mset (map piId (walkedItems vp)) = mset (map piId (pmItems (vpManifest vp)))"
    using verifyPack_walked(1) [OF v] by simp
  from mset_eq_imp_distinct_iff [OF this] show ?thesis
    using verifyPack_walked(5) [OF v] by (simp only: manifestWf_def itemsWf_def)
qed

lemma mset_removed:
  assumes "distinct (map f xs)" "distinct rs" "set rs \<subseteq> f ` set xs"
  shows "mset (map f xs) = mset rs + mset (map f (filter (\<lambda>x. f x \<notin> set rs) xs))"
proof -
  have "set (map f (filter (\<lambda>x. f x \<in> set rs) xs)) = set rs" using assms(3) by auto
  moreover have "distinct (map f (filter (\<lambda>x. f x \<in> set rs) xs))" using assms(1) by (simp add: distinct_map inj_on_def)
  ultimately have "mset (map f (filter (\<lambda>x. f x \<in> set rs) xs)) = mset rs"
    using assms(2) by (simp add: set_eq_iff_mset_eq_distinct del: set_map set_filter)
  then show ?thesis
    by (metis (no_types, lifting) image_mset_union mset_filter mset_map multiset_partition filter_cong)
qed

lemma redaction_partition:
  assumes "verifyRedaction env clockMs bs opts = Inr v"
  shows "mset (map piId (walkedItems (rcPack (vrOutcome v)))) = mset (rmRemoved (vrManifest v)) + mset (map piId (survivorsOf v))"
proof -
  obtain pb where s: "settles env clockMs opts (vrManifest v) pb (rcPack (vrOutcome v)) (rcSurvivors (vrOutcome v))" "redactionWf (vrManifest v)"
    using verifyRedaction_settles [OF assms] by blast
  then have "verifyPack env clockMs pb (roKeys opts) = Inr (rcPack (vrOutcome v))" by (simp add: settles_def)
  from walked_distinct [OF this] have "distinct (map (piId \<circ> viItem) (vpWalked (rcPack (vrOutcome v))))"
    by (simp add: walkedItems_def)
  moreover have "set (rmRemoved (vrManifest v)) \<subseteq> (piId \<circ> viItem) ` set (vpWalked (rcPack (vrOutcome v)))"
    using s(1) unfolding settles_def by force
  moreover have "distinct (rmRemoved (vrManifest v))" using s(2) by (simp add: redactionWf_def)
  ultimately have "mset (map (piId \<circ> viItem) (vpWalked (rcPack (vrOutcome v)))) = mset (rmRemoved (vrManifest v)) +
      mset (map (piId \<circ> viItem) (filter (\<lambda>one. (piId \<circ> viItem) one \<notin> set (rmRemoved (vrManifest v))) (vpWalked (rcPack (vrOutcome v)))))"
    by (intro mset_removed)
  moreover have "rcSurvivors (vrOutcome v) =
      filter (\<lambda>one. (piId \<circ> viItem) one \<notin> set (rmRemoved (vrManifest v))) (vpWalked (rcPack (vrOutcome v)))"
    using s(1) by (simp add: settles_def)
  ultimately show ?thesis by (simp only: survivorsOf_def walkedItems_def map_map)
qed

lemma reducedRun_closes:
  assumes "verifyRedaction env clockMs bs opts = Inr v"
  shows "chained (pack.digest env) piPrev (pcAnchor (pmChain (vpManifest (rcPack (vrOutcome v))))) (reducedRun env v) (rcReduced (vrOutcome v))"
    and "list_all framedItem (reducedRun env v)" and "survivorsOf v \<noteq> []"
proof -
  let ?p = "rcPack (vrOutcome v)"
  obtain pb where s: "settles env clockMs opts (vrManifest v) pb ?p (rcSurvivors (vrOutcome v))"
      "rcReduced (vrOutcome v) = rmReduced (vrManifest v)"
    using verifyRedaction_settles [OF assms] by metis
  from s(1) have "redactionSurvivorDigest env (pcAnchor (pmChain (vpManifest ?p))) (survivorsOf v) = Inr (rmReduced (vrManifest v))"
    unfolding settles_def survivorsOf_def by blast
  then have r: "survivorsOf v \<noteq> []"
      "chained (itemDigest env) piPrev (pcAnchor (pmChain (vpManifest ?p))) (reducedRun env v) (rcReduced (vrOutcome v))"
      "list_all digestible (reducedRun env v)"
    by (simp_all add: redactionSurvivorDigest_Inr reducedRun_def s(2))
  show "survivorsOf v \<noteq> []"
    "chained (pack.digest env) piPrev (pcAnchor (pmChain (vpManifest ?p))) (reducedRun env v) (rcReduced (vrOutcome v))"
    using r by (simp_all add: pack_digest)
  have "verifyPack env clockMs pb (roKeys opts) = Inr ?p" using s(1) by (simp add: settles_def)
  then have "list_all framedItem (survivorsOf v)"
    using verifyPack_walked(4) s(1) by (fastforce simp: settles_def survivorsOf_def walkedItems_def list_all_iff)
  then show "list_all framedItem (reducedRun env v)" using r(3) relinked_framed unfolding reducedRun_def by blast
qed

lemma redaction_runs_agree:
  assumes "verifyRedaction env clockMs bs opts = Inr v" and "verifyRedaction env clockMs' bs' opts' = Inr v'"
    and "pcAnchor (pmChain (vpManifest (rcPack (vrOutcome v)))) = pcAnchor (pmChain (vpManifest (rcPack (vrOutcome v'))))"
    and "rcReduced (vrOutcome v) = rcReduced (vrOutcome v')"
  shows "map itemText (survivorsOf v) = map itemText (survivorsOf v') \<or>
    (\<exists>r \<in> set (reducedRun env v). \<exists>s \<in> set (reducedRun env v'). collision (reSha256 env) (itemFrame r) (itemFrame s)) \<or>
    (\<exists>r \<in> set (reducedRun env v) \<union> set (reducedRun env v').
      itemDigest env r = pcAnchor (pmChain (vpManifest (rcPack (vrOutcome v)))))"
proof -
  have t: "map itemText (survivorsOf w) = map snd (map itemCore (reducedRun env w))" for w
    using relinked_texts [of env "pcAnchor (pmChain (vpManifest (rcPack (vrOutcome w))))" "survivorsOf w"]
    by (simp add: reducedRun_def itemText_core [abs_def] comp_def)
  show ?thesis
    using pack.endpoints_commit [OF reducedRun_closes(1) [OF assms(1)]
        reducedRun_closes(1) [OF assms(2), folded assms(3,4)] reducedRun_closes(2) [OF assms(1)] reducedRun_closes(2) [OF assms(2)]]
    unfolding t itemDigest_def by metis
qed

lemma reduced_head_moves:
  assumes "verifyRedaction env clockMs bs opts = Inr v" and "rcReduced (vrOutcome v) = rcOriginalHead (vrOutcome v)"
  shows "(\<exists>r \<in> set (walkedItems (rcPack (vrOutcome v))). \<exists>s \<in> set (reducedRun env v).
      collision (reSha256 env) (itemFrame r) (itemFrame s)) \<or>
    (\<exists>r \<in> set (walkedItems (rcPack (vrOutcome v))) \<union> set (reducedRun env v).
      itemDigest env r = pcAnchor (pmChain (vpManifest (rcPack (vrOutcome v)))))"
proof -
  let ?p = "rcPack (vrOutcome v)"
  obtain pb where pb: "verifyPack env clockMs pb (roKeys opts) = Inr ?p" "rmRemoved (vrManifest v) \<noteq> []"
      "rcOriginalHead (vrOutcome v) = pcHead (pmChain (vpManifest ?p))"
    using verifyRedaction_settles [OF assms(1)] unfolding settles_def redactionWf_def by metis
  have "size (mset (map piId (walkedItems ?p))) > size (mset (map piId (survivorsOf v)))"
    unfolding redaction_partition [OF assms(1)] using pb(2) by simp
  then have "length (map itemCore (walkedItems ?p)) \<noteq> length (map itemCore (reducedRun env v))" by (simp add: reducedRun_def)
  then have "map itemCore (walkedItems ?p) \<noteq> map itemCore (reducedRun env v)" by metis
  moreover have "chained (pack.digest env) piPrev (pcAnchor (pmChain (vpManifest ?p))) (walkedItems ?p) (rcReduced (vrOutcome v))"
    using verifyPack_walked(2) [OF pb(1)] assms(2) pb(3) by (simp add: pack_digest)
  ultimately show ?thesis
    using pack.endpoints_commit [OF _ reducedRun_closes(1) [OF assms(1)] verifyPack_walked(4) [OF pb(1)] reducedRun_closes(2) [OF assms(1)]]
    unfolding itemDigest_def by metis
qed

lemma content_type_redaction: "ascii REDACTION_CONTENT_TYPE" "length REDACTION_CONTENT_TYPE < 2 ^ 16"
  unfolding REDACTION_CONTENT_TYPE_def by (rule ascii_js) (simp_all add: asciiStr_def js_def)

lemma signRedaction_verifies:
  assumes law: "lawful (reCodec env)" and key: "containerReady env key"
    and m: "redactionWritable m" "length (cborEnc (CMap (redactionEntries m))) < 2 ^ 32"
    and d: "designates (koPublicKey (roKeys opts)) (koResolveKey (roKeys opts)) (skKid key) (skPublicKey key)"
    and s: "settles env clockMs opts m pb pack survivors"
  shows "\<exists>bs v. signRedaction env m key = Inr bs \<and> verifyRedaction env clockMs bs opts = Inr v \<and> vrManifest v = m \<and>
    rcPack (vrOutcome v) = pack \<and> rcSurvivors (vrOutcome v) = survivors"
proof -
  define pl where "pl = encodeRedactionManifest env m"
  have work: "workingKey env key" and kid: "skKid key = keyId env (skPublicKey key)" "length (skKid key) = 32"
    using key unfolding containerReady_def workingKey_def by blast+
  have pl: "length pl < 2 ^ 32" "parseRedaction env pl = Inr m"
    using m(2) lawfulD(1) [OF law plain_redaction [OF m(1)]] redaction_reads_back [OF law m(1)]
    by (simp_all add: pl_def encodeRedactionManifest_def encodeCanonical_def del: cborEnc.simps)
  obtain bs co where bs: "signCoseSign1 env pl key [] REDACTION_CONTENT_TYPE = Inr bs"
      "decodeCoseSign1 env bs REDACTION_CONTENT_TYPE =
        Inr (co, \<lparr>phAlg = ALG_EDDSA, phKid = skKid key, phContentType = REDACTION_CONTENT_TYPE\<rparr>)"
      "coPayload co = pl" "sealedBy env co (skPublicKey key)"
    using sealed_opens [OF law work content_type_redaction pl(1)] by blast
  have "containerKey env key = Inr ()" using key kid by (simp add: containerKey_def containerReady_def width_defs bindE_failIf)
  then have "signRedaction env m key = signCoseSign1 env pl key [] REDACTION_CONTENT_TYPE"
    using pl(2) by (simp add: signRedaction_def signCoseSign1_def pl_def [symmetric] redactionSigStructure_eq
        encodeRedactionProtectedHeader_def sealRedaction_def)
  then have "signRedaction env m key = Inr bs" using bs(1) by simp
  moreover have "verifyRedaction env clockMs bs opts = Inr \<lparr>vrManifest = m,
      vrHeader = \<lparr>phAlg = ALG_EDDSA, phKid = skKid key, phContentType = REDACTION_CONTENT_TYPE\<rparr>, vrEnvelope = co,
      vrOutcome = \<lparr>rcPackSha256 = reSha256 env pb, rcRemoved = rmRemoved m, rcSurvivors = survivors, rcReduced = rmReduced m,
        rcOriginalHead = pcHead (pmChain (vpManifest pack)), rcPack = pack\<rparr>\<rparr>"
    unfolding verifyRedaction_Inr using bs(2-4) d kid(1) pl(2) s
    by (intro exI [of _ "skPublicKey key"] exI [of _ pb] exI [of _ pack] exI [of _ survivors] exI [of _ m] exI [of _ co] exI) auto
  ultimately show ?thesis by auto
qed

subsection \<open>Properties\<close>

text \<open>
  C14 What a verified redaction establishes: a key the caller designates for the kid of its header signed it;
  the pack it names by digest is the pack the caller handed over, which verifies on its own under the caller's
  keys and is not younger than the redaction; every id it removes is an item of that pack, and the items are
  exactly the removed ones and the survivors, which stay in the order of the pack; and the reduced head closes
  the run of the survivors relinked from the anchor of the pack, beside the head the pack still has.
\<close>

theorem verifyRedaction_sound:
  assumes "verifyRedaction env clockMs bs opts = Inr v"
  defines "m \<equiv> vrManifest v" and "out \<equiv> vrOutcome v"
  shows "\<exists>pk pb. designates (koPublicKey (roKeys opts)) (koResolveKey (roKeys opts)) (phKid (vrHeader v)) pk \<and>
    phKid (vrHeader v) = reSha256 env pk \<and>
    reVerify env (coSignature (vrEnvelope v)) (sigStructure env (coProtected (vrEnvelope v)) [] (coPayload (vrEnvelope v))) pk = Some True \<and>
    parseRedaction env (coPayload (vrEnvelope v)) = Inr m \<and> redactionWf m \<and>
    roPackBytes opts = Some pb \<and> rmPack m = reSha256 env pb \<and> verifyPack env clockMs pb (roKeys opts) = Inr (rcPack out) \<and>
    pmAt (vpManifest (rcPack out)) \<le> rmAt m \<and>
    mset (map piId (walkedItems (rcPack out))) = mset (rmRemoved m) + mset (map piId (survivorsOf v)) \<and>
    survivorsOf v = filter (\<lambda>it. piId it \<notin> set (rmRemoved m)) (walkedItems (rcPack out)) \<and> survivorsOf v \<noteq> [] \<and>
    chained (itemDigest env) piPrev (pcAnchor (pmChain (vpManifest (rcPack out)))) (reducedRun env v) (rmReduced m) \<and>
    map itemText (reducedRun env v) = map itemText (survivorsOf v) \<and>
    rcReduced out = rmReduced m \<and> rcOriginalHead out = pcHead (pmChain (vpManifest (rcPack out)))"
proof -
  obtain pb where s: "settles env clockMs opts m pb (rcPack out) (rcSurvivors out)" "redactionWf m" "rcReduced out = rmReduced m"
      "rcOriginalHead out = pcHead (pmChain (vpManifest (rcPack out)))"
    using verifyRedaction_settles [OF assms(1)] unfolding m_def out_def by metis
  obtain pk where k: "designates (koPublicKey (roKeys opts)) (koResolveKey (roKeys opts)) (phKid (vrHeader v)) pk"
      "phKid (vrHeader v) = reSha256 env pk" "sealedBy env (vrEnvelope v) pk" "parseRedaction env (coPayload (vrEnvelope v)) = Inr m"
    using assms(1) unfolding verifyRedaction_Inr keyId_def m_def by auto
  have "survivorsOf v = filter (\<lambda>it. piId it \<notin> set (rmRemoved m)) (walkedItems (rcPack out))"
    using s(1) by (simp add: survivorsOf_def out_def [symmetric] settles_def walkedItems_def filter_map comp_def)
  moreover have "map itemText (reducedRun env v) = map itemText (survivorsOf v)" by (simp add: reducedRun_def)
  ultimately show ?thesis
    using s k reducedRun_closes(1,3) [OF assms(1)] redaction_partition [OF assms(1)]
    by (intro exI [of _ pk] exI [of _ pb]) (simp add: settles_def sealedBy_def pack_digest m_def out_def)
qed

text \<open>
  C15 What the reduced head commits to. Two verified redactions, of whichever packs with one anchor, that state
  one reduced head leave the same receipts under the same ids and stamps in the same order, or exhibit two
  record frames with one SHA-256 digest, or a record whose digest is the anchor. So a larger removal cannot be
  told as a smaller one.
\<close>

theorem redaction_commits:
  assumes "verifyRedaction env clockMs bs opts = Inr v" and "verifyRedaction env clockMs' bs' opts' = Inr v'"
    and "pcAnchor (pmChain (vpManifest (rcPack (vrOutcome v)))) = pcAnchor (pmChain (vpManifest (rcPack (vrOutcome v'))))"
    and "rcReduced (vrOutcome v) = rcReduced (vrOutcome v')"
  shows "map itemText (survivorsOf v) = map itemText (survivorsOf v') \<or>
    (\<exists>r \<in> set (reducedRun env v). \<exists>s \<in> set (reducedRun env v'). collision (reSha256 env) (itemFrame r) (itemFrame s)) \<or>
    (\<exists>r \<in> set (reducedRun env v) \<union> set (reducedRun env v').
      itemDigest env r = pcAnchor (pmChain (vpManifest (rcPack (vrOutcome v)))))"
  by (rule redaction_runs_agree [OF assms])

text \<open>
  A redaction never restates the head of the pack: if the reduced head of a verified redaction were the
  signed head, there would be two record frames with one SHA-256 digest, or a record whose digest is the anchor.
\<close>

theorem redaction_head_moves:
  assumes "verifyRedaction env clockMs bs opts = Inr v" and "rcReduced (vrOutcome v) = rcOriginalHead (vrOutcome v)"
  shows "(\<exists>r \<in> set (walkedItems (rcPack (vrOutcome v))). \<exists>s \<in> set (reducedRun env v).
      collision (reSha256 env) (itemFrame r) (itemFrame s)) \<or>
    (\<exists>r \<in> set (walkedItems (rcPack (vrOutcome v))) \<union> set (reducedRun env v).
      itemDigest env r = pcAnchor (pmChain (vpManifest (rcPack (vrOutcome v)))))"
  by (rule reduced_head_moves [OF assms])

text \<open>
  C16 A redaction that was signed verifies. For a manifest a caller can state, which names the digest of a pack
  that verifies, some of its items and the digest of the survivors relinked, the redaction is signed, and every
  reader that designates the key and holds the pack reads back the manifest and is left with those survivors.
\<close>

theorem redaction_roundtrip:
  assumes "lawful (reCodec env)" and "containerReady env key"
    and "redactionWritable m" "length (cborEnc (CMap (redactionEntries m))) < 2 ^ 32"
    and "designates (koPublicKey (roKeys opts)) (koResolveKey (roKeys opts)) (skKid key) (skPublicKey key)"
    and "settles env clockMs opts m pb pack survivors"
  shows "\<exists>bs v. signRedaction env m key = Inr bs \<and> verifyRedaction env clockMs bs opts = Inr v \<and> vrManifest v = m \<and>
    rcPack (vrOutcome v) = pack \<and> rcSurvivors (vrOutcome v) = survivors"
  by (rule signRedaction_verifies [OF assms])

subsection \<open>An example redaction\<close>

definition sampleRedaction :: "bytes \<Rightarrow> redaction_manifest" where
  "sampleRedaction pb = \<lparr>rmAt = 1800000001, rmPack = reSha256 toyEnv pb, rmRemoved = [js ''a''],
    rmReduced = itemDigest toyEnv (secondItem\<lparr>piPrev := replicate 32 0\<rparr>), rmStates = js ''x''\<rparr>"

definition sampleRedactionOptions :: "bytes \<Rightarrow> redaction_options" where
  "sampleRedactionOptions pb = \<lparr>roKeys = sampleKeys, roPackBytes = Some pb\<rparr>"

lemma sampleRedaction_writable: "redactionWritable (sampleRedaction pb)"
proof -
  have "storable (js ''x'')" "shortText 2048 (js ''x'')" "shortText 65535 (js ''a'')"
    by (intro storable_js shortText_js; simp add: asciiStr_def)+
  then show ?thesis
    using items_wf by (simp add: redactionWritable_def redactionWf_def sampleRedaction_def safeNat_def MAX_SAFE_INTEGER_def)
      (simp add: toyEnv_def)
qed

lemma sampleRedaction_size: "length (cborEnc (CMap (redactionEntries (sampleRedaction pb)))) < 2 ^ 32"
proof -
  have "length (reSha256 toyEnv pb) = 32" by (simp add: toyEnv_def)
  then have "cborBound (CMap (redactionEntries (sampleRedaction pb))) < 2 ^ 32"
    by (simp add: redactionEntries_def sampleRedaction_def cnat_def asciiStr_def)
  then show ?thesis using length_cborEnc [of "CMap (redactionEntries (sampleRedaction pb))"] by linarith
qed

lemma sampleRedaction_settles:
  assumes "verifyPack toyEnv 0 pb sampleKeys = Inr vp" "vpManifest vp = samplePack" "walkedItems vp = [firstItem, secondItem]"
  shows "settles toyEnv 0 (sampleRedactionOptions pb) (sampleRedaction pb) pb vp [vpWalked vp ! 1]"
proof -
  obtain x y where w: "vpWalked vp = [x, y]" "viItem x = firstItem" "viItem y = secondItem"
    using assms(3) by (auto simp: walkedItems_def)
  have "digestible (secondItem\<lparr>piPrev := replicate 32 0\<rparr>)" using items_wf(4) by (simp add: digestible_def)
  then show ?thesis
    using assms w by (simp add: settles_def sampleRedactionOptions_def sampleRedaction_def samplePack_def redactionSurvivorDigest_Inr prev_first Let_def)
qed

lemma sampleRedaction_designates:
  "designates (koPublicKey (roKeys (sampleRedactionOptions pb))) (koResolveKey (roKeys (sampleRedactionOptions pb))) (skKid toyKey) (skPublicKey toyKey)"
  using sampleKeys_designate by (simp add: sampleRedactionOptions_def)

lemma samplePack_opens:
  "\<exists>pb vp. verifyPack toyEnv 0 pb sampleKeys = Inr vp \<and> vpManifest vp = samplePack \<and> walkedItems vp = [firstItem, secondItem]"
  using signPack_verifies [OF sample_signing] by blast

lemma sampleRedaction_verifies:
  "\<exists>pb bs v. verifyRedaction toyEnv 0 bs (sampleRedactionOptions pb) = Inr v \<and> vrManifest v = sampleRedaction pb \<and>
    survivorsOf v = [secondItem] \<and> vpManifest (rcPack (vrOutcome v)) = samplePack"
proof -
  obtain pb vp where p: "verifyPack toyEnv 0 pb sampleKeys = Inr vp" "vpManifest vp = samplePack" "walkedItems vp = [firstItem, secondItem]"
    using samplePack_opens by blast
  have "viItem (vpWalked vp ! 1) = secondItem" using p(3) by (auto simp: walkedItems_def)
  then show ?thesis
    using signRedaction_verifies [OF lawful_toyEnv toyKey_ready sampleRedaction_writable sampleRedaction_size
        sampleRedaction_designates sampleRedaction_settles [OF p]] p(2)
    unfolding survivorsOf_def by force
qed

lemma redaction_roundtrip_witness:
  "\<exists>pb bs v. signRedaction toyEnv (sampleRedaction pb) toyKey = Inr bs \<and>
    verifyRedaction toyEnv 0 bs (sampleRedactionOptions pb) = Inr v \<and> vrManifest v = sampleRedaction pb"
proof -
  obtain pb vp where p: "verifyPack toyEnv 0 pb sampleKeys = Inr vp" "vpManifest vp = samplePack" "walkedItems vp = [firstItem, secondItem]"
    using samplePack_opens by blast
  show ?thesis
    using redaction_roundtrip [OF lawful_toyEnv toyKey_ready sampleRedaction_writable sampleRedaction_size
        sampleRedaction_designates sampleRedaction_settles [OF p]] by blast
qed

lemma verifyRedaction_sound_witness:
  "\<exists>pb bs v. verifyRedaction toyEnv 0 bs (sampleRedactionOptions pb) = Inr v \<and> survivorsOf v = [secondItem] \<and>
    mset (map piId (walkedItems (rcPack (vrOutcome v)))) = mset (rmRemoved (vrManifest v)) + mset (map piId (survivorsOf v))"
proof -
  obtain pb bs v where v: "verifyRedaction toyEnv 0 bs (sampleRedactionOptions pb) = Inr v" "survivorsOf v = [secondItem]"
    using sampleRedaction_verifies by blast
  from verifyRedaction_sound [OF v(1)]
  have "mset (map piId (walkedItems (rcPack (vrOutcome v)))) = mset (rmRemoved (vrManifest v)) + mset (map piId (survivorsOf v))"
    by blast
  then show ?thesis using v by blast
qed

lemma redaction_commits_witness:
  "\<exists>pb bs v. verifyRedaction toyEnv 0 bs (sampleRedactionOptions pb) = Inr v \<and>
    (map itemText (survivorsOf v) = map itemText (survivorsOf v) \<or>
      (\<exists>r \<in> set (reducedRun toyEnv v). \<exists>s \<in> set (reducedRun toyEnv v). collision (reSha256 toyEnv) (itemFrame r) (itemFrame s)) \<or>
      (\<exists>r \<in> set (reducedRun toyEnv v) \<union> set (reducedRun toyEnv v).
        itemDigest toyEnv r = pcAnchor (pmChain (vpManifest (rcPack (vrOutcome v))))))"
proof -
  obtain pb bs v where v: "verifyRedaction toyEnv 0 bs (sampleRedactionOptions pb) = Inr v"
    using sampleRedaction_verifies by blast
  show ?thesis using v redaction_commits [OF v v refl refl] by blast
qed

text \<open>The example hash looks at the last bytes of a frame only, so its reduced head is the head of the pack.\<close>

lemma sample_heads: "itemDigest toyEnv (secondItem\<lparr>piPrev := replicate 32 0\<rparr>) = itemDigest toyEnv secondItem"
proof -
  define t where "t = beEnc IAT_BYTES 1800000000 @ beEnc ID_LENGTH_BYTES (length (textEncode (js ''b''))) @ textEncode (js ''b'') @ sampleReceipt"
  have t: "30 \<le> length t" using sampleReceipt_opens(3) by (simp add: t_def)
  have fields: "piIat secondItem = 1800000000" "piId secondItem = js ''b''" "piReceipt secondItem = sampleReceipt"
    by (simp_all add: secondItem_def sampleItem_def)
  have upd: "piPrev (it\<lparr>piPrev := p\<rparr>) = p" "piIat (it\<lparr>piPrev := p\<rparr>) = piIat it" "piId (it\<lparr>piPrev := p\<rparr>) = piId it"
      "piReceipt (it\<lparr>piPrev := p\<rparr>) = piReceipt it" for it :: pack_item and p
    by simp_all
  have f: "itemFrame (secondItem\<lparr>piPrev := replicate 32 0\<rparr>) = 0 # replicate 32 0 @ t"
      "itemFrame secondItem = 0 # itemDigest toyEnv firstItem @ t"
    by (simp_all only: itemFrame_def recordFrame_def upd prev_first fields t_def)
  have e: "toyHash (0 # p @ t) = toyHash (0 # q @ t)" if "length p = length q" for p q
    using t that by (simp add: toyHash_def)
  have "reSha256 toyEnv = toyHash" by (simp add: toyEnv_def)
  then have "reSha256 toyEnv (itemFrame (secondItem\<lparr>piPrev := replicate 32 0\<rparr>)) = reSha256 toyEnv (itemFrame secondItem)"
    unfolding f using e [of "replicate 32 0" "itemDigest toyEnv firstItem"] by simp
  then show ?thesis by (simp only: itemDigest_def)
qed

lemma redaction_head_moves_witness:
  "\<exists>pb bs v. verifyRedaction toyEnv 0 bs (sampleRedactionOptions pb) = Inr v \<and>
    rcReduced (vrOutcome v) = rcOriginalHead (vrOutcome v) \<and>
    ((\<exists>r \<in> set (walkedItems (rcPack (vrOutcome v))). \<exists>s \<in> set (reducedRun toyEnv v).
      collision (reSha256 toyEnv) (itemFrame r) (itemFrame s)) \<or>
    (\<exists>r \<in> set (walkedItems (rcPack (vrOutcome v))) \<union> set (reducedRun toyEnv v).
      itemDigest toyEnv r = pcAnchor (pmChain (vpManifest (rcPack (vrOutcome v))))))"
proof -
  obtain pb bs v where v: "verifyRedaction toyEnv 0 bs (sampleRedactionOptions pb) = Inr v" "vrManifest v = sampleRedaction pb"
      "vpManifest (rcPack (vrOutcome v)) = samplePack"
    using sampleRedaction_verifies by blast
  have h: "rcReduced (vrOutcome v) = rcOriginalHead (vrOutcome v)"
    using verifyRedaction_settles [OF v(1)] v(2,3) sample_heads by (metis pack_chain.select_convs(2) pack_manifest.select_convs(4)
      redaction_manifest.select_convs(4) samplePack_def sampleRedaction_def)
  show ?thesis using v(1) h redaction_head_moves [OF v(1) h] by blast
qed

end
