(* ===== verification/TimeSource.thy ===== *)
theory TimeSource
  imports Doubles
begin

text \<open>
  gateway/src/time-source-state.ts: the clock a deployment's own synchronisation states in a file. The reader
  of the document, the cadence and the ceiling derived from its bound, and the handle as a state machine over
  its reads, adoptions and stamps. The text of the file, the monotonic clock and the wall clock are inputs of
  the steps; a read and the adoption of what it returned are separate steps, because the source awaits between
  them. A refusal is named by the sentence it carries.
\<close>

subsection \<open>The document\<close>

datatype ts_error = TsUnreadable | TsNotJson | TsNotObject | TsUnknownMember | TsMissingMember | TsBadVersion |
  TsBadSource | TsBadInstant | TsBadBound | TsImplausible | TsStale

definition TIME_SOURCE_STATE_FILE_VERSION :: int where "TIME_SOURCE_STATE_FILE_VERSION = 1"
definition MAX_TIME_SOURCE_STATE_REFRESH_SECONDS :: nat where "MAX_TIME_SOURCE_STATE_REFRESH_SECONDS = 60"
definition MIN_TIME_SOURCE_STATE_REFRESH_SECONDS :: nat where "MIN_TIME_SOURCE_STATE_REFRESH_SECONDS = 1"
definition PLAUSIBILITY_BAND_SECONDS :: nat where "PLAUSIBILITY_BAND_SECONDS = 86400"
definition LIVENESS_ALLOWANCE_INTERVALS :: nat where "LIVENESS_ALLOWANCE_INTERVALS = 2"

definition STATE_MEMBERS :: "jsstr list" where
  "STATE_MEMBERS = map js [''version'', ''source'', ''uncertaintySeconds'', ''measuredAtSeconds'']"

record ts_document =
  tdSource :: jsstr
  tdUncertainty :: "nat option"
  tdMeasuredAt :: nat

definition declaredBound :: "jsval \<Rightarrow> ts_error + nat option" where
  "declaredBound v =
    (if v = JNull then Inr None
     else case asUint v of
       None \<Rightarrow> Inl TsBadBound
     | Some n \<Rightarrow> if n > PLAUSIBILITY_BAND_SECONDS then Inl TsBadBound else Inr (Some n))"

definition parseDocument :: "jsval \<Rightarrow> ts_error + ts_document" where
  "parseDocument v =
    (case v of
       JObj fs p \<Rightarrow>
         bindE (failIf (\<exists>key \<in> fst ` set fs. key \<notin> set STATE_MEMBERS) TsUnknownMember) (\<lambda>_.
         bindE (failIf (\<exists>key \<in> set STATE_MEMBERS. key \<notin> fst ` set fs) TsMissingMember) (\<lambda>_.
         bindE (failIf (getProp v (js ''version'') \<noteq> JNum (NInt TIME_SOURCE_STATE_FILE_VERSION)) TsBadVersion) (\<lambda>_.
         case getProp v (js ''source'') of
           JStr source \<Rightarrow>
             if jsTrim source = [] then Inl TsBadSource
             else (case asUint (getProp v (js ''measuredAtSeconds'')) of
                 None \<Rightarrow> Inl TsBadInstant
               | Some measured \<Rightarrow>
                   bindE (declaredBound (getProp v (js ''uncertaintySeconds''))) (\<lambda>bound.
                     Inr \<lparr>tdSource = source, tdUncertainty = bound, tdMeasuredAt = measured\<rparr>))
         | _ \<Rightarrow> Inl TsBadSource)))
     | _ \<Rightarrow> Inl TsNotObject)"

definition parseTimeSourceState :: "jsstr \<Rightarrow> ts_error + ts_document" where
  "parseTimeSourceState text = (case jsonParse text of None \<Rightarrow> Inl TsNotJson | Some v \<Rightarrow> parseDocument v)"

text \<open>What \<open>readState\<close> returns for the file as the runtime read it, \<open>None\<close> being a failed read.\<close>

definition readState :: "jsstr option \<Rightarrow> ts_error + ts_document" where
  "readState content = (case content of None \<Rightarrow> Inl TsUnreadable | Some text \<Rightarrow> parseTimeSourceState text)"

subsection \<open>Cadence and ceiling\<close>

definition refreshSecondsFor :: "nat option \<Rightarrow> nat" where
  "refreshSecondsFor uncertainty =
    (case uncertainty of
       None \<Rightarrow> MAX_TIME_SOURCE_STATE_REFRESH_SECONDS
     | Some u \<Rightarrow> min MAX_TIME_SOURCE_STATE_REFRESH_SECONDS (max MIN_TIME_SOURCE_STATE_REFRESH_SECONDS (u div 2)))"

text \<open>The cadence is a number a caller may hand in, so the sum is one of doubles.\<close>

definition stalenessCeilingSeconds :: "nat option \<Rightarrow> rat \<Rightarrow> rat" where
  "stalenessCeilingSeconds uncertainty refresh =
    (let allowance = rnd (of_nat LIVENESS_ALLOWANCE_INTERVALS * refresh) in
     case uncertainty of None \<Rightarrow> allowance | Some u \<Rightarrow> rnd (of_nat u + allowance))"

subsection \<open>The handle\<close>

record cached_state =
  csSource :: jsstr
  csUncertainty :: "nat option"
  csDeclared :: rat
  csBase :: rat
  csBaseMono :: rat
  csCeiling :: rat

record ts_handle =
  thState :: cached_state
  thIssued :: rat
  thReads :: nat
  thLastFault :: "ts_error option"
  thReported :: bool
  thRefresh :: rat

definition heldAt :: "cached_state \<Rightarrow> rat \<Rightarrow> rat" where
  "heldAt state clock = rnd (csBase state + of_int \<lfloor>rnd (clock - csBaseMono state)\<rfloor>)"

definition openFrom :: "ts_document \<Rightarrow> rat option \<Rightarrow> int \<Rightarrow> rat \<Rightarrow> ts_error + ts_handle" where
  "openFrom first refreshOption wallSeconds startMono =
    bindE (failIf (\<bar>int (tdMeasuredAt first) - wallSeconds\<bar> > int PLAUSIBILITY_BAND_SECONDS) TsImplausible) (\<lambda>_.
    let refresh = (case refreshOption of None \<Rightarrow> of_nat (refreshSecondsFor (tdUncertainty first)) | Some r \<Rightarrow> r);
        base = of_nat (tdMeasuredAt first) in
    Inr \<lparr>thState = \<lparr>csSource = tdSource first, csUncertainty = tdUncertainty first, csDeclared = base, csBase = base,
          csBaseMono = startMono, csCeiling = stalenessCeilingSeconds (tdUncertainty first) refresh\<rparr>,
        thIssued = base, thReads = 1, thLastFault = None, thReported = False, thRefresh = refresh\<rparr>)"

definition openTimeSourceState :: "jsstr option \<Rightarrow> rat option \<Rightarrow> int \<Rightarrow> rat \<Rightarrow> ts_error + ts_handle" where
  "openTimeSourceState content refreshOption wallSeconds startMono =
    bindE (readState content) (\<lambda>first. openFrom first refreshOption wallSeconds startMono)"

text \<open>\<open>refresh\<close> up to its await, and from it; \<open>tick\<close> is the rejection handler of the timer.\<close>

definition beginRead :: "ts_handle \<Rightarrow> ts_handle" where
  "beginRead h = h\<lparr>thReads := thReads h + 1\<rparr>"

definition adopt :: "ts_document \<Rightarrow> rat \<Rightarrow> ts_handle \<Rightarrow> ts_handle" where
  "adopt doc clock h =
    h\<lparr>thState := \<lparr>csSource = tdSource doc, csUncertainty = tdUncertainty doc, csDeclared = of_nat (tdMeasuredAt doc),
        csBase = max (of_nat (tdMeasuredAt doc)) (heldAt (thState h) clock), csBaseMono = clock,
        csCeiling = stalenessCeilingSeconds (tdUncertainty doc) (thRefresh h)\<rparr>,
      thLastFault := None, thReported := False\<rparr>"

definition endRead :: "ts_error + ts_document \<Rightarrow> rat \<Rightarrow> ts_handle \<Rightarrow> ts_error option \<times> ts_handle" where
  "endRead answer clock h =
    (case answer of Inl e \<Rightarrow> (Some e, h) | Inr doc \<Rightarrow> (None, adopt doc clock h))"

text \<open>One read, validation and adoption, when nothing comes between.\<close>

definition refreshNow :: "jsstr option \<Rightarrow> rat \<Rightarrow> ts_handle \<Rightarrow> ts_error option \<times> ts_handle" where
  "refreshNow content clock h = endRead (readState content) clock (beginRead h)"

text \<open>The fault is kept, and reported when a reporter is set and it was not reported before.\<close>

definition tickFailed :: "bool \<Rightarrow> ts_error \<Rightarrow> ts_handle \<Rightarrow> ts_error option \<times> ts_handle" where
  "tickFailed reporter e h =
    (let h' = h\<lparr>thLastFault := Some e\<rparr> in
     if \<not> thReported h' \<and> reporter then (Some e, h'\<lparr>thReported := True\<rparr>) else (None, h'))"

definition nowSeconds :: "rat \<Rightarrow> ts_handle \<Rightarrow> (ts_error + rat) \<times> ts_handle" where
  "nowSeconds clock h =
    (let held = max (heldAt (thState h) clock) (thIssued h);
         age = rnd (held - csDeclared (thState h)) in
     if age > csCeiling (thState h) then (Inl TsStale, h) else (Inr held, h\<lparr>thIssued := held\<rparr>))"

text \<open>The steps of a handle in any order: reads begun and ended, ticks that failed, and stamps asked for.\<close>

datatype ts_step = BeginRead | EndRead "ts_error + ts_document" rat | TickFailed bool ts_error | NowSeconds rat

fun tsStep :: "ts_step \<Rightarrow> ts_handle \<Rightarrow> (ts_error + rat) option \<times> ts_handle" where
  "tsStep BeginRead h = (None, beginRead h)"
| "tsStep (EndRead answer clock) h = (None, snd (endRead answer clock h))"
| "tsStep (TickFailed reporter e) h = (None, snd (tickFailed reporter e h))"
| "tsStep (NowSeconds clock) h = (let (r, h') = nowSeconds clock h in (Some r, h'))"

text \<open>The answers of a run, each with the document in force when it was given.\<close>

fun tsRun :: "ts_step list \<Rightarrow> ts_handle \<Rightarrow> (cached_state \<times> (ts_error + rat)) list \<times> ts_handle" where
  "tsRun [] h = ([], h)"
| "tsRun (s # ss) h =
    (let (r, h') = tsStep s h; (rs, h'') = tsRun ss h' in
     ((case r of None \<Rightarrow> [] | Some x \<Rightarrow> [(thState h, x)]) @ rs, h''))"

definition stamps :: "(cached_state \<times> (ts_error + rat)) list \<Rightarrow> rat list" where
  "stamps answers = concat (map (\<lambda>(c, r). case r of Inl e \<Rightarrow> [] | Inr t \<Rightarrow> [t]) answers)"

subsection \<open>Lemmas\<close>

lemma nowSeconds_Inr:
  "nowSeconds clock h = (Inr t, h') \<longleftrightarrow> t = max (heldAt (thState h) clock) (thIssued h) \<and>
    rnd (t - csDeclared (thState h)) \<le> csCeiling (thState h) \<and> h' = h\<lparr>thIssued := t\<rparr>"
  by (auto simp: nowSeconds_def Let_def)

lemma nowSeconds_Inl: "nowSeconds clock h = (Inl e, h') \<Longrightarrow> h' = h"
  by (auto simp: nowSeconds_def Let_def split: if_splits)

lemma issued_kept: "thIssued (snd (tsStep s h)) \<ge> thIssued h"
proof (cases s)
  case (NowSeconds clock)
  then show ?thesis by (simp add: nowSeconds_def Let_def)
qed (auto simp: beginRead_def endRead_def adopt_def tickFailed_def Let_def split: sum.splits)

lemma answers_bounded:
  "(c, Inr t) \<in> set (fst (tsRun ss h)) \<Longrightarrow> rnd (t - csDeclared c) \<le> csCeiling c \<and> thIssued h \<le> t"
proof (induction ss arbitrary: h)
  case (Cons s ss)
  obtain r h' where s: "tsStep s h = (r, h')" by (cases "tsStep s h")
  obtain rs h'' where rs: "tsRun ss h' = (rs, h'')" by (cases "tsRun ss h'")
  have k: "thIssued h \<le> thIssued h'" using issued_kept [of h s] s by simp
  show ?case
  proof (cases "(c, Inr t) \<in> set rs")
    case True
    then show ?thesis using Cons.IH [of h'] rs k by auto
  next
    case False
    then have "r = Some (Inr t)" "c = thState h" using Cons.prems s rs by (auto split: option.splits)
    then show ?thesis using s by (cases s) (auto simp: Let_def nowSeconds_Inr split: prod.splits)
  qed
qed simp

lemma answers_sorted: "sorted (stamps (fst (tsRun ss h)))"
proof (induction ss arbitrary: h)
  case (Cons s ss)
  obtain r h' where s: "tsStep s h = (r, h')" by (cases "tsStep s h")
  obtain rs h'' where rs: "tsRun ss h' = (rs, h'')" by (cases "tsRun ss h'")
  have IH: "sorted (stamps rs)" using Cons.IH [of h'] rs by simp
  show ?case
  proof (cases "\<exists>t. r = Some (Inr t)")
    case True
    then obtain t where t: "r = Some (Inr t)" by blast
    then have "thIssued h' = t" using s by (cases s) (auto simp: Let_def nowSeconds_Inr split: prod.splits)
    then have "\<forall>x \<in> set (stamps rs). t \<le> x"
      using answers_bounded [of _ _ ss h'] rs by (auto simp: stamps_def split: sum.splits)
    then show ?thesis using IH s rs t by (simp add: stamps_def)
  next
    case False
    then show ?thesis using IH s rs by (auto simp: stamps_def split: option.splits sum.splits)
  qed
qed (simp add: stamps_def)

lemma run_refresh: "thRefresh (snd (tsRun ss h)) = thRefresh h"
proof (induction ss arbitrary: h)
  case (Cons s ss)
  have "thRefresh (snd (tsStep s h)) = thRefresh h"
    by (cases s) (auto simp: beginRead_def endRead_def adopt_def tickFailed_def nowSeconds_def Let_def split: sum.splits)
  then show ?case using Cons.IH by (simp add: split_beta Let_def)
qed simp

lemma parseDocument_Inr:
  "parseDocument v = Inr d \<longleftrightarrow> (\<exists>fs p. v = JObj fs p \<and> fst ` set fs = set STATE_MEMBERS \<and>
    getProp v (js ''version'') = JNum (NInt 1) \<and> getProp v (js ''source'') = JStr (tdSource d) \<and> jsTrim (tdSource d) \<noteq> [] \<and>
    asUint (getProp v (js ''measuredAtSeconds'')) = Some (tdMeasuredAt d) \<and>
    declaredBound (getProp v (js ''uncertaintySeconds'')) = Inr (tdUncertainty d))"
proof (cases v)
  case (JObj fs p)
  have m: "\<not> (\<exists>key \<in> fst ` set fs. key \<notin> set STATE_MEMBERS) \<and> \<not> (\<exists>key \<in> set STATE_MEMBERS. key \<notin> fst ` set fs) \<longleftrightarrow>
      fst ` set fs = set STATE_MEMBERS"
    by blast
  show ?thesis
    unfolding JObj parseDocument_def jsval.case bindE_Inr failIf_simps m [symmetric]
    by (cases d) (auto simp: bindE_Inr TIME_SOURCE_STATE_FILE_VERSION_def simp del: getProp.simps split: jsval.splits option.splits if_splits)
qed (simp_all add: parseDocument_def)

lemma declaredBound_Inr: "declaredBound v = Inr (Some u) \<Longrightarrow> u \<le> 86400"
  by (auto simp: declaredBound_def PLAUSIBILITY_BAND_SECONDS_def split: option.splits if_splits)

lemma refreshSecondsFor_bounds: "1 \<le> refreshSecondsFor u" "refreshSecondsFor u \<le> 60"
  by (auto simp: refreshSecondsFor_def MAX_TIME_SOURCE_STATE_REFRESH_SECONDS_def MIN_TIME_SOURCE_STATE_REFRESH_SECONDS_def
      split: option.split)

lemma rnd_nat: "n \<le> 2 ^ 53 \<Longrightarrow> rnd (of_nat n) = of_nat n"
  using rnd_of_int [of "int n"] by simp

lemma ceiling_some:
  assumes "u \<le> 86400" "r \<le> 60"
  shows "stalenessCeilingSeconds (Some u) (of_nat r) = of_nat (u + 2 * r)"
proof -
  have "rnd (of_nat (2 * r)) = of_nat (2 * r)" "rnd (of_nat (u + 2 * r)) = of_nat (u + 2 * r)"
    using assms by (intro rnd_nat; simp)+
  then show ?thesis by (simp add: stalenessCeilingSeconds_def LIVENESS_ALLOWANCE_INTERVALS_def Let_def)
qed

lemma openFrom_Inr:
  "openFrom d opt wall start = Inr h \<Longrightarrow> thIssued h = of_nat (tdMeasuredAt d) \<and>
    \<bar>int (tdMeasuredAt d) - wall\<bar> \<le> 86400 \<and> (opt = None \<longrightarrow> thRefresh h = of_nat (refreshSecondsFor (tdUncertainty d)))"
  by (auto simp: openFrom_def bindE_Inr PLAUSIBILITY_BAND_SECONDS_def Let_def)

subsection \<open>Properties\<close>

text \<open>
  C17 The stamps of a handle. However reads, adoptions, failed ticks and requests for a stamp follow one another,
  and whatever the documents and the monotonic clock say, the stamps a handle answers never run backwards, none
  is before the instant of the document it was opened with, and each is at most the ceiling in force past the
  instant of the document in force, a stamp beyond it being refused.
\<close>

theorem stamps_never_run_back:
  assumes "openFrom d opt wall start = Inr h"
  shows "sorted (stamps (fst (tsRun steps h))) \<and>
    (\<forall>(c, r) \<in> set (fst (tsRun steps h)). \<forall>t. r = Inr t \<longrightarrow>
      of_nat (tdMeasuredAt d) \<le> t \<and> rnd (t - csDeclared c) \<le> csCeiling c)"
  using answers_sorted answers_bounded openFrom_Inr [OF assms] by fastforce

text \<open>
  C18 The ceiling is the bound of the document in force and two intervals of the cadence the handle was opened
  with. So it stays within twice the bound exactly when those two intervals do, which holds for the first
  document with a bound of two seconds or more and is lost by a later document whose bound is tighter.
\<close>

theorem ceiling_in_force:
  fixes clock :: rat and steps :: "ts_step list"
  assumes "openFrom d None wall start = Inr h" and "tdUncertainty doc = Some u" and "u \<le> 86400"
  defines "c \<equiv> csCeiling (thState (snd (endRead (Inr doc) clock (snd (tsRun steps h)))))"
  shows "c = of_nat (u + 2 * refreshSecondsFor (tdUncertainty d)) \<and>
    (c \<le> 2 * of_nat u \<longleftrightarrow> 2 * refreshSecondsFor (tdUncertainty d) \<le> u) \<and>
    (tdUncertainty d = tdUncertainty doc \<and> 2 \<le> u \<longrightarrow> c \<le> 2 * of_nat u)"
proof -
  define r where "r = refreshSecondsFor (tdUncertainty d)"
  have "thRefresh (snd (tsRun steps h)) = of_nat r" using run_refresh openFrom_Inr [OF assms(1)] by (simp add: r_def)
  then have c: "c = of_nat (u + 2 * r)"
    using ceiling_some [OF assms(3), of r] refreshSecondsFor_bounds(2) by (simp add: c_def endRead_def adopt_def assms(2) r_def)
  have le: "c \<le> 2 * of_nat u \<longleftrightarrow> 2 * r \<le> u"
  proof -
    have "c \<le> 2 * of_nat u \<longleftrightarrow> of_nat (u + 2 * r) \<le> (of_nat (2 * u) :: rat)" unfolding c by simp
    then show ?thesis unfolding of_nat_le_iff by auto
  qed
  have "2 * r \<le> u" if "tdUncertainty d = tdUncertainty doc" "2 \<le> u"
    using that assms(2) by (simp add: r_def refreshSecondsFor_def MAX_TIME_SOURCE_STATE_REFRESH_SECONDS_def
        MIN_TIME_SOURCE_STATE_REFRESH_SECONDS_def)
  then show ?thesis using c le unfolding r_def [symmetric] by blast
qed

definition sampleDocument :: "nat option \<Rightarrow> nat \<Rightarrow> ts_document" where
  "sampleDocument u n = \<lparr>tdSource = js ''ntp'', tdUncertainty = u, tdMeasuredAt = n\<rparr>"

lemma sample_opens: "\<exists>h. openFrom (sampleDocument u 1000) None 1000 0 = Inr h"
  by (simp add: openFrom_def sampleDocument_def PLAUSIBILITY_BAND_SECONDS_def Let_def bindE_failIf)

lemma ceiling_in_force_witness:
  "\<exists>h. openFrom (sampleDocument None 1000) None 1000 0 = Inr h \<and>
    csCeiling (thState (snd (endRead (Inr (sampleDocument (Some 2) 1030)) 30 (snd (tsRun [BeginRead] h))))) = 122"
proof -
  obtain h where h: "openFrom (sampleDocument None 1000) None 1000 0 = Inr h" using sample_opens by blast
  have "tdUncertainty (sampleDocument (Some 2) 1030) = Some 2" "refreshSecondsFor None = 60"
    by (simp_all add: sampleDocument_def refreshSecondsFor_def MAX_TIME_SOURCE_STATE_REFRESH_SECONDS_def)
  then show ?thesis using h ceiling_in_force [OF h, of "sampleDocument (Some 2) 1030" 2 30 "[BeginRead]"]
    by (simp add: sampleDocument_def)
qed

lemma stamps_never_run_back_witness:
  "\<exists>h. openFrom (sampleDocument (Some 10) 1000) None 1000 0 = Inr h \<and>
    (let steps = [NowSeconds 7, BeginRead, NowSeconds 5, EndRead (Inr (sampleDocument (Some 10) 1003)) 8, NowSeconds 8] in
     fst (tsRun steps h) \<noteq> [] \<and> sorted (stamps (fst (tsRun steps h))))"
proof -
  obtain h where h: "openFrom (sampleDocument (Some 10) 1000) None 1000 0 = Inr h" using sample_opens by blast
  have "fst (tsRun (NowSeconds c # ss) k) \<noteq> []" for c ss k by (simp add: Let_def split: prod.split)
  then show ?thesis using h stamps_never_run_back [OF h] unfolding Let_def by blast
qed

end
