(* ===== verification/AnchorLedger.thy ===== *)
theory AnchorLedger
  imports PackSpec Der
begin

text \<open>
  attest-core/src/anchor-ledger.ts: the signed ledger of where every trust anchor came from. Its body written
  and read, its rows checked against the bytes they name, and its envelope opened under a key of the caller.
  The bytes of the three embedded anchors are data of the package and an argument here (\<open>embedded\<close>), as are
  the fixtures a caller hands over (\<open>shipped\<close>). Then what a verified ledger establishes, and that a ledger
  that was sealed verifies.
\<close>

subsection \<open>Data\<close>

definition ANCHOR_LEDGER_CONTENT_TYPE :: jsstr where "ANCHOR_LEDGER_CONTENT_TYPE = ANCHOR_PROVENANCE_CONTENT_TYPE"
definition ANCHOR_LEDGER_FORMAT_VERSION :: int where "ANCHOR_LEDGER_FORMAT_VERSION = 1"
definition ANCHOR_LEDGER_EARLIEST_SECONDS :: int where "ANCHOR_LEDGER_EARLIEST_SECONDS = 1000000000"
definition ANCHOR_LEDGER_LATEST_SECONDS :: int where "ANCHOR_LEDGER_LATEST_SECONDS = 4294967295"
definition ANCHOR_LEDGER_DOCUMENT_MEMBERS :: "string list" where
  "ANCHOR_LEDGER_DOCUMENT_MEMBERS = [''v'', ''generatedAt'', ''keys'', ''rows'']"
definition ANCHOR_LEDGER_ROW_MEMBERS :: "string list" where
  "ANCHOR_LEDGER_ROW_MEMBERS = [''family'', ''file'', ''digest'', ''subject'', ''serial'', ''spki'', ''validity'', ''origin'', ''takenAt'',
    ''licence'', ''licenceNote'']"
definition ANCHOR_LEDGER_CERTIFICATE_MEMBERS :: "string list" where
  "ANCHOR_LEDGER_CERTIFICATE_MEMBERS = [''subject'', ''serial'', ''spki'', ''validity'']"
definition ANCHOR_LEDGER_VALIDITY_MEMBERS :: "string list" where "ANCHOR_LEDGER_VALIDITY_MEMBERS = [''from'', ''to'']"
definition ANCHOR_FAMILIES :: "jsstr list" where "ANCHOR_FAMILIES = map js [''amd'', ''intel'', ''nvidia'']"
definition ANCHOR_LICENCE_CLASSES :: "jsstr list" where
  "ANCHOR_LICENCE_CLASSES = map js [''apache-2.0'', ''bsd-3-clause'', ''agpl-3.0'', ''none-stated'']"
definition EMBEDDED_ANCHOR_FILES :: "jsstr list" where
  "EMBEDDED_ANCHOR_FILES = map js [''src/trust-anchors.ts#INTEL_SGX_ROOT_CA_PEM'', ''src/trust-anchors.ts#AMD_ARK_MILAN_PEM'',
    ''src/trust-anchors.ts#NVIDIA_DEVICE_IDENTITY_CA_PEM'']"
definition TRACKED_FIXTURE_FILES :: "jsstr list" where
  "TRACKED_FIXTURE_FILES = map js [''test/fixtures/sev-snp-attestation.bin'', ''test/fixtures/sev-snp-ask.pem'',
    ''test/fixtures/sev-snp-vcek.pem'', ''test/fixtures/amd-ark-milan.pem'', ''test/fixtures/tdx-quote-v4.bin'',
    ''test/fixtures/intel-sgx-root-ca.pem'', ''test/fixtures/nvidia-hopper-report.bin'',
    ''test/fixtures/nvidia-hopper-report-bad-signature.bin'', ''test/fixtures/nvidia-hopper-cert-chain.pem'',
    ''test/fixtures/nvidia-device-identity-ca.pem'']"
definition ANCHOR_LEDGER_FILES :: "jsstr list" where "ANCHOR_LEDGER_FILES = EMBEDDED_ANCHOR_FILES @ TRACKED_FIXTURE_FILES"

record ledger_row =
  lrFamily :: jsstr
  lrFile :: jsstr
  lrDigest :: bytes
  lrSubject :: "bytes option"
  lrSerial :: "bytes option"
  lrSpki :: "bytes option"
  lrValidity :: "(int \<times> int) option"
  lrOrigin :: jsstr
  lrTakenAt :: int
  lrLicence :: jsstr
  lrLicenceNote :: "jsstr option"

record ledger_document =
  ldGeneratedAt :: int
  ldKeys :: "bytes list"
  ldRows :: "ledger_row list"

record ledger_options =
  loTrustedKeys :: "bytes list option"
  loShipped :: "(jsstr \<rightharpoonup> bytes) option"

record verified_ledger =
  vlDocument :: ledger_document
  vlKid :: bytes
  vlProtected :: bytes
  vlPayload :: bytes
  vlSignature :: bytes

text \<open>A failure of this module under its own code, or one of the framing passed on as it arrived.\<close>

datatype ledger_failure = Ledger aerr | Framing failure

abbreviation ledgerFail :: "aerr \<Rightarrow> ledger_failure + 'a" where
  "ledgerFail c \<equiv> Inl (Ledger c)"

abbreviation badDocument :: "ledger_failure + 'a" where
  "badDocument \<equiv> ledgerFail ANCHOR_LEDGER_BAD_DOCUMENT"

subsection \<open>The body, written\<close>

definition optionalEntry :: "string \<Rightarrow> ('a \<Rightarrow> cval) \<Rightarrow> 'a option \<Rightarrow> (cval \<times> cval) list" where
  "optionalEntry n f x = (case x of None \<Rightarrow> [] | Some y \<Rightarrow> [(ctext n, f y)])"

definition rowToCbor :: "ledger_row \<Rightarrow> (cval \<times> cval) list" where
  "rowToCbor row = [(ctext ''family'', CText (lrFamily row)), (ctext ''file'', CText (lrFile row)), (ctext ''digest'', CBytes (lrDigest row))] @
    optionalEntry ''subject'' CBytes (lrSubject row) @ optionalEntry ''serial'' CBytes (lrSerial row) @
    optionalEntry ''spki'' CBytes (lrSpki row) @
    optionalEntry ''validity'' (\<lambda>(from, to). CMap [(ctext ''from'', cint from), (ctext ''to'', cint to)]) (lrValidity row) @
    [(ctext ''origin'', CText (lrOrigin row)), (ctext ''takenAt'', cint (lrTakenAt row)), (ctext ''licence'', CText (lrLicence row))] @
    optionalEntry ''licenceNote'' CText (lrLicenceNote row)"

definition ledgerEntries :: "ledger_document \<Rightarrow> (cval \<times> cval) list" where
  "ledgerEntries d = [(ctext ''v'', cint 1), (ctext ''generatedAt'', cint (ldGeneratedAt d)), (ctext ''keys'', CArr (map CBytes (ldKeys d))),
    (ctext ''rows'', CArr (map (\<lambda>row. CMap (rowToCbor row)) (ldRows d)))]"

definition encodeAnchorLedger :: "receipt_env \<Rightarrow> ledger_document \<Rightarrow> bytes" where
  "encodeAnchorLedger env d = encodeCanonical (reCodec env) (CMap (ledgerEntries d))"

subsection \<open>The body, read\<close>

definition decodeBody :: "receipt_env \<Rightarrow> bytes \<Rightarrow> ledger_failure + cval" where
  "decodeBody env bs =
    (case decodeClosedDocument (reCodec env) bs MALFORMED_CBOR of Inl _ \<Rightarrow> badDocument | Inr v \<Rightarrow> Inr v)"

definition memberAt :: "(cval \<times> cval) list \<Rightarrow> string \<Rightarrow> ledger_failure + cval" where
  "memberAt m n = (if member m n = CUndef then badDocument else Inr (member m n))"

definition bytesAt :: "(cval \<times> cval) list \<Rightarrow> string \<Rightarrow> ledger_failure + bytes" where
  "bytesAt m n = bindE (memberAt m n) (\<lambda>v. case v of CBytes bs \<Rightarrow> Inr bs | _ \<Rightarrow> badDocument)"

definition textAt :: "(cval \<times> cval) list \<Rightarrow> string \<Rightarrow> ledger_failure + jsstr" where
  "textAt m n = bindE (memberAt m n) (\<lambda>v. case v of CText s \<Rightarrow> Inr s | _ \<Rightarrow> badDocument)"

text \<open>The closed decode returns no number that is not an integer; a larger integer comes as a bigint.\<close>

definition integerAt :: "(cval \<times> cval) list \<Rightarrow> string \<Rightarrow> ledger_failure + int" where
  "integerAt m n = bindE (memberAt m n) (\<lambda>v. case v of CNum (NInt i) \<Rightarrow> Inr i | _ \<Rightarrow> badDocument)"

definition mapAt :: "cval \<Rightarrow> ledger_failure + (cval \<times> cval) list" where
  "mapAt v = (case decodedMap v of None \<Rightarrow> badDocument | Some m \<Rightarrow> Inr m)"

definition arrayAt :: "cval \<Rightarrow> ledger_failure + cval list" where
  "arrayAt v = (case v of CArr xs \<Rightarrow> Inr xs | _ \<Rightarrow> badDocument)"

definition hasMember :: "(cval \<times> cval) list \<Rightarrow> string \<Rightarrow> bool" where
  "hasMember m n \<longleftrightarrow> ctext n \<in> fst ` set m"

definition assertClosedMembers :: "(cval \<times> cval) list \<Rightarrow> string list \<Rightarrow> string list \<Rightarrow> ledger_failure + unit" where
  "assertClosedMembers m declared required =
    bindE (failIf (\<exists>key \<in> fst ` set m. key \<notin> (\<lambda>n. ctext n) ` set declared) (Ledger ANCHOR_LEDGER_BAD_DOCUMENT)) (\<lambda>_.
      failIf (\<exists>n \<in> set required. \<not> hasMember m n) (Ledger ANCHOR_LEDGER_BAD_DOCUMENT))"

definition assertPrintsClean :: "jsstr \<Rightarrow> ledger_failure + unit" where
  "assertPrintsClean s = failIf (firstForgingCodePoint s \<noteq> None) (Ledger ANCHOR_LEDGER_BAD_DOCUMENT)"

definition readInstant :: "(cval \<times> cval) list \<Rightarrow> string \<Rightarrow> ledger_failure + int" where
  "readInstant m n =
    bindE (integerAt m n) (\<lambda>v.
      if v < ANCHOR_LEDGER_EARLIEST_SECONDS \<or> v > ANCHOR_LEDGER_LATEST_SECONDS then ledgerFail ANCHOR_LEDGER_INSTANT_OUT_OF_RANGE
      else Inr v)"

definition resolveShippedBytes :: "(jsstr \<rightharpoonup> bytes) \<Rightarrow> (jsstr \<rightharpoonup> bytes) \<Rightarrow> jsstr \<Rightarrow> ledger_failure + bytes" where
  "resolveShippedBytes embedded shipped file =
    (case embedded file of
       Some bs \<Rightarrow> Inr bs
     | None \<Rightarrow>
         if file \<notin> set ANCHOR_LEDGER_FILES then ledgerFail ANCHOR_LEDGER_FILE_UNNAMED
         else (case shipped file of None \<Rightarrow> ledgerFail ANCHOR_LEDGER_BYTES_UNAVAILABLE | Some bs \<Rightarrow> Inr bs))"

definition singleCertificate :: "bytes \<Rightarrow> ledger_failure + certificate" where
  "singleCertificate bs =
    (case parseCertificateChain bs of
       Inr [only] \<Rightarrow> Inr only
     | _ \<Rightarrow> ledgerFail ANCHOR_LEDGER_SPKI_MISMATCH)"

definition textMember :: "(cval \<times> cval) list \<Rightarrow> string \<Rightarrow> ledger_failure + jsstr" where
  "textMember m n =
    bindE (textAt m n) (\<lambda>s.
    bindE (failIf (s = []) (Ledger ANCHOR_LEDGER_BAD_DOCUMENT)) (\<lambda>_.
    bindE (assertPrintsClean s) (\<lambda>_. Inr s)))"

definition readNote :: "(cval \<times> cval) list \<Rightarrow> ledger_failure + jsstr option" where
  "readNote m = (if hasMember m ''licenceNote'' then bindE (textMember m ''licenceNote'') (\<lambda>s. Inr (Some s)) else Inr None)"

definition readCertificateMembers ::
  "receipt_env \<Rightarrow> (cval \<times> cval) list \<Rightarrow> bytes \<Rightarrow> ledger_failure + bytes \<times> bytes \<times> bytes \<times> int \<times> int" where
  "readCertificateMembers env m bs =
    bindE (bytesAt m ''subject'') (\<lambda>subject.
    bindE (bytesAt m ''serial'') (\<lambda>serial.
    bindE (bytesAt m ''spki'') (\<lambda>spki.
    bindE (failIf (length spki \<noteq> 32) (Ledger ANCHOR_LEDGER_BAD_DOCUMENT)) (\<lambda>_.
    bindE (failIf (subject = []) (Ledger ANCHOR_LEDGER_BAD_DOCUMENT)) (\<lambda>_.
    bindE (failIf (serial = []) (Ledger ANCHOR_LEDGER_BAD_DOCUMENT)) (\<lambda>_.
    bindE (bindE (memberAt m ''validity'') mapAt) (\<lambda>validity.
    bindE (assertClosedMembers validity ANCHOR_LEDGER_VALIDITY_MEMBERS [''from'', ''to'']) (\<lambda>_.
    bindE (integerAt validity ''from'') (\<lambda>from.
    bindE (integerAt validity ''to'') (\<lambda>to.
    bindE (failIf (from < 0 \<or> to < 0) (Ledger ANCHOR_LEDGER_BAD_DOCUMENT)) (\<lambda>_.
    bindE (failIf (to \<le> from) (Ledger ANCHOR_LEDGER_BAD_DOCUMENT)) (\<lambda>_.
    bindE (singleCertificate bs) (\<lambda>certificate.
    bindE (failIf (\<not> sameBytes (reSha256 env (crtSpki certificate)) spki) (Ledger ANCHOR_LEDGER_SPKI_MISMATCH)) (\<lambda>_.
      Inr (subject, serial, spki, from, to)))))))))))))))"

definition readRow :: "receipt_env \<Rightarrow> (jsstr \<rightharpoonup> bytes) \<Rightarrow> (jsstr \<rightharpoonup> bytes) \<Rightarrow> (cval \<times> cval) list \<Rightarrow> ledger_failure + ledger_row" where
  "readRow env embedded shipped m =
    bindE (assertClosedMembers m ANCHOR_LEDGER_ROW_MEMBERS [''family'', ''file'', ''digest'', ''origin'', ''takenAt'', ''licence'']) (\<lambda>_.
    bindE (textAt m ''family'') (\<lambda>family.
    bindE (assertPrintsClean family) (\<lambda>_.
    bindE (failIf (family \<notin> set ANCHOR_FAMILIES) (Ledger ANCHOR_LEDGER_BAD_DOCUMENT)) (\<lambda>_.
    bindE (textMember m ''file'') (\<lambda>file.
    bindE (bytesAt m ''digest'') (\<lambda>digest.
    bindE (failIf (length digest \<noteq> 32) (Ledger ANCHOR_LEDGER_BAD_DOCUMENT)) (\<lambda>_.
    bindE (textMember m ''origin'') (\<lambda>origin.
    bindE (readInstant m ''takenAt'') (\<lambda>takenAt.
    bindE (textAt m ''licence'') (\<lambda>licence.
    bindE (assertPrintsClean licence) (\<lambda>_.
    bindE (failIf (licence \<notin> set ANCHOR_LICENCE_CLASSES) (Ledger ANCHOR_LEDGER_LICENCE_UNKNOWN)) (\<lambda>_.
    bindE (readNote m) (\<lambda>note.
    let carried = filter (hasMember m) ANCHOR_LEDGER_CERTIFICATE_MEMBERS in
    bindE (failIf (carried \<noteq> [] \<and> length carried < length ANCHOR_LEDGER_CERTIFICATE_MEMBERS) (Ledger ANCHOR_LEDGER_BAD_DOCUMENT)) (\<lambda>_.
    bindE (resolveShippedBytes embedded shipped file) (\<lambda>bs.
    bindE (failIf (\<not> sameBytes (reSha256 env bs) digest) (Ledger ANCHOR_LEDGER_DIGEST_MISMATCH)) (\<lambda>_.
    let row = \<lparr>lrFamily = family, lrFile = file, lrDigest = digest, lrSubject = None, lrSerial = None, lrSpki = None,
      lrValidity = None, lrOrigin = origin, lrTakenAt = takenAt, lrLicence = licence, lrLicenceNote = note\<rparr> in
    if carried = [] then Inr row
    else bindE (readCertificateMembers env m bs) (\<lambda>(subject, serial, spki, from, to).
      Inr (row\<lparr>lrSubject := Some subject, lrSerial := Some serial, lrSpki := Some spki, lrValidity := Some (from, to)\<rparr>))))))))))))))))))"

definition readKey :: "cval \<Rightarrow> ledger_failure + bytes" where
  "readKey v = (case v of CBytes bs \<Rightarrow> if length bs \<noteq> 32 then badDocument else Inr bs | _ \<Rightarrow> badDocument)"

definition parseAnchorLedger ::
  "receipt_env \<Rightarrow> (jsstr \<rightharpoonup> bytes) \<Rightarrow> (jsstr \<rightharpoonup> bytes) \<Rightarrow> bytes \<Rightarrow> ledger_failure + ledger_document" where
  "parseAnchorLedger env embedded shipped body =
    bindE (bindE (decodeBody env body) mapAt) (\<lambda>document.
    bindE (assertClosedMembers document ANCHOR_LEDGER_DOCUMENT_MEMBERS [''v'', ''generatedAt'', ''keys'', ''rows'']) (\<lambda>_.
    bindE (integerAt document ''v'') (\<lambda>version.
    bindE (failIf (version \<noteq> ANCHOR_LEDGER_FORMAT_VERSION) (Ledger ANCHOR_LEDGER_UNSUPPORTED_VERSION)) (\<lambda>_.
    bindE (readInstant document ''generatedAt'') (\<lambda>generatedAt.
    bindE (bindE (memberAt document ''keys'') arrayAt) (\<lambda>declaredKeys.
    bindE (failIf (declaredKeys = []) (Ledger ANCHOR_LEDGER_BAD_DOCUMENT)) (\<lambda>_.
    bindE (mapE readKey declaredKeys) (\<lambda>keys.
    bindE (bindE (memberAt document ''rows'') arrayAt) (\<lambda>listedRows.
    bindE (failIf (listedRows = []) (Ledger ANCHOR_LEDGER_BAD_DOCUMENT)) (\<lambda>_.
    bindE (mapE (\<lambda>entry. bindE (mapAt entry) (readRow env embedded shipped)) listedRows) (\<lambda>rows.
      Inr \<lparr>ldGeneratedAt = generatedAt, ldKeys = keys, ldRows = rows\<rparr>)))))))))))"

subsection \<open>The envelope\<close>

definition ledgerCode :: "receipt_error \<Rightarrow> aerr option" where
  "ledgerCode e =
    (case e of
       MALFORMED_CBOR \<Rightarrow> Some ANCHOR_LEDGER_NOT_SEALED
     | NOT_COSE_SIGN1 \<Rightarrow> Some ANCHOR_LEDGER_NOT_SEALED
     | BAD_PROTECTED_HEADER \<Rightarrow> Some ANCHOR_LEDGER_BAD_HEADER
     | UNSUPPORTED_ALG \<Rightarrow> Some ANCHOR_LEDGER_BAD_HEADER
     | KID_MISMATCH \<Rightarrow> Some ANCHOR_LEDGER_PIN_MISMATCH
     | INVALID_SIGNATURE \<Rightarrow> Some BAD_SIGNATURE
     | _ \<Rightarrow> None)"

definition framingRefusal :: "failure + 'a \<Rightarrow> ledger_failure + 'a" where
  "framingRefusal r =
    (case r of
       Inr x \<Rightarrow> Inr x
     | Inl (Refused e) \<Rightarrow> (case ledgerCode e of Some c \<Rightarrow> ledgerFail c | None \<Rightarrow> Inl (Framing (Refused e)))
     | Inl f \<Rightarrow> Inl (Framing f))"

definition sealAnchorLedger :: "receipt_env \<Rightarrow> bytes \<Rightarrow> bytes \<Rightarrow> bytes \<Rightarrow> failure + bytes \<times> bytes" where
  "sealAnchorLedger env body seed externalAad =
    bindE (signingKeyFromSeed env seed) (\<lambda>key.
    bindE (signCoseSign1 env body key externalAad ANCHOR_LEDGER_CONTENT_TYPE) (\<lambda>bs. Inr (bs, skKid key)))"

definition readSealed :: "receipt_env \<Rightarrow> bytes \<Rightarrow> ledger_failure + cose_sign1 \<times> protected_header" where
  "readSealed env bs =
    (if bs = [] then ledgerFail ANCHOR_LEDGER_NOT_SEALED
     else framingRefusal (decodeCoseSign1 env bs ANCHOR_LEDGER_CONTENT_TYPE))"

definition verifySealed :: "receipt_env \<Rightarrow> bytes \<Rightarrow> bytes \<Rightarrow> ledger_failure + cose_sign1 \<times> protected_header" where
  "verifySealed env bs publicKey = framingRefusal (verifyCoseSign1 env bs publicKey [] ANCHOR_LEDGER_CONTENT_TYPE)"

definition verifyAnchorLedger ::
  "receipt_env \<Rightarrow> (jsstr \<rightharpoonup> bytes) \<Rightarrow> bytes \<Rightarrow> ledger_options \<Rightarrow> ledger_failure + verified_ledger" where
  "verifyAnchorLedger env embedded bs opts =
    (let pins = (case loTrustedKeys opts of None \<Rightarrow> [] | Some ks \<Rightarrow> ks);
         shipped = (case loShipped opts of None \<Rightarrow> (\<lambda>_. None) | Some m \<Rightarrow> m) in
     bindE (failIf (pins = []) (Ledger ANCHOR_LEDGER_PIN_MISSING)) (\<lambda>_.
     bindE (readSealed env bs) (\<lambda>(opened, header).
     case find (\<lambda>candidate. length candidate = 32 \<and> sameBytes (keyId env candidate) (phKid header)) pins of
       None \<Rightarrow> ledgerFail ANCHOR_LEDGER_PIN_MISMATCH
     | Some pinned \<Rightarrow>
         bindE (verifySealed env bs pinned) (\<lambda>(verified, header).
         bindE (parseAnchorLedger env embedded shipped (coPayload verified)) (\<lambda>document.
         bindE (failIf (\<not> list_ex (\<lambda>declared. sameBytes declared (phKid header)) (ldKeys document)) (Ledger ANCHOR_LEDGER_KEY_UNDECLARED)) (\<lambda>_.
           Inr \<lparr>vlDocument = document, vlKid = phKid header, vlProtected = coProtected verified, vlPayload = coPayload verified,
             vlSignature = coSignature verified\<rparr>))))))"

subsection \<open>What the readers accept\<close>

named_theorems ledger_simps \<open>what a reader of the ledger accepts\<close>

lemma memberAt_Inr [ledger_simps]: "memberAt m n = Inr v \<longleftrightarrow> member m n = v \<and> v \<noteq> CUndef"
  by (auto simp: memberAt_def)

lemma bytesAt_Inr [ledger_simps]: "bytesAt m n = Inr bs \<longleftrightarrow> member m n = CBytes bs"
  by (auto simp: bytesAt_def bindE_Inr memberAt_Inr split: cval.splits)

lemma textAt_Inr [ledger_simps]: "textAt m n = Inr s \<longleftrightarrow> member m n = CText s"
  by (auto simp: textAt_def bindE_Inr memberAt_Inr split: cval.splits)

lemma integerAt_Inr [ledger_simps]: "integerAt m n = Inr i \<longleftrightarrow> member m n = cint i"
  by (auto simp: integerAt_def bindE_Inr memberAt_Inr split: cval.splits jsnum.splits)

lemma mapAt_Inr [ledger_simps]: "mapAt v = Inr m \<longleftrightarrow> v = CMap m"
  by (auto simp: mapAt_def split: option.splits)

lemma arrayAt_Inr [ledger_simps]: "arrayAt v = Inr xs \<longleftrightarrow> v = CArr xs"
  by (auto simp: arrayAt_def split: cval.splits)

definition closedTo :: "string list \<Rightarrow> string list \<Rightarrow> (cval \<times> cval) list \<Rightarrow> bool" where
  "closedTo declared required m \<longleftrightarrow> fst ` set m \<subseteq> (\<lambda>n. ctext n) ` set declared \<and> (\<forall>n \<in> set required. hasMember m n)"

lemma assertClosedMembers_Inr [ledger_simps]: "assertClosedMembers m declared required = Inr u \<longleftrightarrow> closedTo declared required m"
  by (auto simp: assertClosedMembers_def bindE_Inr closedTo_def)

definition cleanText :: "jsstr \<Rightarrow> bool" where
  "cleanText s \<longleftrightarrow> s \<noteq> [] \<and> firstForgingCodePoint s = None"

lemma assertPrintsClean_Inr [ledger_simps]: "assertPrintsClean s = Inr u \<longleftrightarrow> firstForgingCodePoint s = None"
  by (simp add: assertPrintsClean_def)

lemma textMember_Inr [ledger_simps]: "textMember m n = Inr s \<longleftrightarrow> member m n = CText s \<and> cleanText s"
  by (auto simp: textMember_def bindE_Inr ledger_simps cleanText_def)

definition ledgerInstant :: "int \<Rightarrow> bool" where
  "ledgerInstant t \<longleftrightarrow> ANCHOR_LEDGER_EARLIEST_SECONDS \<le> t \<and> t \<le> ANCHOR_LEDGER_LATEST_SECONDS"

lemma readInstant_Inr [ledger_simps]: "readInstant m n = Inr t \<longleftrightarrow> member m n = cint t \<and> ledgerInstant t"
proof -
  have "readInstant m n = Inr t \<longleftrightarrow> integerAt m n = Inr t \<and> ledgerInstant t"
    by (cases "integerAt m n") (auto simp: readInstant_def ledgerInstant_def)
  then show ?thesis by (simp only: integerAt_Inr)
qed

definition resolves :: "(jsstr \<rightharpoonup> bytes) \<Rightarrow> (jsstr \<rightharpoonup> bytes) \<Rightarrow> jsstr \<Rightarrow> bytes \<Rightarrow> bool" where
  "resolves embedded shipped file bs \<longleftrightarrow>
    (case embedded file of Some b \<Rightarrow> bs = b | None \<Rightarrow> file \<in> set ANCHOR_LEDGER_FILES \<and> shipped file = Some bs)"

lemma resolveShippedBytes_Inr [ledger_simps]: "resolveShippedBytes embedded shipped file = Inr bs \<longleftrightarrow> resolves embedded shipped file bs"
  by (auto simp: resolveShippedBytes_def resolves_def split: option.splits)

lemma singleCertificate_Inr [ledger_simps]: "singleCertificate bs = Inr c \<longleftrightarrow> parseCertificateChain bs = Inr [c]"
  by (auto simp: singleCertificate_def split: sum.splits list.splits)

lemma readKey_Inr [ledger_simps]: "readKey v = Inr bs \<longleftrightarrow> v = CBytes bs \<and> length bs = 32"
  by (auto simp: readKey_def split: cval.splits)

lemma readNote_Inr [ledger_simps]:
  "readNote m = Inr note \<longleftrightarrow>
    (case note of None \<Rightarrow> \<not> hasMember m ''licenceNote''
     | Some s \<Rightarrow> hasMember m ''licenceNote'' \<and> member m ''licenceNote'' = CText s \<and> cleanText s)"
  by (auto simp: readNote_def bindE_Inr ledger_simps split: option.splits)

lemma decodeBody_Inr [ledger_simps]: "decodeBody env bs = Inr v \<longleftrightarrow> cdDecodeNoFloats (reCodec env) bs = Some v"
proof -
  have "decodeBody env bs = Inr v \<longleftrightarrow> decodeClosedDocument (reCodec env) bs MALFORMED_CBOR = Inr v"
    by (cases "decodeClosedDocument (reCodec env) bs MALFORMED_CBOR") (simp_all add: decodeBody_def del: decodeClosedDocument_Inr)
  then show ?thesis by (simp only: decodeClosedDocument_Inr)
qed

subsection \<open>A row and a document this package stands behind\<close>

definition certificateHeld :: "receipt_env \<Rightarrow> bytes \<Rightarrow> bytes \<times> bytes \<times> bytes \<times> int \<times> int \<Rightarrow> bool" where
  "certificateHeld env bs = (\<lambda>(subject, serial, spki, from, to). subject \<noteq> [] \<and> serial \<noteq> [] \<and> length spki = 32 \<and>
    0 \<le> from \<and> from < to \<and> (\<exists>c. parseCertificateChain bs = Inr [c] \<and> spki = reSha256 env (crtSpki c)))"

text \<open>The four members a certificate answers for, together or not at all.\<close>

definition certificateOf :: "ledger_row \<Rightarrow> (bytes \<times> bytes \<times> bytes \<times> int \<times> int) option \<Rightarrow> bool" where
  "certificateOf row c \<longleftrightarrow>
    lrSubject row = map_option fst c \<and> lrSerial row = map_option (fst \<circ> snd) c \<and>
    lrSpki row = map_option (fst \<circ> snd \<circ> snd) c \<and> lrValidity row = map_option (snd \<circ> snd \<circ> snd) c"

definition rowHeld :: "receipt_env \<Rightarrow> (jsstr \<rightharpoonup> bytes) \<Rightarrow> (jsstr \<rightharpoonup> bytes) \<Rightarrow> ledger_row \<Rightarrow> bool" where
  "rowHeld env embedded shipped row \<longleftrightarrow> lrFamily row \<in> set ANCHOR_FAMILIES \<and> lrLicence row \<in> set ANCHOR_LICENCE_CLASSES \<and>
    cleanText (lrFile row) \<and> cleanText (lrOrigin row) \<and> pred_option cleanText (lrLicenceNote row) \<and> ledgerInstant (lrTakenAt row) \<and>
    length (lrDigest row) = 32 \<and>
    (\<exists>bs c. resolves embedded shipped (lrFile row) bs \<and> lrDigest row = reSha256 env bs \<and>
      certificateOf row c \<and> pred_option (certificateHeld env bs) c)"

definition documentHeld :: "receipt_env \<Rightarrow> (jsstr \<rightharpoonup> bytes) \<Rightarrow> (jsstr \<rightharpoonup> bytes) \<Rightarrow> ledger_document \<Rightarrow> bool" where
  "documentHeld env embedded shipped d \<longleftrightarrow> ledgerInstant (ldGeneratedAt d) \<and> ldKeys d \<noteq> [] \<and>
    (\<forall>k \<in> set (ldKeys d). length k = 32) \<and> ldRows d \<noteq> [] \<and> list_all (rowHeld env embedded shipped) (ldRows d)"

definition certificateReads :: "(cval \<times> cval) list \<Rightarrow> bytes \<times> bytes \<times> bytes \<times> int \<times> int \<Rightarrow> bool" where
  "certificateReads m = (\<lambda>(subject, serial, spki, from, to). member m ''subject'' = CBytes subject \<and>
    member m ''serial'' = CBytes serial \<and> member m ''spki'' = CBytes spki \<and>
    (\<exists>v. member m ''validity'' = CMap v \<and> closedTo ANCHOR_LEDGER_VALIDITY_MEMBERS [''from'', ''to''] v \<and>
      member v ''from'' = cint from \<and> member v ''to'' = cint to))"

lemma readCertificateMembers_Inr:
  "readCertificateMembers env m bs = Inr c \<longleftrightarrow> certificateReads m c \<and> certificateHeld env bs c"
  by (cases c)
     (auto simp: readCertificateMembers_def bindE_Inr ledger_simps certificateReads_def certificateHeld_def not_less)

definition rowReads :: "(cval \<times> cval) list \<Rightarrow> ledger_row \<Rightarrow> bool" where
  "rowReads m row \<longleftrightarrow> closedTo ANCHOR_LEDGER_ROW_MEMBERS [''family'', ''file'', ''digest'', ''origin'', ''takenAt'', ''licence''] m \<and>
    member m ''family'' = CText (lrFamily row) \<and> member m ''file'' = CText (lrFile row) \<and> member m ''digest'' = CBytes (lrDigest row) \<and>
    member m ''origin'' = CText (lrOrigin row) \<and> member m ''takenAt'' = cint (lrTakenAt row) \<and>
    member m ''licence'' = CText (lrLicence row) \<and>
    (case lrLicenceNote row of None \<Rightarrow> \<not> hasMember m ''licenceNote''
     | Some s \<Rightarrow> hasMember m ''licenceNote'' \<and> member m ''licenceNote'' = CText s) \<and>
    (\<exists>c. certificateOf row c \<and>
      (case c of None \<Rightarrow> \<forall>n \<in> set ANCHOR_LEDGER_CERTIFICATE_MEMBERS. \<not> hasMember m n
       | Some d \<Rightarrow> (\<forall>n \<in> set ANCHOR_LEDGER_CERTIFICATE_MEMBERS. hasMember m n) \<and> certificateReads m d))"

lemma filter_none_all:
  assumes "\<not> (filter P xs \<noteq> [] \<and> length (filter P xs) < length xs)"
  shows "if filter P xs = [] then \<forall>x \<in> set xs. \<not> P x else \<forall>x \<in> set xs. P x"
  using assms length_filter_less [of _ xs P] by (auto simp: filter_empty_conv)

lemma readRow_reads:
  assumes "readRow env embedded shipped m = Inr row"
  shows "rowReads m row \<and> rowHeld env embedded shipped row"
proof -
  let ?carried = "filter (hasMember m) ANCHOR_LEDGER_CERTIFICATE_MEMBERS"
  obtain family named digest origin takenAt licence remark bs where
    f: "closedTo ANCHOR_LEDGER_ROW_MEMBERS [''family'', ''file'', ''digest'', ''origin'', ''takenAt'', ''licence''] m"
      "member m ''family'' = CText family" "family \<in> set ANCHOR_FAMILIES"
      "member m ''file'' = CText named" "cleanText named" "member m ''digest'' = CBytes digest" "length digest = 32"
      "member m ''origin'' = CText origin" "cleanText origin" "member m ''takenAt'' = cint takenAt" "ledgerInstant takenAt"
      "member m ''licence'' = CText licence" "licence \<in> set ANCHOR_LICENCE_CLASSES" "readNote m = Inr remark"
      "resolves embedded shipped named bs" "reSha256 env bs = digest"
    and g: "\<not> (?carried \<noteq> [] \<and> length ?carried < length ANCHOR_LEDGER_CERTIFICATE_MEMBERS)"
    and c: "(let row = \<lparr>lrFamily = family, lrFile = named, lrDigest = digest, lrSubject = None, lrSerial = None, lrSpki = None,
        lrValidity = None, lrOrigin = origin, lrTakenAt = takenAt, lrLicence = licence, lrLicenceNote = remark\<rparr> in
      if ?carried = [] then Inr row
      else bindE (readCertificateMembers env m bs) (\<lambda>(subject, serial, spki, from, to).
        Inr (row\<lparr>lrSubject := Some subject, lrSerial := Some serial, lrSpki := Some spki, lrValidity := Some (from, to)\<rparr>)))
      = (Inr row :: ledger_failure + ledger_row)"
    using assms
    unfolding readRow_def bindE_Inr failIf_simps assertClosedMembers_Inr textAt_Inr assertPrintsClean_Inr textMember_Inr bytesAt_Inr
      readInstant_Inr resolveShippedBytes_Inr sameBytes_iff not_not Let_def
    by blast
  note all = filter_none_all [OF g]
  note noted = f(14) [unfolded readNote_Inr]
  have n: "(case remark of None \<Rightarrow> \<not> hasMember m ''licenceNote''
     | Some s \<Rightarrow> hasMember m ''licenceNote'' \<and> member m ''licenceNote'' = CText s)" "pred_option cleanText remark"
    using noted by (auto split: option.splits)
  define reads where "reads c = (case c of None \<Rightarrow> \<forall>n \<in> set ANCHOR_LEDGER_CERTIFICATE_MEMBERS. \<not> hasMember m n
    | Some d \<Rightarrow> (\<forall>n \<in> set ANCHOR_LEDGER_CERTIFICATE_MEMBERS. hasMember m n) \<and> certificateReads m d)" for c
  have "\<exists>c. certificateOf row c \<and> reads c \<and> pred_option (certificateHeld env bs) c \<and> lrFamily row = family \<and> lrFile row = named \<and>
    lrDigest row = digest \<and> lrOrigin row = origin \<and> lrTakenAt row = takenAt \<and> lrLicence row = licence \<and> lrLicenceNote row = remark"
  proof (cases "?carried = []")
    case True
    have r: "row = \<lparr>lrFamily = family, lrFile = named, lrDigest = digest, lrSubject = None, lrSerial = None, lrSpki = None,
        lrValidity = None, lrOrigin = origin, lrTakenAt = takenAt, lrLicence = licence, lrLicenceNote = remark\<rparr>"
      using c [unfolded Let_def if_P [OF True]] by simp
    have "\<forall>n \<in> set ANCHOR_LEDGER_CERTIFICATE_MEMBERS. \<not> hasMember m n" using True all by presburger
    then show ?thesis by (intro exI [of _ None]) (simp add: certificateOf_def reads_def r)
  next
    case False
    obtain d where d: "readCertificateMembers env m bs = Inr d"
      using c [unfolded Let_def if_not_P [OF False] bindE_Inr] by blast
    obtain subject serial spki opens closes where p: "d = (subject, serial, spki, opens, closes)" by (cases d)
    have r: "row = \<lparr>lrFamily = family, lrFile = named, lrDigest = digest, lrSubject = Some subject, lrSerial = Some serial,
        lrSpki = Some spki, lrValidity = Some (opens, closes), lrOrigin = origin, lrTakenAt = takenAt, lrLicence = licence,
        lrLicenceNote = remark\<rparr>"
      using c [unfolded Let_def if_not_P [OF False] d p bindE.simps prod.case] by simp
    have "\<forall>n \<in> set ANCHOR_LEDGER_CERTIFICATE_MEMBERS. hasMember m n" using False all by presburger
    then show ?thesis using d [unfolded readCertificateMembers_Inr p]
      by (intro exI [of _ "Some (subject, serial, spki, opens, closes)"]) (simp add: certificateOf_def reads_def r)
  qed
  then obtain c where k: "certificateOf row c" "reads c" "pred_option (certificateHeld env bs) c"
      "lrFamily row = family" "lrFile row = named" "lrDigest row = digest" "lrOrigin row = origin" "lrTakenAt row = takenAt"
      "lrLicence row = licence" "lrLicenceNote row = remark"
    by blast
  have "rowReads m row" unfolding rowReads_def k(4-) reads_def [symmetric] using f(1,2,4,6,8,10,12) n(1) k(1,2) by blast
  moreover have "rowHeld env embedded shipped row" unfolding rowHeld_def k(4-) using f(3,5,7,9,11,13,15) f(16) [symmetric] n(2) k(1,3) by blast
  ultimately show ?thesis ..
qed

lemma vocabulary_clean: "s \<in> set ANCHOR_FAMILIES \<union> set ANCHOR_LICENCE_CLASSES \<Longrightarrow> firstForgingCodePoint s = None"
proof -
  have "list_all textOkay (map js [''amd'', ''intel'', ''nvidia'', ''apache-2.0'', ''bsd-3-clause'', ''agpl-3.0'', ''none-stated''])"
    by (simp, intro conjI textOkay_printing) (simp_all add: js_def)
  moreover assume "s \<in> set ANCHOR_FAMILIES \<union> set ANCHOR_LICENCE_CLASSES"
  ultimately have "textOkay s" by (auto simp: ANCHOR_FAMILIES_def ANCHOR_LICENCE_CLASSES_def)
  then show ?thesis by (simp add: textOkay_def)
qed

lemma certificateOf_unique: "certificateOf row c \<Longrightarrow> certificateOf row c' \<Longrightarrow> c = c'"
  by (cases c; cases c') (auto simp: certificateOf_def intro: prod_eqI)

lemma readRow_accepts:
  assumes reads: "rowReads m row" and held: "rowHeld env embedded shipped row"
  shows "readRow env embedded shipped m = Inr row"
proof -
  obtain bs c where c: "resolves embedded shipped (lrFile row) bs" "lrDigest row = reSha256 env bs" "certificateOf row c"
      "pred_option (certificateHeld env bs) c"
    using held unfolding rowHeld_def by blast
  then have k: "case c of None \<Rightarrow> \<forall>n \<in> set ANCHOR_LEDGER_CERTIFICATE_MEMBERS. \<not> hasMember m n
      | Some d \<Rightarrow> (\<forall>n \<in> set ANCHOR_LEDGER_CERTIFICATE_MEMBERS. hasMember m n) \<and> certificateReads m d"
    using reads certificateOf_unique unfolding rowReads_def by blast
  have remark: "readNote m = Inr (lrLicenceNote row)"
    using reads held by (auto simp: rowReads_def rowHeld_def readNote_Inr split: option.splits)
  have clean: "assertPrintsClean (lrFamily row) = Inr ()" "assertPrintsClean (lrLicence row) = Inr ()"
    using held vocabulary_clean by (auto simp: rowHeld_def assertPrintsClean_Inr)
  have steps: "assertClosedMembers m ANCHOR_LEDGER_ROW_MEMBERS [''family'', ''file'', ''digest'', ''origin'', ''takenAt'', ''licence''] = Inr ()"
      "textAt m ''family'' = Inr (lrFamily row)" "textMember m ''file'' = Inr (lrFile row)" "bytesAt m ''digest'' = Inr (lrDigest row)"
      "textMember m ''origin'' = Inr (lrOrigin row)" "readInstant m ''takenAt'' = Inr (lrTakenAt row)"
      "textAt m ''licence'' = Inr (lrLicence row)" "resolveShippedBytes embedded shipped (lrFile row) = Inr bs"
    using reads held c(1) by (simp_all add: rowReads_def rowHeld_def ledger_simps)
  have guards: "length (lrDigest row) = 32" "lrFamily row \<in> set ANCHOR_FAMILIES" "lrLicence row \<in> set ANCHOR_LICENCE_CLASSES"
    using held by (simp_all add: rowHeld_def)
  show ?thesis
  proof (cases c)
    case None
    then have "filter (hasMember m) ANCHOR_LEDGER_CERTIFICATE_MEMBERS = []" using k by (simp add: filter_empty_conv)
    then show ?thesis
      unfolding readRow_def steps remark clean bindE.simps Let_def using guards c(2,3) None
      by (cases row) (simp add: bindE_failIf certificateOf_def)
  next
    case (Some d)
    then have all: "filter (hasMember m) ANCHOR_LEDGER_CERTIFICATE_MEMBERS = ANCHOR_LEDGER_CERTIFICATE_MEMBERS" using k by simp
    have "readCertificateMembers env m bs = Inr d" using k c(4) Some by (simp add: readCertificateMembers_Inr)
    then show ?thesis
      unfolding readRow_def steps remark clean bindE.simps Let_def all using guards c(2,3) Some
      by (cases row; cases d) (simp add: bindE_failIf certificateOf_def ANCHOR_LEDGER_CERTIFICATE_MEMBERS_def)
  qed
qed

lemma readRow_Inr: "readRow env embedded shipped m = Inr row \<longleftrightarrow> rowReads m row \<and> rowHeld env embedded shipped row"
  using readRow_reads readRow_accepts by blast

definition documentReads :: "(cval \<times> cval) list \<Rightarrow> ledger_document \<Rightarrow> bool" where
  "documentReads m d \<longleftrightarrow> closedTo ANCHOR_LEDGER_DOCUMENT_MEMBERS [''v'', ''generatedAt'', ''keys'', ''rows''] m \<and>
    member m ''v'' = cint ANCHOR_LEDGER_FORMAT_VERSION \<and> member m ''generatedAt'' = cint (ldGeneratedAt d) \<and>
    member m ''keys'' = CArr (map CBytes (ldKeys d)) \<and>
    (\<exists>listed. member m ''rows'' = CArr (map CMap listed) \<and> list_all2 rowReads listed (ldRows d))"

lemma mapE_readKey: "mapE readKey vs = Inr keys \<longleftrightarrow> vs = map CBytes keys \<and> (\<forall>k \<in> set keys. length k = 32)"
  by (induction vs arbitrary: keys) (auto simp: bindE_Inr readKey_Inr)

lemma mapE_readRow:
  "mapE (\<lambda>entry. bindE (mapAt entry) (readRow env embedded shipped)) vs = Inr rows \<longleftrightarrow>
    (\<exists>listed. vs = map CMap listed \<and> list_all2 rowReads listed rows) \<and> list_all (rowHeld env embedded shipped) rows"
proof -
  have "list_all2 (\<lambda>v row. \<exists>m. v = CMap m \<and> rowReads m row \<and> rowHeld env embedded shipped row) vs rows \<longleftrightarrow>
      (\<exists>listed. vs = map CMap listed \<and> list_all2 rowReads listed rows) \<and> list_all (rowHeld env embedded shipped) rows" (is "?a \<longleftrightarrow> ?b")
  proof
    assume ?a
    then show ?b
    proof (induction rule: list_all2_induct)
      case (Cons v vs row rows)
      then obtain m listed where "v = CMap m" "rowReads m row" "rowHeld env embedded shipped row" "vs = map CMap listed"
          "list_all2 rowReads listed rows" "list_all (rowHeld env embedded shipped) rows"
        by blast
      then show ?case by (intro conjI exI [of _ "m # listed"]) simp_all
    qed simp
  next
    assume ?b
    then obtain listed where l: "vs = map CMap listed" "list_all2 rowReads listed rows" "list_all (rowHeld env embedded shipped) rows" by blast
    from l(2,3) have "list_all2 (\<lambda>m row. rowReads m row \<and> rowHeld env embedded shipped row) listed rows"
      by (induction rule: list_all2_induct) simp_all
    then show ?a by (simp add: l(1) list_all2_map1)
  qed
  then show ?thesis by (simp add: mapE_Inr_iff bindE_Inr mapAt_Inr readRow_Inr)
qed

lemma parseAnchorLedger_Inr:
  "parseAnchorLedger env embedded shipped body = Inr d \<longleftrightarrow>
    (\<exists>m. cdDecodeNoFloats (reCodec env) body = Some (CMap m) \<and> documentReads m d) \<and> documentHeld env embedded shipped d"
  (is "?l \<longleftrightarrow> ?r")
proof
  assume ?l
  then obtain m listed where "cdDecodeNoFloats (reCodec env) body = Some (CMap m)"
      "closedTo ANCHOR_LEDGER_DOCUMENT_MEMBERS [''v'', ''generatedAt'', ''keys'', ''rows''] m" "member m ''v'' = cint ANCHOR_LEDGER_FORMAT_VERSION"
      "member m ''generatedAt'' = cint (ldGeneratedAt d)" "ledgerInstant (ldGeneratedAt d)"
      "member m ''keys'' = CArr (map CBytes (ldKeys d))" "map CBytes (ldKeys d) \<noteq> []" "\<forall>k \<in> set (ldKeys d). length k = 32"
      "member m ''rows'' = CArr (map CMap listed)" "map CMap listed \<noteq> []" "list_all2 rowReads listed (ldRows d)"
      "list_all (rowHeld env embedded shipped) (ldRows d)"
    unfolding parseAnchorLedger_def bindE_Inr failIf_simps decodeBody_Inr mapAt_Inr arrayAt_Inr memberAt_Inr assertClosedMembers_Inr
      integerAt_Inr readInstant_Inr mapE_readKey mapE_readRow
    by (auto; blast)
  then show ?r unfolding documentReads_def documentHeld_def by auto
next
  assume ?r
  then obtain m listed where m: "cdDecodeNoFloats (reCodec env) body = Some (CMap m)" "documentReads m d" "documentHeld env embedded shipped d"
      "member m ''rows'' = CArr (map CMap listed)" "list_all2 rowReads listed (ldRows d)"
    unfolding documentReads_def by auto
  have "decodeBody env body = Inr (CMap m)" "memberAt m ''keys'' = Inr (CArr (map CBytes (ldKeys d)))"
      "memberAt m ''rows'' = Inr (CArr (map CMap listed))" "mapE readKey (map CBytes (ldKeys d)) = Inr (ldKeys d)"
      "mapE (\<lambda>entry. bindE (mapAt entry) (readRow env embedded shipped)) (map CMap listed) = Inr (ldRows d)"
      "assertClosedMembers m ANCHOR_LEDGER_DOCUMENT_MEMBERS [''v'', ''generatedAt'', ''keys'', ''rows''] = Inr ()"
      "integerAt m ''v'' = Inr ANCHOR_LEDGER_FORMAT_VERSION" "readInstant m ''generatedAt'' = Inr (ldGeneratedAt d)"
      "mapAt (CMap m) = Inr m" "arrayAt (CArr vs) = Inr vs" for vs
    using m by (auto simp: ledger_simps documentReads_def documentHeld_def mapE_readKey mapE_readRow)
  moreover have "listed \<noteq> []" "ldKeys d \<noteq> []" using m by (auto simp: documentHeld_def)
  ultimately show ?l by (simp add: parseAnchorLedger_def bindE_failIf)
qed

subsection \<open>Reading a body that was written\<close>

lemma hasMember_canon [simp]: "hasMember (canonEntries m) n = hasMember m n"
  by (simp add: hasMember_def keys_canonEntries)

lemma closedTo_canon [simp]: "closedTo declared required (canonEntries m) = closedTo declared required m"
  by (simp add: closedTo_def keys_canonEntries)

lemma hasMember_Nil [simp]: "\<not> hasMember [] n"
  by (simp add: hasMember_def)

lemma hasMember_Cons [simp]: "hasMember ((ctext k, v) # m) n \<longleftrightarrow> n = k \<or> hasMember m n"
  by (auto simp: hasMember_def)

lemma rowToCbor_cases:
  assumes "certificateOf row c"
  shows "rowToCbor row = [(ctext ''family'', CText (lrFamily row)), (ctext ''file'', CText (lrFile row)), (ctext ''digest'', CBytes (lrDigest row))] @
    (case c of None \<Rightarrow> [] | Some (subject, serial, spki, from, to) \<Rightarrow> [(ctext ''subject'', CBytes subject), (ctext ''serial'', CBytes serial),
      (ctext ''spki'', CBytes spki), (ctext ''validity'', CMap [(ctext ''from'', cint from), (ctext ''to'', cint to)])]) @
    [(ctext ''origin'', CText (lrOrigin row)), (ctext ''takenAt'', cint (lrTakenAt row)), (ctext ''licence'', CText (lrLicence row))] @
    (case lrLicenceNote row of None \<Rightarrow> [] | Some s \<Rightarrow> [(ctext ''licenceNote'', CText s)])"
  using assms by (auto simp: rowToCbor_def optionalEntry_def certificateOf_def split: option.split)

lemma distinct_row: "distinct (map fst (rowToCbor row))"
  by (simp add: rowToCbor_def optionalEntry_def split: option.split)

lemma row_reads_back:
  assumes "certificateOf row c"
  shows "rowReads (canonEntries (rowToCbor row)) row"
proof -
  define m where "m = rowToCbor row"
  have at: "member (canonEntries m) n = canon (member m n)" for n
    unfolding m_def by (rule member_canonEntries [OF distinct_row])
  note shape = rowToCbor_cases [OF assms, folded m_def]
  have reads: "certificateReads (canonEntries m) d" if "c = Some d" for d
    using that unfolding certificateReads_def at
    by (cases d) (simp add: shape canon_CMap closedTo_def ANCHOR_LEDGER_VALIDITY_MEMBERS_def
      member_canonEntries keys_canonEntries del: canon.simps(2))
  have "closedTo ANCHOR_LEDGER_ROW_MEMBERS [''family'', ''file'', ''digest'', ''origin'', ''takenAt'', ''licence''] m"
    by (auto simp: closedTo_def shape ANCHOR_LEDGER_ROW_MEMBERS_def hasMember_def split: option.splits)
  moreover have "case c of None \<Rightarrow> \<forall>n \<in> set ANCHOR_LEDGER_CERTIFICATE_MEMBERS. \<not> hasMember m n
      | Some d \<Rightarrow> (\<forall>n \<in> set ANCHOR_LEDGER_CERTIFICATE_MEMBERS. hasMember m n) \<and> certificateReads (canonEntries m) d"
    using reads by (cases c) (auto simp: shape ANCHOR_LEDGER_CERTIFICATE_MEMBERS_def split: option.splits)
  moreover have "case lrLicenceNote row of None \<Rightarrow> \<not> hasMember m ''licenceNote''
      | Some s \<Rightarrow> hasMember m ''licenceNote'' \<and> member m ''licenceNote'' = CText s"
    by (cases c) (auto simp: shape hasMember_def member_def cget_def split: option.split)
  then have "case lrLicenceNote row of None \<Rightarrow> \<not> hasMember m ''licenceNote''
      | Some s \<Rightarrow> hasMember m ''licenceNote'' \<and> canon (member m ''licenceNote'') = CText s"
    by (auto split: option.splits)
  moreover have "member m ''family'' = CText (lrFamily row)" "member m ''file'' = CText (lrFile row)" "member m ''digest'' = CBytes (lrDigest row)"
      "member m ''origin'' = CText (lrOrigin row)" "member m ''takenAt'' = cint (lrTakenAt row)" "member m ''licence'' = CText (lrLicence row)"
    by (cases c; simp add: shape split: prod.split)+
  ultimately show ?thesis
    unfolding m_def [symmetric] rowReads_def at closedTo_canon hasMember_canon using assms
    by (intro conjI exI [of _ c]) simp_all
qed

definition ledgerTexts :: "ledger_row \<Rightarrow> jsstr list" where
  "ledgerTexts row = lrFile row # lrOrigin row # (case lrLicenceNote row of None \<Rightarrow> [] | Some s \<Rightarrow> [s])"

text \<open>The documents a caller can hand the writer: texts and sizes the format holds, and times a double holds.\<close>

definition rowWritable :: "ledger_row \<Rightarrow> bool" where
  "rowWritable row \<longleftrightarrow> list_all storable (ledgerTexts row) \<and>
    pred_option (\<lambda>b. length b < 2 ^ 32) (lrSubject row) \<and> pred_option (\<lambda>b. length b < 2 ^ 32) (lrSerial row) \<and>
    pred_option (\<lambda>(from, to). to \<le> MAX_SAFE_INTEGER) (lrValidity row)"

definition ledgerWritable :: "ledger_document \<Rightarrow> bool" where
  "ledgerWritable d \<longleftrightarrow> length (ldKeys d) < 2 ^ 32 \<and> length (ldRows d) < 2 ^ 32 \<and> list_all rowWritable (ldRows d)"

lemma document_reads_back:
  assumes "documentHeld env embedded shipped d"
  shows "documentReads (canonEntries (ledgerEntries d)) d"
proof -
  have "rowReads (canonEntries (rowToCbor row)) row" if "row \<in> set (ldRows d)" for row
    using assms that row_reads_back unfolding documentHeld_def list_all_iff rowHeld_def by blast
  then have rows: "list_all2 rowReads (map (\<lambda>row. canonEntries (rowToCbor row)) (ldRows d)) (ldRows d)"
    by (simp add: list_all2_map1 list.rel_refl_strong)
  have "distinct (map fst (ledgerEntries d))" by (simp add: ledgerEntries_def)
  then have at: "member (canonEntries (ledgerEntries d)) n = canon (member (ledgerEntries d) n)" for n by (rule member_canonEntries)
  have "canon (CArr (map (\<lambda>row. CMap (rowToCbor row)) (ldRows d))) = CArr (map CMap (map (\<lambda>row. canonEntries (rowToCbor row)) (ldRows d)))"
    by (simp add: canon_CMap del: canon.simps(2))
  moreover have "canon (CArr (map CBytes (ldKeys d))) = CArr (map CBytes (ldKeys d))" by simp
  ultimately show ?thesis using rows
    unfolding documentReads_def at
    by (auto simp: ledgerEntries_def closedTo_def keys_canonEntries ANCHOR_LEDGER_DOCUMENT_MEMBERS_def ANCHOR_LEDGER_FORMAT_VERSION_def
        simp del: canon.simps(1) map_map)
qed

definition rowNamed :: "ledger_row \<Rightarrow> (bytes \<times> bytes \<times> bytes \<times> int \<times> int) option \<Rightarrow> (string \<times> cval) list" where
  "rowNamed row c = [(''family'', CText (lrFamily row)), (''file'', CText (lrFile row)), (''digest'', CBytes (lrDigest row))] @
    (case c of None \<Rightarrow> [] | Some (subject, serial, spki, from, to) \<Rightarrow> [(''subject'', CBytes subject), (''serial'', CBytes serial),
      (''spki'', CBytes spki), (''validity'', CMap [(ctext ''from'', cint from), (ctext ''to'', cint to)])]) @
    [(''origin'', CText (lrOrigin row)), (''takenAt'', cint (lrTakenAt row)), (''licence'', CText (lrLicence row))] @
    (case lrLicenceNote row of None \<Rightarrow> [] | Some s \<Rightarrow> [(''licenceNote'', CText s)])"

lemma rowToCbor_named: "certificateOf row c \<Longrightarrow> rowToCbor row = map (\<lambda>(n, v). (ctext n, v)) (rowNamed row c)"
  unfolding rowToCbor_cases rowNamed_def by (auto split: option.splits)

lemma vocabulary_storable: "s \<in> set ANCHOR_FAMILIES \<union> set ANCHOR_LICENCE_CLASSES \<Longrightarrow> storable s"
  by (auto simp: ANCHOR_FAMILIES_def ANCHOR_LICENCE_CLASSES_def asciiStr_def intro!: storable_js)

lemma plain_instant: "ledgerInstant t \<Longrightarrow> plain d (cint t)"
  by (simp add: ledgerInstant_def ANCHOR_LEDGER_EARLIEST_SECONDS_def ANCHOR_LEDGER_LATEST_SECONDS_def MAX_SAFE_INTEGER_def)

lemma plain_row:
  assumes "1 < d" and "rowHeld env embedded shipped row" and "rowWritable row"
  shows "plain d (CMap (rowToCbor row))"
proof -
  obtain bs c where c: "certificateOf row c" "pred_option (certificateHeld env bs) c" using assms(2) unfolding rowHeld_def by blast
  have texts: "plain (d - 1) (CText s)" if "s \<in> {lrFamily row, lrFile row, lrOrigin row, lrLicence row} \<union> set_option (lrLicenceNote row)" for s
    using assms(2,3) that vocabulary_storable
    by (intro plain_storable) (auto simp: rowWritable_def rowHeld_def ledgerTexts_def list_all_iff split: option.splits)
  have certificate: "list_all (\<lambda>(n, v). asciiStr n \<and> length n < 2 ^ 32 \<and> plain (d - 1) v) (case c of None \<Rightarrow> [] | Some (subject, serial, spki, from, to) \<Rightarrow>
      [(''subject'', CBytes subject), (''serial'', CBytes serial), (''spki'', CBytes spki),
       (''validity'', CMap [(ctext ''from'', cint from), (ctext ''to'', cint to)])])"
  proof (cases c)
    case (Some e)
    obtain subject serial spki opens closes where e: "e = (subject, serial, spki, opens, closes)" by (cases e)
    have h: "length spki = 32" "0 \<le> opens" "opens < closes" "length subject < 2 ^ 32" "length serial < 2 ^ 32" "closes \<le> MAX_SAFE_INTEGER"
      using c assms(3) by (auto simp: Some e certificateHeld_def certificateOf_def rowWritable_def)
    have "plain (d - 1) (CMap [(ctext ''from'', cint opens), (ctext ''to'', cint closes)])"
      using plain_named [of "d - 1" "[(''from'', cint opens), (''to'', cint closes)]"] assms(1) h(2,3,6) by (simp add: asciiStr_def)
    then show ?thesis using h by (simp add: Some e asciiStr_def del: plain.simps(5))
  qed simp
  have "list_all (\<lambda>(n, v). asciiStr n \<and> length n < 2 ^ 32 \<and> plain (d - 1) v) (rowNamed row c)"
    using texts certificate assms(2) plain_instant
    by (auto simp: rowNamed_def rowHeld_def asciiStr_def simp del: plain.simps(3) split: option.split)
  moreover have "distinct (map fst (rowNamed row c))" "length (rowNamed row c) < 2 ^ 32" by (auto simp: rowNamed_def split: option.split)
  ultimately show ?thesis
    unfolding rowToCbor_named [OF c(1)] using assms(1) by (intro plain_named) simp_all
qed

lemma plain_ledger:
  assumes "documentHeld env embedded shipped d" and "ledgerWritable d"
  shows "plain 8 (CMap (ledgerEntries d))"
proof -
  have "plain 6 (CMap (rowToCbor row))" if "row \<in> set (ldRows d)" for row
    using assms that plain_row [of 6] by (auto simp: documentHeld_def ledgerWritable_def list_all_iff simp del: plain.simps)
  then have rows: "plain 7 (CArr (map (\<lambda>row. CMap (rowToCbor row)) (ldRows d)))"
    using assms(2) by (intro plain_arr) (auto simp: ledgerWritable_def simp del: plain.simps)
  have keys: "plain 7 (CArr (map CBytes (ldKeys d)))" using assms by (auto simp: documentHeld_def ledgerWritable_def)
  have "plain 7 (cint 1)" "plain 7 (cint (ldGeneratedAt d))" using assms(1) plain_instant by (simp_all add: documentHeld_def MAX_SAFE_INTEGER_def)
  then show ?thesis
    using rows keys plain_named [of 8 "[(''v'', cint 1), (''generatedAt'', cint (ldGeneratedAt d)), (''keys'', CArr (map CBytes (ldKeys d))),
      (''rows'', CArr (map (\<lambda>row. CMap (rowToCbor row)) (ldRows d)))]"]
    by (simp add: ledgerEntries_def asciiStr_def del: plain.simps)
qed

lemma body_reads_back:
  assumes "lawful (reCodec env)" and "documentHeld env embedded shipped d" and "ledgerWritable d"
  shows "parseAnchorLedger env embedded shipped (encodeAnchorLedger env d) = Inr d"
  unfolding parseAnchorLedger_Inr
  using lawfulD(3) [OF assms(1) plain_ledger [OF assms(2,3)]] document_reads_back [OF assms(2)] assms(2)
  by (auto simp: encodeAnchorLedger_def encodeCanonical_def canon_CMap simp del: canon.simps plain.simps)

subsection \<open>Opening a ledger\<close>

definition shippedOf :: "ledger_options \<Rightarrow> jsstr \<rightharpoonup> bytes" where
  "shippedOf opts = (case loShipped opts of None \<Rightarrow> (\<lambda>_. None) | Some m \<Rightarrow> m)"

definition pinned :: "receipt_env \<Rightarrow> ledger_options \<Rightarrow> bytes \<Rightarrow> bytes \<Rightarrow> bool" where
  "pinned env opts kid pk \<longleftrightarrow>
    (\<exists>pins. loTrustedKeys opts = Some pins \<and> find (\<lambda>k. length k = 32 \<and> reSha256 env k = kid) pins = Some pk)"

lemma pinned_in: "pinned env opts kid pk \<Longrightarrow>
    \<exists>pins. loTrustedKeys opts = Some pins \<and> pk \<in> set pins \<and> length pk = 32 \<and> reSha256 env pk = kid"
  by (auto simp: pinned_def find_Some_iff)

lemma framingRefusal_Inr: "framingRefusal r = Inr x \<longleftrightarrow> r = Inr x"
  by (auto simp: framingRefusal_def split: sum.splits failure.splits option.splits)

lemma readSealed_Inr:
  "readSealed env bs = Inr r \<longleftrightarrow> bs \<noteq> [] \<and> decodeCoseSign1 env bs ANCHOR_LEDGER_CONTENT_TYPE = Inr r"
  by (simp add: readSealed_def framingRefusal_Inr)

lemma verifySealed_Inr:
  "verifySealed env bs pk = Inr (co, h) \<longleftrightarrow>
    decodeCoseSign1 env bs ANCHOR_LEDGER_CONTENT_TYPE = Inr (co, h) \<and> phKid h = keyId env pk \<and> sealedBy env co pk"
  by (simp add: verifySealed_def framingRefusal_Inr verifyCoseSign1_Inr sealedBy_def)

lemma findCase_Inr: "(case find P xs of None \<Rightarrow> Inl e | Some y \<Rightarrow> f y) = Inr v \<longleftrightarrow> (\<exists>y. find P xs = Some y \<and> f y = Inr v)"
  by (cases "find P xs") simp_all

lemma verifyAnchorLedger_Inr:
  "verifyAnchorLedger env embedded bs opts = Inr v \<longleftrightarrow>
    (\<exists>co h pk. bs \<noteq> [] \<and> decodeCoseSign1 env bs ANCHOR_LEDGER_CONTENT_TYPE = Inr (co, h) \<and> pinned env opts (phKid h) pk \<and>
      sealedBy env co pk \<and> parseAnchorLedger env embedded (shippedOf opts) (coPayload co) = Inr (vlDocument v) \<and>
      phKid h \<in> set (ldKeys (vlDocument v)) \<and>
      v = \<lparr>vlDocument = vlDocument v, vlKid = phKid h, vlProtected = coProtected co, vlPayload = coPayload co, vlSignature = coSignature co\<rparr>)"
  (is "?l \<longleftrightarrow> ?r")
proof -
  let ?pins = "case loTrustedKeys opts of None \<Rightarrow> [] | Some ks \<Rightarrow> ks"
  have p: "?pins \<noteq> [] \<and> find (\<lambda>k. length k = 32 \<and> reSha256 env k = kid) ?pins = Some pk \<longleftrightarrow> pinned env opts kid pk" for kid pk
    by (auto simp: pinned_def split: option.splits)
  have found: "find (\<lambda>k. length k = 32 \<and> reSha256 env k = kid) ?pins = Some pk \<Longrightarrow> kid = reSha256 env pk" for kid pk
    by (auto simp: find_Some_iff)
  have "?l \<longleftrightarrow> ?pins \<noteq> [] \<and> (\<exists>co h pk d. bs \<noteq> [] \<and> decodeCoseSign1 env bs ANCHOR_LEDGER_CONTENT_TYPE = Inr (co, h) \<and>
      find (\<lambda>k. length k = 32 \<and> reSha256 env k = phKid h) ?pins = Some pk \<and> phKid h = keyId env pk \<and> sealedBy env co pk \<and>
      parseAnchorLedger env embedded (shippedOf opts) (coPayload co) = Inr d \<and> phKid h \<in> set (ldKeys d) \<and>
      v = \<lparr>vlDocument = d, vlKid = phKid h, vlProtected = coProtected co, vlPayload = coPayload co, vlSignature = coSignature co\<rparr>)"
    unfolding verifyAnchorLedger_def Let_def shippedOf_def [symmetric] bindE_Inr failIf_simps readSealed_Inr keyId_def sameBytes_iff
      split_paired_Ex prod.case findCase_Inr verifySealed_Inr list_ex_iff
    by fastforce
  also have "\<dots> \<longleftrightarrow> ?r"
  proof -
    define named where "named kid pk \<longleftrightarrow> find (\<lambda>k. length k = 32 \<and> reSha256 env k = kid) ?pins = Some pk" for kid pk
    have "named kid pk \<Longrightarrow> kid = reSha256 env pk" for kid pk using found unfolding named_def by blast
    then show ?thesis unfolding p [symmetric] keyId_def named_def [symmetric] by (cases v) (auto; blast)
  qed
  finally show ?thesis .
qed

text \<open>
  C19 What a verified ledger establishes: the caller handed over the 32-byte key whose digest is the kid, that
  key verifies the signature over exactly the header and body bytes, and the body names the kid among its keys.
  The document is the reading of those bytes in the closed layout, and every row is held by the bytes it
  names: they are an embedded anchor, or a tracked file the caller handed over, their digest is the one the
  row states, and a row with certificate members names bytes that hold one certificate with that key digest.
\<close>

theorem verifyAnchorLedger_sound:
  assumes "verifyAnchorLedger env embedded bs opts = Inr v"
  shows "\<exists>pins pk. loTrustedKeys opts = Some pins \<and> pk \<in> set pins \<and> length pk = 32 \<and> vlKid v = reSha256 env pk \<and>
    parseProtectedHeader env (vlProtected v) ANCHOR_LEDGER_CONTENT_TYPE =
      Inr \<lparr>phAlg = ALG_EDDSA, phKid = vlKid v, phContentType = ANCHOR_LEDGER_CONTENT_TYPE\<rparr> \<and>
    reVerify env (vlSignature v) (sigStructure env (vlProtected v) [] (vlPayload v)) pk = Some True \<and>
    (\<exists>m. cdDecodeNoFloats (reCodec env) (vlPayload v) = Some (CMap m) \<and> documentReads m (vlDocument v)) \<and>
    vlKid v \<in> set (ldKeys (vlDocument v)) \<and> documentHeld env embedded (shippedOf opts) (vlDocument v)"
proof -
  obtain co h pk where k: "decodeCoseSign1 env bs ANCHOR_LEDGER_CONTENT_TYPE = Inr (co, h)" "pinned env opts (phKid h) pk"
      "sealedBy env co pk" "parseAnchorLedger env embedded (shippedOf opts) (coPayload co) = Inr (vlDocument v)"
      "phKid h \<in> set (ldKeys (vlDocument v))"
    and v: "vlKid v = phKid h" "vlProtected v = coProtected co" "vlPayload v = coPayload co" "vlSignature v = coSignature co"
    using assms unfolding verifyAnchorLedger_Inr by (metis verified_ledger.select_convs(2-5))
  have "parseProtectedHeader env (coProtected co) ANCHOR_LEDGER_CONTENT_TYPE =
      Inr \<lparr>phAlg = ALG_EDDSA, phKid = phKid h, phContentType = ANCHOR_LEDGER_CONTENT_TYPE\<rparr>"
    using k(1) unfolding decodeCoseSign1_Inr parseProtectedHeader_Inr by auto
  then show ?thesis
    using pinned_in [OF k(2)] k(3,4,5) unfolding v parseAnchorLedger_Inr sealedBy_def by metis
qed

lemma sealed_nonempty:
  assumes law: "lawful (reCodec env)" and "workingKey env key" and ct: "ascii ct" "length ct < 2 ^ 16" and pl: "length pl < 2 ^ 32"
    and bs: "signCoseSign1 env pl key [] ct = Inr bs"
  shows "bs \<noteq> []"
proof -
  define ph where "ph = buildProtectedHeader env (skKid key) ct"
  have ph: "length ph < 2 ^ 32" using assms(2) length_header [OF law _ ct] unfolding ph_def workingKey_def by blast
  obtain s where s: "signEd25519 env (sigStructure env ph [] pl) (skPrivateKey key) = Inr s" "length s = 64"
    using assms(2) unfolding workingKey_def by blast
  have "plain 8 (envelopeValue ph pl s [])" using ph pl s(2) by (simp add: envelopeValue_def label_defs)
  then have "bs = cborEnc (envelopeValue ph pl s [])"
    using bs s(1) lawfulD(1) [OF law] by (simp add: signCoseSign1_def ph_def [symmetric] sealCoseSign1_def encodeCanonical_def envelopeValue_def)
  then show ?thesis by (simp add: envelopeValue_def cborHead_def)
qed

lemma content_type_ledger: "ascii ANCHOR_LEDGER_CONTENT_TYPE" "length ANCHOR_LEDGER_CONTENT_TYPE < 2 ^ 16"
  unfolding ANCHOR_LEDGER_CONTENT_TYPE_def ANCHOR_PROVENANCE_CONTENT_TYPE_def by (rule ascii_js) (simp_all add: asciiStr_def js_def)

lemma sealed_ledger_verifies:
  assumes law: "lawful (reCodec env)" and key: "signingKeyFromSeed env seed = Inr key" "workingKey env key"
    and d: "documentHeld env embedded (shippedOf opts) d" "ledgerWritable d" "length (cborEnc (CMap (ledgerEntries d))) < 2 ^ 32"
    and pin: "pinned env opts (skKid key) (skPublicKey key)" and kid: "skKid key \<in> set (ldKeys d)"
  shows "\<exists>bs v. sealAnchorLedger env (encodeAnchorLedger env d) seed [] = Inr (bs, skKid key) \<and>
    verifyAnchorLedger env embedded bs opts = Inr v \<and> vlDocument v = d \<and> vlKid v = skKid key"
proof -
  define pl where "pl = encodeAnchorLedger env d"
  have pl: "length pl < 2 ^ 32" "parseAnchorLedger env embedded (shippedOf opts) pl = Inr d"
    using d(3) lawfulD(1) [OF law plain_ledger [OF d(1,2)]] body_reads_back [OF law d(1,2)]
    by (simp_all add: pl_def encodeAnchorLedger_def encodeCanonical_def del: cborEnc.simps)
  obtain bs co where bs: "signCoseSign1 env pl key [] ANCHOR_LEDGER_CONTENT_TYPE = Inr bs"
      "decodeCoseSign1 env bs ANCHOR_LEDGER_CONTENT_TYPE =
        Inr (co, \<lparr>phAlg = ALG_EDDSA, phKid = skKid key, phContentType = ANCHOR_LEDGER_CONTENT_TYPE\<rparr>)"
      "coPayload co = pl" "sealedBy env co (skPublicKey key)"
    using sealed_opens [OF law key(2) content_type_ledger pl(1)] by blast
  have "sealAnchorLedger env pl seed [] = Inr (bs, skKid key)" using key(1) bs(1) by (simp add: sealAnchorLedger_def)
  moreover have "verifyAnchorLedger env embedded bs opts = Inr \<lparr>vlDocument = d, vlKid = skKid key, vlProtected = coProtected co,
      vlPayload = coPayload co, vlSignature = coSignature co\<rparr>"
    unfolding verifyAnchorLedger_Inr
    using bs(2-4) pl(2) pin kid sealed_nonempty [OF law key(2) content_type_ledger pl(1) bs(1)] by auto
  ultimately show ?thesis by (auto simp: pl_def)
qed

text \<open>
  C20 A ledger that was sealed verifies. For a document every row of which the bytes hold, and a seed whose key
  works, the sealed body opens for every reader that pins the key and finds its kid among the keys of the
  document, and reads back exactly the document. So whatever subject, serial number and validity a row states
  for its certificate, so long as they are not empty and in order, the ledger verifies.
\<close>

theorem ledger_roundtrip:
  assumes "lawful (reCodec env)" and "signingKeyFromSeed env seed = Inr key" and "workingKey env key"
    and "documentHeld env embedded (shippedOf opts) d" and "ledgerWritable d" and "length (cborEnc (CMap (ledgerEntries d))) < 2 ^ 32"
    and "pinned env opts (skKid key) (skPublicKey key)" and "skKid key \<in> set (ldKeys d)"
  shows "\<exists>bs v. sealAnchorLedger env (encodeAnchorLedger env d) seed [] = Inr (bs, skKid key) \<and>
    verifyAnchorLedger env embedded bs opts = Inr v \<and> vlDocument v = d \<and> vlKid v = skKid key"
  by (rule sealed_ledger_verifies [OF assms])

text \<open>What the bytes do not decide: another subject, serial number and validity are held by them just as well.\<close>

lemma rowHeld_relabelled:
  assumes "rowHeld env embedded shipped row" and "lrSpki row = Some spki" and "subject \<noteq> []" "serial \<noteq> []" "0 \<le> opens" "opens < closes"
  shows "rowHeld env embedded shipped (row\<lparr>lrSubject := Some subject, lrSerial := Some serial, lrValidity := Some (opens, closes)\<rparr>)"
proof -
  obtain bs c where c: "resolves embedded shipped (lrFile row) bs" "lrDigest row = reSha256 env bs" "certificateOf row c"
      "pred_option (certificateHeld env bs) c"
    using assms(1) unfolding rowHeld_def by blast
  let ?row = "row\<lparr>lrSubject := Some subject, lrSerial := Some serial, lrValidity := Some (opens, closes)\<rparr>"
  have "certificateHeld env bs (subject, serial, spki, opens, closes)" using c(3,4) assms(2-)
    by (cases c) (auto simp: certificateOf_def certificateHeld_def)
  moreover have "certificateOf ?row (Some (subject, serial, spki, opens, closes))" using assms(2) by (simp add: certificateOf_def)
  ultimately have "\<exists>bs c. resolves embedded shipped (lrFile ?row) bs \<and> lrDigest ?row = reSha256 env bs \<and> certificateOf ?row c \<and>
      pred_option (certificateHeld env bs) c"
    using c(1,2) by (intro exI [of _ bs] exI [of _ "Some (subject, serial, spki, opens, closes)"]) simp
  then show ?thesis using assms(1) unfolding rowHeld_def by simp
qed

subsection \<open>An example ledger\<close>

text \<open>One row, of a tracked quote whose bytes the caller holds, and one embedded anchor that no row names.\<close>

definition sampleFile :: jsstr where "sampleFile = js ''test/fixtures/tdx-quote-v4.bin''"

definition sampleShipped :: "jsstr \<rightharpoonup> bytes" where "sampleShipped = [sampleFile \<mapsto> [4, 0]]"

definition sampleEmbedded :: "jsstr \<rightharpoonup> bytes" where
  "sampleEmbedded = [js ''src/trust-anchors.ts#INTEL_SGX_ROOT_CA_PEM'' \<mapsto> [5]]"

definition sampleRow :: ledger_row where
  "sampleRow = \<lparr>lrFamily = js ''intel'', lrFile = sampleFile, lrDigest = toyHash [4, 0], lrSubject = None, lrSerial = None,
    lrSpki = None, lrValidity = None, lrOrigin = js ''https://example.com/quote'', lrTakenAt = 1700000000, lrLicence = js ''apache-2.0'',
    lrLicenceNote = Some (js ''LICENCE'')\<rparr>"

definition sampleLedger :: ledger_document where
  "sampleLedger = \<lparr>ldGeneratedAt = 1700000001, ldKeys = [toyHash (replicate 32 7)], ldRows = [sampleRow]\<rparr>"

definition samplePins :: ledger_options where
  "samplePins = \<lparr>loTrustedKeys = Some [replicate 32 8, replicate 32 7], loShipped = Some sampleShipped\<rparr>"

lemma toyKey_seeded: "signingKeyFromSeed toyEnv (replicate 32 7) = Inr toyKey"
  by (simp add: signingKeyFromSeed_def toyKey_def toyEnv_def keyId_def Let_def)

lemma sample_texts: "list_all textOkay [sampleFile, js ''https://example.com/quote'', js ''LICENCE'']"
  unfolding sampleFile_def by (simp, intro conjI textOkay_printing) (simp_all add: js_def)

lemma textOkay_clean: "textOkay s \<Longrightarrow> s \<noteq> [] \<Longrightarrow> cleanText s \<and> storable s"
  by (simp add: textOkay_def cleanText_def storable_def)

lemma sampleLedger_held: "documentHeld toyEnv sampleEmbedded (shippedOf samplePins) sampleLedger"
proof -
  have r: "resolves sampleEmbedded sampleShipped sampleFile [4, 0]"
    by (simp add: resolves_def sampleEmbedded_def sampleShipped_def sampleFile_def ANCHOR_LEDGER_FILES_def TRACKED_FIXTURE_FILES_def js_def)
  have "lrDigest sampleRow = reSha256 toyEnv [4, 0]" by (simp add: sampleRow_def toyEnv_def)
  moreover have "certificateOf sampleRow None" by (simp add: certificateOf_def sampleRow_def)
  ultimately have "\<exists>bs c. resolves sampleEmbedded sampleShipped (lrFile sampleRow) bs \<and> lrDigest sampleRow = reSha256 toyEnv bs \<and>
      certificateOf sampleRow c \<and> pred_option (certificateHeld toyEnv bs) c"
    using r by (intro exI [of _ "[4, 0]"] exI [of _ None]) (simp add: sampleRow_def)
  moreover have "cleanText sampleFile" "cleanText (js ''https://example.com/quote'')" "cleanText (js ''LICENCE'')"
    using sample_texts textOkay_clean by (auto simp: sampleFile_def js_def)
  moreover have "length (lrDigest sampleRow) = 32" by (simp add: sampleRow_def)
  ultimately have "rowHeld toyEnv sampleEmbedded sampleShipped sampleRow"
    unfolding rowHeld_def by (simp add: sampleRow_def ANCHOR_FAMILIES_def ANCHOR_LICENCE_CLASSES_def ledgerInstant_def
      ANCHOR_LEDGER_EARLIEST_SECONDS_def ANCHOR_LEDGER_LATEST_SECONDS_def)
  then show ?thesis
    by (simp add: documentHeld_def sampleLedger_def shippedOf_def samplePins_def ledgerInstant_def
        ANCHOR_LEDGER_EARLIEST_SECONDS_def ANCHOR_LEDGER_LATEST_SECONDS_def)
qed

lemma sampleLedger_writable: "ledgerWritable sampleLedger"
  using sample_texts textOkay_clean
  by (auto simp: ledgerWritable_def rowWritable_def ledgerTexts_def sampleLedger_def sampleRow_def sampleFile_def js_def)

lemma sampleLedger_size: "length (cborEnc (CMap (ledgerEntries sampleLedger))) < 2 ^ 32"
proof -
  have "cborBound (CMap (ledgerEntries sampleLedger)) < 2 ^ 32"
    by (simp add: ledgerEntries_def sampleLedger_def rowToCbor_def optionalEntry_def sampleRow_def sampleFile_def asciiStr_def)
  then show ?thesis using length_cborEnc [of "CMap (ledgerEntries sampleLedger)"] by linarith
qed

lemma samplePins_name: "pinned toyEnv samplePins (skKid toyKey) (skPublicKey toyKey)" "skKid toyKey \<in> set (ldKeys sampleLedger)"
proof -
  have "toyHash (replicate 32 8) \<noteq> toyHash (replicate 32 7)" by (simp add: toyHash_def)
  then show "pinned toyEnv samplePins (skKid toyKey) (skPublicKey toyKey)"
    by (simp add: pinned_def samplePins_def toyKey_def Let_def toyEnv_def)
  show "skKid toyKey \<in> set (ldKeys sampleLedger)" by (simp add: sampleLedger_def toyKey_def Let_def)
qed

lemmas sample_ledger = lawful_toyEnv toyKey_seeded toyKey_works sampleLedger_held sampleLedger_writable sampleLedger_size samplePins_name

lemma ledger_roundtrip_witness:
  "\<exists>bs v. sealAnchorLedger toyEnv (encodeAnchorLedger toyEnv sampleLedger) (replicate 32 7) [] = Inr (bs, skKid toyKey) \<and>
    verifyAnchorLedger toyEnv sampleEmbedded bs samplePins = Inr v \<and> vlDocument v = sampleLedger \<and> vlKid v = skKid toyKey"
  by (rule ledger_roundtrip [OF sample_ledger])

lemma verifyAnchorLedger_sound_witness:
  "\<exists>bs v. verifyAnchorLedger toyEnv sampleEmbedded bs samplePins = Inr v \<and> vlDocument v = sampleLedger \<and>
    vlKid v \<in> set (ldKeys (vlDocument v)) \<and> documentHeld toyEnv sampleEmbedded (shippedOf samplePins) (vlDocument v)"
proof -
  obtain bs v where v: "verifyAnchorLedger toyEnv sampleEmbedded bs samplePins = Inr v" "vlDocument v = sampleLedger"
    using sealed_ledger_verifies [OF sample_ledger] by blast
  show ?thesis using v verifyAnchorLedger_sound [OF v(1)] by blast
qed

end
