(* ===== verification/Spec2Isabelle.thy ===== *)
theory Spec2Isabelle
  imports Verify RsaPss StrictEd25519 RateLimit ClientGateway ReceiptSpec PackSpec Redaction TimeSource AnchorLedger
begin

text \<open>
  Ashaveri: verification of the attestation core, the receipt family and the admission of the gateway.

  The program. A confidential-computing node hands a client an attestation: bytes in one of two wire
  formats, holding the platform's hardware evidence and the runtime events of the guest. The client checks it
  offline against pinned vendor roots. The gateway in front of the node admits requests by credential, and
  issues for each answer a receipt: a CBOR payload sealed in COSE_Sign1. Receipts are gathered into packs,
  which link them by digests; a redaction takes records out of a pack; a ledger states where the pinned roots
  came from. Every failure is an error code, and an error of the model is that code without its prose.

  \<^bold>\<open>Shared\<close>
  \<^item> Prelude: bytes as 8-bit words, the error monad (\<open>bindE\<close> on \<open>'e + 'a\<close>), slices, numbers of byte strings.
  \<^item> JsText, JsValue, JsOps: strings as UTF-16 code units, TextEncoder and TextDecoder, hex; the values the
    MessagePack and JSON readers build; \<open>trim\<close>, \<open>split\<close>, numerals. Positional: fixed-width numbers.

  \<^bold>\<open>packages/attest-core\<close>
  \<^item> AttestTypes: types.ts, errors.ts, and the record \<open>noble\<close> of the hash and curve functions of @noble.
  \<^item> Reader, Scale, Msgpack: the two byte readers (scale.ts, msgpack.ts), with the locales \<open>reader_op\<close> and
    \<open>item_reader\<close> that state what a read keeps and consumes, interpreted on every reader.
  \<^item> Decode: decode.ts, both envelopes, with reference encoders and the round trips.
  \<^item> Events: events.ts, preimages, the RTMR3 replay and the check of the event log.
  \<^item> RsaPss, Der, DerSpec, Pem: rsa-pss.ts and der.ts; the signature check against RFC 8017 spelled
    from its own primitives, the X.509 reader
    against a reference encoding of certificates, and the inputs the reader takes for something they are not.
  \<^item> Json, SevSnp, Tdx, Nvidia: JSON.parse and the three hardware checks (sev-snp.ts, tdx.ts, tdx-dcap.ts,
    nvidia.ts). Chain, Hardware: what an accepted chain and an accepted quote establish; the locale
    \<open>anchored_walk\<close> is the contract of a chain walk, interpreted on both walks.
  \<^item> Verify: verify.ts, the entry point over all of them, and the bindings read off its result.
  \<^item> AnchorLedger: anchor-ledger.ts, the ledger written and read, its rows against the bytes they name, its
    envelope under a pinned key; what a verified ledger establishes, and the round trip.

  \<^bold>\<open>packages/receipt\<close>
  \<^item> ReceiptErrors, Base64Url, Pop, StrictEd25519: errors.ts, b64.ts, pop.ts and strict-ed25519.ts.
  \<^item> Cbor, CborRef, Cose: cbor.ts, signing.ts and cose.ts. The library cbor2 is the field \<open>reCodec\<close> of
    \<open>receipt_env\<close>, \<open>lawful\<close> states that it implements the Core Deterministic Encoding of RFC 8949 on the values
    the formats write, and CborRef builds a codec for which that is proved.
  \<^item> Receipt, ReceiptSpec: receipt.ts, disclosure.ts and line-text.ts, both versions of the payload; the shape
    and the members of a payload that was read, what verification establishes, and the round trip from issue to verify.
  \<^item> RecordChain, Pack, PackSpec: pack.ts and provenance.ts. \<open>record_chain\<close> is the locale of runs of records linked
    by digests, interpreted on the frames of a pack; the walk is characterised, a head commits to its records,
    and a signed pack verifies.
  \<^item> Redaction: redaction.ts, on the same locale.

  \<^bold>\<open>gateway and packages/sdk\<close>
  \<^item> Doubles, Buckets, RateLimit: the replay set and the rate limiter of gateway/src/access.ts, the limiter in
    rounded doubles. Locales \<open>replay_guard\<close>, \<open>replay_config\<close>, \<open>rate_limiter\<close> and \<open>credential_limit\<close> state what each
    promises, and are interpreted on the two classes with the constants of the source.
  \<^item> Credentials, Routes, Access: the credential file, the route table and the credential store of access.ts.
    AccessSpec, AccessRuns, AccessReplay: what one admission establishes and discloses, the store under any
    interleaving of requests and reloads, and that a captured proof of possession is refused ever after.
  \<^item> ClientAuth, ClientGateway: auth.ts and b64.ts of the SDK, and the client and the gateway together.
  \<^item> TimeSource: gateway/src/time-source-state.ts, the handle as a state machine over readings of two clocks.

  Parameters. Hashes, curves and signatures (\<open>noble\<close>, \<open>receipt_env\<close>, \<open>access_env\<close>), the CBOR library, clock
  readings, random bytes, the text of files read, and the bytes a caller hands over are arguments. Where a
  collision of a hash matters the conclusion exhibits it, with one exception: \<open>replay_commits\<close> of Events assumes
  of SHA-384 that it has no collision, and not the zero register, among the strings the two replays hash.

  Fuel: \<open>readValue\<close> runs its recursion with \<open>valueFuel\<close>, two per remaining byte, proved enough by
  \<open>readValue_terminates\<close>; every other loop terminates by a measure.

  Not modelled: the texts of error messages, the pinned certificates of trust-anchors.ts (the roots are an
  argument), serializeCredentialFile, the exports, epoch inventories, retention and marking documents of the
  receipt package, the collateral package, the rest of the SDK, the server, the store and the upstreams of the
  gateway, the command line tools and the fixtures.
\<close>

end
